(* ===== verification/LG_Prelude.thy ===== *)
theory LG_Prelude
  imports Main "HOL-Library.AList" "HOL-Library.List_Lexorder" "HOL-Library.Char_ord"
begin

section \<open>Shared vocabulary: values, errors, dictionaries, decimal strings\<close>

text \<open>
  What every component of the model uses: the universe of Python values that flow through
  channels (\<open>pyval\<close>), exceptions as values (\<open>py_exc\<close>, results in the sum type
  \<open>py_exc + 'a\<close> with \<open>Inl\<close> for a raised exception), insertion-ordered dictionaries as
  association lists, the reserved names of \<open>_internal/_constants.py\<close>, and the decimal
  formatting behind \<open>f"{n:010d}"\<close>. Strings are character lists ordered lexicographically
  by code point, as Python orders \<open>str\<close>.
\<close>

named_theorems dict_simps \<open>rewriting lookups in updated dictionaries\<close>
named_theorems res_simps \<open>rewriting sequenced computations that may raise\<close>
named_theorems consts_neq \<open>the reserved names are pairwise different\<close>

subsection \<open>Values and exceptions\<close>

text \<open>
  A dictionary value has string keys and keeps insertion order. \<open>VStrSet\<close> is a Python
  \<open>set[str]\<close>; \<open>VCommand graph update resume goto\<close> a \<open>Command\<close>; \<open>VMessage type id content\<close> a LangChain
  message, of type \<open>remove\<close> when it is a \<open>RemoveMessage\<close>; \<open>VObj\<close> is an object the code only passes around.
\<close>

datatype pyval =
    VNone
  | VBool bool
  | VInt int
  | VStr string
  | VList "pyval list"
  | VTuple "pyval list"
  | VDict "(string \<times> pyval) list"
  | VStrSet "string set"
  | VSend string pyval "nat option"
  | VOverwrite pyval
  | VDeltaSnapshot pyval
  | VInterrupt pyval string
  | VExc string string
  | VCommand "string option" pyval pyval pyval
  | VMessage string "string option" pyval
  | VObj string

datatype py_exc =
    EmptyChannelError
  | InvalidUpdateError string
  | KeyError string
  | IndexError
  | ValueError string
  | TypeError string
  | RuntimeError string
  | AssertionError string
  | EmptyInputError string
  | GraphInterrupt "pyval list"
  | ParentCommandError pyval
  | UserError string

type_synonym 'a res = "py_exc + 'a"

text \<open>Truth of a value (\<open>bool(v)\<close>), and unpacking a value into two targets.\<close>

fun py_bool :: "pyval \<Rightarrow> bool" where
  "py_bool VNone = False"
| "py_bool (VBool b) = b"
| "py_bool (VInt i) = (i \<noteq> 0)"
| "py_bool (VStr s) = (s \<noteq> [])"
| "py_bool (VList xs) = (xs \<noteq> [])"
| "py_bool (VTuple xs) = (xs \<noteq> [])"
| "py_bool (VDict d) = (d \<noteq> [])"
| "py_bool (VStrSet s) = (s \<noteq> {})"
| "py_bool _ = True"

fun unpack2 :: "pyval \<Rightarrow> (pyval \<times> pyval) option" where
  "unpack2 (VTuple [a, b]) = Some (a, b)"
| "unpack2 (VList [a, b]) = Some (a, b)"
| "unpack2 _ = None"

definition rbind :: "'e + 'a \<Rightarrow> ('a \<Rightarrow> 'e + 'b) \<Rightarrow> 'e + 'b" where
  "rbind r f = (case r of Inl e \<Rightarrow> Inl e | Inr x \<Rightarrow> f x)"

definition rmap :: "('a \<Rightarrow> 'b) \<Rightarrow> 'e + 'a \<Rightarrow> 'e + 'b" where
  "rmap f r = (case r of Inl e \<Rightarrow> Inl e | Inr x \<Rightarrow> Inr (f x))"

lemma rbind_simps [simp, res_simps]:
  "rbind (Inl e) f = Inl e"
  "rbind (Inr x) f = f x"
  by (simp_all add: rbind_def)

lemma rmap_simps [simp, res_simps]:
  "rmap f (Inl e) = Inl e"
  "rmap f (Inr x) = Inr (f x)"
  by (simp_all add: rmap_def)

lemma rbind_Inr_iff [res_simps]:
  "rbind r f = Inr y \<longleftrightarrow> (\<exists>x. r = Inr x \<and> f x = Inr y)"
  by (cases r) simp_all

lemma rmap_Inr_iff [res_simps]:
  "rmap f r = Inr y \<longleftrightarrow> (\<exists>x. r = Inr x \<and> y = f x)"
  by (cases r) auto

text \<open>A loop over a list whose body may raise: the first exception ends it.\<close>

fun rfold :: "('s \<Rightarrow> 'a \<Rightarrow> 'e + 's) \<Rightarrow> 's \<Rightarrow> 'a list \<Rightarrow> 'e + 's" where
  "rfold f s [] = Inr s"
| "rfold f s (x # xs) = rbind (f s x) (\<lambda>s'. rfold f s' xs)"

lemma rfold_append:
  "rfold f s (xs @ ys) = rbind (rfold f s xs) (\<lambda>s'. rfold f s' ys)"
  by (induction xs arbitrary: s) (auto simp: rbind_def split: sum.splits)

lemma rfold_invariant:
  assumes "rfold f s xs = Inr s'" and "P s"
    and "\<And>s x s'. x \<in> set xs \<Longrightarrow> P s \<Longrightarrow> f s x = Inr s' \<Longrightarrow> P s'"
  shows "P s'"
  using assms
proof (induction xs arbitrary: s)
  case (Cons x xs)
  then obtain s1 where "f s x = Inr s1" and "rfold f s1 xs = Inr s'"
    by (auto simp: rbind_Inr_iff)
  with Cons.prems show ?case
    by (intro Cons.IH [of s1]) auto
qed simp

lemma rfold_total:
  "(\<And>s x. f s x = Inr (g s x)) \<Longrightarrow> rfold f s xs = Inr (foldl g s xs)"
  by (induction xs arbitrary: s) simp_all

text \<open>
  A loop over distinct keys whose body touches only the entry of its key: the entry of each key
  is the body's effect on the initial entry.
\<close>

lemma rfold_keywise:
  assumes "rfold f st xs = Inr st'" and "distinct (map key xs)"
    and "\<And>st x st'. f st x = Inr st' \<Longrightarrow>
      (\<forall>j. j \<noteq> key x \<longrightarrow> view st' j = view st j) \<and> g x (view st (key x)) = Inr (view st' (key x))"
  shows "(k \<notin> key ` set xs \<longrightarrow> view st' k = view st k)
    \<and> (\<forall>x \<in> set xs. key x = k \<longrightarrow> g x (view st k) = Inr (view st' k))"
  using assms(1,2)
proof (induction xs arbitrary: st)
  case (Cons x xs)
  then obtain s1 where f: "f st x = Inr s1" and r: "rfold f s1 xs = Inr st'"
    by (auto simp: rbind_Inr_iff)
  have d: "distinct (map key xs)" and x: "key x \<notin> key ` set xs"
    using Cons.prems(2) by auto
  from Cons.IH [OF r d] assms(3) [OF f] x show ?case
    by (cases "k = key x") (auto simp: image_iff)
qed simp

lemma foldl_keywise:
  assumes "distinct (map key xs)"
    and "\<And>st x. (\<forall>j. j \<noteq> key x \<longrightarrow> view (f st x) j = view st j) \<and> view (f st x) (key x) = g x (view st (key x))"
  shows "(k \<notin> key ` set xs \<longrightarrow> view (foldl f st xs) k = view st k)
    \<and> (\<forall>x \<in> set xs. key x = k \<longrightarrow> view (foldl f st xs) k = g x (view st k))"
proof -
  have r: "rfold (\<lambda>st x. Inr (f st x) :: unit + _) st xs = Inr (foldl f st xs)"
    by (rule rfold_total) (rule refl)
  have g: "\<And>st x st'. (Inr (f st x) :: unit + _) = Inr st' \<Longrightarrow>
      (\<forall>j. j \<noteq> key x \<longrightarrow> view st' j = view st j) \<and> (Inr (g x (view st (key x))) :: unit + _) = Inr (view st' (key x))"
    using assms(2) by auto
  from rfold_keywise [OF r assms(1), where view = view and g = "\<lambda>x v. Inr (g x v)", OF g, of k]
  show ?thesis by auto
qed

subsection \<open>Insertion-ordered dictionaries\<close>

text \<open>
  A \<open>dict\<close> is an association list in insertion order; \<open>d[k] = v\<close> is \<open>dset\<close>
  (in place when the key is present, at the end otherwise), \<open>d.get(k)\<close> is \<open>map_of d k\<close>,
  \<open>d.pop(k, None)\<close> is \<open>ddel\<close>.
\<close>

type_synonym ('k, 'v) dict = "('k \<times> 'v) list"

abbreviation dset :: "'k \<Rightarrow> 'v \<Rightarrow> ('k, 'v) dict \<Rightarrow> ('k, 'v) dict" where
  "dset \<equiv> AList.update"

abbreviation ddel :: "'k \<Rightarrow> ('k, 'v) dict \<Rightarrow> ('k, 'v) dict" where
  "ddel \<equiv> AList.delete"

definition dkeys :: "('k, 'v) dict \<Rightarrow> 'k list" where
  "dkeys d = map fst d"

definition dmem :: "'k \<Rightarrow> ('k, 'v) dict \<Rightarrow> bool" where
  "dmem k d = (map_of d k \<noteq> None)"

definition dgetd :: "('k, 'v) dict \<Rightarrow> 'k \<Rightarrow> 'v \<Rightarrow> 'v" where
  "dgetd d k v = (case map_of d k of None \<Rightarrow> v | Some w \<Rightarrow> w)"

definition dupd :: "('k, 'v) dict \<Rightarrow> ('k, 'v) dict \<Rightarrow> ('k, 'v) dict" where
  "dupd d new = foldl (\<lambda>acc (k, v). dset k v acc) d new"

definition dict_ok :: "('k, 'v) dict \<Rightarrow> bool" where
  "dict_ok d = distinct (map fst d)"

lemma map_of_dset [simp, dict_simps]:
  "map_of (dset k v d) k' = (if k' = k then Some v else map_of d k')"
  by (simp add: update_conv')

lemma map_of_ddel [simp, dict_simps]:
  "map_of (ddel k d) k' = (if k' = k then None else map_of d k')"
  by (simp add: delete_conv')

lemma dset_new: "k \<notin> fst ` set d \<Longrightarrow> dset k v d = d @ [(k, v)]"
  by (induction d) auto

lemma dmem_dset [simp, dict_simps]: "dmem k (dset k' v d) = (k = k' \<or> dmem k d)"
  by (simp add: dmem_def)

lemma dmem_ddel [simp, dict_simps]: "dmem k (ddel k' d) = (k \<noteq> k' \<and> dmem k d)"
  by (simp add: dmem_def)

lemma dmem_iff_keys: "dmem k d \<longleftrightarrow> k \<in> set (dkeys d)"
  by (simp add: dmem_def dkeys_def map_of_eq_None_iff)

lemma dmem_Nil [simp]: "\<not> dmem k []"
  by (simp add: dmem_def)

lemma dkeys_dset: "set (dkeys (dset k v d)) = insert k (set (dkeys d))"
  by (simp add: dkeys_def dom_update)

lemma dkeys_dset_mem: "dmem k d \<Longrightarrow> dkeys (dset k v d) = dkeys d"
  by (simp add: dkeys_def dmem_def update_keys map_of_eq_None_iff del: update_conv')

lemma distinct_dkeys: "distinct (dkeys d) = dict_ok d"
  by (simp add: dkeys_def dict_ok_def)

lemma dict_ok_dset [simp]: "dict_ok d \<Longrightarrow> dict_ok (dset k v d)"
  by (simp add: dict_ok_def distinct_update)

lemma dict_ok_ddel [simp]: "dict_ok d \<Longrightarrow> dict_ok (ddel k d)"
  by (simp add: dict_ok_def distinct_delete)

lemma dict_ok_Nil [simp]: "dict_ok []"
  by (simp add: dict_ok_def)

lemma map_of_dupd:
  "map_of (dupd d new) k = (case map_of (rev new) k of None \<Rightarrow> map_of d k | Some v \<Rightarrow> Some v)"
  unfolding dupd_def
  by (induction new arbitrary: d) (auto simp: map_add_def split: option.splits)

lemma map_of_rev: "distinct (map fst xs) \<Longrightarrow> map_of (rev xs) k = map_of xs k"
  by (metis distinct_map distinct_rev map_of_inject_set rev_map set_rev)

lemma map_of_map_snd: "map_of (map (\<lambda>(k, v). (k, f k v)) d) k = map_option (f k) (map_of d k)"
  by (induction d) auto

lemma map_of_filter_key:
  "map_of (filter (\<lambda>(k, v). P k) d) k = (if P k then map_of d k else None)"
  by (induction d) auto

subsection \<open>Decimal formatting\<close>

definition digit_char :: "nat \<Rightarrow> char" where
  "digit_char n = char_of (48 + n)"

fun digits :: "nat \<Rightarrow> string" where
  "digits n = (if n < 10 then [digit_char n] else digits (n div 10) @ [digit_char (n mod 10)])"

declare digits.simps [simp del]

definition str_of_int :: "int \<Rightarrow> string" where
  "str_of_int i = (if i < 0 then CHR ''-'' # digits (nat (- i)) else digits (nat i))"

definition pad_int :: "nat \<Rightarrow> int \<Rightarrow> string" where
  "pad_int w i =
     (if i < 0
      then let ds = digits (nat (- i)) in CHR ''-'' # replicate (w - 1 - length ds) (CHR ''0'') @ ds
      else let ds = digits (nat i) in replicate (w - length ds) (CHR ''0'') @ ds)"

text \<open>
  \<open>int(s)\<close> on the decimal strings the code formats itself: \<open>None\<close> where Python
  raises \<open>ValueError\<close>. Signs, underscores and surrounding blanks are not needed here.
\<close>

definition char_digit :: "char \<Rightarrow> nat option" where
  "char_digit c = (let n = of_char c :: nat in if 48 \<le> n \<and> n < 58 then Some (n - 48) else None)"

fun parse_digits :: "nat \<Rightarrow> string \<Rightarrow> nat option" where
  "parse_digits acc [] = Some acc"
| "parse_digits acc (c # cs) =
     (case char_digit c of None \<Rightarrow> None | Some d \<Rightarrow> parse_digits (10 * acc + d) cs)"

definition parse_nat :: "string \<Rightarrow> nat option" where
  "parse_nat s = (if s = [] then None else parse_digits 0 s)"

lemma char_digit_digit_char [simp]: "d < 10 \<Longrightarrow> char_digit (digit_char d) = Some d"
  by (simp add: char_digit_def digit_char_def)

lemma digit_char_0: "digit_char 0 = CHR ''0''"
  by code_simp

lemma digit_char_less: "d < e \<Longrightarrow> e < 10 \<Longrightarrow> digit_char d < digit_char e"
  by (simp add: digit_char_def less_char_def)

lemma digit_char_neq_dot: "d < 10 \<Longrightarrow> digit_char d \<noteq> CHR ''.''"
proof -
  assume "d < 10"
  then have "char_digit (digit_char d) = Some d" by simp
  moreover have "char_digit (CHR ''.'') = None" by (simp add: char_digit_def)
  ultimately show ?thesis by (metis option.distinct(1))
qed

text \<open>The fixed-width digits of a number, and the two facts the padded form needs.\<close>

fun fixed_digits :: "nat \<Rightarrow> nat \<Rightarrow> string" where
  "fixed_digits 0 n = []"
| "fixed_digits (Suc w) n = fixed_digits w (n div 10) @ [digit_char (n mod 10)]"

lemma length_fixed_digits [simp]: "length (fixed_digits w n) = w"
  by (induction w arbitrary: n) simp_all

lemma fixed_digits_0: "fixed_digits w 0 = replicate w (CHR ''0'')"
  by (induction w) (simp_all add: digit_char_0 replicate_append_same)

lemma length_digits_le: "n < 10 ^ Suc w \<Longrightarrow> length (digits n) \<le> Suc w"
proof (induction w arbitrary: n)
  case 0
  then show ?case by (subst digits.simps) simp
next
  case (Suc w)
  then show ?case
    by (subst digits.simps) (simp add: less_mult_imp_div_less mult.commute)
qed

lemma pad_digits_fixed:
  "n < 10 ^ Suc w \<Longrightarrow> replicate (Suc w - length (digits n)) (CHR ''0'') @ digits n = fixed_digits (Suc w) n"
proof (induction w arbitrary: n)
  case 0
  then show ?case by (subst (1 2) digits.simps) simp
next
  case (Suc w)
  show ?case
  proof (cases "n < 10")
    case True
    then have "fixed_digits (Suc w) (n div 10) = replicate (Suc w) (CHR ''0'')"
      using fixed_digits_0 [of "Suc w"] by simp
    with True show ?thesis
      by (subst (1 2) digits.simps) simp
  next
    case False
    have le: "n div 10 < 10 ^ Suc w" using Suc.prems by (simp add: less_mult_imp_div_less mult.commute)
    have "digits n = digits (n div 10) @ [digit_char (n mod 10)]"
      using False by (subst digits.simps) simp
    moreover have "length (digits (n div 10)) \<le> Suc w" using le by (rule length_digits_le)
    ultimately show ?thesis
      using Suc.IH [OF le] by (simp add: Suc_diff_le)
  qed
qed

lemma pad_int_fixed: "n < 10 ^ Suc w \<Longrightarrow> pad_int (Suc w) (int n) = fixed_digits (Suc w) n"
  by (simp add: pad_int_def Let_def pad_digits_fixed del: fixed_digits.simps)

lemma less_append_same_length:
  "xs < ys \<Longrightarrow> length xs = length ys \<Longrightarrow> xs @ us < ys @ (vs :: 'a::linorder list)"
  by (induction xs ys rule: list_induct2') auto

lemma append_less_cancel [simp]: "xs @ us < xs @ vs \<longleftrightarrow> us < (vs :: 'a::linorder list)"
  by (induction xs) auto

lemma fixed_digits_less:
  "m < n \<Longrightarrow> n < 10 ^ w \<Longrightarrow> fixed_digits w m < fixed_digits w n"
proof (induction w arbitrary: m n)
  case (Suc w)
  have n: "n div 10 < 10 ^ w" using Suc.prems(2) by (simp add: less_mult_imp_div_less mult.commute)
  show ?case
  proof (cases "m div 10 < n div 10")
    case True
    then have "fixed_digits w (m div 10) < fixed_digits w (n div 10)" by (rule Suc.IH) (rule n)
    then show ?thesis by (simp add: less_append_same_length)
  next
    case False
    with Suc.prems(1) have eq: "m div 10 = n div 10"
      by (meson div_le_mono less_imp_le nat_less_le)
    have "m mod 10 < n mod 10"
      using Suc.prems(1) eq by (metis div_mult_mod_eq nat_add_left_cancel_less)
    then have "[digit_char (m mod 10)] < [digit_char (n mod 10)]"
      by (simp add: digit_char_less)
    with eq show ?thesis by simp
  qed
qed simp

lemma pad_int_less:
  "m < n \<Longrightarrow> n < 10 ^ Suc w \<Longrightarrow> pad_int (Suc w) (int m) < pad_int (Suc w) (int n)"
  using fixed_digits_less [of m n "Suc w"] by (simp add: pad_int_fixed del: fixed_digits.simps)

lemma parse_digits_append:
  "parse_digits a (xs @ ys) = (case parse_digits a xs of None \<Rightarrow> None | Some b \<Rightarrow> parse_digits b ys)"
  by (induction xs arbitrary: a) (auto split: option.splits)

lemma parse_fixed_digits: "n < 10 ^ w \<Longrightarrow> parse_digits 0 (fixed_digits w n) = Some n"
proof (induction w arbitrary: n)
  case (Suc w)
  have "n div 10 < 10 ^ w" using Suc.prems by (simp add: less_mult_imp_div_less mult.commute)
  then show ?case using Suc.IH by (simp add: parse_digits_append)
qed simp

lemma parse_pad_int: "n < 10 ^ Suc w \<Longrightarrow> parse_nat (pad_int (Suc w) (int n)) = Some n"
  using parse_fixed_digits [of n "Suc w"]
  by (simp add: pad_int_fixed parse_nat_def)

lemma fixed_digits_no_dot: "CHR ''.'' \<notin> set (fixed_digits w n)"
  by (induction w arbitrary: n) (auto simp: digit_char_neq_dot [symmetric])

subsection \<open>Joining and splitting strings\<close>

text \<open>\<open>sep.join(parts)\<close>, \<open>s.split(c)\<close> for a one-character separator, \<open>s.isdigit()\<close> on ASCII.\<close>

fun str_join :: "string \<Rightarrow> string list \<Rightarrow> string" where
  "str_join sep [] = []"
| "str_join sep [s] = s"
| "str_join sep (s # t # ss) = s @ sep @ str_join sep (t # ss)"

fun split_on :: "char \<Rightarrow> string \<Rightarrow> string list" where
  "split_on c [] = [[]]"
| "split_on c (x # xs) =
     (if x = c then [] # split_on c xs
      else case split_on c xs of [] \<Rightarrow> [[x]] | p # ps \<Rightarrow> (x # p) # ps)"

definition is_digits :: "string \<Rightarrow> bool" where
  "is_digits s = (s \<noteq> [] \<and> (\<forall>c \<in> set s. char_digit c \<noteq> None))"

lemma is_digits_Nil [simp]: "\<not> is_digits []"
  by (simp add: is_digits_def)

lemma split_on_not_Nil [simp]: "split_on c s \<noteq> []"
  by (induction s) (auto split: list.splits)

lemma split_on_no_sep [simp]: "c \<notin> set s \<Longrightarrow> split_on c s = [s]"
  by (induction s) auto

lemma split_on_append: "split_on c (s @ c # t) = split_on c s @ split_on c t"
proof (induction s)
  case (Cons x s)
  then show ?case by (cases "split_on c s") auto
qed simp

lemma str_join_Cons: "ss \<noteq> [] \<Longrightarrow> str_join sep (s # ss) = s @ sep @ str_join sep ss"
  by (cases ss) simp_all

lemma join_split_on: "str_join [c] (split_on c s) = s"
proof (induction s)
  case (Cons x s)
  obtain p ps where p: "split_on c s = p # ps" by (cases "split_on c s") auto
  with Cons show ?case by (cases ps) (auto simp: str_join_Cons)
qed simp

lemma split_on_parts: "p \<in> set (split_on c s) \<Longrightarrow> c \<notin> set p"
proof (induction s arbitrary: p)
  case (Cons x s)
  obtain q qs where q: "split_on c s = q # qs" by (cases "split_on c s") auto
  show ?case
  proof (cases "x = c")
    case True
    with Cons show ?thesis by auto
  next
    case False
    have ih: "c \<notin> set q" "r \<in> set qs \<Longrightarrow> c \<notin> set r" for r
      using Cons.IH q by auto
    from False Cons.prems q consider "p = x # q" | "p \<in> set qs" by auto
    then show ?thesis using False ih by cases auto
  qed
qed simp

end
