(* ===== verification/LG_Constants.thy ===== *)
theory LG_Constants
  imports LG_Prelude
begin

section \<open>Reserved names\<close>

text \<open>
  The interned strings of \<open>_internal/_constants.py\<close> that the modelled code tests for, the
  set \<open>RESERVED\<close>, and the index map of special writes from \<open>checkpoint/base/__init__.py\<close>.
  \<open>const_defs\<close> unfolds them all; the distinctness facts the proofs use are proved once here.
\<close>

named_theorems const_defs \<open>definitions of the reserved names\<close>

definition INPUT :: string where [const_defs]: "INPUT = ''__input__''"
definition INTERRUPT :: string where [const_defs]: "INTERRUPT = ''__interrupt__''"
definition RESUME :: string where [const_defs]: "RESUME = ''__resume__''"
definition ERROR :: string where [const_defs]: "ERROR = ''__error__''"
definition ERROR_SOURCE_NODE :: string where [const_defs]: "ERROR_SOURCE_NODE = ''__error_source_node__''"
definition NO_WRITES :: string where [const_defs]: "NO_WRITES = ''__no_writes__''"
definition SCHEDULED :: string where [const_defs]: "SCHEDULED = ''__scheduled__''"
definition TASKS :: string where [const_defs]: "TASKS = ''__pregel_tasks''"
definition RETURN :: string where [const_defs]: "RETURN = ''__return__''"
definition PREVIOUS :: string where [const_defs]: "PREVIOUS = ''__previous__''"
definition CACHE_NS_WRITES :: string where [const_defs]: "CACHE_NS_WRITES = ''__pregel_ns_writes''"
definition PUSH :: string where [const_defs]: "PUSH = ''__pregel_push''"
definition PULL :: string where [const_defs]: "PULL = ''__pregel_pull''"
definition NS_SEP :: string where [const_defs]: "NS_SEP = ''|''"
definition NS_END :: string where [const_defs]: "NS_END = '':''"
definition CONF :: string where [const_defs]: "CONF = ''configurable''"
definition NULL_TASK_ID :: string where
  [const_defs]: "NULL_TASK_ID = ''00000000-0000-0000-0000-000000000000''"
definition OVERWRITE :: string where [const_defs]: "OVERWRITE = ''__overwrite__''"
definition TAG_HIDDEN :: string where [const_defs]: "TAG_HIDDEN = ''langsmith:hidden''"
definition START :: string where [const_defs]: "START = ''__start__''"
definition END_NODE :: string where [const_defs]: "END_NODE = ''__end__''"

definition RESERVED :: "string list" where
  "RESERVED =
    [TAG_HIDDEN, INPUT, INTERRUPT, RESUME, ERROR, ERROR_SOURCE_NODE, NO_WRITES,
     ''__pregel_send'', ''__pregel_read'', ''__pregel_checkpointer'', ''__pregel_stream'',
     ''checkpoint_map'', ''__pregel_resuming'', ''__pregel_replay_state'', ''__pregel_task_id'',
     ''checkpoint_id'', ''checkpoint_ns'', ''__pregel_timed_attempt_observer'',
     ''__pregel_resume_map'', ''__pregel_stream_messages_v2'',
     PUSH, PULL, NS_SEP, NS_END, CONF]"

text \<open>Regular writes are indexed by position; special writes get a negative index.\<close>

definition WRITES_IDX_MAP :: "(string, int) dict" where
  "WRITES_IDX_MAP = [(ERROR, -1), (SCHEDULED, -2), (INTERRUPT, -3), (RESUME, -4)]"

lemma special_names_distinct:
  "distinct [INPUT, INTERRUPT, RESUME, ERROR, ERROR_SOURCE_NODE, NO_WRITES, SCHEDULED, TASKS,
     RETURN, PREVIOUS, PUSH, PULL, NULL_TASK_ID]"
  by code_simp

lemma tasks_not_reserved [simp, consts_neq]: "TASKS \<notin> set RESERVED"
  by code_simp

lemma push_not_tasks [simp, consts_neq]: "PUSH \<noteq> PULL" "PULL \<noteq> PUSH"
  by code_simp+

lemma special_names_neq [consts_neq]:
  "ERROR \<noteq> RESUME" "INTERRUPT \<noteq> RESUME" "ERROR \<noteq> INTERRUPT" "ERROR \<noteq> ERROR_SOURCE_NODE"
  "INTERRUPT \<noteq> ERROR_SOURCE_NODE" "RESUME \<noteq> ERROR_SOURCE_NODE"
  using special_names_distinct by auto

lemma writes_idx_negative: "map_of WRITES_IDX_MAP c = Some i \<Longrightarrow> i < 0"
  by (auto simp: WRITES_IDX_MAP_def split: if_splits)

lemma writes_idx_inj:
  "map_of WRITES_IDX_MAP c = Some i \<Longrightarrow> map_of WRITES_IDX_MAP c' = Some i \<Longrightarrow> c = c'"
  by (auto simp: WRITES_IDX_MAP_def split: if_splits)

end
