(* ===== verification/Chan_Base.thy ===== *)
theory Chan_Base
  imports LG_Constants
begin

section \<open>Channels: the base class and its contract\<close>

text \<open>
  \<open>channels/base.py\<close>: the fields every channel has, the methods it inherits when it does not
  override them, and, as the locale \<open>channel_class\<close>, what the rest of Pregel relies on when it
  calls a channel. \<open>MISSING\<close> is \<open>None\<close> in \<open>pyval option\<close>. The helpers of
  \<open>channels/binop.py\<close> that two channel classes share are here too.
\<close>

subsection \<open>Types a channel can be annotated with\<close>

text \<open>
  Only what the constructors look at: the \<open>__origin__\<close> of a special form, and what \<open>typ()\<close>
  returns. \<open>TyClass n v\<close> is any other class, \<open>v\<close> the value its constructor returns without
  arguments, or \<open>None\<close> when that call raises.
\<close>

datatype pytype =
    TyList | TySet | TyDict | TyInt | TyStr | TyBool
  | TyAbcSequence | TyAbcMutableSequence | TyAbcSet | TyAbcMutableSet
  | TyAbcMapping | TyAbcMutableMapping
  | TyRequired pytype
  | TyNotRequired pytype
  | TyGeneric pytype "pytype list"
  | TyClass string "pyval option"

fun strip_extras :: "pytype \<Rightarrow> pytype" where
  "strip_extras (TyRequired t) = strip_extras t"
| "strip_extras (TyNotRequired t) = strip_extras t"
| "strip_extras (TyGeneric orig args) = strip_extras orig"
| "strip_extras t = t"

definition concrete_type :: "pytype \<Rightarrow> pytype" where
  "concrete_type t =
     (let t = strip_extras t;
          t = (if t \<in> {TyAbcSequence, TyAbcMutableSequence} then TyList else t);
          t = (if t \<in> {TyAbcSet, TyAbcMutableSet} then TySet else t)
      in if t \<in> {TyAbcMapping, TyAbcMutableMapping} then TyDict else t)"

text \<open>\<open>typ()\<close>: \<open>None\<close> when the call raises.\<close>

fun call_type :: "pytype \<Rightarrow> pyval option" where
  "call_type TyList = Some (VList [])"
| "call_type TySet = Some (VStrSet {})"
| "call_type TyDict = Some (VDict [])"
| "call_type TyInt = Some (VInt 0)"
| "call_type TyStr = Some (VStr [])"
| "call_type TyBool = Some (VBool False)"
| "call_type (TyClass n v) = v"
| "call_type (TyGeneric orig args) = call_type orig"
| "call_type _ = None"

lemma strip_extras_idem [simp]: "strip_extras (strip_extras t) = strip_extras t"
  by (induction t rule: strip_extras.induct) simp_all

lemma concrete_type_idem [simp]: "concrete_type (concrete_type t) = concrete_type t"
proof -
  have "strip_extras (concrete_type t) = concrete_type t"
    by (simp add: concrete_type_def Let_def)
  then show ?thesis
    by (simp add: concrete_type_def [of "concrete_type t"]) (simp add: concrete_type_def Let_def)
qed

subsection \<open>Reducers and overwrites\<close>

text \<open>
  A user-supplied reducer: its \<open>__name__\<close>, its object identity, and what a call does. A
  \<open>binary_reducer\<close> takes the current value and one update, a \<open>batch_reducer\<close> the current value
  and a list of updates.
\<close>

record binary_reducer =
  br_name :: string
  br_id :: nat
  br_call :: "pyval \<Rightarrow> pyval \<Rightarrow> pyval res"

record batch_reducer =
  dr_name :: string
  dr_id :: nat
  dr_call :: "pyval \<Rightarrow> pyval list \<Rightarrow> pyval res"

definition operators_equal :: "string \<Rightarrow> nat \<Rightarrow> string \<Rightarrow> nat \<Rightarrow> bool" where
  "operators_equal a_name a_id b_name b_id =
     (if a_name = ''<lambda>'' \<or> b_name = ''<lambda>'' then True else a_id = b_id)"

text \<open>
  The three forms of an overwrite: the dataclass, the dict with the single sentinel key, and
  the dict a JSON round trip makes of the dataclass. \<open>None\<close> is the pair \<open>(False, None)\<close>.
\<close>

definition get_overwrite :: "pyval \<Rightarrow> pyval option" where
  "get_overwrite value =
     (case value of
        VOverwrite v \<Rightarrow> Some v
      | VDict d \<Rightarrow>
          (if length d = 1 \<and> dmem OVERWRITE d then map_of d OVERWRITE
           else if map_of d ''type'' = Some (VStr OVERWRITE) \<and> dmem ''value'' d
           then map_of d ''value''
           else None)
      | _ \<Rightarrow> None)"

abbreviation is_overwrite :: "pyval \<Rightarrow> bool" where
  "is_overwrite v \<equiv> get_overwrite v \<noteq> None"

lemma get_overwrite_forms [simp]:
  "get_overwrite (VOverwrite v) = Some v"
  "get_overwrite (VDict [(OVERWRITE, v)]) = Some v"
  "get_overwrite (VList xs) = None" "get_overwrite (VInt i) = None"
  "get_overwrite (VStr s) = None" "get_overwrite VNone = None"
  by (simp_all add: get_overwrite_def dmem_def)

subsection \<open>The base class\<close>

record base_channel =
  ch_typ :: pytype
  ch_key :: string

definition BaseChannel_copy ::
  "('c \<Rightarrow> pyval option) \<Rightarrow> ('c \<Rightarrow> pyval option \<Rightarrow> 'c res) \<Rightarrow> 'c \<Rightarrow> 'c res" where
  "BaseChannel_copy checkpoint from_checkpoint self = from_checkpoint self (checkpoint self)"

definition BaseChannel_checkpoint :: "('c \<Rightarrow> pyval res) \<Rightarrow> 'c \<Rightarrow> pyval option res" where
  "BaseChannel_checkpoint get self =
     (case get self of
        Inr v \<Rightarrow> Inr (Some v)
      | Inl e \<Rightarrow> (if e = EmptyChannelError then Inr None else Inl e))"

definition BaseChannel_is_available :: "('c \<Rightarrow> pyval res) \<Rightarrow> 'c \<Rightarrow> bool res" where
  "BaseChannel_is_available get self =
     (case get self of
        Inr v \<Rightarrow> Inr True
      | Inl e \<Rightarrow> (if e = EmptyChannelError then Inr False else Inl e))"

definition BaseChannel_consume :: "'c \<Rightarrow> bool \<times> 'c" where
  "BaseChannel_consume self = (False, self)"

definition BaseChannel_finish :: "'c \<Rightarrow> bool \<times> 'c" where
  "BaseChannel_finish self = (False, self)"

text \<open>
  The contract: availability is exactly that \<open>get\<close> returns, the only exception of \<open>get\<close> is
  \<open>EmptyChannelError\<close>, the flag \<open>False\<close> of a write method means the channel did not change,
  the empty update leaves an unavailable channel alone, and every operation keeps the class's
  invariant and its configuration (\<open>spec\<close>: the channel with its state reset).
\<close>

locale channel_class =
  fixes get :: "'c \<Rightarrow> pyval res"
    and is_available :: "'c \<Rightarrow> bool"
    and update :: "'c \<Rightarrow> pyval list \<Rightarrow> (bool \<times> 'c) res"
    and consume :: "'c \<Rightarrow> bool \<times> 'c"
    and finish :: "'c \<Rightarrow> bool \<times> 'c"
    and checkpoint :: "'c \<Rightarrow> pyval option"
    and from_checkpoint :: "'c \<Rightarrow> pyval option \<Rightarrow> 'c res"
    and spec :: "'c \<Rightarrow> 'c"
    and inv :: "'c \<Rightarrow> bool"
  assumes available_iff: "is_available c \<longleftrightarrow> (\<exists>v. get c = Inr v)"
    and get_raises: "get c = Inl e \<Longrightarrow> e = EmptyChannelError"
    and update_False: "update c vs = Inr (False, c') \<Longrightarrow> c' = c"
    and consume_False: "consume c = (False, c') \<Longrightarrow> c' = c"
    and finish_False: "finish c = (False, c') \<Longrightarrow> c' = c"
    and update_idle: "inv c \<Longrightarrow> \<not> is_available c \<Longrightarrow> update c [] = Inr (False, c)"
    and update_spec: "update c vs = Inr (b, c') \<Longrightarrow> spec c' = spec c"
    and consume_spec: "spec (snd (consume c)) = spec c"
    and finish_spec: "spec (snd (finish c)) = spec c"
    and from_checkpoint_spec: "from_checkpoint (spec c) x = from_checkpoint c x"
    and spec_from_checkpoint: "inv c \<Longrightarrow> from_checkpoint c x = Inr c' \<Longrightarrow> spec c' = spec c"
    and inv_from_checkpoint: "inv c \<Longrightarrow> from_checkpoint c x = Inr c' \<Longrightarrow> inv c'"
    and inv_update: "inv c \<Longrightarrow> update c vs = Inr (b, c') \<Longrightarrow> inv c'"
    and inv_consume: "inv c \<Longrightarrow> inv (snd (consume c))"
    and inv_finish: "inv c \<Longrightarrow> inv (snd (finish c))"
begin

lemma unavailable_get: "\<not> is_available c \<Longrightarrow> get c = Inl EmptyChannelError"
  using available_iff [of c] get_raises [of c] by (cases "get c") auto

lemma base_checkpoint_total: "BaseChannel_checkpoint get c = Inr (case get c of Inl e \<Rightarrow> None | Inr v \<Rightarrow> Some v)"
  by (auto simp: BaseChannel_checkpoint_def split: sum.splits dest: get_raises)

lemma base_is_available: "BaseChannel_is_available get c = Inr (is_available c)"
  using get_raises by (auto simp: BaseChannel_is_available_def available_iff split: sum.splits)

lemma update_empty_changes_available:
  "inv c \<Longrightarrow> update c [] = Inr (True, c') \<Longrightarrow> is_available c"
  using update_idle by force

text \<open>A run of updates keeps configuration and invariant.\<close>

lemma updates_spec_inv:
  assumes "rfold (\<lambda>c vs. rmap snd (update c vs)) c vss = Inr c'" and "inv c"
  shows "spec c' = spec c \<and> inv c'"
  using assms
proof (induction vss arbitrary: c)
  case (Cons vs vss)
  then obtain b c1 where u: "update c vs = Inr (b, c1)"
    and r: "rfold (\<lambda>c vs. rmap snd (update c vs)) c1 vss = Inr c'"
    by (auto simp: rbind_Inr_iff rmap_Inr_iff)
  from Cons.IH [OF r inv_update [OF Cons.prems(2) u]] update_spec [OF u] show ?case by simp
qed simp

end

text \<open>
  A channel whose checkpoint holds its whole state: rebuilding it from its checkpoint, on any
  channel of the same configuration, gives it back.
\<close>

locale persistent_channel = channel_class +
  assumes roundtrip: "inv c \<Longrightarrow> from_checkpoint c (checkpoint c) = Inr c"
begin

lemma roundtrip_spec: "inv c \<Longrightarrow> spec c0 = spec c \<Longrightarrow> from_checkpoint c0 (checkpoint c) = Inr c"
  by (metis from_checkpoint_spec roundtrip)

lemma copy_id: "inv c \<Longrightarrow> BaseChannel_copy checkpoint from_checkpoint c = Inr c"
  by (simp add: BaseChannel_copy_def roundtrip)

text \<open>Resuming from a checkpoint and continuing is the same as never having stopped.\<close>

lemma resume_transparent:
  assumes "inv c" and "spec c0 = spec c"
  shows "rbind (from_checkpoint c0 (checkpoint c)) (\<lambda>c'. update c' vs) = update c vs"
  using assms by (simp add: roundtrip_spec)

end

end
