(* ===== verification/Chan_Value.thy ===== *)
theory Chan_Value
  imports Chan_Base
begin

section \<open>Channels holding one value\<close>

text \<open>
  \<open>LastValue\<close>, \<open>LastValueAfterFinish\<close> (\<open>channels/last_value.py\<close>), \<open>EphemeralValue\<close>,
  \<open>AnyValue\<close> and \<open>UntrackedValue\<close>: one record per class, one definition per method, and the
  proof that each meets the channel contract. The first four are persistent; an
  \<open>UntrackedValue\<close> always checkpoints as missing.
\<close>

subsection \<open>LastValue\<close>

record last_value = base_channel +
  lv_value :: "pyval option"

definition LastValue_init :: "pytype \<Rightarrow> string \<Rightarrow> last_value" where
  "LastValue_init typ key = \<lparr>ch_typ = typ, ch_key = key, lv_value = None\<rparr>"

definition LastValue_copy :: "last_value \<Rightarrow> last_value" where
  "LastValue_copy self =
     (let empty = LastValue_init (ch_typ self) (ch_key self) in empty\<lparr>lv_value := lv_value self\<rparr>)"

definition LastValue_from_checkpoint :: "last_value \<Rightarrow> pyval option \<Rightarrow> last_value res" where
  "LastValue_from_checkpoint self checkpoint =
     (let empty = LastValue_init (ch_typ self) (ch_key self)
      in Inr (case checkpoint of None \<Rightarrow> empty | Some v \<Rightarrow> empty\<lparr>lv_value := Some v\<rparr>))"

definition LastValue_update :: "last_value \<Rightarrow> pyval list \<Rightarrow> (bool \<times> last_value) res" where
  "LastValue_update self values =
     (if length values = 0 then Inr (False, self)
      else if length values \<noteq> 1 then Inl (InvalidUpdateError (ch_key self))
      else Inr (True, self\<lparr>lv_value := Some (last values)\<rparr>))"

definition LastValue_get :: "last_value \<Rightarrow> pyval res" where
  "LastValue_get self =
     (case lv_value self of None \<Rightarrow> Inl EmptyChannelError | Some v \<Rightarrow> Inr v)"

definition LastValue_is_available :: "last_value \<Rightarrow> bool" where
  "LastValue_is_available self = (lv_value self \<noteq> None)"

definition LastValue_checkpoint :: "last_value \<Rightarrow> pyval option" where
  "LastValue_checkpoint self = lv_value self"

lemmas LastValue_defs =
  LastValue_init_def LastValue_copy_def LastValue_from_checkpoint_def LastValue_update_def
  LastValue_get_def LastValue_is_available_def LastValue_checkpoint_def

interpretation lastvalue: persistent_channel
  LastValue_get LastValue_is_available LastValue_update
  BaseChannel_consume BaseChannel_finish LastValue_checkpoint LastValue_from_checkpoint
  "\<lambda>c. c\<lparr>lv_value := None\<rparr>" "\<lambda>_. True"
  by unfold_locales
    (auto simp: LastValue_defs BaseChannel_consume_def BaseChannel_finish_def Let_def
      split: option.splits if_splits)

subsection \<open>LastValueAfterFinish\<close>

record last_value_after_finish = base_channel +
  lf_value :: "pyval option"
  lf_finished :: bool

definition LastValueAfterFinish_init :: "pytype \<Rightarrow> string \<Rightarrow> last_value_after_finish" where
  "LastValueAfterFinish_init typ key =
     \<lparr>ch_typ = typ, ch_key = key, lf_value = None, lf_finished = False\<rparr>"

definition LastValueAfterFinish_checkpoint :: "last_value_after_finish \<Rightarrow> pyval option" where
  "LastValueAfterFinish_checkpoint self =
     (case lf_value self of None \<Rightarrow> None | Some v \<Rightarrow> Some (VTuple [v, VBool (lf_finished self)]))"

text \<open>
  The checkpoint is unpacked into two fields, and anything but a pair raises. \<open>finished\<close> is only
  ever tested for truth, so the model keeps its truth value.
\<close>

definition LastValueAfterFinish_from_checkpoint ::
  "last_value_after_finish \<Rightarrow> pyval option \<Rightarrow> last_value_after_finish res" where
  "LastValueAfterFinish_from_checkpoint self checkpoint =
     (let empty = LastValueAfterFinish_init (ch_typ self) (ch_key self)
      in case checkpoint of
           None \<Rightarrow> Inr empty
         | Some ckpt \<Rightarrow>
             (case unpack2 ckpt of
                None \<Rightarrow> Inl (TypeError (ch_key self))
              | Some (v, f) \<Rightarrow> Inr (empty\<lparr>lf_value := Some v, lf_finished := py_bool f\<rparr>)))"

definition LastValueAfterFinish_update ::
  "last_value_after_finish \<Rightarrow> pyval list \<Rightarrow> (bool \<times> last_value_after_finish) res" where
  "LastValueAfterFinish_update self values =
     (if length values = 0 then Inr (False, self)
      else Inr (True, self\<lparr>lf_finished := False, lf_value := Some (last values)\<rparr>))"

definition LastValueAfterFinish_consume ::
  "last_value_after_finish \<Rightarrow> bool \<times> last_value_after_finish" where
  "LastValueAfterFinish_consume self =
     (if lf_finished self then (True, self\<lparr>lf_finished := False, lf_value := None\<rparr>)
      else (False, self))"

definition LastValueAfterFinish_finish ::
  "last_value_after_finish \<Rightarrow> bool \<times> last_value_after_finish" where
  "LastValueAfterFinish_finish self =
     (if \<not> lf_finished self \<and> lf_value self \<noteq> None then (True, self\<lparr>lf_finished := True\<rparr>)
      else (False, self))"

definition LastValueAfterFinish_get :: "last_value_after_finish \<Rightarrow> pyval res" where
  "LastValueAfterFinish_get self =
     (case lf_value self of
        None \<Rightarrow> Inl EmptyChannelError
      | Some v \<Rightarrow> if \<not> lf_finished self then Inl EmptyChannelError else Inr v)"

definition LastValueAfterFinish_is_available :: "last_value_after_finish \<Rightarrow> bool" where
  "LastValueAfterFinish_is_available self = (lf_value self \<noteq> None \<and> lf_finished self)"

lemmas LastValueAfterFinish_defs =
  LastValueAfterFinish_init_def LastValueAfterFinish_checkpoint_def
  LastValueAfterFinish_from_checkpoint_def LastValueAfterFinish_update_def
  LastValueAfterFinish_consume_def LastValueAfterFinish_finish_def LastValueAfterFinish_get_def
  LastValueAfterFinish_is_available_def

text \<open>The invariant: only a channel that holds a value can be finished.\<close>

definition LastValueAfterFinish_inv :: "last_value_after_finish \<Rightarrow> bool" where
  "LastValueAfterFinish_inv c = (lf_finished c \<longrightarrow> lf_value c \<noteq> None)"

definition LastValueAfterFinish_spec :: "last_value_after_finish \<Rightarrow> last_value_after_finish" where
  "LastValueAfterFinish_spec c = c\<lparr>lf_value := None, lf_finished := False\<rparr>"

interpretation lastvalue_finish: persistent_channel
  LastValueAfterFinish_get LastValueAfterFinish_is_available LastValueAfterFinish_update
  LastValueAfterFinish_consume LastValueAfterFinish_finish LastValueAfterFinish_checkpoint
  LastValueAfterFinish_from_checkpoint LastValueAfterFinish_spec LastValueAfterFinish_inv
  by unfold_locales
    (auto simp: LastValueAfterFinish_defs LastValueAfterFinish_inv_def
      LastValueAfterFinish_spec_def Let_def split: option.splits if_splits)

subsection \<open>EphemeralValue\<close>

record ephemeral_value = base_channel +
  ev_guard :: bool
  ev_value :: "pyval option"

definition EphemeralValue_init :: "pytype \<Rightarrow> bool \<Rightarrow> ephemeral_value" where
  "EphemeralValue_init typ guard = \<lparr>ch_typ = typ, ch_key = [], ev_guard = guard, ev_value = None\<rparr>"

definition EphemeralValue_copy :: "ephemeral_value \<Rightarrow> ephemeral_value" where
  "EphemeralValue_copy self =
     (let empty = EphemeralValue_init (ch_typ self) (ev_guard self)
      in empty\<lparr>ch_key := ch_key self, ev_value := ev_value self\<rparr>)"

definition EphemeralValue_from_checkpoint ::
  "ephemeral_value \<Rightarrow> pyval option \<Rightarrow> ephemeral_value res" where
  "EphemeralValue_from_checkpoint self checkpoint =
     (let empty = (EphemeralValue_init (ch_typ self) (ev_guard self))\<lparr>ch_key := ch_key self\<rparr>
      in Inr (case checkpoint of None \<Rightarrow> empty | Some v \<Rightarrow> empty\<lparr>ev_value := Some v\<rparr>))"

definition EphemeralValue_update ::
  "ephemeral_value \<Rightarrow> pyval list \<Rightarrow> (bool \<times> ephemeral_value) res" where
  "EphemeralValue_update self values =
     (if length values = 0
      then (if ev_value self \<noteq> None then Inr (True, self\<lparr>ev_value := None\<rparr>) else Inr (False, self))
      else if length values \<noteq> 1 \<and> ev_guard self then Inl (InvalidUpdateError (ch_key self))
      else Inr (True, self\<lparr>ev_value := Some (last values)\<rparr>))"

definition EphemeralValue_get :: "ephemeral_value \<Rightarrow> pyval res" where
  "EphemeralValue_get self =
     (case ev_value self of None \<Rightarrow> Inl EmptyChannelError | Some v \<Rightarrow> Inr v)"

definition EphemeralValue_is_available :: "ephemeral_value \<Rightarrow> bool" where
  "EphemeralValue_is_available self = (ev_value self \<noteq> None)"

definition EphemeralValue_checkpoint :: "ephemeral_value \<Rightarrow> pyval option" where
  "EphemeralValue_checkpoint self = ev_value self"

lemmas EphemeralValue_defs =
  EphemeralValue_init_def EphemeralValue_copy_def EphemeralValue_from_checkpoint_def
  EphemeralValue_update_def EphemeralValue_get_def EphemeralValue_is_available_def
  EphemeralValue_checkpoint_def

interpretation ephemeral: persistent_channel
  EphemeralValue_get EphemeralValue_is_available EphemeralValue_update
  BaseChannel_consume BaseChannel_finish EphemeralValue_checkpoint EphemeralValue_from_checkpoint
  "\<lambda>c. c\<lparr>ev_value := None\<rparr>" "\<lambda>_. True"
  by unfold_locales
    (auto simp: EphemeralValue_defs BaseChannel_consume_def BaseChannel_finish_def Let_def
      split: option.splits if_splits)

subsection \<open>AnyValue\<close>

record any_value = base_channel +
  av_value :: "pyval option"

definition AnyValue_init :: "pytype \<Rightarrow> string \<Rightarrow> any_value" where
  "AnyValue_init typ key = \<lparr>ch_typ = typ, ch_key = key, av_value = None\<rparr>"

definition AnyValue_copy :: "any_value \<Rightarrow> any_value" where
  "AnyValue_copy self =
     (let empty = AnyValue_init (ch_typ self) (ch_key self) in empty\<lparr>av_value := av_value self\<rparr>)"

definition AnyValue_from_checkpoint :: "any_value \<Rightarrow> pyval option \<Rightarrow> any_value res" where
  "AnyValue_from_checkpoint self checkpoint =
     (let empty = AnyValue_init (ch_typ self) (ch_key self)
      in Inr (case checkpoint of None \<Rightarrow> empty | Some v \<Rightarrow> empty\<lparr>av_value := Some v\<rparr>))"

definition AnyValue_update :: "any_value \<Rightarrow> pyval list \<Rightarrow> (bool \<times> any_value) res" where
  "AnyValue_update self values =
     (if length values = 0
      then (if av_value self = None then Inr (False, self) else Inr (True, self\<lparr>av_value := None\<rparr>))
      else Inr (True, self\<lparr>av_value := Some (last values)\<rparr>))"

definition AnyValue_get :: "any_value \<Rightarrow> pyval res" where
  "AnyValue_get self =
     (case av_value self of None \<Rightarrow> Inl EmptyChannelError | Some v \<Rightarrow> Inr v)"

definition AnyValue_is_available :: "any_value \<Rightarrow> bool" where
  "AnyValue_is_available self = (av_value self \<noteq> None)"

definition AnyValue_checkpoint :: "any_value \<Rightarrow> pyval option" where
  "AnyValue_checkpoint self = av_value self"

lemmas AnyValue_defs =
  AnyValue_init_def AnyValue_copy_def AnyValue_from_checkpoint_def AnyValue_update_def
  AnyValue_get_def AnyValue_is_available_def AnyValue_checkpoint_def

interpretation anyvalue: persistent_channel
  AnyValue_get AnyValue_is_available AnyValue_update
  BaseChannel_consume BaseChannel_finish AnyValue_checkpoint AnyValue_from_checkpoint
  "\<lambda>c. c\<lparr>av_value := None\<rparr>" "\<lambda>_. True"
  by unfold_locales
    (auto simp: AnyValue_defs BaseChannel_consume_def BaseChannel_finish_def Let_def
      split: option.splits if_splits)

subsection \<open>UntrackedValue\<close>

record untracked_value = base_channel +
  uv_guard :: bool
  uv_value :: "pyval option"

definition UntrackedValue_init :: "pytype \<Rightarrow> bool \<Rightarrow> untracked_value" where
  "UntrackedValue_init typ guard = \<lparr>ch_typ = typ, ch_key = [], uv_guard = guard, uv_value = None\<rparr>"

definition UntrackedValue_copy :: "untracked_value \<Rightarrow> untracked_value" where
  "UntrackedValue_copy self =
     (let empty = UntrackedValue_init (ch_typ self) (uv_guard self)
      in empty\<lparr>ch_key := ch_key self, uv_value := uv_value self\<rparr>)"

definition UntrackedValue_checkpoint :: "untracked_value \<Rightarrow> pyval option" where
  "UntrackedValue_checkpoint self = None"

definition UntrackedValue_from_checkpoint ::
  "untracked_value \<Rightarrow> pyval option \<Rightarrow> untracked_value res" where
  "UntrackedValue_from_checkpoint self checkpoint =
     Inr ((UntrackedValue_init (ch_typ self) (uv_guard self))\<lparr>ch_key := ch_key self\<rparr>)"

definition UntrackedValue_update ::
  "untracked_value \<Rightarrow> pyval list \<Rightarrow> (bool \<times> untracked_value) res" where
  "UntrackedValue_update self values =
     (if length values = 0 then Inr (False, self)
      else if length values \<noteq> 1 \<and> uv_guard self then Inl (InvalidUpdateError (ch_key self))
      else Inr (True, self\<lparr>uv_value := Some (last values)\<rparr>))"

definition UntrackedValue_get :: "untracked_value \<Rightarrow> pyval res" where
  "UntrackedValue_get self =
     (case uv_value self of None \<Rightarrow> Inl EmptyChannelError | Some v \<Rightarrow> Inr v)"

definition UntrackedValue_is_available :: "untracked_value \<Rightarrow> bool" where
  "UntrackedValue_is_available self = (uv_value self \<noteq> None)"

lemmas UntrackedValue_defs =
  UntrackedValue_init_def UntrackedValue_copy_def UntrackedValue_from_checkpoint_def
  UntrackedValue_update_def UntrackedValue_get_def UntrackedValue_is_available_def
  UntrackedValue_checkpoint_def

interpretation untracked: channel_class
  UntrackedValue_get UntrackedValue_is_available UntrackedValue_update
  BaseChannel_consume BaseChannel_finish UntrackedValue_checkpoint UntrackedValue_from_checkpoint
  "\<lambda>c. c\<lparr>uv_value := None\<rparr>" "\<lambda>_. True"
  by unfold_locales
    (auto simp: UntrackedValue_defs BaseChannel_consume_def BaseChannel_finish_def Let_def
      split: option.splits if_splits)

subsection \<open>Copies\<close>

text \<open>An overridden \<open>copy\<close> gives an equal channel, as the inherited one would.\<close>

lemma value_channel_copies:
  "LastValue_copy c = c" "EphemeralValue_copy e = e" "AnyValue_copy a = a" "UntrackedValue_copy u = u"
  by (simp_all add: LastValue_defs EphemeralValue_defs AnyValue_defs UntrackedValue_defs)

lemma LastValueAfterFinish_copy:
  "LastValueAfterFinish_inv c \<Longrightarrow>
   BaseChannel_copy LastValueAfterFinish_checkpoint LastValueAfterFinish_from_checkpoint c = Inr c"
  by (rule lastvalue_finish.copy_id)

subsection \<open>The life cycle of a value that waits for the end of the run\<close>

text \<open>
  A \<open>LastValueAfterFinish\<close> channel that is written, finished and consumed reports a change
  at each step, is readable only between \<open>finish\<close> and \<open>consume\<close>, where it gives the last of
  the written values, and is back in its initial state afterwards.
\<close>

theorem LastValueAfterFinish_cycle:
  assumes "LastValueAfterFinish_update c (vs @ [v]) = Inr (b, c1)"
    and "LastValueAfterFinish_finish c1 = (b2, c2)" and "LastValueAfterFinish_consume c2 = (b3, c3)"
  shows "b \<and> b2 \<and> b3
    \<and> LastValueAfterFinish_get c1 = Inl EmptyChannelError
    \<and> LastValueAfterFinish_get c2 = Inr v
    \<and> LastValueAfterFinish_get c3 = Inl EmptyChannelError
    \<and> c3 = LastValueAfterFinish_spec c"
  using assms by (auto simp: LastValueAfterFinish_defs LastValueAfterFinish_spec_def)

lemma LastValueAfterFinish_cycle_witness:
  "let c = LastValueAfterFinish_init TyInt ''x'';
       c1 = c\<lparr>lf_value := Some (VInt 2)\<rparr>;
       c2 = c1\<lparr>lf_finished := True\<rparr>
   in LastValueAfterFinish_get c1 = Inl EmptyChannelError
    \<and> LastValueAfterFinish_get c2 = Inr (VInt 2)"
  using LastValueAfterFinish_cycle
    [of "LastValueAfterFinish_init TyInt ''x''" "[VInt 1]" "VInt 2" True
        "(LastValueAfterFinish_init TyInt ''x'')\<lparr>lf_value := Some (VInt 2)\<rparr>" True
        "(LastValueAfterFinish_init TyInt ''x'')\<lparr>lf_value := Some (VInt 2), lf_finished := True\<rparr>" True
        "LastValueAfterFinish_init TyInt ''x''"]
  by (simp add: LastValueAfterFinish_defs Let_def)

end
