(* ===== verification/Chan_Collect.thy ===== *)
theory Chan_Collect
  imports Chan_Base
begin

section \<open>Channels that collect: topics and named barriers\<close>

text \<open>
  \<open>Topic\<close> (\<open>channels/topic.py\<close>), \<open>NamedBarrierValue\<close> and \<open>NamedBarrierValueAfterFinish\<close>
  (\<open>channels/named_barrier_value.py\<close>). A barrier's names are strings: \<open>graph/state.py\<close> builds it
  from node names. An update that raises half-way loses the names it had already added; the
  model's error carries no state, since the exception ends the superstep.
\<close>

subsection \<open>Topic\<close>

record topic = base_channel +
  tp_values :: "pyval list"
  tp_accumulate :: bool

fun topic_flatten :: "pyval list \<Rightarrow> pyval list" where
  "topic_flatten [] = []"
| "topic_flatten (VList xs # vs) = xs @ topic_flatten vs"
| "topic_flatten (v # vs) = v # topic_flatten vs"

definition Topic_init :: "pytype \<Rightarrow> bool \<Rightarrow> topic" where
  "Topic_init typ accumulate =
     \<lparr>ch_typ = typ, ch_key = [], tp_values = [], tp_accumulate = accumulate\<rparr>"

definition Topic_copy :: "topic \<Rightarrow> topic" where
  "Topic_copy self =
     (let empty = Topic_init (ch_typ self) (tp_accumulate self)
      in empty\<lparr>ch_key := ch_key self, tp_values := tp_values self\<rparr>)"

definition Topic_checkpoint :: "topic \<Rightarrow> pyval option" where
  "Topic_checkpoint self = Some (VList (tp_values self))"

text \<open>
  A tuple is the old checkpoint format, whose second part is the list. A stored value that is
  not a list would be kept by Python and fail in the next \<open>update\<close>; here it raises at once.
\<close>

fun topic_blob :: "pyval \<Rightarrow> pyval list option" where
  "topic_blob (VTuple (a # VList vs # rest)) = Some vs"
| "topic_blob (VList vs) = Some vs"
| "topic_blob _ = None"

definition Topic_from_checkpoint :: "topic \<Rightarrow> pyval option \<Rightarrow> topic res" where
  "Topic_from_checkpoint self checkpoint =
     (let empty = (Topic_init (ch_typ self) (tp_accumulate self))\<lparr>ch_key := ch_key self\<rparr>
      in case checkpoint of
           None \<Rightarrow> Inr empty
         | Some ckpt \<Rightarrow>
             (case topic_blob ckpt of
                None \<Rightarrow> Inl (TypeError (ch_key self))
              | Some vs \<Rightarrow> Inr (empty\<lparr>tp_values := vs\<rparr>)))"

definition Topic_update :: "topic \<Rightarrow> pyval list \<Rightarrow> (bool \<times> topic) res" where
  "Topic_update self values =
     (let updated = (if \<not> tp_accumulate self then tp_values self \<noteq> [] else False);
          self = (if \<not> tp_accumulate self then self\<lparr>tp_values := []\<rparr> else self);
          flat_values = topic_flatten values
      in if flat_values \<noteq> [] then Inr (True, self\<lparr>tp_values := tp_values self @ flat_values\<rparr>)
         else Inr (updated, self))"

definition Topic_get :: "topic \<Rightarrow> pyval res" where
  "Topic_get self =
     (if tp_values self \<noteq> [] then Inr (VList (tp_values self)) else Inl EmptyChannelError)"

definition Topic_is_available :: "topic \<Rightarrow> bool" where
  "Topic_is_available self = (tp_values self \<noteq> [])"

lemmas Topic_defs =
  Topic_init_def Topic_copy_def Topic_checkpoint_def Topic_from_checkpoint_def Topic_update_def
  Topic_get_def Topic_is_available_def

interpretation topic_channel: persistent_channel
  Topic_get Topic_is_available Topic_update BaseChannel_consume BaseChannel_finish
  Topic_checkpoint Topic_from_checkpoint "\<lambda>c. c\<lparr>tp_values := []\<rparr>" "\<lambda>_. True"
  by unfold_locales
    (auto simp: Topic_defs BaseChannel_consume_def BaseChannel_finish_def Let_def
      split: option.splits if_splits)

lemma Topic_copy_id: "Topic_copy c = c"
  by (simp add: Topic_defs)

lemma topic_flatten_append: "topic_flatten (xs @ ys) = topic_flatten xs @ topic_flatten ys"
  by (induction xs rule: topic_flatten.induct) auto

lemma Topic_update_values:
  "Topic_update c vs = Inr (b, c') \<Longrightarrow>
   tp_values c' = (if tp_accumulate c then tp_values c else []) @ topic_flatten vs"
  by (auto simp: Topic_defs Let_def split: if_splits)

lemma Topic_update_total: "\<exists>b c'. Topic_update c vs = Inr (b, c')"
  by (auto simp: Topic_defs Let_def)

lemma Topic_update_flag:
  "Topic_update c vs = Inr (b, c') \<Longrightarrow>
   b = (topic_flatten vs \<noteq> [] \<or> \<not> tp_accumulate c \<and> tp_values c \<noteq> [])"
  by (auto simp: Topic_defs Let_def split: if_splits)

lemma Topic_update_accumulate: "Topic_update c vs = Inr (b, c') \<Longrightarrow> tp_accumulate c' = tp_accumulate c"
  by (auto simp: Topic_defs Let_def split: if_splits)

lemma Topic_steps_accumulate:
  assumes "rfold (\<lambda>c vs. rmap snd (Topic_update c vs)) c vss = Inr c'"
  shows "tp_accumulate c' = tp_accumulate c"
  by (rule rfold_invariant [OF assms, where P = "\<lambda>x. tp_accumulate x = tp_accumulate c"])
    (auto simp: rmap_Inr_iff dest: Topic_update_accumulate)

lemma Topic_steps_values:
  assumes "rfold (\<lambda>c vs. rmap snd (Topic_update c vs)) c vss = Inr c'" and "tp_accumulate c"
  shows "tp_values c' = tp_values c @ topic_flatten (concat vss)"
  using assms
proof (induction vss arbitrary: c)
  case (Cons vs vss)
  obtain b c1 where u: "Topic_update c vs = Inr (b, c1)" using Topic_update_total by blast
  with Cons.prems Topic_update_accumulate [OF u] show ?case
    by (simp add: Cons.IH Topic_update_values [OF u] topic_flatten_append)
qed simp

text \<open>
  An accumulating \<open>Topic\<close> over any number of steps holds everything ever published to it, lists
  flattened, in publication order; one that does not accumulate holds what the last step published.
\<close>

theorem Topic_accumulates:
  assumes "rfold (\<lambda>c vs. rmap snd (Topic_update c vs)) c (vss @ [vs]) = Inr c'"
  shows "tp_values c' =
    (if tp_accumulate c then tp_values c @ topic_flatten (concat vss @ vs) else topic_flatten vs)"
proof -
  obtain c1 b where r: "rfold (\<lambda>c vs. rmap snd (Topic_update c vs)) c vss = Inr c1"
    and u: "Topic_update c1 vs = Inr (b, c')"
    using assms by (auto simp: rfold_append rbind_Inr_iff rmap_Inr_iff)
  have "tp_accumulate c1 = tp_accumulate c"
    using r by (rule Topic_steps_accumulate)
  with Topic_update_values [OF u] Topic_steps_values [OF r] show ?thesis
    by (simp add: topic_flatten_append)
qed

lemma Topic_accumulates_witness:
  "tp_values ((Topic_init TyStr True)\<lparr>tp_values := [VInt 1, VInt 2, VInt 3]\<rparr>)
    = topic_flatten (concat [[VInt 1]] @ [VList [VInt 2, VInt 3]])"
  using Topic_accumulates [of "Topic_init TyStr True" "[[VInt 1]]" "[VList [VInt 2, VInt 3]]"
      "(Topic_init TyStr True)\<lparr>tp_values := [VInt 1, VInt 2, VInt 3]\<rparr>"]
  by (simp add: Topic_defs)

subsection \<open>NamedBarrierValue\<close>

record named_barrier = base_channel +
  nb_names :: "string set"
  nb_seen :: "string set"

definition NamedBarrierValue_init :: "pytype \<Rightarrow> string set \<Rightarrow> named_barrier" where
  "NamedBarrierValue_init typ names =
     \<lparr>ch_typ = typ, ch_key = [], nb_names = names, nb_seen = {}\<rparr>"

definition NamedBarrierValue_copy :: "named_barrier \<Rightarrow> named_barrier" where
  "NamedBarrierValue_copy self =
     (let empty = NamedBarrierValue_init (ch_typ self) (nb_names self)
      in empty\<lparr>ch_key := ch_key self, nb_seen := nb_seen self\<rparr>)"

definition NamedBarrierValue_checkpoint :: "named_barrier \<Rightarrow> pyval option" where
  "NamedBarrierValue_checkpoint self = Some (VStrSet (nb_seen self))"

definition NamedBarrierValue_from_checkpoint ::
  "named_barrier \<Rightarrow> pyval option \<Rightarrow> named_barrier res" where
  "NamedBarrierValue_from_checkpoint self checkpoint =
     (let empty = (NamedBarrierValue_init (ch_typ self) (nb_names self))\<lparr>ch_key := ch_key self\<rparr>
      in case checkpoint of
           None \<Rightarrow> Inr empty
         | Some (VStrSet s) \<Rightarrow> Inr (empty\<lparr>nb_seen := s\<rparr>)
         | Some _ \<Rightarrow> Inl (TypeError (ch_key self)))"

text \<open>The loop of \<open>update\<close>, shared by the two classes: it folds over \<open>(updated, seen)\<close>.\<close>

fun barrier_loop ::
  "string \<Rightarrow> string set \<Rightarrow> bool \<Rightarrow> string set \<Rightarrow> pyval list \<Rightarrow> (bool \<times> string set) res" where
  "barrier_loop key names updated seen [] = Inr (updated, seen)"
| "barrier_loop key names updated seen (VStr value # values) =
     (if value \<in> names
      then (if value \<notin> seen then barrier_loop key names True (insert value seen) values
            else barrier_loop key names updated seen values)
      else Inl (InvalidUpdateError key))"
| "barrier_loop key names updated seen (value # values) = Inl (InvalidUpdateError key)"

definition NamedBarrierValue_update ::
  "named_barrier \<Rightarrow> pyval list \<Rightarrow> (bool \<times> named_barrier) res" where
  "NamedBarrierValue_update self values =
     rmap (\<lambda>(updated, seen). (updated, self\<lparr>nb_seen := seen\<rparr>))
       (barrier_loop (ch_key self) (nb_names self) False (nb_seen self) values)"

definition NamedBarrierValue_get :: "named_barrier \<Rightarrow> pyval res" where
  "NamedBarrierValue_get self =
     (if nb_seen self \<noteq> nb_names self then Inl EmptyChannelError else Inr VNone)"

definition NamedBarrierValue_is_available :: "named_barrier \<Rightarrow> bool" where
  "NamedBarrierValue_is_available self = (nb_seen self = nb_names self)"

definition NamedBarrierValue_consume :: "named_barrier \<Rightarrow> bool \<times> named_barrier" where
  "NamedBarrierValue_consume self =
     (if nb_seen self = nb_names self then (True, self\<lparr>nb_seen := {}\<rparr>) else (False, self))"

lemmas NamedBarrierValue_defs =
  NamedBarrierValue_init_def NamedBarrierValue_copy_def NamedBarrierValue_checkpoint_def
  NamedBarrierValue_from_checkpoint_def NamedBarrierValue_update_def NamedBarrierValue_get_def
  NamedBarrierValue_is_available_def NamedBarrierValue_consume_def

definition barrier_values :: "pyval list \<Rightarrow> string set" where
  "barrier_values vs = {s. VStr s \<in> set vs}"

lemma barrier_values_simps [simp]:
  "barrier_values [] = {}"
  "barrier_values (VStr s # vs) = insert s (barrier_values vs)"
  by (auto simp: barrier_values_def)

lemma barrier_loop_seen:
  "barrier_loop key names u seen vs = Inr (u', seen') \<Longrightarrow>
   seen' = seen \<union> barrier_values vs \<and> barrier_values vs \<subseteq> names \<and> (\<forall>v \<in> set vs. \<exists>s. v = VStr s)"
  by (induction key names u seen vs rule: barrier_loop.induct) (auto split: if_splits)

lemma barrier_loop_flag:
  "barrier_loop key names u seen vs = Inr (u', seen') \<Longrightarrow> u' = (u \<or> seen' \<noteq> seen)"
  by (induction key names u seen vs rule: barrier_loop.induct)
    (auto split: if_splits dest: barrier_loop_seen)

lemma barrier_loop_accepts:
  "(\<forall>v \<in> set vs. \<exists>s \<in> names. v = VStr s) \<Longrightarrow>
   \<exists>u'. barrier_loop key names u seen vs = Inr (u', seen \<union> barrier_values vs)"
  by (induction key names u seen vs rule: barrier_loop.induct) (auto simp: insert_absorb)

lemma barrier_loop_rejects:
  "\<not> (\<forall>v \<in> set vs. \<exists>s \<in> names. v = VStr s) \<Longrightarrow>
   barrier_loop key names u seen vs = Inl (InvalidUpdateError key)"
  by (induction key names u seen vs rule: barrier_loop.induct) auto

interpretation barrier: persistent_channel
  NamedBarrierValue_get NamedBarrierValue_is_available NamedBarrierValue_update
  NamedBarrierValue_consume BaseChannel_finish NamedBarrierValue_checkpoint
  NamedBarrierValue_from_checkpoint "\<lambda>c. c\<lparr>nb_seen := {}\<rparr>" "\<lambda>_. True"
  by unfold_locales
    (auto simp: NamedBarrierValue_defs BaseChannel_finish_def Let_def rmap_Inr_iff
      dest: barrier_loop_flag split: option.splits if_splits pyval.splits)

subsection \<open>NamedBarrierValueAfterFinish\<close>

record named_barrier_after_finish = base_channel +
  nf_names :: "string set"
  nf_seen :: "string set"
  nf_finished :: bool

definition NamedBarrierValueAfterFinish_init ::
  "pytype \<Rightarrow> string set \<Rightarrow> named_barrier_after_finish" where
  "NamedBarrierValueAfterFinish_init typ names =
     \<lparr>ch_typ = typ, ch_key = [], nf_names = names, nf_seen = {}, nf_finished = False\<rparr>"

definition NamedBarrierValueAfterFinish_copy ::
  "named_barrier_after_finish \<Rightarrow> named_barrier_after_finish" where
  "NamedBarrierValueAfterFinish_copy self =
     (let empty = NamedBarrierValueAfterFinish_init (ch_typ self) (nf_names self)
      in empty\<lparr>ch_key := ch_key self, nf_seen := nf_seen self, nf_finished := nf_finished self\<rparr>)"

definition NamedBarrierValueAfterFinish_checkpoint ::
  "named_barrier_after_finish \<Rightarrow> pyval option" where
  "NamedBarrierValueAfterFinish_checkpoint self =
     Some (VTuple [VStrSet (nf_seen self), VBool (nf_finished self)])"

definition NamedBarrierValueAfterFinish_from_checkpoint ::
  "named_barrier_after_finish \<Rightarrow> pyval option \<Rightarrow> named_barrier_after_finish res" where
  "NamedBarrierValueAfterFinish_from_checkpoint self checkpoint =
     (let empty = (NamedBarrierValueAfterFinish_init (ch_typ self) (nf_names self))
                    \<lparr>ch_key := ch_key self\<rparr>
      in case checkpoint of
           None \<Rightarrow> Inr empty
         | Some ckpt \<Rightarrow>
             (case unpack2 ckpt of
                Some (VStrSet s, f) \<Rightarrow> Inr (empty\<lparr>nf_seen := s, nf_finished := py_bool f\<rparr>)
              | _ \<Rightarrow> Inl (TypeError (ch_key self))))"

definition NamedBarrierValueAfterFinish_update ::
  "named_barrier_after_finish \<Rightarrow> pyval list \<Rightarrow> (bool \<times> named_barrier_after_finish) res" where
  "NamedBarrierValueAfterFinish_update self values =
     rmap (\<lambda>(updated, seen). (updated, self\<lparr>nf_seen := seen\<rparr>))
       (barrier_loop (ch_key self) (nf_names self) False (nf_seen self) values)"

definition NamedBarrierValueAfterFinish_get :: "named_barrier_after_finish \<Rightarrow> pyval res" where
  "NamedBarrierValueAfterFinish_get self =
     (if \<not> nf_finished self \<or> nf_seen self \<noteq> nf_names self then Inl EmptyChannelError
      else Inr VNone)"

definition NamedBarrierValueAfterFinish_is_available :: "named_barrier_after_finish \<Rightarrow> bool" where
  "NamedBarrierValueAfterFinish_is_available self =
     (nf_finished self \<and> nf_seen self = nf_names self)"

definition NamedBarrierValueAfterFinish_consume ::
  "named_barrier_after_finish \<Rightarrow> bool \<times> named_barrier_after_finish" where
  "NamedBarrierValueAfterFinish_consume self =
     (if nf_finished self \<and> nf_seen self = nf_names self
      then (True, self\<lparr>nf_finished := False, nf_seen := {}\<rparr>) else (False, self))"

definition NamedBarrierValueAfterFinish_finish ::
  "named_barrier_after_finish \<Rightarrow> bool \<times> named_barrier_after_finish" where
  "NamedBarrierValueAfterFinish_finish self =
     (if \<not> nf_finished self \<and> nf_seen self = nf_names self
      then (True, self\<lparr>nf_finished := True\<rparr>) else (False, self))"

lemmas NamedBarrierValueAfterFinish_defs =
  NamedBarrierValueAfterFinish_init_def NamedBarrierValueAfterFinish_copy_def
  NamedBarrierValueAfterFinish_checkpoint_def NamedBarrierValueAfterFinish_from_checkpoint_def
  NamedBarrierValueAfterFinish_update_def NamedBarrierValueAfterFinish_get_def
  NamedBarrierValueAfterFinish_is_available_def NamedBarrierValueAfterFinish_consume_def
  NamedBarrierValueAfterFinish_finish_def

definition NamedBarrierValueAfterFinish_spec ::
  "named_barrier_after_finish \<Rightarrow> named_barrier_after_finish" where
  "NamedBarrierValueAfterFinish_spec c = c\<lparr>nf_seen := {}, nf_finished := False\<rparr>"

interpretation barrier_finish: persistent_channel
  NamedBarrierValueAfterFinish_get NamedBarrierValueAfterFinish_is_available
  NamedBarrierValueAfterFinish_update NamedBarrierValueAfterFinish_consume
  NamedBarrierValueAfterFinish_finish NamedBarrierValueAfterFinish_checkpoint
  NamedBarrierValueAfterFinish_from_checkpoint NamedBarrierValueAfterFinish_spec "\<lambda>_. True"
  by unfold_locales
    (auto simp: NamedBarrierValueAfterFinish_defs NamedBarrierValueAfterFinish_spec_def Let_def
      rmap_Inr_iff dest: barrier_loop_flag split: option.splits if_splits pyval.splits)

lemma barrier_copies:
  "NamedBarrierValue_copy c = c" "NamedBarrierValueAfterFinish_copy d = d"
  by (simp_all add: NamedBarrierValue_defs NamedBarrierValueAfterFinish_defs)

subsection \<open>A barrier waits for every name\<close>

text \<open>
  Over any number of steps since the last reset, the barrier opens exactly when every name has
  been written; the names already seen do not matter for the order.
\<close>

lemma NamedBarrierValue_steps_seen:
  assumes "rfold (\<lambda>c vs. rmap snd (NamedBarrierValue_update c vs)) c vss = Inr c'"
  shows "nb_seen c' = nb_seen c \<union> barrier_values (concat vss) \<and> nb_names c' = nb_names c
    \<and> barrier_values (concat vss) \<subseteq> nb_names c"
  using assms
proof (induction vss arbitrary: c)
  case (Cons vs vss)
  then obtain u s where l: "barrier_loop (ch_key c) (nb_names c) False (nb_seen c) vs = Inr (u, s)"
    and r: "rfold (\<lambda>c vs. rmap snd (NamedBarrierValue_update c vs)) (c\<lparr>nb_seen := s\<rparr>) vss = Inr c'"
    by (auto simp: rbind_Inr_iff rmap_Inr_iff NamedBarrierValue_update_def)
  from barrier_loop_seen [OF l] Cons.IH [OF r] show ?case
    by (auto simp: barrier_values_def)
qed simp

text \<open>
  A fresh barrier that takes writes over any number of steps becomes available exactly when the
  names written, in whatever order and multiplicity, are all the names it waits for; consuming it
  then empties it, and consuming it earlier does nothing.
\<close>

theorem NamedBarrierValue_opens:
  assumes "rfold (\<lambda>c vs. rmap snd (NamedBarrierValue_update c vs)) c vss = Inr c'" and "nb_seen c = {}"
  shows "(NamedBarrierValue_is_available c' \<longleftrightarrow> barrier_values (concat vss) = nb_names c)
    \<and> NamedBarrierValue_consume c'
        = (if barrier_values (concat vss) = nb_names c then (True, c'\<lparr>nb_seen := {}\<rparr>) else (False, c'))"
  using NamedBarrierValue_steps_seen [OF assms(1)] assms(2)
  by (auto simp: NamedBarrierValue_defs)

lemma NamedBarrierValue_opens_witness:
  "NamedBarrierValue_is_available
     ((NamedBarrierValue_init TyStr {''a'', ''b''})\<lparr>nb_seen := {''a'', ''b''}\<rparr>)"
proof -
  let ?c = "NamedBarrierValue_init TyStr {''a'', ''b''}"
  have "rfold (\<lambda>c vs. rmap snd (NamedBarrierValue_update c vs)) ?c [[VStr ''b''], [VStr ''a'', VStr ''b'']]
      = Inr (?c\<lparr>nb_seen := {''a'', ''b''}\<rparr>)"
    by (simp add: NamedBarrierValue_defs)
  from NamedBarrierValue_opens [OF this] show ?thesis
    by (auto simp: NamedBarrierValue_init_def)
qed

end
