(* ===== verification/Chan_Reduce.thy ===== *)
theory Chan_Reduce
  imports Chan_Base
begin

section \<open>Channels with a reducer\<close>

text \<open>
  \<open>BinaryOperatorAggregate\<close> (\<open>channels/binop.py\<close>) folds a binary operator over the writes of a
  step; \<open>DeltaChannel\<close> (\<open>channels/delta.py\<close>) hands a batch of writes to a reducer, checkpoints
  only a sentinel, and is rebuilt by replaying the writes of its ancestors. The operator and the
  reducer are the user's functions: parameters that may raise. \<open>copy.copy\<close> of a value is the value.
\<close>

subsection \<open>BinaryOperatorAggregate\<close>

record binop_aggregate = base_channel +
  bo_operator :: binary_reducer
  bo_value :: "pyval option"

definition BinaryOperatorAggregate_init :: "pytype \<Rightarrow> binary_reducer \<Rightarrow> binop_aggregate" where
  "BinaryOperatorAggregate_init typ operator =
     \<lparr>ch_typ = typ, ch_key = [], bo_operator = operator,
      bo_value = call_type (concrete_type typ)\<rparr>"

definition BinaryOperatorAggregate_eq :: "binop_aggregate \<Rightarrow> binop_aggregate \<Rightarrow> bool" where
  "BinaryOperatorAggregate_eq a b =
     operators_equal (br_name (bo_operator a)) (br_id (bo_operator a))
       (br_name (bo_operator b)) (br_id (bo_operator b))"

definition BinaryOperatorAggregate_copy :: "binop_aggregate \<Rightarrow> binop_aggregate" where
  "BinaryOperatorAggregate_copy self =
     (let empty = BinaryOperatorAggregate_init (ch_typ self) (bo_operator self)
      in empty\<lparr>ch_key := ch_key self, bo_value := bo_value self\<rparr>)"

definition BinaryOperatorAggregate_from_checkpoint ::
  "binop_aggregate \<Rightarrow> pyval option \<Rightarrow> binop_aggregate res" where
  "BinaryOperatorAggregate_from_checkpoint self checkpoint =
     (let empty = (BinaryOperatorAggregate_init (ch_typ self) (bo_operator self))
                    \<lparr>ch_key := ch_key self\<rparr>
      in Inr (case checkpoint of None \<Rightarrow> empty | Some v \<Rightarrow> empty\<lparr>bo_value := Some v\<rparr>))"

text \<open>The loop over the values: the flag is \<open>seen_overwrite\<close>.\<close>

fun binop_loop :: "string \<Rightarrow> (pyval \<Rightarrow> pyval \<Rightarrow> pyval res) \<Rightarrow> bool \<Rightarrow> pyval \<Rightarrow> pyval list \<Rightarrow> pyval res" where
  "binop_loop key f seen_overwrite cur [] = Inr cur"
| "binop_loop key f seen_overwrite cur (value # values) =
     (case get_overwrite value of
        Some overwrite_value \<Rightarrow>
          (if seen_overwrite then Inl (InvalidUpdateError key)
           else binop_loop key f True overwrite_value values)
      | None \<Rightarrow>
          (if \<not> seen_overwrite
           then rbind (f cur value) (\<lambda>cur'. binop_loop key f seen_overwrite cur' values)
           else binop_loop key f seen_overwrite cur values))"

definition BinaryOperatorAggregate_update ::
  "binop_aggregate \<Rightarrow> pyval list \<Rightarrow> (bool \<times> binop_aggregate) res" where
  "BinaryOperatorAggregate_update self values =
     (case values of
        [] \<Rightarrow> Inr (False, self)
      | v0 # rest \<Rightarrow>
          rmap (\<lambda>v. (True, self\<lparr>bo_value := Some v\<rparr>))
            (case bo_value self of
               None \<Rightarrow> binop_loop (ch_key self) (br_call (bo_operator self)) False v0 rest
             | Some cur \<Rightarrow> binop_loop (ch_key self) (br_call (bo_operator self)) False cur values))"

definition BinaryOperatorAggregate_get :: "binop_aggregate \<Rightarrow> pyval res" where
  "BinaryOperatorAggregate_get self =
     (case bo_value self of None \<Rightarrow> Inl EmptyChannelError | Some v \<Rightarrow> Inr v)"

definition BinaryOperatorAggregate_is_available :: "binop_aggregate \<Rightarrow> bool" where
  "BinaryOperatorAggregate_is_available self = (bo_value self \<noteq> None)"

definition BinaryOperatorAggregate_checkpoint :: "binop_aggregate \<Rightarrow> pyval option" where
  "BinaryOperatorAggregate_checkpoint self = bo_value self"

lemmas BinaryOperatorAggregate_defs =
  BinaryOperatorAggregate_init_def BinaryOperatorAggregate_copy_def
  BinaryOperatorAggregate_from_checkpoint_def BinaryOperatorAggregate_update_def
  BinaryOperatorAggregate_get_def BinaryOperatorAggregate_is_available_def
  BinaryOperatorAggregate_checkpoint_def

text \<open>The invariant: a channel whose type has a default value is never empty.\<close>

definition BinaryOperatorAggregate_inv :: "binop_aggregate \<Rightarrow> bool" where
  "BinaryOperatorAggregate_inv c =
     (bo_value c = None \<longrightarrow> call_type (concrete_type (ch_typ c)) = None)"

interpretation binop: persistent_channel
  BinaryOperatorAggregate_get BinaryOperatorAggregate_is_available BinaryOperatorAggregate_update
  BaseChannel_consume BaseChannel_finish BinaryOperatorAggregate_checkpoint
  BinaryOperatorAggregate_from_checkpoint "\<lambda>c. c\<lparr>bo_value := None\<rparr>" BinaryOperatorAggregate_inv
  by unfold_locales
    (auto simp: BinaryOperatorAggregate_defs BinaryOperatorAggregate_inv_def BaseChannel_consume_def
      BaseChannel_finish_def Let_def rmap_Inr_iff split: option.splits list.splits if_splits)

lemma BinaryOperatorAggregate_copy_id: "BinaryOperatorAggregate_copy c = c"
  by (simp add: BinaryOperatorAggregate_defs)

lemma BinaryOperatorAggregate_init_inv: "BinaryOperatorAggregate_inv (BinaryOperatorAggregate_init typ f)"
  by (simp add: BinaryOperatorAggregate_inv_def BinaryOperatorAggregate_init_def)

lemma binop_loop_plain:
  "\<forall>v \<in> set vs. \<not> is_overwrite v \<Longrightarrow> binop_loop key f False cur vs = rfold f cur vs"
  by (induction vs arbitrary: cur) auto

lemma binop_loop_seen:
  "binop_loop key f True cur vs =
     (if \<exists>v \<in> set vs. is_overwrite v then Inl (InvalidUpdateError key) else Inr cur)"
  by (induction vs) (auto split: option.splits)

lemma binop_loop_split:
  "\<forall>v \<in> set pre. \<not> is_overwrite v \<Longrightarrow>
   binop_loop key f False cur (pre @ vs) = rbind (rfold f cur pre) (\<lambda>c. binop_loop key f False c vs)"
  by (induction pre arbitrary: cur) (auto simp: rbind_def split: sum.splits)

subsection \<open>DeltaChannel\<close>

record delta_channel = base_channel +
  dc_reducer :: batch_reducer
  dc_snapshot_frequency :: int
  dc_value :: "pyval option"

definition DeltaChannel_init ::
  "batch_reducer \<Rightarrow> pytype option \<Rightarrow> int \<Rightarrow> delta_channel res" where
  "DeltaChannel_init reducer typ snapshot_frequency =
     (if snapshot_frequency \<le> 0 then Inl (ValueError ''snapshot_frequency must be a positive int'')
      else let typ = (case typ of None \<Rightarrow> TyList | Some t \<Rightarrow> t)
           in Inr \<lparr>ch_typ = concrete_type typ, ch_key = [], dc_reducer = reducer,
                   dc_snapshot_frequency = snapshot_frequency, dc_value = None\<rparr>)"

definition DeltaChannel_eq :: "delta_channel \<Rightarrow> delta_channel \<Rightarrow> bool" where
  "DeltaChannel_eq a b =
     (if dc_snapshot_frequency a \<noteq> dc_snapshot_frequency b then False
      else operators_equal (dr_name (dc_reducer a)) (dr_id (dc_reducer a))
             (dr_name (dc_reducer b)) (dr_id (dc_reducer b)))"

definition DeltaChannel_copy :: "delta_channel \<Rightarrow> delta_channel res" where
  "DeltaChannel_copy self =
     rmap (\<lambda>new. new\<lparr>ch_key := ch_key self, dc_value := dc_value self\<rparr>)
       (DeltaChannel_init (dc_reducer self) (Some (ch_typ self)) (dc_snapshot_frequency self))"

text \<open>\<open>self.typ()\<close>, which raises when the type cannot be called without arguments.\<close>

definition delta_default :: "delta_channel \<Rightarrow> pyval res" where
  "delta_default self =
     (case call_type (ch_typ self) of None \<Rightarrow> Inl (TypeError (ch_key self)) | Some v \<Rightarrow> Inr v)"

definition DeltaChannel_from_checkpoint ::
  "delta_channel \<Rightarrow> pyval option \<Rightarrow> delta_channel res" where
  "DeltaChannel_from_checkpoint self checkpoint =
     rbind (DeltaChannel_init (dc_reducer self) (Some (ch_typ self)) (dc_snapshot_frequency self))
       (\<lambda>new. let new = new\<lparr>ch_key := ch_key self\<rparr> in
          case checkpoint of
            None \<Rightarrow> rmap (\<lambda>v. new\<lparr>dc_value := Some v\<rparr>) (delta_default self)
          | Some (VDeltaSnapshot v) \<Rightarrow> Inr (new\<lparr>dc_value := Some v\<rparr>)
          | Some v \<Rightarrow> Inr (new\<lparr>dc_value := Some v\<rparr>))"

definition overwrite_base :: "delta_channel \<Rightarrow> pyval \<Rightarrow> pyval res" where
  "overwrite_base self ow_value = (if ow_value \<noteq> VNone then Inr ow_value else delta_default self)"

text \<open>
  The scan of \<open>replay_writes\<close> keeps the last reset point: the new base and the writes after it.
\<close>

fun replay_scan ::
  "delta_channel \<Rightarrow> pyval option \<Rightarrow> pyval list \<Rightarrow> pyval list \<Rightarrow> (pyval option \<times> pyval list) res" where
  "replay_scan self base remaining [] = Inr (base, remaining)"
| "replay_scan self base remaining (v # vs) =
     (case get_overwrite v of
        Some ow_value \<Rightarrow>
          rbind (overwrite_base self ow_value) (\<lambda>b. replay_scan self (Some b) [] vs)
      | None \<Rightarrow> replay_scan self base (remaining @ [v]) vs)"

text \<open>
  \<open>replay_writes\<close> is only called on a channel fresh from \<open>from_checkpoint\<close>, whose value is set;
  on an empty one Python would hand the sentinel \<open>MISSING\<close> to the reducer, here an error.
\<close>

definition DeltaChannel_replay_writes ::
  "delta_channel \<Rightarrow> (string \<times> string \<times> pyval) list \<Rightarrow> delta_channel res" where
  "DeltaChannel_replay_writes self writes =
     (let values = map (\<lambda>(_, _, v). v) writes in
      if values = [] then Inr self
      else rbind (replay_scan self (dc_value self) [] values)
        (\<lambda>(base, remaining).
           if remaining \<noteq> []
           then (case base of
                   None \<Rightarrow> Inl (UserError ''MISSING'')
                 | Some b \<Rightarrow> rmap (\<lambda>v. self\<lparr>dc_value := Some v\<rparr>)
                               (dr_call (dc_reducer self) b remaining))
           else Inr (self\<lparr>dc_value := base\<rparr>)))"

text \<open>The first loop of \<open>update\<close>: the overwrite of the batch, if any.\<close>

fun find_overwrite :: "string \<Rightarrow> pyval option \<Rightarrow> pyval list \<Rightarrow> pyval option res" where
  "find_overwrite key found [] = Inr found"
| "find_overwrite key found (v # vs) =
     (case get_overwrite v of
        None \<Rightarrow> find_overwrite key found vs
      | Some ow_value \<Rightarrow>
          (if found \<noteq> None then Inl (InvalidUpdateError key)
           else find_overwrite key (Some ow_value) vs))"

definition DeltaChannel_update ::
  "delta_channel \<Rightarrow> pyval list \<Rightarrow> (bool \<times> delta_channel) res" where
  "DeltaChannel_update self values =
     (if values = [] then Inr (False, self)
      else rbind (find_overwrite (ch_key self) None values)
        (\<lambda>overwrite. case overwrite of
           Some overwrite_value \<Rightarrow>
             rmap (\<lambda>v. (True, self\<lparr>dc_value := Some v\<rparr>)) (overwrite_base self overwrite_value)
         | None \<Rightarrow>
             rbind (case dc_value self of None \<Rightarrow> delta_default self | Some v \<Rightarrow> Inr v)
               (\<lambda>base. rmap (\<lambda>v. (True, self\<lparr>dc_value := Some v\<rparr>))
                          (dr_call (dc_reducer self) base values))))"

definition DeltaChannel_get :: "delta_channel \<Rightarrow> pyval res" where
  "DeltaChannel_get self =
     (case dc_value self of None \<Rightarrow> Inl EmptyChannelError | Some v \<Rightarrow> Inr v)"

definition DeltaChannel_is_available :: "delta_channel \<Rightarrow> bool" where
  "DeltaChannel_is_available self = (dc_value self \<noteq> None)"

definition DeltaChannel_checkpoint :: "delta_channel \<Rightarrow> pyval option" where
  "DeltaChannel_checkpoint self = None"

lemmas DeltaChannel_defs =
  DeltaChannel_init_def DeltaChannel_copy_def DeltaChannel_from_checkpoint_def
  DeltaChannel_replay_writes_def DeltaChannel_update_def DeltaChannel_get_def
  DeltaChannel_is_available_def DeltaChannel_checkpoint_def delta_default_def overwrite_base_def

definition DeltaChannel_inv :: "delta_channel \<Rightarrow> bool" where
  "DeltaChannel_inv c = (0 < dc_snapshot_frequency c \<and> concrete_type (ch_typ c) = ch_typ c)"

lemma DeltaChannel_init_inv: "DeltaChannel_init r t n = Inr c \<Longrightarrow> DeltaChannel_inv c"
  by (auto simp: DeltaChannel_init_def DeltaChannel_inv_def Let_def split: if_splits)

lemma DeltaChannel_init_self:
  "DeltaChannel_inv c \<Longrightarrow>
   DeltaChannel_init (dc_reducer c) (Some (ch_typ c)) (dc_snapshot_frequency c)
     = Inr (c\<lparr>ch_key := [], dc_value := None\<rparr>)"
  by (simp add: DeltaChannel_init_def DeltaChannel_inv_def)

lemma DeltaChannel_copy_id: "DeltaChannel_inv c \<Longrightarrow> DeltaChannel_copy c = Inr c"
  by (simp add: DeltaChannel_copy_def DeltaChannel_init_self)

interpretation delta: channel_class
  DeltaChannel_get DeltaChannel_is_available DeltaChannel_update
  BaseChannel_consume BaseChannel_finish DeltaChannel_checkpoint
  DeltaChannel_from_checkpoint "\<lambda>c. c\<lparr>dc_value := None\<rparr>" DeltaChannel_inv
proof unfold_locales
  fix c :: delta_channel and x c'
  assume "DeltaChannel_inv c" and "DeltaChannel_from_checkpoint c x = Inr c'"
  then show "c'\<lparr>dc_value := None\<rparr> = c\<lparr>dc_value := None\<rparr>" and "DeltaChannel_inv c'"
    by (auto simp: DeltaChannel_from_checkpoint_def DeltaChannel_init_self rmap_Inr_iff Let_def
        DeltaChannel_inv_def split: option.splits pyval.splits)
qed (auto simp: DeltaChannel_defs DeltaChannel_inv_def BaseChannel_consume_def
    BaseChannel_finish_def Let_def rmap_Inr_iff rbind_Inr_iff
    split: option.splits if_splits)

subsection \<open>Replaying writes reconstructs the live value\<close>

text \<open>
  The documented requirement on a reducer: two consecutive batches give what their concatenation
  gives.
\<close>

definition batching_invariant :: "(pyval \<Rightarrow> pyval list \<Rightarrow> pyval res) \<Rightarrow> bool" where
  "batching_invariant r =
     (\<forall>s xs ys. xs \<noteq> [] \<longrightarrow> ys \<noteq> [] \<longrightarrow> rbind (r s xs) (\<lambda>s'. r s' ys) = r s (xs @ ys))"

lemma batching_invariantD:
  "batching_invariant r \<Longrightarrow> xs \<noteq> [] \<Longrightarrow> ys \<noteq> [] \<Longrightarrow> rbind (r s xs) (\<lambda>s'. r s' ys) = r s (xs @ ys)"
  by (simp add: batching_invariant_def)

text \<open>The same for the states in \<open>P\<close>, which the reducer does not leave.\<close>

definition batching_on :: "(pyval \<Rightarrow> bool) \<Rightarrow> (pyval \<Rightarrow> pyval list \<Rightarrow> pyval res) \<Rightarrow> bool" where
  "batching_on P r =
     ((\<forall>s xs ys. P s \<longrightarrow> xs \<noteq> [] \<longrightarrow> ys \<noteq> [] \<longrightarrow> rbind (r s xs) (\<lambda>s'. r s' ys) = r s (xs @ ys))
      \<and> (\<forall>s xs s'. P s \<longrightarrow> r s xs = Inr s' \<longrightarrow> P s'))"

lemma batching_onD:
  "batching_on P r \<Longrightarrow> P s \<Longrightarrow> xs \<noteq> [] \<Longrightarrow> ys \<noteq> [] \<Longrightarrow> rbind (r s xs) (\<lambda>s'. r s' ys) = r s (xs @ ys)"
  "batching_on P r \<Longrightarrow> P s \<Longrightarrow> r s xs = Inr s' \<Longrightarrow> P s'"
  unfolding batching_on_def by blast+

lemma batching_on_True: "batching_invariant r \<Longrightarrow> batching_on (\<lambda>s. True) r"
  by (simp add: batching_invariant_def batching_on_def)

definition delta_steps :: "delta_channel \<Rightarrow> pyval list list \<Rightarrow> delta_channel res" where
  "delta_steps c vss = rfold (\<lambda>c vs. rmap snd (DeltaChannel_update c vs)) c vss"

definition as_writes :: "pyval list \<Rightarrow> (string \<times> string \<times> pyval) list" where
  "as_writes vs = map (\<lambda>v. ([], [], v)) vs"

lemma find_overwrite_none:
  "find_overwrite key found vs = Inr None \<longleftrightarrow> found = None \<and> (\<forall>v \<in> set vs. \<not> is_overwrite v)"
  by (induction vs arbitrary: found) (auto split: option.splits)

lemma find_overwrite_plain:
  "\<forall>v \<in> set vs. \<not> is_overwrite v \<Longrightarrow> find_overwrite key found vs = Inr found"
  by (induction vs arbitrary: found) auto

lemma find_overwrite_append:
  "find_overwrite key f (xs @ ys) = rbind (find_overwrite key f xs) (\<lambda>f'. find_overwrite key f' ys)"
  by (induction xs arbitrary: f) (auto split: option.splits)

lemma DeltaChannel_update_plain:
  "\<forall>v \<in> set vs. \<not> is_overwrite v \<Longrightarrow> vs \<noteq> [] \<Longrightarrow> dc_value c = Some s \<Longrightarrow>
   DeltaChannel_update c vs = rmap (\<lambda>v. (True, c\<lparr>dc_value := Some v\<rparr>)) (dr_call (dc_reducer c) s vs)"
  by (simp add: DeltaChannel_update_def find_overwrite_plain)

lemma DeltaChannel_update_overwrite:
  assumes "\<forall>v \<in> set pre. \<not> is_overwrite v" and "get_overwrite w = Some x"
    and "\<forall>v \<in> set post. \<not> is_overwrite v"
  shows "DeltaChannel_update c (pre @ w # post) =
     rmap (\<lambda>v. (True, c\<lparr>dc_value := Some v\<rparr>)) (overwrite_base c x)"
  using assms by (simp add: DeltaChannel_update_def find_overwrite_append find_overwrite_plain)

lemma replay_scan_plain:
  "\<forall>v \<in> set vs. \<not> is_overwrite v \<Longrightarrow> replay_scan c b rem (vs @ ws) = replay_scan c b (rem @ vs) ws"
  by (induction vs arbitrary: rem) auto

text \<open>The scan over one step's batch, as the live update sees it.\<close>

lemma replay_scan_batch:
  assumes "\<forall>v \<in> set pre. \<not> is_overwrite v" and "get_overwrite w = Some x"
  shows "replay_scan c b rem (pre @ w # post)
    = rbind (overwrite_base c x) (\<lambda>b'. replay_scan c (Some b') [] post)"
  using assms by (simp add: replay_scan_plain)

text \<open>A batch is resettable when its overwrite, if it has one, is the batch's last write.\<close>

definition overwrite_last :: "pyval list \<Rightarrow> bool" where
  "overwrite_last vs = (\<forall>v \<in> set (butlast vs). \<not> is_overwrite v)"

text \<open>What a reset point and the writes since reduce to.\<close>

definition log_value :: "(pyval \<Rightarrow> pyval list \<Rightarrow> pyval res) \<Rightarrow> pyval \<Rightarrow> pyval list \<Rightarrow> pyval res" where
  "log_value r s0 rem = (if rem = [] then Inr s0 else r s0 rem)"

lemma log_value_Nil [simp]: "log_value r s0 [] = Inr s0"
  by (simp add: log_value_def)

lemma log_value_append:
  assumes "batching_on P r" and "log_value r s0 rem = Inr s" and "vs \<noteq> []" and "P s0"
  shows "log_value r s0 (rem @ vs) = r s vs"
  using assms batching_onD(1) [OF assms(1,4), of rem vs]
  by (auto simp: log_value_def split: if_splits)

lemma replay_scan_value_irrelevant [simp]:
  "replay_scan (c\<lparr>dc_value := x\<rparr>) bs rem ws = replay_scan c bs rem ws"
  by (induction ws arbitrary: bs rem)
    (auto simp: overwrite_base_def delta_default_def rbind_def split: option.splits sum.splits)

text \<open>The values that overwrites reset the channel to are in \<open>P\<close>.\<close>

definition resets_in :: "(pyval \<Rightarrow> bool) \<Rightarrow> delta_channel \<Rightarrow> pyval list list \<Rightarrow> bool" where
  "resets_in P c vss =
     (\<forall>vs \<in> set vss. \<forall>v \<in> set vs. \<forall>x b. get_overwrite v = Some x \<and> overwrite_base c x = Inr b \<longrightarrow> P b)"

lemma overwrite_base_value [simp]: "overwrite_base (c\<lparr>dc_value := x\<rparr>) = overwrite_base c"
  by (intro ext) (simp add: overwrite_base_def delta_default_def split: option.splits)

text \<open>
  Generalised over the part of the log already scanned: \<open>s0\<close> is the last reset point and \<open>rem\<close>
  the writes since, whose reduction is the channel's live value.
\<close>

lemma delta_replay_step:
  assumes "delta_steps c vss = Inr c'" and "\<forall>vs \<in> set vss. overwrite_last vs"
    and "batching_on P (dr_call (dc_reducer c))" and "resets_in P c vss" and "P s0"
    and "dc_value c = Some s" and "log_value (dr_call (dc_reducer c)) s0 rem = Inr s"
  shows "\<exists>s0' rem' s'. replay_scan c (Some s0) rem (concat vss) = Inr (Some s0', rem')
    \<and> log_value (dr_call (dc_reducer c)) s0' rem' = Inr s' \<and> c' = c\<lparr>dc_value := Some s'\<rparr>"
  using assms
proof (induction vss arbitrary: c s s0 rem)
  case Nil
  then show ?case by (auto simp: delta_steps_def)
next
  case (Cons vs vss)
  obtain b c1 where u: "DeltaChannel_update c vs = Inr (b, c1)" and r: "delta_steps c1 vss = Inr c'"
    using Cons.prems(1) by (auto simp: delta_steps_def rbind_Inr_iff rmap_Inr_iff)
  have resets: "resets_in P (c\<lparr>dc_value := x\<rparr>) vss" for x
    using Cons.prems(4) by (auto simp: resets_in_def)
  have resets0: "resets_in P c vss"
    using Cons.prems(4) by (auto simp: resets_in_def)
  consider (empty) "vs = []" | (plain) "vs \<noteq> []" "\<forall>v \<in> set vs. \<not> is_overwrite v"
    | (over) pre w x where "vs = pre @ [w]" "\<forall>v \<in> set pre. \<not> is_overwrite v" "get_overwrite w = Some x"
    using Cons.prems(2) unfolding overwrite_last_def
    by (cases vs rule: rev_cases) auto
  then show ?case
  proof cases
    case empty
    with u have "c1 = c" by (simp add: DeltaChannel_update_def)
    with Cons.IH [of c s0 s rem] r Cons.prems resets0 empty show ?thesis by simp
  next
    case plain
    then obtain t where t: "dr_call (dc_reducer c) s vs = Inr t" and c1: "c1 = c\<lparr>dc_value := Some t\<rparr>"
      using u Cons.prems(6) by (auto simp: DeltaChannel_update_plain rmap_Inr_iff)
    have "log_value (dr_call (dc_reducer c)) s0 (rem @ vs) = Inr t"
      using log_value_append [OF Cons.prems(3,7) plain(1) Cons.prems(5)] t by simp
    then show ?thesis
      using Cons.IH [of c1 s0 t "rem @ vs"] r Cons.prems(2,3,5) plain(2) resets
      by (simp add: c1 replay_scan_plain)
  next
    case over
    then obtain t where t: "overwrite_base c x = Inr t" and c1: "c1 = c\<lparr>dc_value := Some t\<rparr>"
      using u by (auto simp: DeltaChannel_update_overwrite [where post = "[]", simplified] rmap_Inr_iff)
    have "P t"
      using Cons.prems(4) over(1,3) t unfolding resets_in_def by auto
    with c1 t show ?thesis
      using Cons.IH [of c1 t t "[]"] r Cons.prems(2,3) over resets by (simp add: replay_scan_plain)
  qed
qed

text \<open>The live value stays in \<open>P\<close>.\<close>

lemma delta_steps_closed:
  assumes "delta_steps c vss = Inr c'" and "batching_on P (dr_call (dc_reducer c))" and "resets_in P c vss"
    and "dc_value c = Some s" and "P s" and "\<forall>vs \<in> set vss. overwrite_last vs"
  shows "\<exists>s'. dc_value c' = Some s' \<and> P s'"
  using assms
proof (induction vss arbitrary: c s)
  case Nil
  then show ?case by (simp add: delta_steps_def)
next
  case (Cons vs vss)
  obtain b c1 where u: "DeltaChannel_update c vs = Inr (b, c1)" and r: "delta_steps c1 vss = Inr c'"
    using Cons.prems(1) by (auto simp: delta_steps_def rbind_Inr_iff rmap_Inr_iff)
  have "c1 = c \<or> (\<exists>t. c1 = c\<lparr>dc_value := Some t\<rparr> \<and> P t)"
  proof -
    consider (empty) "vs = []" | (plain) "vs \<noteq> []" "\<forall>v \<in> set vs. \<not> is_overwrite v"
      | (over) pre w x where "vs = pre @ [w]" "\<forall>v \<in> set pre. \<not> is_overwrite v" "get_overwrite w = Some x"
      using Cons.prems(6) unfolding overwrite_last_def by (cases vs rule: rev_cases) auto
    then show ?thesis
    proof cases
      case empty
      with u show ?thesis by (simp add: DeltaChannel_update_def)
    next
      case plain
      then obtain t where "dr_call (dc_reducer c) s vs = Inr t" and "c1 = c\<lparr>dc_value := Some t\<rparr>"
        using u Cons.prems(4) by (auto simp: DeltaChannel_update_plain rmap_Inr_iff)
      with batching_onD(2) [OF Cons.prems(2,5)] show ?thesis by blast
    next
      case over
      then show ?thesis
        using u Cons.prems(3) unfolding resets_in_def
        by (auto simp: DeltaChannel_update_overwrite [where post = "[]", simplified] rmap_Inr_iff)
    qed
  qed
  moreover have "resets_in P (c\<lparr>dc_value := x\<rparr>) vss" and "resets_in P c vss" for x
    using Cons.prems(3) by (auto simp: resets_in_def)
  ultimately show ?case
    using Cons.IH [OF r] Cons.prems by auto
qed

lemma delta_replay_on:
  assumes "delta_steps c vss = Inr c'" and "\<forall>vs \<in> set vss. overwrite_last vs"
    and "batching_on P (dr_call (dc_reducer c))" and "resets_in P c vss" and "P s" and "dc_value c = Some s"
  shows "DeltaChannel_replay_writes c (as_writes (concat vss)) = Inr c'"
proof -
  obtain s0' rem' s' where scan: "replay_scan c (Some s) [] (concat vss) = Inr (Some s0', rem')"
    and v: "log_value (dr_call (dc_reducer c)) s0' rem' = Inr s'" and c': "c' = c\<lparr>dc_value := Some s'\<rparr>"
    using delta_replay_step [OF assms, of "[]"] by auto
  have w: "map (\<lambda>(_, _, v). v) (as_writes (concat vss)) = concat vss"
    by (simp add: as_writes_def comp_def)
  show ?thesis
  proof (cases "concat vss = []")
    case True
    from scan have "s0' = s \<and> rem' = []" unfolding True by simp
    with v have "s' = s" by simp
    with c' assms(6) w show ?thesis unfolding True by (simp add: DeltaChannel_replay_writes_def as_writes_def)
  next
    case False
    with scan v c' assms(6) show ?thesis
      unfolding DeltaChannel_replay_writes_def w
      by (auto simp: log_value_def rbind_def split: if_splits)
  qed
qed

text \<open>
  C4: replaying a delta channel's log reconstructs its live value: from a channel with a base
  value, with a reducer for which batching does not matter, and batches in which an overwrite only
  comes last, \<open>replay_writes\<close> on the concatenated log gives the channel that the live updates,
  step by step, produced.
\<close>

theorem delta_replay_is_live:
  assumes "delta_steps c vss = Inr c'" and "\<forall>vs \<in> set vss. overwrite_last vs"
    and "batching_invariant (dr_call (dc_reducer c))" and "dc_value c = Some s"
  shows "DeltaChannel_replay_writes c (as_writes (concat vss)) = Inr c'"
  using delta_replay_on [OF assms(1,2) batching_on_True [OF assms(3)] _ _ assms(4)]
  by (simp add: resets_in_def)

lemma delta_replay_is_live_witness:
  "let r = \<lparr>dr_name = ''add'', dr_id = 1,
             dr_call = (\<lambda>s vs. case s of VInt i \<Rightarrow> Inr (VInt (i + int (length vs))) | _ \<Rightarrow> Inr s)\<rparr>;
       c = \<lparr>ch_typ = TyInt, ch_key = ''k'', dc_reducer = r, dc_snapshot_frequency = 3,
            dc_value = Some (VInt 0)\<rparr>
   in DeltaChannel_replay_writes c (as_writes (concat [[VInt 5, VInt 6], [VNone, VOverwrite (VInt 7)], [VNone]]))
      = Inr (c\<lparr>dc_value := Some (VInt 8)\<rparr>)"
  unfolding Let_def
  by (rule delta_replay_is_live [where s = "VInt 0"])
    (auto simp: delta_steps_def DeltaChannel_update_def overwrite_base_def overwrite_last_def
      batching_invariant_def rbind_def split: pyval.splits)

subsection \<open>Writes with an overwrite\<close>

lemma BinaryOperatorAggregate_update_value:
  "bo_value c = Some cur \<Longrightarrow> vs \<noteq> [] \<Longrightarrow> BinaryOperatorAggregate_update c vs =
     rmap (\<lambda>v. (True, c\<lparr>bo_value := Some v\<rparr>))
       (binop_loop (ch_key c) (br_call (bo_operator c)) False cur vs)"
  by (cases vs) (simp_all add: BinaryOperatorAggregate_update_def)

text \<open>
  In one step's writes to a \<open>BinaryOperatorAggregate\<close> that holds a value, plain writes are
  folded into it from the left; an overwrite replaces the value reached so far and the plain writes
  after it are dropped; a second overwrite is an \<open>InvalidUpdateError\<close>.
\<close>

theorem binop_update_overwrite:
  assumes "bo_value c = Some cur" and "\<forall>v \<in> set pre. \<not> is_overwrite v"
    and "rfold (br_call (bo_operator c)) cur pre = Inr mid" and "get_overwrite w = Some x"
  shows "(pre \<noteq> [] \<longrightarrow> BinaryOperatorAggregate_update c pre = Inr (True, c\<lparr>bo_value := Some mid\<rparr>))
    \<and> BinaryOperatorAggregate_update c (pre @ w # post) =
       (if \<exists>v \<in> set post. is_overwrite v then Inl (InvalidUpdateError (ch_key c))
        else Inr (True, c\<lparr>bo_value := Some x\<rparr>))"
proof -
  let ?loop = "binop_loop (ch_key c) (br_call (bo_operator c)) False cur"
  have "?loop (pre @ w # post) = (if \<exists>v \<in> set post. is_overwrite v then Inl (InvalidUpdateError (ch_key c)) else Inr x)"
    using assms(4) binop_loop_seen [of "ch_key c" _ x post] assms(3)
    unfolding binop_loop_split [OF assms(2)] by simp
  moreover have "?loop pre = Inr mid"
    using assms(2,3) by (simp add: binop_loop_plain)
  ultimately show ?thesis
    using BinaryOperatorAggregate_update_value [OF assms(1), of "pre @ w # post"]
      BinaryOperatorAggregate_update_value [OF assms(1), of pre] by simp
qed

lemma binop_update_overwrite_witness:
  "let c = \<lparr>ch_typ = TyInt, ch_key = ''k'',
            bo_operator = \<lparr>br_name = ''sub'', br_id = 1, br_call = (\<lambda>a b. case (a, b) of
               (VInt i, VInt j) \<Rightarrow> Inr (VInt (i - j)) | _ \<Rightarrow> Inl (UserError ''sub''))\<rparr>,
            bo_value = Some (VInt 9)\<rparr>
   in BinaryOperatorAggregate_update c ([VInt 1, VInt 2] @ VOverwrite (VInt 5) # [VInt 3])
      = Inr (True, c\<lparr>bo_value := Some (VInt 5)\<rparr>)"
  using binop_update_overwrite
    [of "\<lparr>ch_typ = TyInt, ch_key = ''k'',
            bo_operator = \<lparr>br_name = ''sub'', br_id = 1, br_call = (\<lambda>a b. case (a, b) of
               (VInt i, VInt j) \<Rightarrow> Inr (VInt (i - j)) | _ \<Rightarrow> Inl (UserError ''sub''))\<rparr>,
            bo_value = Some (VInt 9)\<rparr>" "VInt 9" "[VInt 1, VInt 2]" "VInt 6" "VOverwrite (VInt 5)" "VInt 5" "[VInt 3]"]
  by simp

text \<open>
  On an empty \<open>BinaryOperatorAggregate\<close> the first write becomes the value as it is, so that an
  overwrite written first is stored as the wrapper object, not as the value it wraps, and does not
  count as the step's overwrite: a second one in the same step is accepted.
\<close>

theorem binop_first_overwrite_stored:
  assumes "bo_value c = None" and "get_overwrite w2 = Some y"
  shows "BinaryOperatorAggregate_update c [VOverwrite x] = Inr (True, c\<lparr>bo_value := Some (VOverwrite x)\<rparr>)
    \<and> BinaryOperatorAggregate_update c [VOverwrite x, w2] = Inr (True, c\<lparr>bo_value := Some y\<rparr>)"
  using assms by (simp add: BinaryOperatorAggregate_update_def)

lemma binop_first_overwrite_stored_witness:
  "BinaryOperatorAggregate_get
     ((BinaryOperatorAggregate_init (TyClass ''C'' None) \<lparr>br_name = ''f'', br_id = 1, br_call = \<lambda>a b. Inr a\<rparr>)
        \<lparr>bo_value := Some (VOverwrite VNone)\<rparr>) = Inr (VOverwrite VNone)
   \<and> BinaryOperatorAggregate_update
       (BinaryOperatorAggregate_init (TyClass ''C'' None) \<lparr>br_name = ''f'', br_id = 1, br_call = \<lambda>a b. Inr a\<rparr>)
       [VOverwrite VNone]
     = Inr (True, (BinaryOperatorAggregate_init (TyClass ''C'' None) \<lparr>br_name = ''f'', br_id = 1, br_call = \<lambda>a b. Inr a\<rparr>)
        \<lparr>bo_value := Some (VOverwrite VNone)\<rparr>)"
  using binop_first_overwrite_stored
    [of "BinaryOperatorAggregate_init (TyClass ''C'' None) \<lparr>br_name = ''f'', br_id = 1, br_call = \<lambda>a b. Inr a\<rparr>"
       "VOverwrite VNone" VNone VNone]
  by (simp add: BinaryOperatorAggregate_init_def BinaryOperatorAggregate_get_def concrete_type_def Let_def)

end
