(* ===== verification/Channels.thy ===== *)
theory Channels
  imports Chan_Value Chan_Collect Chan_Reduce
begin

section \<open>Any channel\<close>

text \<open>
  Pregel holds channels as \<open>Mapping[str, BaseChannel]\<close>. The union of the channel classes and,
  for each method of the base class, the dynamic dispatch to the class's own definition. The
  union meets the channel contract, with the invariants and configurations of its classes; its
  interpretation \<open>chan\<close> is what the other components reason from.
\<close>

datatype channel =
    Ch_LastValue last_value
  | Ch_LastValueAfterFinish last_value_after_finish
  | Ch_EphemeralValue ephemeral_value
  | Ch_AnyValue any_value
  | is_untracked: Ch_UntrackedValue untracked_value
  | is_topic: Ch_Topic topic
  | Ch_NamedBarrierValue named_barrier
  | Ch_NamedBarrierValueAfterFinish named_barrier_after_finish
  | Ch_BinaryOperatorAggregate binop_aggregate
  | is_delta: Ch_DeltaChannel (the_delta: delta_channel)

fun channel_get :: "channel \<Rightarrow> pyval res" where
  "channel_get (Ch_LastValue c) = LastValue_get c"
| "channel_get (Ch_LastValueAfterFinish c) = LastValueAfterFinish_get c"
| "channel_get (Ch_EphemeralValue c) = EphemeralValue_get c"
| "channel_get (Ch_AnyValue c) = AnyValue_get c"
| "channel_get (Ch_UntrackedValue c) = UntrackedValue_get c"
| "channel_get (Ch_Topic c) = Topic_get c"
| "channel_get (Ch_NamedBarrierValue c) = NamedBarrierValue_get c"
| "channel_get (Ch_NamedBarrierValueAfterFinish c) = NamedBarrierValueAfterFinish_get c"
| "channel_get (Ch_BinaryOperatorAggregate c) = BinaryOperatorAggregate_get c"
| "channel_get (Ch_DeltaChannel c) = DeltaChannel_get c"

fun channel_is_available :: "channel \<Rightarrow> bool" where
  "channel_is_available (Ch_LastValue c) = LastValue_is_available c"
| "channel_is_available (Ch_LastValueAfterFinish c) = LastValueAfterFinish_is_available c"
| "channel_is_available (Ch_EphemeralValue c) = EphemeralValue_is_available c"
| "channel_is_available (Ch_AnyValue c) = AnyValue_is_available c"
| "channel_is_available (Ch_UntrackedValue c) = UntrackedValue_is_available c"
| "channel_is_available (Ch_Topic c) = Topic_is_available c"
| "channel_is_available (Ch_NamedBarrierValue c) = NamedBarrierValue_is_available c"
| "channel_is_available (Ch_NamedBarrierValueAfterFinish c) =
     NamedBarrierValueAfterFinish_is_available c"
| "channel_is_available (Ch_BinaryOperatorAggregate c) = BinaryOperatorAggregate_is_available c"
| "channel_is_available (Ch_DeltaChannel c) = DeltaChannel_is_available c"

abbreviation in_class :: "('c \<Rightarrow> channel) \<Rightarrow> (bool \<times> 'c) res \<Rightarrow> (bool \<times> channel) res" where
  "in_class C r \<equiv> rmap (\<lambda>(b, c). (b, C c)) r"

fun channel_update :: "channel \<Rightarrow> pyval list \<Rightarrow> (bool \<times> channel) res" where
  "channel_update (Ch_LastValue c) vs = in_class Ch_LastValue (LastValue_update c vs)"
| "channel_update (Ch_LastValueAfterFinish c) vs =
     in_class Ch_LastValueAfterFinish (LastValueAfterFinish_update c vs)"
| "channel_update (Ch_EphemeralValue c) vs =
     in_class Ch_EphemeralValue (EphemeralValue_update c vs)"
| "channel_update (Ch_AnyValue c) vs = in_class Ch_AnyValue (AnyValue_update c vs)"
| "channel_update (Ch_UntrackedValue c) vs =
     in_class Ch_UntrackedValue (UntrackedValue_update c vs)"
| "channel_update (Ch_Topic c) vs = in_class Ch_Topic (Topic_update c vs)"
| "channel_update (Ch_NamedBarrierValue c) vs =
     in_class Ch_NamedBarrierValue (NamedBarrierValue_update c vs)"
| "channel_update (Ch_NamedBarrierValueAfterFinish c) vs =
     in_class Ch_NamedBarrierValueAfterFinish (NamedBarrierValueAfterFinish_update c vs)"
| "channel_update (Ch_BinaryOperatorAggregate c) vs =
     in_class Ch_BinaryOperatorAggregate (BinaryOperatorAggregate_update c vs)"
| "channel_update (Ch_DeltaChannel c) vs = in_class Ch_DeltaChannel (DeltaChannel_update c vs)"

text \<open>Only the classes that override \<open>consume\<close> or \<open>finish\<close> do anything.\<close>

fun channel_consume :: "channel \<Rightarrow> bool \<times> channel" where
  "channel_consume (Ch_LastValueAfterFinish c) =
     map_prod id Ch_LastValueAfterFinish (LastValueAfterFinish_consume c)"
| "channel_consume (Ch_NamedBarrierValue c) =
     map_prod id Ch_NamedBarrierValue (NamedBarrierValue_consume c)"
| "channel_consume (Ch_NamedBarrierValueAfterFinish c) =
     map_prod id Ch_NamedBarrierValueAfterFinish (NamedBarrierValueAfterFinish_consume c)"
| "channel_consume c = BaseChannel_consume c"

fun channel_finish :: "channel \<Rightarrow> bool \<times> channel" where
  "channel_finish (Ch_LastValueAfterFinish c) =
     map_prod id Ch_LastValueAfterFinish (LastValueAfterFinish_finish c)"
| "channel_finish (Ch_NamedBarrierValueAfterFinish c) =
     map_prod id Ch_NamedBarrierValueAfterFinish (NamedBarrierValueAfterFinish_finish c)"
| "channel_finish c = BaseChannel_finish c"

fun channel_checkpoint :: "channel \<Rightarrow> pyval option" where
  "channel_checkpoint (Ch_LastValue c) = LastValue_checkpoint c"
| "channel_checkpoint (Ch_LastValueAfterFinish c) = LastValueAfterFinish_checkpoint c"
| "channel_checkpoint (Ch_EphemeralValue c) = EphemeralValue_checkpoint c"
| "channel_checkpoint (Ch_AnyValue c) = AnyValue_checkpoint c"
| "channel_checkpoint (Ch_UntrackedValue c) = UntrackedValue_checkpoint c"
| "channel_checkpoint (Ch_Topic c) = Topic_checkpoint c"
| "channel_checkpoint (Ch_NamedBarrierValue c) = NamedBarrierValue_checkpoint c"
| "channel_checkpoint (Ch_NamedBarrierValueAfterFinish c) =
     NamedBarrierValueAfterFinish_checkpoint c"
| "channel_checkpoint (Ch_BinaryOperatorAggregate c) = BinaryOperatorAggregate_checkpoint c"
| "channel_checkpoint (Ch_DeltaChannel c) = DeltaChannel_checkpoint c"

fun channel_from_checkpoint :: "channel \<Rightarrow> pyval option \<Rightarrow> channel res" where
  "channel_from_checkpoint (Ch_LastValue c) x =
     rmap Ch_LastValue (LastValue_from_checkpoint c x)"
| "channel_from_checkpoint (Ch_LastValueAfterFinish c) x =
     rmap Ch_LastValueAfterFinish (LastValueAfterFinish_from_checkpoint c x)"
| "channel_from_checkpoint (Ch_EphemeralValue c) x =
     rmap Ch_EphemeralValue (EphemeralValue_from_checkpoint c x)"
| "channel_from_checkpoint (Ch_AnyValue c) x = rmap Ch_AnyValue (AnyValue_from_checkpoint c x)"
| "channel_from_checkpoint (Ch_UntrackedValue c) x =
     rmap Ch_UntrackedValue (UntrackedValue_from_checkpoint c x)"
| "channel_from_checkpoint (Ch_Topic c) x = rmap Ch_Topic (Topic_from_checkpoint c x)"
| "channel_from_checkpoint (Ch_NamedBarrierValue c) x =
     rmap Ch_NamedBarrierValue (NamedBarrierValue_from_checkpoint c x)"
| "channel_from_checkpoint (Ch_NamedBarrierValueAfterFinish c) x =
     rmap Ch_NamedBarrierValueAfterFinish (NamedBarrierValueAfterFinish_from_checkpoint c x)"
| "channel_from_checkpoint (Ch_BinaryOperatorAggregate c) x =
     rmap Ch_BinaryOperatorAggregate (BinaryOperatorAggregate_from_checkpoint c x)"
| "channel_from_checkpoint (Ch_DeltaChannel c) x =
     rmap Ch_DeltaChannel (DeltaChannel_from_checkpoint c x)"

fun channel_copy :: "channel \<Rightarrow> channel res" where
  "channel_copy (Ch_LastValue c) = Inr (Ch_LastValue (LastValue_copy c))"
| "channel_copy (Ch_LastValueAfterFinish c) = rmap Ch_LastValueAfterFinish
     (BaseChannel_copy LastValueAfterFinish_checkpoint LastValueAfterFinish_from_checkpoint c)"
| "channel_copy (Ch_EphemeralValue c) = Inr (Ch_EphemeralValue (EphemeralValue_copy c))"
| "channel_copy (Ch_AnyValue c) = Inr (Ch_AnyValue (AnyValue_copy c))"
| "channel_copy (Ch_UntrackedValue c) = Inr (Ch_UntrackedValue (UntrackedValue_copy c))"
| "channel_copy (Ch_Topic c) = Inr (Ch_Topic (Topic_copy c))"
| "channel_copy (Ch_NamedBarrierValue c) = Inr (Ch_NamedBarrierValue (NamedBarrierValue_copy c))"
| "channel_copy (Ch_NamedBarrierValueAfterFinish c) =
     Inr (Ch_NamedBarrierValueAfterFinish (NamedBarrierValueAfterFinish_copy c))"
| "channel_copy (Ch_BinaryOperatorAggregate c) =
     Inr (Ch_BinaryOperatorAggregate (BinaryOperatorAggregate_copy c))"
| "channel_copy (Ch_DeltaChannel c) = rmap Ch_DeltaChannel (DeltaChannel_copy c)"

subsection \<open>Configuration and invariant of a channel\<close>

fun channel_spec :: "channel \<Rightarrow> channel" where
  "channel_spec (Ch_LastValue c) = Ch_LastValue (c\<lparr>lv_value := None\<rparr>)"
| "channel_spec (Ch_LastValueAfterFinish c) =
     Ch_LastValueAfterFinish (LastValueAfterFinish_spec c)"
| "channel_spec (Ch_EphemeralValue c) = Ch_EphemeralValue (c\<lparr>ev_value := None\<rparr>)"
| "channel_spec (Ch_AnyValue c) = Ch_AnyValue (c\<lparr>av_value := None\<rparr>)"
| "channel_spec (Ch_UntrackedValue c) = Ch_UntrackedValue (c\<lparr>uv_value := None\<rparr>)"
| "channel_spec (Ch_Topic c) = Ch_Topic (c\<lparr>tp_values := []\<rparr>)"
| "channel_spec (Ch_NamedBarrierValue c) = Ch_NamedBarrierValue (c\<lparr>nb_seen := {}\<rparr>)"
| "channel_spec (Ch_NamedBarrierValueAfterFinish c) =
     Ch_NamedBarrierValueAfterFinish (NamedBarrierValueAfterFinish_spec c)"
| "channel_spec (Ch_BinaryOperatorAggregate c) =
     Ch_BinaryOperatorAggregate (c\<lparr>bo_value := None\<rparr>)"
| "channel_spec (Ch_DeltaChannel c) = Ch_DeltaChannel (c\<lparr>dc_value := None\<rparr>)"

fun channel_inv :: "channel \<Rightarrow> bool" where
  "channel_inv (Ch_LastValueAfterFinish c) = LastValueAfterFinish_inv c"
| "channel_inv (Ch_BinaryOperatorAggregate c) = BinaryOperatorAggregate_inv c"
| "channel_inv (Ch_DeltaChannel c) = DeltaChannel_inv c"
| "channel_inv c = True"

text \<open>The channels whose checkpoint carries their state.\<close>

definition tracked :: "channel \<Rightarrow> bool" where
  "tracked c = (\<not> is_untracked c \<and> \<not> is_delta c)"

lemmas class_update_False =
  lastvalue.update_False lastvalue_finish.update_False ephemeral.update_False
  anyvalue.update_False untracked.update_False topic_channel.update_False barrier.update_False
  barrier_finish.update_False binop.update_False delta.update_False

lemmas class_available_iff =
  lastvalue.available_iff lastvalue_finish.available_iff ephemeral.available_iff
  anyvalue.available_iff untracked.available_iff topic_channel.available_iff barrier.available_iff
  barrier_finish.available_iff binop.available_iff delta.available_iff

lemmas class_get_raises =
  lastvalue.get_raises lastvalue_finish.get_raises ephemeral.get_raises
  anyvalue.get_raises untracked.get_raises topic_channel.get_raises barrier.get_raises
  barrier_finish.get_raises binop.get_raises delta.get_raises

lemmas class_update_idle =
  lastvalue.update_idle lastvalue_finish.update_idle ephemeral.update_idle
  anyvalue.update_idle untracked.update_idle topic_channel.update_idle barrier.update_idle
  barrier_finish.update_idle binop.update_idle delta.update_idle

lemmas class_update_spec =
  lastvalue.update_spec lastvalue_finish.update_spec ephemeral.update_spec
  anyvalue.update_spec untracked.update_spec topic_channel.update_spec barrier.update_spec
  barrier_finish.update_spec binop.update_spec delta.update_spec

lemmas class_inv_update =
  lastvalue_finish.inv_update binop.inv_update delta.inv_update

lemmas class_from_checkpoint_spec =
  lastvalue.from_checkpoint_spec lastvalue_finish.from_checkpoint_spec
  ephemeral.from_checkpoint_spec anyvalue.from_checkpoint_spec untracked.from_checkpoint_spec
  topic_channel.from_checkpoint_spec barrier.from_checkpoint_spec
  barrier_finish.from_checkpoint_spec binop.from_checkpoint_spec delta.from_checkpoint_spec

lemmas class_spec_from_checkpoint =
  lastvalue.spec_from_checkpoint lastvalue_finish.spec_from_checkpoint
  ephemeral.spec_from_checkpoint anyvalue.spec_from_checkpoint untracked.spec_from_checkpoint
  topic_channel.spec_from_checkpoint barrier.spec_from_checkpoint
  barrier_finish.spec_from_checkpoint binop.spec_from_checkpoint delta.spec_from_checkpoint

lemmas class_roundtrip =
  lastvalue.roundtrip lastvalue_finish.roundtrip ephemeral.roundtrip anyvalue.roundtrip
  topic_channel.roundtrip barrier.roundtrip barrier_finish.roundtrip binop.roundtrip

lemma channel_get_raises: "channel_get c = Inl e \<Longrightarrow> e = EmptyChannelError"
  by (cases c) (auto dest: class_get_raises)

lemma channel_update_False: "channel_update c vs = Inr (False, c') \<Longrightarrow> c' = c"
  by (cases c) (auto simp: rmap_Inr_iff dest: class_update_False)

lemma channel_update_spec: "channel_update c vs = Inr (b, c') \<Longrightarrow> channel_spec c' = channel_spec c"
  by (cases c) (auto simp: rmap_Inr_iff dest: class_update_spec)

lemma channel_consume_facts:
  "channel_consume c = (False, c') \<Longrightarrow> c' = c"
  "channel_spec (snd (channel_consume c)) = channel_spec c"
  "channel_inv c \<Longrightarrow> channel_inv (snd (channel_consume c))"
  by (cases c; auto simp: BaseChannel_consume_def map_prod_def LastValueAfterFinish_consume_def
      NamedBarrierValue_consume_def NamedBarrierValueAfterFinish_consume_def
      LastValueAfterFinish_inv_def LastValueAfterFinish_spec_def
      NamedBarrierValueAfterFinish_spec_def split: if_splits)+

lemma channel_finish_facts:
  "channel_finish c = (False, c') \<Longrightarrow> c' = c"
  "channel_spec (snd (channel_finish c)) = channel_spec c"
  "channel_inv c \<Longrightarrow> channel_inv (snd (channel_finish c))"
  by (cases c; auto simp: BaseChannel_finish_def map_prod_def LastValueAfterFinish_finish_def
      NamedBarrierValueAfterFinish_finish_def
      LastValueAfterFinish_inv_def LastValueAfterFinish_spec_def
      NamedBarrierValueAfterFinish_spec_def split: if_splits)+

lemma channel_finish_available: "channel_is_available c \<Longrightarrow> channel_is_available (snd (channel_finish c))"
  by (cases c) (auto simp: BaseChannel_finish_def map_prod_def LastValueAfterFinish_finish_def
      LastValueAfterFinish_is_available_def NamedBarrierValueAfterFinish_finish_def
      NamedBarrierValueAfterFinish_is_available_def split: if_splits)

lemma channel_from_checkpoint_config:
  "channel_from_checkpoint (channel_spec c) x = channel_from_checkpoint c x"
  by (cases c) (simp_all add: class_from_checkpoint_spec)

lemma channel_spec_from_checkpoint:
  "channel_inv c \<Longrightarrow> channel_from_checkpoint c x = Inr c' \<Longrightarrow> channel_spec c' = channel_spec c"
  by (cases c; clarsimp simp: rmap_Inr_iff; blast intro: class_spec_from_checkpoint)

lemma channel_inv_from_checkpoint:
  "channel_inv c \<Longrightarrow> channel_from_checkpoint c x = Inr c' \<Longrightarrow> channel_inv c'"
  by (cases c; clarsimp simp: rmap_Inr_iff;
      blast intro: lastvalue_finish.inv_from_checkpoint binop.inv_from_checkpoint
        delta.inv_from_checkpoint)

interpretation chan: channel_class
  channel_get channel_is_available channel_update channel_consume channel_finish
  channel_checkpoint channel_from_checkpoint channel_spec channel_inv
proof unfold_locales
  fix c c' :: channel and vs b
  show "channel_is_available c = (\<exists>v. channel_get c = Inr v)"
    by (cases c) (auto simp: class_available_iff)
  show "channel_inv c \<Longrightarrow> \<not> channel_is_available c \<Longrightarrow> channel_update c [] = Inr (False, c)"
    by (cases c) (auto simp: class_update_idle)
  show "channel_inv c \<Longrightarrow> channel_update c vs = Inr (b, c') \<Longrightarrow> channel_inv c'"
    by (cases c) (auto simp: rmap_Inr_iff dest: class_inv_update)
qed (fact channel_get_raises channel_update_False channel_update_spec channel_consume_facts
    channel_finish_facts channel_from_checkpoint_config channel_spec_from_checkpoint
    channel_inv_from_checkpoint)+

text \<open>A tracked channel comes back from its checkpoint; the others come back empty or default.\<close>

lemma channel_roundtrip:
  "channel_inv c \<Longrightarrow> tracked c \<Longrightarrow> channel_from_checkpoint c (channel_checkpoint c) = Inr c"
  by (cases c) (auto simp: tracked_def class_roundtrip)

lemma channel_copy_id: "channel_inv c \<Longrightarrow> channel_copy c = Inr c"
  by (cases c)
    (simp_all add: value_channel_copies LastValueAfterFinish_copy Topic_copy_id barrier_copies
      BinaryOperatorAggregate_copy_id DeltaChannel_copy_id)

lemma untracked_checkpoint: "is_untracked c \<or> is_delta c \<Longrightarrow> channel_checkpoint c = None"
  by (cases c) (auto simp: UntrackedValue_checkpoint_def DeltaChannel_checkpoint_def)

subsection \<open>What a run can do to a channel\<close>

text \<open>
  A channel is restored from a checkpoint (possibly a missing one) of the graph's declared
  channel \<open>c0\<close>, then written, consumed and finished in any order.
\<close>

inductive channel_reach :: "channel \<Rightarrow> channel \<Rightarrow> bool" for c0 where
  restored: "channel_from_checkpoint c0 x = Inr c \<Longrightarrow> channel_reach c0 c"
| updated: "channel_reach c0 c \<Longrightarrow> channel_update c vs = Inr (b, c') \<Longrightarrow> channel_reach c0 c'"
| consumed: "channel_reach c0 c \<Longrightarrow> channel_reach c0 (snd (channel_consume c))"
| finished: "channel_reach c0 c \<Longrightarrow> channel_reach c0 (snd (channel_finish c))"

lemma channel_reach_inv:
  assumes "channel_reach c0 c" and "channel_inv c0"
  shows "channel_inv c \<and> channel_spec c = channel_spec c0"
  using assms
  by (induction rule: channel_reach.induct)
    (auto simp: chan.consume_spec chan.finish_spec intro: chan.inv_from_checkpoint chan.inv_update
      chan.inv_consume chan.inv_finish dest: chan.spec_from_checkpoint chan.update_spec)

lemma tracked_spec: "channel_spec c = channel_spec d \<Longrightarrow> tracked c = tracked d"
  by (cases c; cases d) (auto simp: tracked_def)

text \<open>
  C5: whatever a run did to a channel, restoring the graph's declared channel from its checkpoint
  gives it back exactly, unless it is an \<open>UntrackedValue\<close> or a \<open>DeltaChannel\<close>; those checkpoint
  as missing.
\<close>

theorem channel_resume:
  assumes "channel_inv c0" and "channel_reach c0 c"
  shows "(tracked c0 \<longrightarrow> channel_from_checkpoint c0 (channel_checkpoint c) = Inr c)
    \<and> (\<not> tracked c0 \<longrightarrow> channel_checkpoint c = None)"
proof -
  have c: "channel_inv c" "channel_spec c = channel_spec c0"
    using channel_reach_inv [OF assms(2,1)] by auto
  have "channel_from_checkpoint c0 x = channel_from_checkpoint c x" for x
    using channel_from_checkpoint_config [of c0 x] channel_from_checkpoint_config [of c x] c(2) by simp
  moreover have "tracked c0 = tracked c" using tracked_spec [OF c(2)] by simp
  moreover have "\<not> tracked c \<longrightarrow> channel_checkpoint c = None"
    using untracked_checkpoint [of c] unfolding tracked_def by blast
  ultimately show ?thesis
    using channel_roundtrip [OF c(1)] by simp
qed

lemma channel_reach_example:
  "channel_reach (Ch_LastValueAfterFinish (LastValueAfterFinish_init TyInt ''x''))
     (Ch_LastValueAfterFinish ((LastValueAfterFinish_init TyInt ''x'')\<lparr>lf_value := Some (VInt 1)\<rparr>))"
proof -
  have "channel_reach (Ch_LastValueAfterFinish (LastValueAfterFinish_init TyInt ''x''))
      (Ch_LastValueAfterFinish (LastValueAfterFinish_init TyInt ''x''))"
    by (rule channel_reach.restored [where x = None]) (simp add: LastValueAfterFinish_defs)
  then show ?thesis
    by (rule channel_reach.updated [where vs = "[VInt 1]" and b = True])
      (simp add: LastValueAfterFinish_defs)
qed

lemma channel_resume_witness:
  "channel_from_checkpoint (Ch_LastValueAfterFinish (LastValueAfterFinish_init TyInt ''x''))
     (channel_checkpoint (Ch_LastValueAfterFinish ((LastValueAfterFinish_init TyInt ''x'')\<lparr>lf_value := Some (VInt 1)\<rparr>)))
   = Inr (Ch_LastValueAfterFinish ((LastValueAfterFinish_init TyInt ''x'')\<lparr>lf_value := Some (VInt 1)\<rparr>))"
  by (rule channel_resume [THEN conjunct1, rule_format, OF _ channel_reach_example])
    (simp_all add: LastValueAfterFinish_inv_def LastValueAfterFinish_init_def tracked_def)

text \<open>
  C24: for every channel class, a write reported as no change left the channel as it was, a
  channel is available exactly when \<open>get\<close> returns, and \<open>get\<close> raises nothing but
  \<open>EmptyChannelError\<close>; the empty update leaves an unavailable channel as it is.
\<close>

theorem channel_contract:
  "(\<forall>c'. channel_update c vs = Inr (False, c') \<longrightarrow> c' = c)
    \<and> (channel_is_available c \<longleftrightarrow> channel_get c \<noteq> Inl EmptyChannelError)
    \<and> (\<forall>e. channel_get c = Inl e \<longrightarrow> e = EmptyChannelError)
    \<and> (channel_inv c \<longrightarrow> \<not> channel_is_available c \<longrightarrow> channel_update c [] = Inr (False, c))"
proof (intro conjI allI impI)
  show "channel_is_available c \<longleftrightarrow> channel_get c \<noteq> Inl EmptyChannelError"
    using chan.available_iff [of c] chan.unavailable_get [of c] by (metis Inl_not_Inr)
qed (fact chan.update_False chan.get_raises chan.update_idle)+

lemma channel_contract_witness:
  "channel_update (Ch_EphemeralValue (EphemeralValue_init TyInt True)) []
    = Inr (False, Ch_EphemeralValue (EphemeralValue_init TyInt True))"
  by (rule channel_contract [THEN conjunct2, THEN conjunct2, THEN conjunct2, rule_format])
    (simp_all add: EphemeralValue_init_def EphemeralValue_is_available_def)

end
