(* ===== verification/Pregel_Types.thy ===== *)
theory Pregel_Types
  imports Channels
begin

section \<open>The data of a Pregel run\<close>

text \<open>
  Task paths, pending writes, versions, checkpoints, configs, nodes and tasks: the records that
  \<open>types.py\<close>, \<open>checkpoint/base\<close>, \<open>pregel/_read.py\<close> and \<open>pregel/_algo.py\<close> pass around, and the
  config helpers of \<open>_internal/_config.py\<close>. A \<open>TypedDict\<close> with optional keys is a record of
  options, \<open>None\<close> for an absent key.
\<close>

type_synonym pending_write = "string \<times> string \<times> pyval"
type_synonym writes = "(string \<times> pyval) list"

subsection \<open>Channel versions\<close>

text \<open>
  A version is an \<open>int\<close> or a \<open>str\<close> (\<open>float\<close> versions behave like \<open>int\<close> and are left out).
  One saver produces versions of one kind; Python raises when the two kinds are compared, the
  model's order puts integers first so that it is total.
\<close>

datatype version = IntV int | StrV string

instantiation version :: linorder
begin

fun less_eq_version :: "version \<Rightarrow> version \<Rightarrow> bool" where
  "less_eq_version (IntV a) (IntV b) = (a \<le> b)"
| "less_eq_version (IntV a) (StrV b) = True"
| "less_eq_version (StrV a) (IntV b) = False"
| "less_eq_version (StrV a) (StrV b) = (a \<le> b)"

definition less_version :: "version \<Rightarrow> version \<Rightarrow> bool" where
  "less_version a b = (\<not> b \<le> a)"

instance
proof
  fix x y z :: version
  show "(x < y) = (x \<le> y \<and> \<not> y \<le> x)"
    by (cases x; cases y) (auto simp: less_version_def)
  show "x \<le> x" by (cases x) auto
  show "x \<le> y \<Longrightarrow> y \<le> z \<Longrightarrow> x \<le> z" by (cases x; cases y; cases z) auto
  show "x \<le> y \<Longrightarrow> y \<le> x \<Longrightarrow> x = y" by (cases x; cases y) auto
  show "x \<le> y \<or> y \<le> x" by (cases x; cases y) auto
qed

end

lemma version_less_simps [simp]:
  "IntV a < IntV b \<longleftrightarrow> a < b" "StrV s < StrV t \<longleftrightarrow> s < t"
  "IntV a < StrV t" "\<not> StrV s < IntV b"
  by (auto simp: less_version_def)

text \<open>\<open>type(version)()\<close>\<close>

fun null_of :: "version \<Rightarrow> version" where
  "null_of (IntV _) = IntV 0"
| "null_of (StrV _) = StrV []"

type_synonym versions = "(string, version) dict"

subsection \<open>Checkpoints\<close>

record checkpoint =
  cp_v :: int
  cp_id :: string
  cp_ts :: string
  channel_values :: "(string, pyval) dict"
  channel_versions :: versions
  versions_seen :: "(string, versions) dict"
  cp_updated_channels :: "string list option"

definition copy_checkpoint :: "checkpoint \<Rightarrow> checkpoint" where
  "copy_checkpoint c =
     \<lparr>cp_v = cp_v c, cp_id = cp_id c, cp_ts = cp_ts c, channel_values = channel_values c,
      channel_versions = channel_versions c,
      versions_seen = map (\<lambda>(k, v). (k, v)) (versions_seen c),
      cp_updated_channels = cp_updated_channels c\<rparr>"

lemma copy_checkpoint_id [simp]: "copy_checkpoint c = c"
  by (simp add: copy_checkpoint_def)

subsection \<open>Task paths and their sort keys\<close>

text \<open>A path part is a string, an integer, a boolean (an \<open>int\<close> to Python) or a tuple.\<close>

datatype path_part = PStr string | PInt int | PBool bool | PTup "path_part list"

fun task_path_str :: "path_part \<Rightarrow> string" where
  "task_path_str (PTup tup) = CHR ''~'' # str_join '', '' (map task_path_str tup)"
| "task_path_str (PInt i) = pad_int 10 i"
| "task_path_str (PBool b) = pad_int 10 (if b then 1 else 0)"
| "task_path_str (PStr s) = s"

subsection \<open>Scratchpads\<close>

text \<open>
  \<open>PregelScratchpad\<close>. The three counters hold the next number they return. The closure
  \<open>get_null_resume\<close> captures the null resume write found when the scratchpad was made, the list
  of pending writes of its loop, and the parent's scratchpad; the captured lists are the store
  argument of \<open>get_null_resume\<close>, the own loop's first, then those of the enclosing loops.
\<close>

datatype scratchpad = Scratchpad
  (sp_step: int) (sp_stop: int)
  (sp_call_counter: nat) (sp_interrupt_counter: nat) (sp_subgraph_counter: nat)
  (sp_resume: "pyval list")
  (sp_null_resume: "pending_write option")
  (sp_parent: "scratchpad option")

subsection \<open>Configs\<close>

text \<open>
  The values of \<open>config["configurable"]\<close> the modelled code reads or writes. The two closures are
  represented by what they close over: \<open>CONFIG_KEY_SEND\<close> by the id of the task whose \<open>writes\<close> it
  extends, \<open>CONFIG_KEY_READ\<close> by the task name and path it reads for.
\<close>

record runtime =
  rt_store :: "string option"
  rt_previous :: pyval
  rt_execution_info :: "(string \<times> string \<times> string \<times> string option \<times> string option) option"

datatype confval =
    CNone
  | CStr string
  | CBool bool
  | CMap "(string, string) dict"
  | CResumeMap "(string, pyval) dict"
  | CScratchpad scratchpad
  | CRuntime runtime
  | CSend string
  | CRead string "path_part list" "string list"
  | CSaver string
  | CNodeError string pyval
  | CVal pyval

type_synonym configurable = "(string, confval) dict"

record run_config =
  rc_tags :: "string list option"
  rc_metadata :: "(string, pyval) dict option"
  rc_callbacks :: "string option"
  rc_run_name :: "string option"
  rc_run_id :: "string option"
  rc_recursion_limit :: "int option"
  rc_max_concurrency :: "int option"
  rc_conf :: "configurable option"

definition empty_config :: run_config where
  "empty_config =
     \<lparr>rc_tags = None, rc_metadata = None, rc_callbacks = None, rc_run_name = None, rc_run_id = None,
      rc_recursion_limit = None, rc_max_concurrency = None, rc_conf = None\<rparr>"

text \<open>\<open>config.get(CONF, {})\<close> and reads from it.\<close>

definition conf_of :: "run_config \<Rightarrow> configurable" where
  "conf_of c = (case rc_conf c of None \<Rightarrow> [] | Some d \<Rightarrow> d)"

definition conf_str :: "run_config \<Rightarrow> string \<Rightarrow> string option" where
  "conf_str c k = (case map_of (conf_of c) k of Some (CStr s) \<Rightarrow> Some s | _ \<Rightarrow> None)"

definition conf_map :: "run_config \<Rightarrow> string \<Rightarrow> (string, string) dict" where
  "conf_map c k = (case map_of (conf_of c) k of Some (CMap m) \<Rightarrow> m | _ \<Rightarrow> [])"

definition conf_scratchpad :: "run_config \<Rightarrow> scratchpad option" where
  "conf_scratchpad c =
     (case map_of (conf_of c) ''__pregel_scratchpad'' of Some (CScratchpad s) \<Rightarrow> Some s | _ \<Rightarrow> None)"

definition conf_resume_map :: "run_config \<Rightarrow> (string, pyval) dict option" where
  "conf_resume_map c =
     (case map_of (conf_of c) ''__pregel_resume_map'' of Some (CResumeMap m) \<Rightarrow> Some m | _ \<Rightarrow> None)"

definition patch_configurable :: "run_config option \<Rightarrow> configurable \<Rightarrow> run_config" where
  "patch_configurable config patch =
     (case config of
        None \<Rightarrow> empty_config\<lparr>rc_conf := Some patch\<rparr>
      | Some c \<Rightarrow>
          (case rc_conf c of
             None \<Rightarrow> c\<lparr>rc_conf := Some patch\<rparr>
           | Some d \<Rightarrow> c\<lparr>rc_conf := Some (dupd d patch)\<rparr>))"

definition merge_metadata ::
  "(string, pyval) dict option \<Rightarrow> (string, pyval) dict option \<Rightarrow> (string, pyval) dict" where
  "merge_metadata base new =
     foldl (\<lambda>merged (key, value).
        case (map_of merged key, value) of
          (Some (VDict old), VDict d) \<Rightarrow>
            (if key = ''lc_versions'' then dset key (VDict (dupd old d)) merged
             else dset key value merged)
        | _ \<Rightarrow> dset key value merged)
       (case base of None \<Rightarrow> [] | Some b \<Rightarrow> b) (case new of None \<Rightarrow> [] | Some n \<Rightarrow> n)"

text \<open>
  One config merged into the base, key by key; falsy values are skipped. The callbacks of one
  of the two are empty here (merging two callback managers is LangChain's).
\<close>

definition truthy_list :: "'a list option \<Rightarrow> bool" where
  "truthy_list x = (case x of None \<Rightarrow> False | Some xs \<Rightarrow> xs \<noteq> [])"

definition DEFAULT_RECURSION_LIMIT :: int where
  "DEFAULT_RECURSION_LIMIT = 10007"

definition merge_config_into :: "run_config \<Rightarrow> run_config \<Rightarrow> run_config" where
  "merge_config_into base config =
    \<lparr>rc_tags =
       (if \<not> truthy_list (rc_tags config) then rc_tags base
        else if truthy_list (rc_tags base)
        then Some (the (rc_tags base) @ the (rc_tags config)) else rc_tags config),
     rc_metadata =
       (if truthy_list (rc_metadata config)
        then Some (merge_metadata (rc_metadata base) (rc_metadata config)) else rc_metadata base),
     rc_callbacks = (if rc_callbacks config \<noteq> None then rc_callbacks config else rc_callbacks base),
     rc_run_name = (if truthy_list (rc_run_name config) then rc_run_name config else rc_run_name base),
     rc_run_id = (if truthy_list (rc_run_id config) then rc_run_id config else rc_run_id base),
     rc_recursion_limit =
       (case rc_recursion_limit config of
          Some n \<Rightarrow> if n \<noteq> 0 \<and> n \<noteq> DEFAULT_RECURSION_LIMIT then Some n else rc_recursion_limit base
        | None \<Rightarrow> rc_recursion_limit base),
     rc_max_concurrency =
       (case rc_max_concurrency config of
          Some n \<Rightarrow> if n \<noteq> 0 then Some n else rc_max_concurrency base
        | None \<Rightarrow> rc_max_concurrency base),
     rc_conf =
       (if \<not> truthy_list (rc_conf config) then rc_conf base
        else if truthy_list (rc_conf base)
        then Some (dupd (the (rc_conf base)) (the (rc_conf config))) else rc_conf config)\<rparr>"

definition merge_configs :: "run_config option list \<Rightarrow> run_config" where
  "merge_configs configs =
     (let base = foldl (\<lambda>base c. case c of None \<Rightarrow> base | Some config \<Rightarrow> merge_config_into base config)
                   empty_config configs
      in if rc_conf base = None then base\<lparr>rc_conf := Some []\<rparr> else base)"

definition patch_config ::
  "run_config \<Rightarrow> string option \<Rightarrow> string option \<Rightarrow> configurable option \<Rightarrow> run_config" where
  "patch_config config callbacks run_name configurable =
     (let config = (if callbacks \<noteq> None
                    then config\<lparr>rc_callbacks := callbacks, rc_run_name := None, rc_run_id := None\<rparr>
                    else config);
          config = (if run_name \<noteq> None then config\<lparr>rc_run_name := run_name\<rparr> else config)
      in case configurable of
           None \<Rightarrow> config
         | Some d \<Rightarrow> config\<lparr>rc_conf := Some (dupd (conf_of config) d)\<rparr>)"

lemma map_of_patch_config:
  "map_of (conf_of (patch_config c cb rn (Some d))) k =
     (case map_of (rev d) k of None \<Rightarrow> map_of (conf_of c) k | Some v \<Rightarrow> Some v)"
  by (simp add: patch_config_def conf_of_def Let_def map_of_dupd split: option.splits)

lemma map_of_patch_configurable:
  "map_of (conf_of (patch_configurable (Some c) d)) k =
     (case map_of (rev d) k of None \<Rightarrow> map_of (conf_of c) k
      | Some v \<Rightarrow> Some v)" if "distinct (map fst d)"
  using that
  by (auto simp: patch_configurable_def conf_of_def map_of_dupd map_of_rev split: option.splits)

subsection \<open>Reserved configurable keys\<close>

definition CONFIG_KEY_TASK_ID :: string where [const_defs]: "CONFIG_KEY_TASK_ID = ''__pregel_task_id''"
definition CONFIG_KEY_SEND :: string where [const_defs]: "CONFIG_KEY_SEND = ''__pregel_send''"
definition CONFIG_KEY_READ :: string where [const_defs]: "CONFIG_KEY_READ = ''__pregel_read''"
definition CONFIG_KEY_CHECKPOINTER :: string where
  [const_defs]: "CONFIG_KEY_CHECKPOINTER = ''__pregel_checkpointer''"
definition CONFIG_KEY_RESUMING :: string where [const_defs]: "CONFIG_KEY_RESUMING = ''__pregel_resuming''"
definition CONFIG_KEY_THREAD_ID :: string where [const_defs]: "CONFIG_KEY_THREAD_ID = ''thread_id''"
definition CONFIG_KEY_CHECKPOINT_MAP :: string where
  [const_defs]: "CONFIG_KEY_CHECKPOINT_MAP = ''checkpoint_map''"
definition CONFIG_KEY_CHECKPOINT_ID :: string where
  [const_defs]: "CONFIG_KEY_CHECKPOINT_ID = ''checkpoint_id''"
definition CONFIG_KEY_CHECKPOINT_NS :: string where
  [const_defs]: "CONFIG_KEY_CHECKPOINT_NS = ''checkpoint_ns''"
definition CONFIG_KEY_SCRATCHPAD :: string where
  [const_defs]: "CONFIG_KEY_SCRATCHPAD = ''__pregel_scratchpad''"
definition CONFIG_KEY_RUNTIME :: string where [const_defs]: "CONFIG_KEY_RUNTIME = ''__pregel_runtime''"
definition CONFIG_KEY_RESUME_MAP :: string where
  [const_defs]: "CONFIG_KEY_RESUME_MAP = ''__pregel_resume_map''"
definition CONFIG_KEY_NODE_ERROR :: string where
  [const_defs]: "CONFIG_KEY_NODE_ERROR = ''__pregel_node_error''"

end
