(* ===== verification/Pregel_Write.thy ===== *)
theory Pregel_Write
  imports Pregel_Types
begin

section \<open>Writing to channels from inside a task\<close>

text \<open>
  \<open>pregel/_write.py\<close> and the writers of \<open>pregel/_read.py\<close>'s \<open>PregelNode\<close>. The sentinels
  \<open>PASSTHROUGH\<close> and \<open>SKIP_WRITE\<close> are two distinguished objects, told apart from every value by
  identity. The send function under \<open>CONFIG_KEY_SEND\<close> extends the writes of the task it closes
  over: a call is modelled by that task's id and the writes handed to it.
\<close>

definition PASSTHROUGH :: pyval where "PASSTHROUGH = VObj ''PASSTHROUGH''"
definition SKIP_WRITE :: pyval where "SKIP_WRITE = VObj ''SKIP_WRITE''"

lemma sentinels_differ [simp]: "PASSTHROUGH \<noteq> SKIP_WRITE" "PASSTHROUGH \<noteq> VNone" "SKIP_WRITE \<noteq> VNone"
  by (simp_all add: PASSTHROUGH_def SKIP_WRITE_def)

datatype write_entry =
    ChannelWriteEntry string pyval bool "(pyval \<Rightarrow> pyval res) option"
  | ChannelWriteTupleEntry "pyval \<Rightarrow> writes option res" pyval "(string \<times> pyval \<times> string option) list option"
  | SendEntry string pyval "nat option"

subsection \<open>Assembling and sending\<close>

text \<open>One round of the loop of \<open>_assemble_writes\<close>: what the entry adds to the list.\<close>

fun entry_writes :: "write_entry \<Rightarrow> writes res" where
  "entry_writes (SendEntry node arg timeout) = Inr [(TASKS, VSend node arg timeout)]"
| "entry_writes (ChannelWriteTupleEntry mapper value static) =
     rmap (\<lambda>ww. case ww of None \<Rightarrow> [] | Some ws \<Rightarrow> ws) (mapper value)"
| "entry_writes (ChannelWriteEntry channel value skip_none mapper) =
     rbind (case mapper of None \<Rightarrow> Inr value | Some f \<Rightarrow> f value)
       (\<lambda>v. if v = SKIP_WRITE then Inr []
            else if skip_none \<and> v = VNone then Inr []
            else Inr [(channel, v)])"

fun assemble_writes :: "write_entry list \<Rightarrow> writes res" where
  "assemble_writes [] = Inr []"
| "assemble_writes (w # ws) = rbind (entry_writes w) (\<lambda>t. rmap (\<lambda>ts. t @ ts) (assemble_writes ws))"

text \<open>The validation loop of \<open>do_write\<close>.\<close>

fun entry_valid :: "bool \<Rightarrow> write_entry \<Rightarrow> bool" where
  "entry_valid allow_passthrough (ChannelWriteEntry channel value skip_none mapper) =
     (channel \<noteq> TASKS \<and> (value \<noteq> PASSTHROUGH \<or> allow_passthrough))"
| "entry_valid allow_passthrough (ChannelWriteTupleEntry mapper value static) =
     (value \<noteq> PASSTHROUGH \<or> allow_passthrough)"
| "entry_valid allow_passthrough (SendEntry node arg timeout) = True"

definition do_write :: "configurable \<Rightarrow> write_entry list \<Rightarrow> bool \<Rightarrow> (string \<times> writes) res" where
  "do_write conf writes allow_passthrough =
     (if \<not> list_all (entry_valid allow_passthrough) writes then Inl (InvalidUpdateError TASKS)
      else case map_of conf CONFIG_KEY_SEND of
             Some (CSend task_id) \<Rightarrow> rmap (\<lambda>ts. (task_id, ts)) (assemble_writes writes)
           | _ \<Rightarrow> Inl (KeyError CONFIG_KEY_SEND))"

text \<open>\<open>ChannelWrite._write\<close>: the input stands in for \<open>PASSTHROUGH\<close>; it is also the result.\<close>

fun fill_entry :: "pyval \<Rightarrow> write_entry \<Rightarrow> write_entry" where
  "fill_entry input (ChannelWriteEntry channel value skip_none mapper) =
     (if value = PASSTHROUGH then ChannelWriteEntry channel input skip_none mapper
      else ChannelWriteEntry channel value skip_none mapper)"
| "fill_entry input (ChannelWriteTupleEntry mapper value static) =
     (if value = PASSTHROUGH then ChannelWriteTupleEntry mapper input None
      else ChannelWriteTupleEntry mapper value static)"
| "fill_entry input (SendEntry node arg timeout) = SendEntry node arg timeout"

definition ChannelWrite_write :: "write_entry list \<Rightarrow> pyval \<Rightarrow> configurable \<Rightarrow> (string \<times> writes) res" where
  "ChannelWrite_write self input conf = do_write conf (map (fill_entry input) self) True"

subsection \<open>Runnables, as far as the writers look at them\<close>

text \<open>
  A \<open>ChannelWrite\<close>, a sequence, or any other runnable with the attribute \<open>_is_channel_writer\<close>
  that \<open>register_writer\<close> sets: absent, \<open>None\<close>, or the declared entries with their labels.
\<close>

datatype runnable =
    R_ChannelWrite "write_entry list"
  | R_Seq "runnable list"
  | R_Other string "(write_entry \<times> string option) list option option"

fun is_ChannelWrite :: "runnable \<Rightarrow> bool" where
  "is_ChannelWrite (R_ChannelWrite ws) = True"
| "is_ChannelWrite _ = False"

fun is_writer :: "runnable \<Rightarrow> bool" where
  "is_writer (R_ChannelWrite ws) = True"
| "is_writer (R_Other name attr) = (attr \<noteq> None)"
| "is_writer (R_Seq rs) = False"

fun register_writer :: "runnable \<Rightarrow> (write_entry \<times> string option) list option \<Rightarrow> runnable" where
  "register_writer (R_Other name attr) static = R_Other name (Some static)"
| "register_writer r static = r"

fun entry_static :: "write_entry \<Rightarrow> (string \<times> pyval \<times> string option) list" where
  "entry_static (ChannelWriteTupleEntry mapper value (Some static)) = static"
| "entry_static _ = []"

fun get_static_writes :: "runnable \<Rightarrow> (string \<times> pyval \<times> string option) list option res" where
  "get_static_writes (R_ChannelWrite entries) =
     (let ws = concat (map entry_static entries) in Inr (if ws = [] then None else Some ws))"
| "get_static_writes (R_Other name (Some (Some writes))) =
     (if writes = [] then Inr None
      else rmap (\<lambda>ts. Some (map (\<lambda>((c, v), la). (c, v, la)) (zip ts (map snd writes))))
             (assemble_writes (map fst writes)))"
| "get_static_writes _ = Inr None"

subsection \<open>Merging consecutive writers\<close>

text \<open>
  \<open>PregelNode.flat_writers\<close>: the loop works on the end of the list, here reversed: the last two
  writers are merged while both are \<open>ChannelWrite\<close>s.
\<close>

fun flat_rev :: "runnable list \<Rightarrow> runnable list" where
  "flat_rev (R_ChannelWrite ws2 # R_ChannelWrite ws1 # rest) =
     flat_rev (R_ChannelWrite (ws1 @ ws2) # rest)"
| "flat_rev writers = writers"

definition flat_writers :: "runnable list \<Rightarrow> runnable list" where
  "flat_writers writers = rev (flat_rev (rev writers))"

text \<open>
  Running writers one after the other, as \<open>RunnableSeq\<close> does: each gets the result of the one
  before and what it sends is appended to the task's writes. What a runnable other than a
  \<open>ChannelWrite\<close> does is the parameter \<open>run\<close>.
\<close>

definition run_writer ::
  "(runnable \<Rightarrow> pyval \<Rightarrow> (pyval \<times> writes) res) \<Rightarrow> configurable \<Rightarrow> runnable \<Rightarrow> pyval \<Rightarrow> (pyval \<times> writes) res" where
  "run_writer run conf r x =
     (case r of R_ChannelWrite ws \<Rightarrow> rmap (\<lambda>(tid, ts). (x, ts)) (ChannelWrite_write ws x conf)
      | _ \<Rightarrow> run r x)"

definition run_seq ::
  "(runnable \<Rightarrow> pyval \<Rightarrow> (pyval \<times> writes) res) \<Rightarrow> configurable \<Rightarrow> runnable list \<Rightarrow> pyval \<Rightarrow> (pyval \<times> writes) res" where
  "run_seq run conf rs x =
     rfold (\<lambda>(x, acc) r. rmap (\<lambda>(y, ts). (y, acc @ ts)) (run_writer run conf r x)) (x, []) rs"

lemma assemble_writes_append:
  "assemble_writes (xs @ ys) = rbind (assemble_writes xs) (\<lambda>a. rmap (\<lambda>b. a @ b) (assemble_writes ys))"
  by (induction xs) (auto simp: rbind_def rmap_def split: sum.splits)

lemma ChannelWrite_write_append:
  "ChannelWrite_write (xs @ ys) x conf = Inr (tid, ts) \<longleftrightarrow>
   (\<exists>a b. ChannelWrite_write xs x conf = Inr (tid, a) \<and> ChannelWrite_write ys x conf = Inr (tid, b) \<and> ts = a @ b)"
  by (auto simp: ChannelWrite_write_def do_write_def assemble_writes_append rbind_Inr_iff rmap_Inr_iff
      split: if_splits option.splits confval.splits)

lemma ChannelWrite_write_task:
  "ChannelWrite_write ws x conf = Inr (tid, ts) \<Longrightarrow> map_of conf CONFIG_KEY_SEND = Some (CSend tid)"
  by (auto simp: ChannelWrite_write_def do_write_def rmap_Inr_iff split: if_splits option.splits confval.splits)

lemma run_writer_merge:
  "rfold (\<lambda>(x, acc) r. rmap (\<lambda>(y, ts). (y, acc @ ts)) (run_writer run conf r x)) s
      [R_ChannelWrite ws1, R_ChannelWrite ws2] = Inr s'
   \<longleftrightarrow> rfold (\<lambda>(x, acc) r. rmap (\<lambda>(y, ts). (y, acc @ ts)) (run_writer run conf r x)) s
      [R_ChannelWrite (ws1 @ ws2)] = Inr s'"
  by (cases s)
    (fastforce simp: run_writer_def rbind_Inr_iff rmap_Inr_iff ChannelWrite_write_append
      dest: ChannelWrite_write_task)

lemma run_flat_rev:
  "rfold (\<lambda>(x, acc) r. rmap (\<lambda>(y, ts). (y, acc @ ts)) (run_writer run conf r x)) s (rev (flat_rev rs)) = Inr s'
   \<longleftrightarrow> rfold (\<lambda>(x, acc) r. rmap (\<lambda>(y, ts). (y, acc @ ts)) (run_writer run conf r x)) s (rev rs) = Inr s'"
proof (induction rs arbitrary: s s' rule: flat_rev.induct)
  case (1 ws2 ws1 rest)
  then show ?case
    using run_writer_merge [of run conf _ ws1 ws2]
    by (simp add: rfold_append rbind_Inr_iff del: rfold.simps)
qed simp_all

lemma run_flat: "run_seq run conf (flat_writers ws) x = Inr r \<longleftrightarrow> run_seq run conf ws x = Inr r"
  using run_flat_rev [of run conf "(x, [])" "rev ws" r] by (simp add: run_seq_def flat_writers_def)

text \<open>
  Merging a node's consecutive \<open>ChannelWrite\<close>s changes nothing a run can see: running the
  merged writers returns a value and a list of writes exactly when running the original ones one
  by one does, and then the same; at most one of the merged writers at the end is a \<open>ChannelWrite\<close>.
\<close>

theorem flat_writers_equivalent:
  "(run_seq run conf (flat_writers ws) x = Inr r \<longleftrightarrow> run_seq run conf ws x = Inr r)
    \<and> (\<forall>pre a b. flat_writers ws = pre @ [a, b] \<longrightarrow> \<not> (is_ChannelWrite a \<and> is_ChannelWrite b))"
proof
  show "run_seq run conf (flat_writers ws) x = Inr r \<longleftrightarrow> run_seq run conf ws x = Inr r"
    by (rule run_flat)
  have "flat_rev rs = b # a # pre \<Longrightarrow> \<not> (is_ChannelWrite a \<and> is_ChannelWrite b)" for rs a b pre
    by (induction rs rule: flat_rev.induct) auto
  then show "\<forall>pre a b. flat_writers ws = pre @ [a, b] \<longrightarrow> \<not> (is_ChannelWrite a \<and> is_ChannelWrite b)"
    unfolding flat_writers_def by (metis rev_append rev_rev_ident append_Cons append_Nil rev.simps(2) rev_singleton_conv)
qed

lemma flat_writers_equivalent_witness:
  "run_seq (\<lambda>r x. Inr (x, [])) [(CONFIG_KEY_SEND, CSend ''t'')]
     (flat_writers [R_ChannelWrite [ChannelWriteEntry ''a'' PASSTHROUGH False None],
                    R_ChannelWrite [SendEntry ''n'' VNone None]]) (VInt 1)
   = Inr (VInt 1, [(''a'', VInt 1), (TASKS, VSend ''n'' VNone None)])"
  using flat_writers_equivalent
    [of "\<lambda>r x. Inr (x, [])" "[(CONFIG_KEY_SEND, CSend ''t'')]"
        "[R_ChannelWrite [ChannelWriteEntry ''a'' PASSTHROUGH False None],
          R_ChannelWrite [SendEntry ''n'' VNone None]]" "VInt 1"
        "(VInt 1, [(''a'', VInt 1), (TASKS, VSend ''n'' VNone None)])"]
  by (simp add: run_seq_def run_writer_def ChannelWrite_write_def do_write_def SKIP_WRITE_def const_defs)

end
