(* ===== verification/Pregel_Read.thy ===== *)
theory Pregel_Read
  imports Pregel_Write
begin

section \<open>Nodes and tasks\<close>

text \<open>
  \<open>PregelNode\<close> (\<open>pregel/_read.py\<close>), \<open>PregelTask\<close>, \<open>PregelExecutableTask\<close> and \<open>CacheKey\<close>
  (\<open>types.py\<close>) and \<open>PregelTaskWrites\<close> (\<open>pregel/_algo.py\<close>). A mapper is a function with its
  object identity, which is what \<open>input_cache_key\<close> compares. A default bound is \<open>None\<close>.
\<close>

datatype ch_keys = OneKey string | ManyKeys "string list"

record mapper =
  mp_id :: nat
  mp_call :: "pyval \<Rightarrow> pyval res"

record cache_policy =
  cpol_key_func :: "pyval \<Rightarrow> string res"
  cpol_ttl :: "nat option"

record cache_key =
  ck_ns :: "string list"
  ck_key :: string
  ck_ttl :: "nat option"

record pregel_node =
  pn_channels :: ch_keys
  pn_triggers :: "string list"
  pn_mapper :: "mapper option"
  pn_writers :: "runnable list"
  pn_bound :: "runnable option"
  pn_retry_policy :: "string list option"
  pn_cache_policy :: "cache_policy option"
  pn_timeout :: "nat option"
  pn_tags :: "string list option"
  pn_metadata :: "(string, pyval) dict option"
  pn_is_error_handler :: bool
  pn_error_handler_node :: "string option"
  pn_subgraphs :: "string list"

text \<open>\<open>PregelNode.node\<close>: \<open>bound\<close> followed by the merged writers.\<close>

definition node_runnable :: "pregel_node \<Rightarrow> runnable option" where
  "node_runnable self =
     (let writers = flat_writers (pn_writers self) in
      case pn_bound self of
        None \<Rightarrow> (case writers of [] \<Rightarrow> None | [w] \<Rightarrow> Some w | _ \<Rightarrow> Some (R_Seq writers))
      | Some b \<Rightarrow> Some (if writers \<noteq> [] then R_Seq (b # writers) else b))"

type_synonym input_cache_key = "nat option \<times> string list"

definition input_cache_key :: "pregel_node \<Rightarrow> input_cache_key" where
  "input_cache_key self =
     (map_option mp_id (pn_mapper self),
      case pn_channels self of ManyKeys ks \<Rightarrow> ks | OneKey k \<Rightarrow> [k])"

subsection \<open>Tasks\<close>

record pregel_task =
  pt_id :: string
  pt_name :: string
  pt_path :: "path_part list"

record exec_task =
  et_name :: string
  et_input :: pyval
  et_proc :: runnable
  et_writes :: writes
  et_config :: run_config
  et_triggers :: "string list"
  et_retry_policy :: "string list"
  et_cache_key :: "cache_key option"
  et_id :: string
  et_path :: "path_part list"
  et_writers :: "runnable list"
  et_subgraphs :: "string list"
  et_timeout :: "nat option"

text \<open>What \<open>apply_writes\<close> and \<open>local_read\<close> need of a task: the protocol \<open>WritesProtocol\<close>.\<close>

record task_writes =
  tw_path :: "path_part list"
  tw_name :: string
  tw_writes :: writes
  tw_triggers :: "string list"

definition writes_of_task :: "exec_task \<Rightarrow> task_writes" where
  "writes_of_task t =
     \<lparr>tw_path = et_path t, tw_name = et_name t, tw_writes = et_writes t, tw_triggers = et_triggers t\<rparr>"

lemma writes_of_task_simps [simp]:
  "tw_path (writes_of_task t) = et_path t" "tw_name (writes_of_task t) = et_name t"
  "tw_writes (writes_of_task t) = et_writes t" "tw_triggers (writes_of_task t) = et_triggers t"
  by (simp_all add: writes_of_task_def)

text \<open>
  The two sources of a cached input are told apart by the mapper and the channel names alone, so
  that a node reading one channel and a node reading the list of just that channel share a key.
\<close>

lemma input_cache_key_collision:
  "pn_mapper a = pn_mapper b \<Longrightarrow> pn_channels a = OneKey k \<Longrightarrow> pn_channels b = ManyKeys [k] \<Longrightarrow>
   input_cache_key a = input_cache_key b"
  by (simp add: input_cache_key_def)

end
