(* ===== verification/Pregel_IO.thy ===== *)
theory Pregel_IO
  imports Pregel_Read
begin

section \<open>Reading channels, mapping inputs, commands and outputs\<close>

text \<open>
  \<open>pregel/_io.py\<close> and the parts of \<open>types.py\<close> and \<open>_internal/_fields.py\<close> that turn a
  \<open>Command\<close> into writes. A generator is the list of what it yields; where it raises half-way its
  callers drop what it had yielded, so the model keeps only the error.
\<close>

type_synonym channels = "(string, channel) dict"

subsection \<open>Reading\<close>

definition read_channel :: "channels \<Rightarrow> string \<Rightarrow> bool \<Rightarrow> pyval res" where
  "read_channel channels chan catch =
     (case map_of channels chan of
        None \<Rightarrow> Inl (KeyError chan)
      | Some c \<Rightarrow>
          (case channel_get c of
             Inr v \<Rightarrow> Inr v
           | Inl e \<Rightarrow> if e = EmptyChannelError \<and> catch then Inr VNone else Inl e))"

definition read_key ::
  "channels \<Rightarrow> bool \<Rightarrow> (string, pyval) dict \<Rightarrow> string \<Rightarrow> (string, pyval) dict res" where
  "read_key channels skip_empty values k =
     (case read_channel channels k (\<not> skip_empty) of
        Inr v \<Rightarrow> Inr (dset k v values)
      | Inl e \<Rightarrow> if e = EmptyChannelError then Inr values else Inl e)"

definition read_keys :: "channels \<Rightarrow> string list \<Rightarrow> bool \<Rightarrow> (string, pyval) dict res" where
  "read_keys channels select skip_empty = rfold (read_key channels skip_empty) [] select"

definition read_channels :: "channels \<Rightarrow> ch_keys \<Rightarrow> bool \<Rightarrow> pyval res" where
  "read_channels channels select skip_empty =
     (case select of
        OneKey k \<Rightarrow> read_channel channels k True
      | ManyKeys ks \<Rightarrow> rmap VDict (read_keys channels ks skip_empty))"

lemma read_key_spec:
  assumes "read_key channels skip values k = Inr values'"
  shows "\<exists>c. map_of channels k = Some c \<and>
    (\<forall>j. map_of values' j =
       (if j = k \<and> (channel_is_available c \<or> \<not> skip)
        then Some (case channel_get c of Inr v \<Rightarrow> v | Inl e \<Rightarrow> VNone) else map_of values j))"
proof (cases "map_of channels k")
  case None
  with assms show ?thesis by (simp add: read_key_def read_channel_def)
next
  case (Some c)
  then show ?thesis
    using assms chan.available_iff [of c] chan.get_raises [of c]
    by (cases "channel_get c") (auto simp: read_key_def read_channel_def split: if_splits)
qed

lemma read_keys_total:
  "(\<forall>k \<in> set ks. dmem k channels) \<Longrightarrow> \<exists>d. rfold (read_key channels skip) acc ks = Inr d"
proof (induction ks arbitrary: acc)
  case (Cons k ks)
  then obtain c where c: "map_of channels k = Some c" by (auto simp: dmem_def)
  obtain acc' where "read_key channels skip acc k = Inr acc'"
    using chan.get_raises [of c]
    by (cases "channel_get c"; cases skip) (auto simp: read_key_def read_channel_def c)
  with Cons show ?case by auto
qed simp

lemma read_keys_lookup:
  assumes "rfold (read_key channels skip) acc ks = Inr d"
  shows "map_of d j =
    (if j \<in> set ks \<and> (skip \<longrightarrow> channel_is_available (the (map_of channels j)))
     then Some (case channel_get (the (map_of channels j)) of Inr v \<Rightarrow> v | Inl e \<Rightarrow> VNone)
     else map_of acc j)"
  using assms
proof (induction ks arbitrary: acc)
  case (Cons k ks)
  then obtain acc' where k: "read_key channels skip acc k = Inr acc'"
    and r: "rfold (read_key channels skip) acc' ks = Inr d"
    by (auto simp: rbind_Inr_iff)
  from read_key_spec [OF k] Cons.IH [OF r] show ?case by auto
qed simp

text \<open>
  Reading a list of known channels always succeeds; with \<open>skip_empty\<close> the result has exactly
  the available channels among them, each with the value \<open>get\<close> returns.
\<close>

theorem read_channels_available:
  assumes "\<forall>k \<in> set ks. dmem k channels"
  shows "\<exists>d. read_channels channels (ManyKeys ks) True = Inr (VDict d)
    \<and> (\<forall>k v. map_of d k = Some v \<longleftrightarrow>
         k \<in> set ks \<and> channel_get (the (map_of channels k)) = Inr v)"
proof -
  obtain d where d: "rfold (read_key channels True) [] ks = Inr d"
    using read_keys_total [OF assms] by blast
  have "map_of d k = Some v \<longleftrightarrow> k \<in> set ks \<and> channel_get (the (map_of channels k)) = Inr v" for k v
    using read_keys_lookup [OF d, of k] chan.available_iff [of "the (map_of channels k)"] by auto
  then show ?thesis
    using d by (auto simp: read_channels_def read_keys_def)
qed

lemma read_channels_available_witness:
  "\<exists>d. read_channels
      [(''a'', Ch_LastValue (LastValue_init TyInt ''a'')),
       (''b'', Ch_LastValue ((LastValue_init TyInt ''b'')\<lparr>lv_value := Some (VInt 3)\<rparr>))]
      (ManyKeys [''a'', ''b'']) True = Inr (VDict d) \<and> map_of d ''b'' = Some (VInt 3)"
  using read_channels_available
    [of "[''a'', ''b'']"
        "[(''a'', Ch_LastValue (LastValue_init TyInt ''a'')),
          (''b'', Ch_LastValue ((LastValue_init TyInt ''b'')\<lparr>lv_value := Some (VInt 3)\<rparr>))]"]
  by (auto simp: dmem_def LastValue_get_def)

subsection \<open>Commands\<close>

record command =
  cmd_graph :: "string option"
  cmd_update :: pyval
  cmd_resume :: pyval
  cmd_goto :: pyval

definition COMMAND_PARENT :: string where "COMMAND_PARENT = ''__parent__''"

text \<open>
  What \<open>get_cached_annotated_keys\<close> and \<open>getattr\<close> find on an update that is an object: the
  annotated keys of its class, its attributes, and for a Pydantic model the fields that were set
  and the defaults. Classes are the user's: the view is a parameter of the definitions below.
\<close>

record obj_view =
  ov_keys :: "string list"
  ov_attrs :: "(string, pyval) dict"
  ov_model :: "(string list \<times> (string, pyval) dict) option"

definition get_update_as_tuples :: "obj_view \<Rightarrow> writes" where
  "get_update_as_tuples input =
     concat (map (\<lambda>k.
       case map_of (ov_attrs input) k of
         None \<Rightarrow> []
       | Some value \<Rightarrow>
           (let default = (case ov_model input of None \<Rightarrow> None | Some (keep, defaults) \<Rightarrow> map_of defaults k);
                kept = (case ov_model input of None \<Rightarrow> False | Some (keep, defaults) \<Rightarrow> k \<in> set keep)
            in if value \<noteq> VNone \<or> default \<noteq> Some VNone \<or> kept then [(k, value)] else []))
       (ov_keys input))"

fun as_pair :: "pyval \<Rightarrow> (string \<times> pyval) option" where
  "as_pair (VTuple [VStr k, v]) = Some (k, v)"
| "as_pair _ = None"

fun seq_items :: "pyval \<Rightarrow> pyval list option" where
  "seq_items (VList xs) = Some xs"
| "seq_items (VTuple xs) = Some xs"
| "seq_items _ = None"

definition update_as_tuples :: "(pyval \<Rightarrow> obj_view) \<Rightarrow> pyval \<Rightarrow> writes" where
  "update_as_tuples view update =
     (case update of
        VDict d \<Rightarrow> d
      | _ \<Rightarrow>
          (case seq_items update of
             Some xs \<Rightarrow>
               (if list_all (\<lambda>t. as_pair t \<noteq> None) xs then map (\<lambda>t. the (as_pair t)) xs
                else [(''__root__'', update)])
           | None \<Rightarrow>
               (if ov_keys (view update) \<noteq> [] then get_update_as_tuples (view update)
                else if update \<noteq> VNone then [(''__root__'', update)] else [])))"

definition branch_to :: "string \<Rightarrow> string" where
  "branch_to node = ''branch:to:'' @ node"

fun goto_write :: "pyval \<Rightarrow> pending_write res" where
  "goto_write (VSend node arg timeout) = Inr (NULL_TASK_ID, TASKS, VSend node arg timeout)"
| "goto_write (VStr node) = Inr (NULL_TASK_ID, branch_to node, VStr START)"
| "goto_write _ = Inl (TypeError ''goto'')"

fun rmapM :: "('a \<Rightarrow> 'e + 'b) \<Rightarrow> 'a list \<Rightarrow> 'e + 'b list" where
  "rmapM f [] = Inr []"
| "rmapM f (x # xs) = rbind (f x) (\<lambda>y. rmap (\<lambda>ys. y # ys) (rmapM f xs))"

definition map_command :: "(pyval \<Rightarrow> obj_view) \<Rightarrow> command \<Rightarrow> pending_write list res" where
  "map_command view cmd =
     (if cmd_graph cmd = Some COMMAND_PARENT then Inl (InvalidUpdateError ''There is no parent graph'')
      else rmap (\<lambda>gs.
             gs @ (if cmd_resume cmd \<noteq> VNone then [(NULL_TASK_ID, RESUME, cmd_resume cmd)] else [])
                @ (if py_bool (cmd_update cmd)
                   then map (\<lambda>(k, v). (NULL_TASK_ID, k, v)) (update_as_tuples view (cmd_update cmd))
                   else []))
             (if py_bool (cmd_goto cmd)
              then rmapM goto_write
                     (case seq_items (cmd_goto cmd) of Some xs \<Rightarrow> xs | None \<Rightarrow> [cmd_goto cmd])
              else Inr []))"

lemma rmapM_Inr: "rmapM f xs = Inr ys \<longleftrightarrow> list_all2 (\<lambda>x y. f x = Inr y) xs ys"
  by (induction xs arbitrary: ys) (auto simp: rbind_Inr_iff rmap_Inr_iff list_all2_Cons1)

text \<open>Every write a command makes belongs to the null task.\<close>

lemma goto_write_task: "goto_write g = Inr (tid, c, v) \<Longrightarrow> tid = NULL_TASK_ID"
  by (cases g) auto

subsection \<open>Input\<close>

definition map_input :: "ch_keys \<Rightarrow> pyval \<Rightarrow> writes res" where
  "map_input input_channels chunk =
     (if chunk = VNone then Inr []
      else case input_channels of
             OneKey k \<Rightarrow> Inr [(k, chunk)]
           | ManyKeys ks \<Rightarrow>
               (case chunk of
                  VDict d \<Rightarrow> Inr (filter (\<lambda>(k, v). k \<in> set ks) d)
                | _ \<Rightarrow> Inl (TypeError ''Expected chunk to be a dict'')))"

subsection \<open>Output\<close>

text \<open>\<open>pending_writes\<close> is \<open>None\<close> for the literal \<open>True\<close>. A read outside the channels raises.\<close>

definition map_output_values :: "ch_keys \<Rightarrow> writes option \<Rightarrow> channels \<Rightarrow> pyval list res" where
  "map_output_values output_channels pending_writes channels =
     (case output_channels of
        OneKey k \<Rightarrow>
          (if (case pending_writes of None \<Rightarrow> True | Some ws \<Rightarrow> \<exists>w \<in> set ws. fst w = k)
           then rmap (\<lambda>v. [v]) (read_channel channels k True) else Inr [])
      | ManyKeys ks \<Rightarrow>
          (if (case pending_writes of None \<Rightarrow> True | Some ws \<Rightarrow> \<exists>w \<in> set ws. fst w \<in> set ks)
           then rmap (\<lambda>v. [v]) (read_channels channels output_channels True) else Inr []))"

text \<open>The filter over tasks: \<open>ww[0][0]\<close> raises when a visible task has no writes.\<close>

definition config_hidden :: "run_config \<Rightarrow> bool" where
  "config_hidden c = (case rc_tags c of None \<Rightarrow> False | Some ts \<Rightarrow> TAG_HIDDEN \<in> set ts)"

definition output_task :: "exec_task \<times> writes \<Rightarrow> bool res" where
  "output_task tw =
     (if config_hidden (et_config (fst tw)) then Inr False
      else case snd tw of
             [] \<Rightarrow> Inl IndexError
           | w # _ \<Rightarrow> Inr (fst w \<noteq> ERROR \<and> fst w \<noteq> INTERRUPT))"

definition chan_values :: "string list \<Rightarrow> writes \<Rightarrow> writes" where
  "chan_values ks ws = filter (\<lambda>(c, v). c \<in> set ks) ws"

definition task_updates :: "ch_keys \<Rightarrow> exec_task \<times> writes \<Rightarrow> (string \<times> pyval) list" where
  "task_updates output_channels tw =
     (let name = et_name (fst tw); writes = snd tw in
      case map_of writes RETURN of
        Some rtn \<Rightarrow> [(name, rtn)]
      | None \<Rightarrow>
          (case output_channels of
             OneKey k \<Rightarrow> map (\<lambda>(c, v). (name, v)) (chan_values [k] writes)
           | ManyKeys ks \<Rightarrow>
               (if \<exists>w \<in> set writes. fst w \<in> set ks
                then (if \<exists>k \<in> set ks. 1 < count_list (map fst writes) k
                      then map (\<lambda>(c, v). (name, VDict [(c, v)])) (chan_values ks writes)
                      else [(name, VDict (dupd [] (chan_values ks writes)))])
                else [])))"

definition group_update :: "(string, pyval list) dict \<Rightarrow> string \<times> pyval \<Rightarrow> (string, pyval list) dict" where
  "group_update grouped nv =
     map (\<lambda>(k, vs). if k = fst nv then (k, vs @ [snd nv]) else (k, vs)) grouped"

fun collapse :: "pyval list \<Rightarrow> pyval" where
  "collapse [] = VNone"
| "collapse [v] = v"
| "collapse vs = VList vs"

definition map_output_updates ::
  "ch_keys \<Rightarrow> (exec_task \<times> writes) list \<Rightarrow> bool \<Rightarrow> (string, pyval) dict option res" where
  "map_output_updates output_channels tasks cached =
     rmap (\<lambda>keep.
         let output_tasks = map fst (filter snd (zip tasks keep)) in
         if output_tasks = [] then None
         else
           let updated = concat (map (task_updates output_channels) output_tasks);
               grouped0 = foldl (\<lambda>g t. dset (et_name (fst t)) [] g) [] output_tasks;
               grouped = map (\<lambda>(k, vs). (k, collapse vs)) (foldl group_update grouped0 updated)
           in Some (if cached then dset ''__metadata__'' (VDict [(''cached'', VBool True)]) grouped
                    else grouped))
       (rmapM output_task tasks)"

lemma group_update_lookup:
  "map_of (group_update g nv) k =
     map_option (\<lambda>vs. if k = fst nv then vs @ [snd nv] else vs) (map_of g k)"
  by (induction g) (auto simp: group_update_def)

lemma group_updates_lookup:
  "map_of (foldl group_update g us) k =
     map_option (\<lambda>vs. vs @ map snd (filter (\<lambda>nv. fst nv = k) us)) (map_of g k)"
  by (induction us arbitrary: g) (auto simp: group_update_lookup option.map_comp comp_def option.map_ident)

lemma empty_groups_lookup:
  "map_of (foldl (\<lambda>g t. dset (f t) [] g) d ts) k =
     (if k \<in> f ` set ts then Some [] else map_of d k)"
  by (induction ts arbitrary: d) auto

lemma task_updates_name: "nv \<in> set (task_updates oc tw) \<Longrightarrow> fst nv = et_name (fst tw)"
  by (auto simp: task_updates_def Let_def split: option.splits ch_keys.splits if_splits)

text \<open>
  The updates chunk has one entry per visible task name that did not fail or interrupt; an
  entry collects, in order, what all the tasks of that name wrote (its return value, or its writes
  to the output channels): \<open>None\<close> for nothing, the value itself for one, the list for several.
\<close>

theorem map_output_updates_groups:
  assumes "map_output_updates oc tasks False = Inr (Some g)"
  shows "\<exists>vis. vis = filter (\<lambda>tw. output_task tw = Inr True) tasks \<and> vis \<noteq> []
    \<and> (\<forall>name. map_of g name =
        (if name \<in> (\<lambda>tw. et_name (fst tw)) ` set vis
         then Some (collapse (map snd (filter (\<lambda>nv. fst nv = name)
                      (concat (map (task_updates oc) vis))))) else None))"
proof -
  obtain keep where k: "rmapM output_task tasks = Inr keep"
    using assms by (auto simp: map_output_updates_def rmap_Inr_iff)
  have vis: "map fst (filter snd (zip tasks keep)) = filter (\<lambda>tw. output_task tw = Inr True) tasks"
    using k unfolding rmapM_Inr
    by (induction rule: list_all2_induct) auto
  let ?vis = "filter (\<lambda>tw. output_task tw = Inr True) tasks"
  let ?g = "foldl group_update (foldl (\<lambda>g t. dset (et_name (fst t)) [] g) [] ?vis)
               (concat (map (task_updates oc) ?vis))"
  have ne: "?vis \<noteq> []" and g: "g = map (\<lambda>(k, vs). (k, collapse vs)) ?g"
    using assms unfolding map_output_updates_def k rmap_simps Let_def vis by (auto split: if_splits)
  have "map_of g name = map_option collapse (map_of ?g name)" for name
    unfolding g by (rule map_of_map_snd)
  then show ?thesis
    using ne by (auto simp: group_updates_lookup empty_groups_lookup image_iff)
qed

definition example_task :: "string \<Rightarrow> exec_task" where
  "example_task name =
     \<lparr>et_name = name, et_input = VNone, et_proc = R_Seq [], et_writes = [], et_config = empty_config,
      et_triggers = [], et_retry_policy = [], et_cache_key = None, et_id = name, et_path = [],
      et_writers = [], et_subgraphs = [], et_timeout = None\<rparr>"

lemma map_output_updates_groups_witness:
  "\<exists>g. map_output_updates (OneKey ''x'')
        [(example_task ''a'', [(''x'', VInt 1)]), (example_task ''a'', [(''x'', VInt 2)]),
         (example_task ''b'', [(ERROR, VNone)])] False = Inr (Some g)
     \<and> map_of g ''a'' = Some (VList [VInt 1, VInt 2])"
proof -
  let ?tasks = "[(example_task ''a'', [(''x'', VInt 1)]), (example_task ''a'', [(''x'', VInt 2)]),
         (example_task ''b'', [(ERROR, VNone)])]"
  have "map_output_updates (OneKey ''x'') ?tasks False = Inr (Some [(''a'', VList [VInt 1, VInt 2])])"
    by (simp add: map_output_updates_def output_task_def example_task_def config_hidden_def
        empty_config_def Let_def task_updates_def chan_values_def group_update_def const_defs)
  from map_output_updates_groups [OF this] this show ?thesis by auto
qed

end
