(* ===== verification/Pregel_Validate.thy ===== *)
theory Pregel_Validate
  imports Pregel_IO
begin

section \<open>Validation of a graph\<close>

text \<open>
  \<open>pregel/_validate.py\<close>: the checks of \<open>validate_graph\<close> one after the other, each loop the first
  offending name. Nodes are \<open>PregelNode\<close>s; the \<open>TypeError\<close> for anything else cannot arise here.
  Interrupt lists are \<open>None\<close> for \<open>"*"\<close>.
\<close>

fun first_bad :: "('a \<Rightarrow> bool) \<Rightarrow> ('a \<Rightarrow> string) \<Rightarrow> 'a list \<Rightarrow> unit res" where
  "first_bad ok name [] = Inr ()"
| "first_bad ok name (x # xs) = (if ok x then first_bad ok name xs else Inl (ValueError (name x)))"

lemma first_bad_Inr [simp]: "first_bad ok name xs = Inr u \<longleftrightarrow> (\<forall>x \<in> set xs. ok x)"
  by (induction xs) auto

lemma first_bad_Inl: "first_bad ok name xs = Inl e \<Longrightarrow> \<exists>x \<in> set xs. \<not> ok x \<and> e = ValueError (name x)"
  by (induction xs) (auto split: if_splits)

fun node_reads :: "ch_keys \<Rightarrow> string list" where
  "node_reads (OneKey k) = [k]"
| "node_reads (ManyKeys ks) = ks"

text \<open>A single channel must be a channel, a listed one may be a managed value.\<close>

definition check_node ::
  "string list \<Rightarrow> string list \<Rightarrow> string \<times> pregel_node \<Rightarrow> unit res" where
  "check_node channels managed nn =
     (if fst nn \<in> set RESERVED then Inl (ValueError (fst nn))
      else case pn_channels (snd nn) of
             OneKey k \<Rightarrow> first_bad (\<lambda>c. c \<in> set channels) id [k]
           | ManyKeys ks \<Rightarrow> first_bad (\<lambda>c. c \<in> set channels \<or> c \<in> set managed) id ks)"

definition subscribed :: "(string \<times> pregel_node) list \<Rightarrow> string list" where
  "subscribed nodes = remdups (concat (map (\<lambda>nn. pn_triggers (snd nn)) nodes))"

definition check_inputs :: "string list \<Rightarrow> string list \<Rightarrow> ch_keys \<Rightarrow> unit res" where
  "check_inputs channels subs input_channels =
     (case input_channels of
        OneKey k \<Rightarrow>
          (if k \<notin> set channels then Inl (ValueError k)
           else if k \<notin> set subs then Inl (ValueError k) else Inr ())
      | ManyKeys ks \<Rightarrow>
          rbind (first_bad (\<lambda>c. c \<in> set channels) id ks)
            (\<lambda>_. if list_all (\<lambda>c. c \<notin> set subs) ks
                 then Inl (ValueError ''None of the input channels are subscribed to by any node'')
                 else Inr ()))"

definition check_interrupts :: "string list \<Rightarrow> string list option \<Rightarrow> unit res" where
  "check_interrupts nodes ns =
     (case ns of None \<Rightarrow> Inr () | Some ns \<Rightarrow> first_bad (\<lambda>n. n \<in> set nodes) id ns)"

definition validate_graph ::
  "(string, pregel_node) dict \<Rightarrow> string list \<Rightarrow> string list \<Rightarrow> ch_keys \<Rightarrow> ch_keys \<Rightarrow> ch_keys option \<Rightarrow>
   string list option \<Rightarrow> string list option \<Rightarrow> unit res" where
  "validate_graph nodes channels managed input_channels output_channels stream_channels
     interrupt_after_nodes interrupt_before_nodes =
     rbind (first_bad (\<lambda>c. c \<notin> set RESERVED) id channels) (\<lambda>_.
     rbind (first_bad (\<lambda>c. c \<notin> set RESERVED) id managed) (\<lambda>_.
     rbind (rfold (\<lambda>_ nn. check_node channels managed nn) () nodes) (\<lambda>_.
     rbind (first_bad (\<lambda>c. c \<in> set channels) id (subscribed nodes)) (\<lambda>_.
     rbind (check_inputs channels (subscribed nodes) input_channels) (\<lambda>_.
     rbind (first_bad (\<lambda>c. c \<in> set channels) id
              (node_reads output_channels @
               (case stream_channels of None \<Rightarrow> [] | Some ks \<Rightarrow> node_reads ks))) (\<lambda>_.
     rbind (check_interrupts (dkeys nodes) interrupt_after_nodes) (\<lambda>_.
     check_interrupts (dkeys nodes) interrupt_before_nodes)))))))"

definition validate_keys :: "ch_keys option \<Rightarrow> string list \<Rightarrow> unit res" where
  "validate_keys keys channels =
     (case keys of None \<Rightarrow> Inr ()
      | Some ks \<Rightarrow> first_bad (\<lambda>c. c \<in> set channels) id (node_reads ks))"

lemma check_node_Inr:
  "check_node channels managed nn = Inr u \<longleftrightarrow>
   fst nn \<notin> set RESERVED \<and>
   (case pn_channels (snd nn) of OneKey k \<Rightarrow> k \<in> set channels
    | ManyKeys ks \<Rightarrow> set ks \<subseteq> set channels \<union> set managed)"
  by (auto simp: check_node_def split: ch_keys.splits)

lemma rfold_unit_Inr: "rfold (\<lambda>_ x. f x) () xs = Inr u \<longleftrightarrow> (\<forall>x \<in> set xs. f x = Inr ())"
  by (induction xs) (auto simp: rbind_Inr_iff)

definition input_ok :: "ch_keys \<Rightarrow> string list \<Rightarrow> string list \<Rightarrow> bool" where
  "input_ok k channels subs =
     (set (node_reads k) \<subseteq> set channels \<and> (\<exists>c \<in> set (node_reads k). c \<in> set subs))"

lemma check_inputs_Inr: "check_inputs channels subs k = Inr u \<longleftrightarrow> input_ok k channels subs"
  by (cases k) (auto simp: check_inputs_def input_ok_def rbind_Inr_iff list_all_iff)

text \<open>What a graph must satisfy, as one predicate over all of it.\<close>

definition graph_wf ::
  "(string, pregel_node) dict \<Rightarrow> string list \<Rightarrow> string list \<Rightarrow> ch_keys \<Rightarrow> ch_keys \<Rightarrow> ch_keys option \<Rightarrow>
   string list option \<Rightarrow> string list option \<Rightarrow> bool" where
  "graph_wf nodes channels managed ins outs stream after before \<longleftrightarrow>
     set RESERVED \<inter> (set channels \<union> set managed \<union> set (dkeys nodes)) = {}
   \<and> (\<forall>(n, node) \<in> set nodes.
        set (pn_triggers node) \<subseteq> set channels
      \<and> (case pn_channels node of OneKey k \<Rightarrow> k \<in> set channels
         | ManyKeys ks \<Rightarrow> set ks \<subseteq> set channels \<union> set managed))
   \<and> input_ok ins channels (subscribed nodes)
   \<and> set (node_reads outs) \<subseteq> set channels
   \<and> (\<forall>ks. stream = Some ks \<longrightarrow> set (node_reads ks) \<subseteq> set channels)
   \<and> (\<forall>ns. after = Some ns \<longrightarrow> set ns \<subseteq> set (dkeys nodes))
   \<and> (\<forall>ns. before = Some ns \<longrightarrow> set ns \<subseteq> set (dkeys nodes))"

lemma check_interrupts_Inr:
  "check_interrupts nodes ns = Inr u \<longleftrightarrow> (\<forall>l. ns = Some l \<longrightarrow> set l \<subseteq> set nodes)"
  by (cases ns) (auto simp: check_interrupts_def)

lemma rbind_unit: "rbind r (\<lambda>_. s) = Inr u \<longleftrightarrow> r = Inr () \<and> s = Inr u"
  by (cases r) auto

lemma nodes_Inr:
  "(rfold (\<lambda>_ nn. check_node channels managed nn) () nodes = Inr u
      \<and> (\<forall>c \<in> set (subscribed nodes). c \<in> set channels) \<and> P)
   \<longleftrightarrow> set RESERVED \<inter> set (dkeys nodes) = {}
     \<and> (\<forall>(n, node) \<in> set nodes.
        set (pn_triggers node) \<subseteq> set channels
      \<and> (case pn_channels node of OneKey k \<Rightarrow> k \<in> set channels
         | ManyKeys ks \<Rightarrow> set ks \<subseteq> set channels \<union> set managed)) \<and> P"
proof -
  have names: "(\<forall>x \<in> set nodes. fst x \<notin> set RESERVED) \<longleftrightarrow> set RESERVED \<inter> set (dkeys nodes) = {}"
    by (auto simp: dkeys_def)
  have subs: "(\<forall>c \<in> set (subscribed nodes). c \<in> set channels)
      \<longleftrightarrow> (\<forall>x \<in> set nodes. set (pn_triggers (snd x)) \<subseteq> set channels)"
    by (auto simp: subscribed_def)
  show ?thesis
    unfolding rfold_unit_Inr check_node_Inr ball_conj_distrib names subs case_prod_beta by blast
qed

lemma outputs_Inr:
  "(\<forall>c \<in> set (node_reads outs @ (case stream of None \<Rightarrow> [] | Some ks \<Rightarrow> node_reads ks)). c \<in> set channels)
   \<longleftrightarrow> set (node_reads outs) \<subseteq> set channels
     \<and> (\<forall>ks. stream = Some ks \<longrightarrow> set (node_reads ks) \<subseteq> set channels)"
  by (cases stream) auto

lemma validate_graph_Inr:
  "validate_graph nodes channels managed ins outs stream after before = Inr () \<longleftrightarrow>
   graph_wf nodes channels managed ins outs stream after before"
  unfolding validate_graph_def rbind_unit first_bad_Inr check_inputs_Inr check_interrupts_Inr
    nodes_Inr outputs_Inr graph_wf_def
  by blast


definition example_node :: "ch_keys \<Rightarrow> string list \<Rightarrow> pregel_node" where
  "example_node chans triggers =
     \<lparr>pn_channels = chans, pn_triggers = triggers, pn_mapper = None, pn_writers = [], pn_bound = None,
      pn_retry_policy = None, pn_cache_policy = None, pn_timeout = None, pn_tags = None,
      pn_metadata = None, pn_is_error_handler = False, pn_error_handler_node = None,
      pn_subgraphs = []\<rparr>"


end
