(* ===== verification/Pregel_Apply.thy ===== *)
theory Pregel_Apply
  imports Pregel_IO "HOL-Library.Multiset"
begin

section \<open>Applying the writes of a step\<close>

text \<open>
  The first half of \<open>pregel/_algo.py\<close>: \<open>should_interrupt\<close>, \<open>local_read\<close>, \<open>increment\<close> and
  \<open>apply_writes\<close>, with the managed values of \<open>managed/is_last_step.py\<close>. The phases of
  \<open>apply_writes\<close> are definitions of their own, composed in the order of the code; channels are
  mutated in place there, here the dictionary is returned updated. A Python set that is iterated is
  a list without duplicates here, since the order cannot be observed.
\<close>

subsection \<open>Managed values\<close>

datatype managed_spec = IsLastStepManager | RemainingStepsManager

fun managed_get :: "managed_spec \<Rightarrow> scratchpad \<Rightarrow> pyval" where
  "managed_get IsLastStepManager s = VBool (sp_step s = sp_stop s - 1)"
| "managed_get RemainingStepsManager s = VInt (sp_stop s - sp_step s)"

type_synonym managed = "(string, managed_spec) dict"

subsection \<open>Versions\<close>

text \<open>
  The null version is \<open>type(v)()\<close> for the first version there is; with no versions nothing is ever
  compared with it.
\<close>

definition null_version :: "versions \<Rightarrow> version" where
  "null_version vs = (case vs of [] \<Rightarrow> IntV 0 | (_, v) # _ \<Rightarrow> null_of v)"

fun increment :: "version option \<Rightarrow> version" where
  "increment (Some (IntV current)) = IntV (current + 1)"
| "increment _ = IntV 1"

definition max_version :: "versions \<Rightarrow> version option" where
  "max_version vs = (case map snd vs of [] \<Rightarrow> None | v # rest \<Rightarrow> Some (foldl max v rest))"

lemma foldl_max_ge: "v \<le> foldl max v vs \<and> (\<forall>x \<in> set vs. x \<le> foldl max v (vs :: version list))"
proof (induction vs arbitrary: v)
  case (Cons a vs)
  have "max v a \<le> foldl max (max v a) vs" using Cons by blast
  with Cons [of "max v a"] show ?case by auto
qed simp

lemma foldl_max_mem: "foldl max v vs \<in> set ((v :: version) # vs)"
  by (induction vs arbitrary: v) (auto simp: max_def split: if_splits)

lemma max_version_ge:
  "(k, v) \<in> set vs \<Longrightarrow> \<exists>m. max_version vs = Some m \<and> v \<le> m"
  using foldl_max_ge by (cases vs) (force simp: max_version_def)+

lemma max_version_mem: "max_version vs = Some m \<Longrightarrow> m \<in> snd ` set vs"
  using foldl_max_mem [of "snd (hd vs)" "map snd (tl vs)"]
  by (cases vs) (auto simp: max_version_def)

text \<open>
  What \<open>apply_writes\<close> needs of a versioning function: on the versions it produces, the next one is
  greater than the one it is given.
\<close>

locale versioning =
  fixes nextv :: "version option \<Rightarrow> version"
    and valid :: "version \<Rightarrow> bool"
  assumes next_greater: "valid v \<Longrightarrow> v < nextv (Some v)"
begin

lemma next_above_all:
  assumes "\<forall>v \<in> snd ` set vs. valid v" and "(k, v) \<in> set vs"
  shows "v < nextv (max_version vs)"
proof -
  obtain m where m: "max_version vs = Some m" "v \<le> m"
    using max_version_ge [OF assms(2)] by blast
  moreover have "valid m"
    using assms(1) max_version_mem [OF m(1)] by blast
  ultimately show ?thesis
    using next_greater by fastforce
qed

end

fun is_int_version :: "version \<Rightarrow> bool" where
  "is_int_version (IntV n) = (0 \<le> n)"
| "is_int_version (StrV _) = False"

interpretation incr: versioning increment is_int_version
proof unfold_locales
  fix v :: version
  assume "is_int_version v"
  then show "v < increment (Some v)" by (cases v) simp_all
qed

subsection \<open>Interrupts before or after a node\<close>

text \<open>\<open>None\<close> for \<open>"*"\<close>.\<close>

definition should_interrupt ::
  "checkpoint \<Rightarrow> string list option \<Rightarrow> exec_task list \<Rightarrow> exec_task list" where
  "should_interrupt checkpoint interrupt_nodes tasks =
     (let seen = dgetd (versions_seen checkpoint) INTERRUPT [];
          null = null_version (channel_versions checkpoint);
          any_updates_since_prev_interrupt =
            (\<exists>(chan, version) \<in> set (channel_versions checkpoint). version > dgetd seen chan null)
      in if any_updates_since_prev_interrupt
         then filter (\<lambda>task. case interrupt_nodes of
                        None \<Rightarrow> \<not> config_hidden (et_config task)
                      | Some ns \<Rightarrow> et_name task \<in> set ns) tasks
         else [])"

subsection \<open>Reading the state a task sees\<close>

definition values_for :: "writes \<Rightarrow> string \<Rightarrow> pyval list" where
  "values_for ws k = map snd (filter (\<lambda>w. fst w = k) ws)"

definition fresh_channels :: "channels \<Rightarrow> (string \<Rightarrow> pyval list) \<Rightarrow> channels res" where
  "fresh_channels channels updated =
     rmapM (\<lambda>(k, c). rbind (channel_copy c) (\<lambda>cc. rmap (\<lambda>(_, cc'). (k, cc')) (channel_update cc (updated k))))
       channels"

definition local_read ::
  "scratchpad \<Rightarrow> channels \<Rightarrow> managed \<Rightarrow> task_writes \<Rightarrow> ch_keys \<Rightarrow> bool \<Rightarrow> pyval res" where
  "local_read scratchpad channels managed task select fresh =
     (let managed_keys = (case select of OneKey k \<Rightarrow> [] | ManyKeys ks \<Rightarrow> filter (\<lambda>k. dmem k managed) ks);
          select = (case select of OneKey k \<Rightarrow> OneKey k
                    | ManyKeys ks \<Rightarrow> ManyKeys (filter (\<lambda>k. \<not> dmem k managed) ks));
          wanted = (\<lambda>c. case select of OneKey k \<Rightarrow> c = k | ManyKeys ks \<Rightarrow> c \<in> set ks);
          updated = (\<lambda>k. if wanted k then values_for (tw_writes task) k else []);
          values = (if fresh
                    then rbind (fresh_channels channels updated) (\<lambda>local. read_channels local select True)
                    else read_channels channels select True)
      in if managed_keys = [] then values
         else rbind values (\<lambda>v. case v of
                VDict d \<Rightarrow> Inr (VDict (dupd d
                   (map (\<lambda>k. (k, managed_get (the (map_of managed k)) scratchpad)) managed_keys)))
              | _ \<Rightarrow> Inl (TypeError ''update'')))"

subsection \<open>Phases of \<open>apply_writes\<close>\<close>

text \<open>The sort key: path parts after the third are ignored.\<close>

definition task_sort_key :: "task_writes \<Rightarrow> string" where
  "task_sort_key t = task_path_str (PTup (take 3 (tw_path t)))"

definition sort_tasks :: "task_writes list \<Rightarrow> task_writes list" where
  "sort_tasks tasks = sort_key task_sort_key tasks"

definition see_task :: "versions \<Rightarrow> (string, versions) dict \<Rightarrow> task_writes \<Rightarrow> (string, versions) dict" where
  "see_task current seen task =
     dset (tw_name task)
       (dupd (dgetd seen (tw_name task) [])
          (concat (map (\<lambda>chan. case map_of current chan of None \<Rightarrow> [] | Some v \<Rightarrow> [(chan, v)])
             (tw_triggers task))))
       seen"

text \<open>Consuming the channels that were read, and the version bump of a change.\<close>

definition bump :: "version option \<Rightarrow> string \<Rightarrow> bool \<Rightarrow> versions \<Rightarrow> versions" where
  "bump next_version chan changed versions =
     (if changed then (case next_version of None \<Rightarrow> versions | Some v \<Rightarrow> dset chan v versions)
      else versions)"

definition consume_channel ::
  "version option \<Rightarrow> channels \<times> versions \<Rightarrow> string \<Rightarrow> channels \<times> versions" where
  "consume_channel next_version cv chan =
     (case map_of (fst cv) chan of
        None \<Rightarrow> cv
      | Some c \<Rightarrow>
          (let (changed, c') = channel_consume c
           in (dset chan c' (fst cv), bump next_version chan changed (snd cv))))"

definition read_triggers :: "task_writes list \<Rightarrow> channels \<Rightarrow> string list" where
  "read_triggers tasks channels =
     remdups (filter (\<lambda>c. c \<notin> set RESERVED \<and> dmem c channels) (concat (map tw_triggers tasks)))"

definition CONTROL_WRITES :: "string list" where
  "CONTROL_WRITES = [NO_WRITES, PUSH, RESUME, INTERRUPT, RETURN, ERROR, ERROR_SOURCE_NODE]"

definition add_write :: "channels \<Rightarrow> (string, pyval list) dict \<Rightarrow> string \<times> pyval \<Rightarrow> (string, pyval list) dict" where
  "add_write channels grouped w =
     (if fst w \<in> set CONTROL_WRITES then grouped
      else if dmem (fst w) channels then dset (fst w) (dgetd grouped (fst w) [] @ [snd w]) grouped
      else grouped)"

definition group_writes :: "channels \<Rightarrow> task_writes list \<Rightarrow> (string, pyval list) dict" where
  "group_writes channels tasks = foldl (add_write channels) [] (concat (map tw_writes tasks))"

text \<open>The state of the last three phases.\<close>

record apply_state =
  as_channels :: channels
  as_versions :: versions
  as_updated :: "string set"

definition note_change ::
  "version option \<Rightarrow> string \<Rightarrow> apply_state \<Rightarrow> bool \<times> channel \<Rightarrow> apply_state" where
  "note_change next_version chan st bc =
     (let st = st\<lparr>as_channels := dset chan (snd bc) (as_channels st)\<rparr>
      in if fst bc \<and> next_version \<noteq> None
         then st\<lparr>as_versions := bump next_version chan True (as_versions st),
                 as_updated := (if channel_is_available (snd bc) then insert chan (as_updated st)
                                else as_updated st)\<rparr>
         else st)"

definition write_channel ::
  "version option \<Rightarrow> apply_state \<Rightarrow> string \<times> pyval list \<Rightarrow> apply_state res" where
  "write_channel next_version st cvals =
     (case map_of (as_channels st) (fst cvals) of
        None \<Rightarrow> Inr st
      | Some c \<Rightarrow> rmap (note_change next_version (fst cvals) st) (channel_update c (snd cvals)))"

definition step_channel :: "version option \<Rightarrow> apply_state \<Rightarrow> string \<Rightarrow> apply_state res" where
  "step_channel next_version st chan =
     (case map_of (as_channels st) chan of
        None \<Rightarrow> Inr st
      | Some c \<Rightarrow>
          (if channel_is_available c \<and> chan \<notin> as_updated st
           then rmap (note_change next_version chan st) (channel_update c []) else Inr st))"

definition finish_channel :: "version option \<Rightarrow> apply_state \<Rightarrow> string \<Rightarrow> apply_state" where
  "finish_channel next_version st chan =
     (case map_of (as_channels st) chan of
        None \<Rightarrow> st
      | Some c \<Rightarrow> note_change next_version chan st (channel_finish c))"

definition apply_writes ::
  "checkpoint \<Rightarrow> channels \<Rightarrow> task_writes list \<Rightarrow> (version option \<Rightarrow> version) option \<Rightarrow>
   (string, string list) dict \<Rightarrow> (checkpoint \<times> channels \<times> string set) res" where
  "apply_writes checkpoint channels tasks get_next_version trigger_to_nodes =
     (let tasks = sort_tasks tasks;
          bump_step = (\<exists>t \<in> set tasks. tw_triggers t \<noteq> []);
          seen = foldl (see_task (channel_versions checkpoint)) (versions_seen checkpoint) tasks;
          next_version = map_option (\<lambda>f. f (max_version (channel_versions checkpoint))) get_next_version;
          (channels1, versions1) =
             foldl (consume_channel next_version) (channels, channel_versions checkpoint)
               (read_triggers tasks channels);
          names = dkeys channels
      in rmap (\<lambda>st.
            let st = (if bump_step \<and> as_updated st \<inter> set (dkeys trigger_to_nodes) = {}
                      then foldl (finish_channel next_version) st names else st)
            in (checkpoint\<lparr>channel_versions := as_versions st, versions_seen := seen\<rparr>,
                as_channels st, as_updated st))
          (rbind (rfold (write_channel next_version)
                    \<lparr>as_channels = channels1, as_versions = versions1, as_updated = {}\<rparr>
                    (group_writes channels tasks))
             (\<lambda>st. if bump_step then rfold (step_channel next_version) st names else Inr st)))"

subsection \<open>Channel by channel\<close>

text \<open>
  What the phases make of one channel and its version: consumed when a task read it, written with
  the values for it, else notified of the step, and finished when the run may be over. The flag
  is whether the channel is reported as updated.
\<close>

type_synonym chan_view = "channel option \<times> version option \<times> bool"

definition view_consume :: "version \<Rightarrow> chan_view \<Rightarrow> chan_view" where
  "view_consume nv w =
     (case w of
        (None, v, u) \<Rightarrow> w
      | (Some c, v, u) \<Rightarrow>
          (Some (snd (channel_consume c)), if fst (channel_consume c) then Some nv else v, u))"

definition view_note :: "version \<Rightarrow> chan_view \<Rightarrow> bool \<times> channel \<Rightarrow> chan_view" where
  "view_note nv w bc =
     (Some (snd bc), if fst bc then Some nv else fst (snd w),
      snd (snd w) \<or> fst bc \<and> channel_is_available (snd bc))"

definition view_write :: "version \<Rightarrow> pyval list \<Rightarrow> chan_view \<Rightarrow> chan_view res" where
  "view_write nv vals w =
     (case fst w of None \<Rightarrow> Inr w | Some c \<Rightarrow> rmap (view_note nv w) (channel_update c vals))"

definition view_step :: "version \<Rightarrow> chan_view \<Rightarrow> chan_view res" where
  "view_step nv w =
     (case fst w of None \<Rightarrow> Inr w
      | Some c \<Rightarrow> if channel_is_available c \<and> \<not> snd (snd w) then view_write nv [] w else Inr w)"

definition view_finish :: "version \<Rightarrow> chan_view \<Rightarrow> chan_view" where
  "view_finish nv w =
     (case fst w of None \<Rightarrow> w | Some c \<Rightarrow> view_note nv w (channel_finish c))"

definition as_view :: "apply_state \<Rightarrow> string \<Rightarrow> chan_view" where
  "as_view st k = (map_of (as_channels st) k, map_of (as_versions st) k, k \<in> as_updated st)"

definition cv_view :: "channels \<times> versions \<Rightarrow> string \<Rightarrow> chan_view" where
  "cv_view cv k = (map_of (fst cv) k, map_of (snd cv) k, False)"

lemmas view_defs = view_consume_def view_note_def view_write_def view_step_def view_finish_def
  as_view_def cv_view_def

lemma as_view_parts [simp]:
  "fst (as_view st k) = map_of (as_channels st) k"
  "fst (snd (as_view st k)) = map_of (as_versions st) k"
  "snd (snd (as_view st k)) = (k \<in> as_updated st)"
  by (simp_all add: as_view_def)

lemma consume_channel_view:
  "(\<forall>j. j \<noteq> k \<longrightarrow> cv_view (consume_channel (Some nv) cv k) j = cv_view cv j)
    \<and> cv_view (consume_channel (Some nv) cv k) k = view_consume nv (cv_view cv k)"
  by (auto simp: consume_channel_def view_defs bump_def Let_def split: option.splits prod.splits)

lemma note_change_view:
  "(\<forall>j. j \<noteq> k \<longrightarrow> as_view (note_change (Some nv) k st bc) j = as_view st j)
    \<and> as_view (note_change (Some nv) k st bc) k = view_note nv (as_view st k) bc"
  by (auto simp: note_change_def view_defs bump_def Let_def)

lemma write_channel_view:
  "write_channel (Some nv) st x = Inr st' \<Longrightarrow>
   (\<forall>j. j \<noteq> fst x \<longrightarrow> as_view st' j = as_view st j)
    \<and> view_write nv (snd x) (as_view st (fst x)) = Inr (as_view st' (fst x))"
  using note_change_view [of "fst x" nv st]
  by (cases "map_of (as_channels st) (fst x)")
    (auto simp: write_channel_def view_write_def rmap_Inr_iff)

lemma step_channel_view:
  "step_channel (Some nv) st k = Inr st' \<Longrightarrow>
   (\<forall>j. j \<noteq> k \<longrightarrow> as_view st' j = as_view st j)
    \<and> view_step nv (as_view st k) = Inr (as_view st' k)"
  using note_change_view [of k nv st]
  by (cases "map_of (as_channels st) k")
    (auto simp: step_channel_def view_step_def view_write_def rmap_Inr_iff
      split: if_splits)

lemma finish_channel_view:
  "(\<forall>j. j \<noteq> k \<longrightarrow> as_view (finish_channel (Some nv) st k) j = as_view st j)
    \<and> as_view (finish_channel (Some nv) st k) k = view_finish nv (as_view st k)"
  using note_change_view [of k nv st]
  by (cases "map_of (as_channels st) k")
    (auto simp: finish_channel_def view_finish_def)

text \<open>The writes of a step, grouped: a channel's values in the order of the sorted tasks.\<close>

definition writable :: "channels \<Rightarrow> string \<Rightarrow> bool" where
  "writable channels k = (dmem k channels \<and> k \<notin> set CONTROL_WRITES)"

lemma add_writes_lookup:
  "map_of (foldl (add_write channels) g ws) k =
     (if writable channels k \<and> values_for ws k \<noteq> []
      then Some (dgetd g k [] @ values_for ws k) else map_of g k)"
proof (induction ws arbitrary: g)
  case (Cons w ws)
  then show ?case
    by (cases "fst w = k") (auto simp: add_write_def values_for_def writable_def dgetd_def split: option.splits)
qed (simp add: values_for_def)

lemma add_writes_ok: "dict_ok g \<Longrightarrow> dict_ok (foldl (add_write channels) g ws)"
  by (induction ws arbitrary: g) (simp_all add: add_write_def)

lemma map_of_group_writes:
  "map_of (group_writes channels tasks) k =
     (let vs = values_for (concat (map tw_writes tasks)) k in
      if writable channels k \<and> vs \<noteq> [] then Some vs else None)"
  by (simp add: group_writes_def add_writes_lookup dgetd_def Let_def)

lemma group_writes_ok: "distinct (map fst (group_writes channels tasks))"
  using add_writes_ok [of "[]" channels] by (simp add: group_writes_def dict_ok_def)

text \<open>The whole step, for one channel.\<close>

definition view_apply ::
  "version \<Rightarrow> bool \<Rightarrow> bool \<Rightarrow> bool \<Rightarrow> pyval list \<Rightarrow> chan_view \<Rightarrow> chan_view res" where
  "view_apply nv read bump_step finishing vals w =
     rmap (\<lambda>w. if finishing then view_finish nv w else w)
       (rbind (let w = (if read then view_consume nv w else w) in
               if vals = [] then Inr w else view_write nv vals w)
         (\<lambda>w. if bump_step then view_step nv w else Inr w))"

definition step_values :: "channels \<Rightarrow> task_writes list \<Rightarrow> string \<Rightarrow> pyval list" where
  "step_values channels tasks k =
     (if writable channels k then values_for (concat (map tw_writes (sort_tasks tasks))) k else [])"

lemma set_read_triggers:
  "set (read_triggers tasks channels) =
     {c. c \<notin> set RESERVED \<and> dmem c channels \<and> (\<exists>t \<in> set tasks. c \<in> set (tw_triggers t))}"
  by (auto simp: read_triggers_def)

lemma set_sort_tasks [simp]: "set (sort_tasks tasks) = set tasks"
  by (simp add: sort_tasks_def)

text \<open>The three phases that may raise, and the whole, seen at one channel.\<close>

lemma consume_phase_view:
  "cv_view (foldl (consume_channel (Some nv)) cv (read_triggers tasks channels)) k
    = (if k \<in> set (read_triggers tasks channels) then view_consume nv (cv_view cv k) else cv_view cv k)"
  using foldl_keywise [where key = "\<lambda>k. k" and view = cv_view and g = "\<lambda>_. view_consume nv"
      and f = "consume_channel (Some nv)" and k = k and st = cv and xs = "read_triggers tasks channels",
      OF _ consume_channel_view]
  by (auto simp: read_triggers_def)

lemma write_phase_view:
  assumes "rfold (write_channel (Some nv)) st (group_writes channels tasks) = Inr st'"
  shows "(let vals = (if writable channels k then values_for (concat (map tw_writes tasks)) k else [])
    in (if vals = [] then Inr (as_view st k) else view_write nv vals (as_view st k))) = Inr (as_view st' k)"
proof -
  have kw: "(k \<notin> fst ` set (group_writes channels tasks) \<longrightarrow> as_view st' k = as_view st k)
    \<and> (\<forall>x \<in> set (group_writes channels tasks). fst x = k \<longrightarrow>
         view_write nv (snd x) (as_view st k) = Inr (as_view st' k))"
    by (rule rfold_keywise [where key = fst and view = as_view and g = "\<lambda>x. view_write nv (snd x)",
          OF assms group_writes_ok write_channel_view])
  show ?thesis
  proof (cases "map_of (group_writes channels tasks) k")
    case None
    then have "k \<notin> fst ` set (group_writes channels tasks)"
      by (simp add: map_of_eq_None_iff)
    with kw None show ?thesis
      by (simp add: map_of_group_writes Let_def split: if_splits)
  next
    case (Some vs)
    then have "(k, vs) \<in> set (group_writes channels tasks)" by (rule map_of_SomeD)
    with kw have "view_write nv vs (as_view st k) = Inr (as_view st' k)" by force
    with Some show ?thesis
      by (simp add: map_of_group_writes Let_def split: if_splits)
  qed
qed

lemma step_phase_view:
  assumes "rfold (step_channel (Some nv)) st names = Inr st'" and "distinct names"
    and "k \<in> set names"
  shows "view_step nv (as_view st k) = Inr (as_view st' k)"
  using rfold_keywise [where key = "\<lambda>k. k" and view = as_view and g = "\<lambda>_. view_step nv" and k = k,
      OF assms(1) _ step_channel_view] assms(2,3)
  by simp

lemma finish_phase_view:
  assumes "distinct names" and "k \<in> set names"
  shows "as_view (foldl (finish_channel (Some nv)) st names) k = view_finish nv (as_view st k)"
  using foldl_keywise [where key = "\<lambda>k. k" and view = as_view and g = "\<lambda>_. view_finish nv" and k = k
      and f = "finish_channel (Some nv)" and xs = names and st = st, OF _ finish_channel_view] assms
  by simp

lemma apply_writes_view:
  assumes "apply_writes cp channels tasks (Some f) t2n = Inr (cp', channels', upd)"
    and "dict_ok channels"
  shows "\<exists>fin. (fin \<longrightarrow> (\<exists>t \<in> set tasks. tw_triggers t \<noteq> []))
    \<and> ((\<exists>t \<in> set tasks. tw_triggers t \<noteq> []) \<and> \<not> fin \<longrightarrow> upd \<inter> set (dkeys t2n) \<noteq> {})
    \<and> (\<forall>k. dmem k channels \<longrightarrow>
     view_apply (f (max_version (channel_versions cp)))
       (k \<in> set (read_triggers tasks channels)) (\<exists>t \<in> set tasks. tw_triggers t \<noteq> []) fin
       (step_values channels tasks k)
       (map_of channels k, map_of (channel_versions cp) k, False)
     = Inr (map_of channels' k, map_of (channel_versions cp') k, k \<in> upd))"
proof -
  let ?nv = "f (max_version (channel_versions cp))"
  let ?bump = "\<exists>t \<in> set tasks. tw_triggers t \<noteq> []"
  let ?sorted = "sort_tasks tasks"
  let ?cv = "foldl (consume_channel (Some ?nv)) (channels, channel_versions cp) (read_triggers ?sorted channels)"
  let ?st0 = "\<lparr>as_channels = fst ?cv, as_versions = snd ?cv, as_updated = {}\<rparr>"
  obtain st1 st2 where w: "rfold (write_channel (Some ?nv)) ?st0 (group_writes channels ?sorted) = Inr st1"
    and s: "(if ?bump then rfold (step_channel (Some ?nv)) st1 (dkeys channels) else Inr st1) = Inr st2"
    and r: "(cp', channels', upd) =
      (let st = (if ?bump \<and> as_updated st2 \<inter> set (dkeys t2n) = {}
                 then foldl (finish_channel (Some ?nv)) st2 (dkeys channels) else st2)
       in (cp\<lparr>channel_versions := as_versions st,
              versions_seen := foldl (see_task (channel_versions cp)) (versions_seen cp) ?sorted\<rparr>,
           as_channels st, as_updated st))"
    using assms(1)
    by (auto simp: apply_writes_def Let_def rmap_Inr_iff rbind_Inr_iff case_prod_beta)
  let ?fin = "?bump \<and> as_updated st2 \<inter> set (dkeys t2n) = {}"
  have names: "distinct (dkeys channels)" using assms(2) by (simp add: distinct_dkeys)
  show ?thesis
  proof (intro exI [of _ ?fin] conjI allI impI)
    show "upd \<inter> set (dkeys t2n) \<noteq> {}" if "?bump \<and> \<not> ?fin"
      using that r by (auto simp: Let_def split: if_splits)
  next
    fix k
    assume "dmem k channels"
    then have k: "k \<in> set (dkeys channels)" by (simp add: dmem_iff_keys)
    have v0: "as_view ?st0 k = cv_view ?cv k" by (simp add: as_view_def cv_view_def)
    also have "\<dots> = (if k \<in> set (read_triggers tasks channels)
        then view_consume ?nv (map_of channels k, map_of (channel_versions cp) k, False)
        else (map_of channels k, map_of (channel_versions cp) k, False))"
      using consume_phase_view [of ?nv "(channels, channel_versions cp)" ?sorted channels k]
      by (simp only: cv_view_def fst_conv snd_conv set_read_triggers set_sort_tasks)
    finally have v0: "as_view ?st0 k = \<dots>" .
    have v1: "(if step_values channels tasks k = [] then Inr (as_view ?st0 k)
        else view_write ?nv (step_values channels tasks k) (as_view ?st0 k)) = Inr (as_view st1 k)"
      using write_phase_view [OF w, of k] unfolding step_values_def Let_def .
    have v2: "(if ?bump then view_step ?nv (as_view st1 k) else Inr (as_view st1 k)) = Inr (as_view st2 k)"
      using s step_phase_view [of ?nv st1 "dkeys channels" st2 k] names k by (auto split: if_splits)
    have v3: "(map_of channels' k, map_of (channel_versions cp') k, k \<in> upd)
        = (if ?fin then view_finish ?nv (as_view st2 k) else as_view st2 k)"
      using r finish_phase_view [OF names k, of ?nv st2] by (auto simp: Let_def as_view_def split: if_splits)
    show "view_apply ?nv (k \<in> set (read_triggers tasks channels)) ?bump ?fin (step_values channels tasks k)
        (map_of channels k, map_of (channel_versions cp) k, False)
      = Inr (map_of channels' k, map_of (channel_versions cp') k, k \<in> upd)"
      unfolding view_apply_def Let_def v3 v0 [symmetric] v1 rbind_simps v2 by simp
  qed blast
qed


lemma view_note_facts:
  assumes "view_note nv (Some c, v, u) (b, c1) = (c', v', u')" and "u \<longrightarrow> v = Some nv \<and> channel_is_available c1"
    and "\<not> b \<longrightarrow> c1 = c"
  shows "(v' = v \<or> v' = Some nv) \<and> (v' \<noteq> Some nv \<longrightarrow> c' = Some c)
    \<and> (u' \<longrightarrow> v' = Some nv \<and> channel_is_available (the c')) \<and> c' = Some c1"
  using assms by (auto simp: view_note_def split: if_splits)

text \<open>What holds of a channel through every phase.\<close>

definition view_ok :: "version \<Rightarrow> channel \<Rightarrow> version option \<Rightarrow> chan_view \<Rightarrow> bool" where
  "view_ok nv c v w =
     (\<exists>c' v' u. w = (Some c', v', u) \<and> (v' = v \<or> v' = Some nv) \<and> (v' \<noteq> Some nv \<longrightarrow> c' = c)
       \<and> (u \<longrightarrow> v' = Some nv \<and> channel_is_available c')
       \<and> channel_spec c' = channel_spec c \<and> (channel_inv c \<longrightarrow> channel_inv c'))"

lemma view_ok_consume: "view_ok nv c v (Some c1, v1, False) \<Longrightarrow> view_ok nv c v (view_consume nv (Some c1, v1, False))"
  using chan.consume_False [of c1] chan.consume_spec [of c1] chan.inv_consume [of c1]
  by (cases "channel_consume c1") (auto simp: view_ok_def view_consume_def)

lemma view_ok_write:
  assumes "view_ok nv c v w" and "view_write nv vals w = Inr w'" and "\<not> snd (snd w)"
  shows "view_ok nv c v w'"
proof -
  obtain c1 v1 where w: "w = (Some c1, v1, False)"
    using assms(1,3) by (auto simp: view_ok_def)
  then obtain b c2 where u: "channel_update c1 vals = Inr (b, c2)" and w': "w' = view_note nv w (b, c2)"
    using assms(2) by (auto simp: view_write_def rmap_Inr_iff)
  have b: "\<not> b \<longrightarrow> c2 = c1" using u chan.update_False by auto
  show ?thesis
    using assms(1) b chan.update_spec [OF u] chan.inv_update [OF _ u] unfolding w w'
    by (cases b) (auto simp: view_ok_def view_note_def)
qed

lemma view_ok_finish: "view_ok nv c v w \<Longrightarrow> view_ok nv c v (view_finish nv w)"
proof -
  assume ok: "view_ok nv c v w"
  then obtain c1 v1 u where w: "w = (Some c1, v1, u)" by (auto simp: view_ok_def)
  have "\<not> fst (channel_finish c1) \<longrightarrow> snd (channel_finish c1) = c1"
    using chan.finish_False [of c1 "snd (channel_finish c1)"] by (cases "channel_finish c1") auto
  then show ?thesis
    using ok chan.finish_spec [of c1] chan.inv_finish [of c1] channel_finish_available [of c1] unfolding w
    by (auto simp: view_ok_def view_note_def view_finish_def)
qed

lemma view_apply_ok:
  assumes "view_apply nv rd bump_step fin vals (Some c, v, False) = Inr w"
  shows "view_ok nv c v w"
proof -
  let ?w0 = "if rd then view_consume nv (Some c, v, False) else (Some c, v, False)"
  obtain w1 w2 where w1: "(if vals = [] then Inr ?w0 else view_write nv vals ?w0) = Inr w1"
    and w2: "(if bump_step then view_step nv w1 else Inr w1) = Inr w2"
    and w: "w = (if fin then view_finish nv w2 else w2)"
    using assms by (auto simp: view_apply_def Let_def rmap_Inr_iff rbind_Inr_iff)
  have "view_ok nv c v (Some c, v, False)" by (auto simp: view_ok_def)
  then have "view_ok nv c v ?w0" and u: "\<not> snd (snd ?w0)"
    using view_ok_consume [of nv c v c v] by (simp_all add: view_consume_def)
  then have ok1: "view_ok nv c v w1"
    using w1 view_ok_write [of nv c v ?w0 vals w1] by (simp split: if_splits)
  then have "view_ok nv c v w2"
    using w2 view_ok_write [OF ok1, of "[]" w2]
    by (cases "fst w1") (auto simp: view_step_def split: if_splits)
  then show ?thesis
    using view_ok_finish w by auto
qed

subsection \<open>Versions, channels and updates after a step\<close>

lemma apply_writes_view_at:
  assumes "apply_writes cp channels tasks (Some f) t2n = Inr (cp', channels', upd)"
    and "dict_ok channels" and "map_of channels k = Some c"
  shows "\<exists>rd b fin vals. view_apply (f (max_version (channel_versions cp))) rd b fin vals
      (Some c, map_of (channel_versions cp) k, False)
    = Inr (map_of channels' k, map_of (channel_versions cp') k, k \<in> upd)"
proof -
  have "dmem k channels" using assms(3) by (simp add: dmem_def)
  with apply_writes_view [OF assms(1,2)] show ?thesis
    unfolding assms(3) [symmetric] by blast
qed

lemma apply_writes_ok:
  assumes "apply_writes cp channels tasks (Some f) t2n = Inr (cp', channels', upd)"
    and "dict_ok channels" and "map_of channels k = Some c"
  shows "view_ok (f (max_version (channel_versions cp))) c (map_of (channel_versions cp) k)
     (map_of channels' k, map_of (channel_versions cp') k, k \<in> upd)"
  using apply_writes_view_at [OF assms] by (auto intro: view_apply_ok)

text \<open>
  C22: applying the writes of a step with integer versions gives every channel it changed one and
  the same new version, greater than all the versions before; a channel without the new version
  is exactly as it was; a channel reported as updated has the new version and is available; and
  every channel keeps its configuration and its class's invariant.
\<close>

theorem apply_writes_versions:
  assumes "apply_writes cp channels tasks (Some increment) t2n = Inr (cp', channels', upd)"
    and "dict_ok channels" and "\<forall>v \<in> snd ` set (channel_versions cp). is_int_version v"
    and "map_of channels k = Some c"
  defines "nv \<equiv> increment (max_version (channel_versions cp))"
  shows "\<exists>c'. map_of channels' k = Some c'
    \<and> (map_of (channel_versions cp') k = map_of (channel_versions cp) k
        \<or> map_of (channel_versions cp') k = Some nv)
    \<and> (\<forall>(j, v) \<in> set (channel_versions cp). v < nv)
    \<and> (map_of (channel_versions cp') k \<noteq> Some nv \<longrightarrow> c' = c)
    \<and> (k \<in> upd \<longrightarrow> map_of (channel_versions cp') k = Some nv \<and> channel_is_available c')
    \<and> channel_spec c' = channel_spec c \<and> (channel_inv c \<longrightarrow> channel_inv c')"
  using apply_writes_ok [OF assms(1,2,4)] incr.next_above_all [OF assms(3)]
  unfolding view_ok_def nv_def by auto

definition example_checkpoint :: "versions \<Rightarrow> checkpoint" where
  "example_checkpoint vs =
     \<lparr>cp_v = 4, cp_id = ''c1'', cp_ts = ''t'', channel_values = [], channel_versions = vs,
      versions_seen = [], cp_updated_channels = None\<rparr>"

definition example_writes :: "string \<Rightarrow> writes \<Rightarrow> string list \<Rightarrow> task_writes" where
  "example_writes name ws triggers =
     \<lparr>tw_path = [PStr PULL, PStr name], tw_name = name, tw_writes = ws, tw_triggers = triggers\<rparr>"

abbreviation example_lv :: "string \<Rightarrow> pyval option \<Rightarrow> channel" where
  "example_lv k v \<equiv> Ch_LastValue ((LastValue_init TyInt k)\<lparr>lv_value := v\<rparr>)"

lemmas apply_simps =
  apply_writes_def sort_tasks_def task_sort_key_def see_task_def consume_channel_def bump_def
  read_triggers_def CONTROL_WRITES_def add_write_def group_writes_def note_change_def
  write_channel_def step_channel_def finish_channel_def Let_def max_version_def
  BaseChannel_consume_def BaseChannel_finish_def dmem_def dgetd_def dupd_def dkeys_def

lemma example_apply:
  "apply_writes (example_checkpoint [(''a'', IntV 2), (''b'', IntV 5)])
     [(''a'', example_lv ''a'' (Some (VInt 1))), (''b'', example_lv ''b'' None)]
     [example_writes ''n'' [(''b'', VInt 7)] [''a'']] (Some increment) [(''b'', [''n''])]
   = Inr ((example_checkpoint [(''a'', IntV 2), (''b'', IntV 6)])\<lparr>versions_seen := [(''n'', [(''a'', IntV 2)])]\<rparr>,
          [(''a'', example_lv ''a'' (Some (VInt 1))), (''b'', example_lv ''b'' (Some (VInt 7)))], {''b''})"
  by (simp add: apply_simps example_checkpoint_def example_writes_def LastValue_defs
      RESERVED_def const_defs max_def)

lemma apply_writes_versions_witness:
  "increment (max_version [(''a'', IntV 2), (''b'', IntV 5)]) = IntV 6
   \<and> IntV 5 < IntV 6 \<and> channel_is_available (example_lv ''b'' (Some (VInt 7)))"
  using apply_writes_versions [OF example_apply, of "''b''" "example_lv ''b'' None"]
  by (simp add: example_checkpoint_def dict_ok_def max_version_def max_def)



subsection \<open>The order of the tasks does not matter\<close>

lemma sort_tasks_unique:
  assumes "mset ts = mset us" and "distinct (map task_sort_key ts)"
    and "sorted (map task_sort_key us)"
  shows "sort_tasks ts = us"
  unfolding sort_tasks_def
  using assms by (intro sort_key_inj_key_eq) (auto simp: distinct_map)



text \<open>Push tasks sort by their index: it is padded to ten digits.\<close>

lemma push_key_less:
  assumes "i < j" and "j < 10 ^ 10"
  shows "task_path_str (PTup (take 3 (PStr PUSH # PInt (int i) # p)))
    < task_path_str (PTup (take 3 (PStr PUSH # PInt (int j) # q)))"
proof -
  have eq: "task_path_str (PTup (take 3 (PStr PUSH # PInt (int i) # p))) =
      (CHR ''~'' # PUSH @ '', '') @ pad_int 10 (int i) @
      (case p of [] \<Rightarrow> [] | x # _ \<Rightarrow> '', '' @ task_path_str x)" for i p
    by (cases p) (simp_all add: numeral_3_eq_3)
  have "pad_int (Suc 9) (int i) < pad_int (Suc 9) (int j)"
    by (rule pad_int_less) (use assms in simp_all)
  moreover have "i < 10 ^ Suc 9" and "j < 10 ^ Suc 9" using assms by simp_all
  then have "length (pad_int (Suc 9) (int i)) = length (pad_int (Suc 9) (int j))"
    by (simp only: pad_int_fixed length_fixed_digits)
  ultimately have "pad_int 10 (int i) @ u < pad_int 10 (int j) @ v" for u v
    using less_append_same_length by simp
  then show ?thesis
    unfolding eq append_less_cancel by blast
qed

text \<open>
  The tasks of \<open>Send\<close>s are applied in the order in which the sends were made, whatever the order
  they finished in: push tasks with indexes 0, 1, 2, ... sort numerically, not as text.
\<close>

theorem push_tasks_sorted:
  assumes "mset ts = mset us" and "length us \<le> 10 ^ 10"
    and "\<And>i. i < length us \<Longrightarrow> \<exists>p. tw_path (us ! i) = PStr PUSH # PInt (int i) # p"
  shows "sort_tasks ts = us"
proof -
  have less: "task_sort_key (us ! i) < task_sort_key (us ! j)" if "i < j" and "j < length us" for i j
  proof -
    obtain p q where "tw_path (us ! i) = PStr PUSH # PInt (int i) # p"
      and "tw_path (us ! j) = PStr PUSH # PInt (int j) # q"
      using assms(3) \<open>i < j\<close> \<open>j < length us\<close> by (meson less_trans)
    then show ?thesis
      using push_key_less [of i j p q] that assms(2) by (simp only: task_sort_key_def)
  qed
  have "sorted_wrt (<) (map task_sort_key us)"
    by (simp add: sorted_wrt_iff_nth_less less)
  then have "sorted (map task_sort_key us)" and d: "distinct (map task_sort_key us)"
    by (simp_all add: strict_sorted_iff)
  moreover have "distinct (map task_sort_key ts)"
    using d assms(1) by (metis mset_eq_imp_distinct_iff mset_map)
  ultimately show ?thesis
    using sort_tasks_unique assms(1) by blast
qed

lemma push_tasks_sorted_witness:
  "sort_tasks [(example_writes ''b'' [] [])\<lparr>tw_path := [PStr PUSH, PInt 1]\<rparr>,
               (example_writes ''a'' [] [])\<lparr>tw_path := [PStr PUSH, PInt 0]\<rparr>]
   = [(example_writes ''a'' [] [])\<lparr>tw_path := [PStr PUSH, PInt 0]\<rparr>,
      (example_writes ''b'' [] [])\<lparr>tw_path := [PStr PUSH, PInt 1]\<rparr>]"
  by (rule push_tasks_sorted) (auto simp: less_Suc_eq example_writes_def)

subsection \<open>Writes without triggers\<close>

text \<open>
  Writes that come from no triggered task (graph input, a resumed command, a state update)
  touch only the channels they name: every other channel keeps its value and its version, even an
  ephemeral one, and nothing is finished.
\<close>

theorem apply_writes_untriggered:
  assumes "apply_writes cp channels tasks (Some f) t2n = Inr (cp', channels', upd)"
    and "dict_ok channels" and "\<forall>t \<in> set tasks. tw_triggers t = []"
    and "map_of channels k = Some c" and "step_values channels tasks k = []"
  shows "map_of channels' k = Some c
    \<and> map_of (channel_versions cp') k = map_of (channel_versions cp) k \<and> k \<notin> upd"
proof -
  obtain fin where "fin \<longrightarrow> (\<exists>t \<in> set tasks. tw_triggers t \<noteq> [])"
    and v: "\<forall>k. dmem k channels \<longrightarrow>
     view_apply (f (max_version (channel_versions cp)))
       (k \<in> set (read_triggers tasks channels)) (\<exists>t \<in> set tasks. tw_triggers t \<noteq> []) fin
       (step_values channels tasks k)
       (map_of channels k, map_of (channel_versions cp) k, False)
     = Inr (map_of channels' k, map_of (channel_versions cp') k, k \<in> upd)"
    using apply_writes_view [OF assms(1,2)] by blast
  then have "\<not> fin" using assms(3) by blast
  moreover have "k \<notin> set (read_triggers tasks channels)"
    using assms(3) by (auto simp: set_read_triggers)
  ultimately show ?thesis
    using v [rule_format, of k] assms(3-5) by (auto simp: view_apply_def dmem_def)
qed

lemma apply_writes_untriggered_witness:
  "step_values [(''a'', example_lv ''a'' (Some (VInt 1))), (''b'', example_lv ''b'' None)]
     [example_writes INPUT [(''b'', VInt 7)] []] ''a'' = []
   \<and> (\<exists>cp' channels' upd. apply_writes (example_checkpoint [(''a'', IntV 2)])
     [(''a'', example_lv ''a'' (Some (VInt 1))), (''b'', example_lv ''b'' None)]
     [example_writes INPUT [(''b'', VInt 7)] []] (Some increment) [] = Inr (cp', channels', upd)
     \<and> map_of channels' ''a'' = Some (example_lv ''a'' (Some (VInt 1))) \<and> ''a'' \<notin> upd)"
proof -
  let ?chs = "[(''a'', example_lv ''a'' (Some (VInt 1))), (''b'', example_lv ''b'' None)]"
  have run: "apply_writes (example_checkpoint [(''a'', IntV 2)]) ?chs
     [example_writes INPUT [(''b'', VInt 7)] []] (Some increment) []
   = Inr ((example_checkpoint [(''a'', IntV 2), (''b'', IntV 3)])\<lparr>versions_seen := [(INPUT, [])]\<rparr>,
          [(''a'', example_lv ''a'' (Some (VInt 1))), (''b'', example_lv ''b'' (Some (VInt 7)))], {''b''})"
    by (simp add: apply_simps example_checkpoint_def example_writes_def LastValue_defs
        RESERVED_def const_defs max_def)
  have vals: "step_values ?chs [example_writes INPUT [(''b'', VInt 7)] []] ''a'' = []"
    by (simp add: step_values_def example_writes_def sort_tasks_def values_for_def)
  from apply_writes_untriggered [OF run _ _ _ vals] show ?thesis
    using run vals by (simp add: dict_ok_def example_writes_def)
qed

subsection \<open>What a node has seen\<close>

lemma see_task_lookup:
  "map_of (dgetd (see_task cur seen t) n []) c =
     (if n = tw_name t \<and> c \<in> set (tw_triggers t) \<and> dmem c cur then map_of cur c
      else map_of (dgetd seen n []) c)"
proof -
  have cat: "map_of (concat (map (\<lambda>chan. case map_of cur chan of None \<Rightarrow> [] | Some v \<Rightarrow> [(chan, v)]) cs)) c
      = (if c \<in> set cs then map_of cur c else None)" for cs
    by (induction cs) (auto split: option.splits)
  have rc: "rev (concat (map (\<lambda>chan. case map_of cur chan of None \<Rightarrow> [] | Some v \<Rightarrow> [(chan, v)]) cs))
      = concat (map (\<lambda>chan. case map_of cur chan of None \<Rightarrow> [] | Some v \<Rightarrow> [(chan, v)]) (rev cs))" for cs
    by (induction cs) (auto split: option.splits)
  show ?thesis
    by (auto simp: see_task_def dgetd_def map_of_dupd rc cat dmem_def split: option.splits)
qed

lemma see_tasks_lookup:
  "map_of (dgetd (foldl (see_task cur) seen ts) n []) c =
     (if (\<exists>t \<in> set ts. n = tw_name t \<and> c \<in> set (tw_triggers t)) \<and> dmem c cur then map_of cur c
      else map_of (dgetd seen n []) c)"
  by (induction ts arbitrary: seen) (auto simp: see_task_lookup)

text \<open>
  After a step every node that ran has seen, for each channel that triggered it, the version the
  channel had when the step began; what any other node or channel had seen is unchanged.
\<close>

theorem apply_writes_seen:
  assumes "apply_writes cp channels tasks next_version t2n = Inr (cp', channels', upd)"
  shows "map_of (dgetd (versions_seen cp') n []) c =
     (if (\<exists>t \<in> set tasks. n = tw_name t \<and> c \<in> set (tw_triggers t)) \<and> dmem c (channel_versions cp)
      then map_of (channel_versions cp) c else map_of (dgetd (versions_seen cp) n []) c)"
proof -
  have "versions_seen cp' = foldl (see_task (channel_versions cp)) (versions_seen cp) (sort_tasks tasks)"
    using assms by (auto simp: apply_writes_def Let_def rmap_Inr_iff case_prod_beta)
  then show ?thesis
    by (simp add: see_tasks_lookup)
qed

lemma apply_writes_seen_witness:
  "map_of (dgetd [(''n'', [(''a'', IntV 2)])] ''n'' []) ''a'' = Some (IntV 2)"
  using apply_writes_seen [OF example_apply, of "''n''" "''a''"]
  by (simp add: example_checkpoint_def example_writes_def dmem_def)

end
