(* ===== verification/Pregel_Scratch.thy ===== *)
theory Pregel_Scratch
  imports Pregel_Apply
begin

section \<open>Scratchpads, resume values and interrupts\<close>

text \<open>
  \<open>_scratchpad\<close> and \<open>LazyAtomicCounter\<close> (\<open>pregel/_algo.py\<close>) and \<open>interrupt\<close> (\<open>types.py\<close>): how
  a task that is run again finds the values its interrupts are resumed with. The scratchpad's closure
  \<open>get_null_resume\<close> removes the null resume write from the list of pending writes it captured;
  with the loops of nested graphs there is one such list per level, the own loop's first.
\<close>

subsection \<open>Counters\<close>

text \<open>\<open>LazyAtomicCounter\<close>: the state is the next value, the lazily made counter starts at 0.\<close>

definition counter_next :: "nat \<Rightarrow> nat \<times> nat" where
  "counter_next n = (n, Suc n)"

subsection \<open>Making a scratchpad\<close>

definition is_resume_of :: "string \<Rightarrow> pending_write \<Rightarrow> bool" where
  "is_resume_of tid w = (fst w = tid \<and> fst (snd w) = RESUME)"

text \<open>The first resume write of a task, as a list, and whether it is a list already.\<close>

definition task_resume :: "pending_write list \<Rightarrow> string \<Rightarrow> pyval list" where
  "task_resume pending_writes task_id =
     (case find (is_resume_of task_id) pending_writes of
        None \<Rightarrow> []
      | Some w \<Rightarrow> (case snd (snd w) of VList vs \<Rightarrow> vs | v \<Rightarrow> [v]))"

text \<open>
  Appending the mapped value changes the list inside the pending write, when the write holds a
  list: both are one object.
\<close>

fun append_to_resume :: "string \<Rightarrow> pyval \<Rightarrow> pending_write list \<Rightarrow> pending_write list" where
  "append_to_resume task_id v [] = []"
| "append_to_resume task_id v (w # ws) =
     (if is_resume_of task_id w
      then (case snd (snd w) of
              VList vs \<Rightarrow> (fst w, fst (snd w), VList (vs @ [v])) # ws
            | _ \<Rightarrow> w # ws)
      else w # append_to_resume task_id v ws)"

definition make_scratchpad ::
  "scratchpad option \<Rightarrow> pending_write list \<Rightarrow> string \<Rightarrow> string \<Rightarrow> (string, pyval) dict option \<Rightarrow>
   int \<Rightarrow> int \<Rightarrow> scratchpad \<times> pending_write list" where
  "make_scratchpad parent pending_writes task_id namespace_hash resume_map step stop =
     (let null_resume_write = find (is_resume_of NULL_TASK_ID) pending_writes;
          resume = task_resume pending_writes task_id;
          mapped = (case resume_map of None \<Rightarrow> None | Some m \<Rightarrow> map_of m namespace_hash)
      in if pending_writes = []
         then (Scratchpad step stop 0 0 0 [] None parent, pending_writes)
         else case mapped of
                None \<Rightarrow> (Scratchpad step stop 0 0 0 resume null_resume_write parent, pending_writes)
              | Some v \<Rightarrow>
                  (Scratchpad step stop 0 0 0 (resume @ [v]) null_resume_write parent,
                   append_to_resume task_id v pending_writes))"

subsection \<open>The null resume value\<close>

text \<open>
  \<open>stores\<close> are the pending writes captured by the scratchpad and its ancestors. Each level looks at
  its own null resume write and asks its parent only when it has none.
\<close>

fun get_null_resume ::
  "scratchpad \<Rightarrow> bool \<Rightarrow> pending_write list list \<Rightarrow> pyval \<times> pending_write list list" where
  "get_null_resume (Scratchpad step stop cc ic sc resume null_resume parent) consume stores =
     (case null_resume of
        None \<Rightarrow>
          (case parent of
             None \<Rightarrow> (VNone, stores)
           | Some p \<Rightarrow>
               (case stores of
                  [] \<Rightarrow> (fst (get_null_resume p consume []), [])
                | own # rest \<Rightarrow>
                    (fst (get_null_resume p consume rest), own # snd (get_null_resume p consume rest))))
      | Some w \<Rightarrow>
          (if consume
           then (case stores of
                   [] \<Rightarrow> (VNone, [])
                 | own # rest \<Rightarrow>
                     if w \<in> set own then (snd (snd w), remove1 w own # rest) else (VNone, stores))
           else (snd (snd w), stores)))"

subsection \<open>\<open>interrupt\<close>\<close>

text \<open>
  The outcome of a call: the value it returns, with the writes it sends, or the exception. The
  interrupt's id is the hash of the task's checkpoint namespace, the argument \<open>interrupt_id\<close>.
\<close>

datatype interrupt_result = Resumed pyval writes | Interrupted pyval

definition set_interrupt_counter :: "scratchpad \<Rightarrow> nat \<Rightarrow> pyval list \<Rightarrow> scratchpad" where
  "set_interrupt_counter s n resume =
     Scratchpad (sp_step s) (sp_stop s) (sp_call_counter s) n (sp_subgraph_counter s) resume
       (sp_null_resume s) (sp_parent s)"

definition interrupt ::
  "string \<Rightarrow> pyval \<Rightarrow> scratchpad \<Rightarrow> pending_write list list \<Rightarrow>
   interrupt_result \<times> scratchpad \<times> pending_write list list" where
  "interrupt interrupt_id value scratchpad stores =
     (let (idx, counter) = counter_next (sp_interrupt_counter scratchpad);
          resume = sp_resume scratchpad
      in if resume \<noteq> [] \<and> idx < length resume
         then (Resumed (resume ! idx) [(RESUME, VList resume)],
               set_interrupt_counter scratchpad counter resume, stores)
         else
           let (v, stores') = get_null_resume scratchpad True stores in
           if v \<noteq> VNone
           then (if length resume = idx
                 then (Resumed v [(RESUME, VList (resume @ [v]))],
                       set_interrupt_counter scratchpad counter (resume @ [v]), stores')
                 else (Interrupted (VExc ''AssertionError'' []),
                       set_interrupt_counter scratchpad counter resume, stores'))
           else (Interrupted (VInterrupt value interrupt_id),
                 set_interrupt_counter scratchpad counter resume, stores'))"

subsection \<open>Running a task's interrupts again\<close>

text \<open>
  A task that calls \<open>interrupt\<close> for each of the given values, until one raises: the values the calls
  returned, the exception, and the pending writes left.
\<close>

fun run_interrupts ::
  "string \<Rightarrow> pyval list \<Rightarrow> scratchpad \<Rightarrow> pending_write list list \<Rightarrow>
   pyval list \<times> pyval option \<times> pending_write list list" where
  "run_interrupts iid [] s stores = ([], None, stores)"
| "run_interrupts iid (v # vs) s stores =
     (case interrupt iid v s stores of
        (Interrupted e, s', stores') \<Rightarrow> ([], Some e, stores')
      | (Resumed x ws, s', stores') \<Rightarrow>
          (let (xs, rest) = run_interrupts iid vs s' stores' in (x # xs, rest)))"

lemma set_counter_simps [simp]:
  "sp_interrupt_counter (set_interrupt_counter s n r) = n"
  "sp_resume (set_interrupt_counter s n r) = r"
  "sp_null_resume (set_interrupt_counter s n r) = sp_null_resume s"
  "sp_parent (set_interrupt_counter s n r) = sp_parent s"
  by (simp_all add: set_interrupt_counter_def)

lemma get_null_resume_own:
  "sp_null_resume s = Some w \<Longrightarrow> get_null_resume s True (own # rest) =
     (if w \<in> set own then (snd (snd w), remove1 w own # rest) else (VNone, own # rest))"
  by (cases s) simp

lemma interrupt_stored:
  "sp_interrupt_counter s < length (sp_resume s) \<Longrightarrow>
   interrupt iid v s stores =
     (Resumed (sp_resume s ! sp_interrupt_counter s) [(RESUME, VList (sp_resume s))],
      set_interrupt_counter s (Suc (sp_interrupt_counter s)) (sp_resume s), stores)"
  by (auto simp: interrupt_def counter_next_def Let_def)

lemma interrupt_null:
  assumes "sp_interrupt_counter s = length (sp_resume s)" and "sp_null_resume s = Some w"
    and "w \<in> set own" and "snd (snd w) \<noteq> VNone"
  shows "interrupt iid v s (own # rest) =
    (Resumed (snd (snd w)) [(RESUME, VList (sp_resume s @ [snd (snd w)]))],
     set_interrupt_counter s (Suc (sp_interrupt_counter s)) (sp_resume s @ [snd (snd w)]),
     remove1 w own # rest)"
  using assms get_null_resume_own [OF assms(2), of own rest]
  by (simp add: interrupt_def counter_next_def Let_def)

lemma interrupt_raises:
  assumes "sp_interrupt_counter s = length (sp_resume s)" and "sp_null_resume s = Some w"
    and "w \<notin> set own"
  shows "\<exists>s'. interrupt iid v s (own # rest) = (Interrupted (VInterrupt v iid), s', own # rest)"
  using assms get_null_resume_own [OF assms(2), of own rest]
  by (simp add: interrupt_def counter_next_def Let_def)

text \<open>From a counter in the middle, with the null resume write still there or already used.\<close>

lemma run_interrupts_exhausted:
  assumes "sp_interrupt_counter s = length (sp_resume s)" and "sp_null_resume s = Some w"
    and "w \<notin> set own"
  shows "run_interrupts iid vals s (own # rest) =
    ([], case vals of [] \<Rightarrow> None | v # _ \<Rightarrow> Some (VInterrupt v iid), own # rest)"
proof (cases vals)
  case (Cons v vs)
  with interrupt_raises [OF assms, of iid v rest] show ?thesis by auto
qed simp

lemma run_interrupts_from:
  assumes "sp_interrupt_counter s \<le> length (sp_resume s)" and "sp_null_resume s = Some w"
    and "w \<in> set own" and "w \<notin> set (remove1 w own)" and "snd (snd w) \<noteq> VNone"
  shows "run_interrupts iid vals s (own # rest) =
    (let left = drop (sp_interrupt_counter s) (sp_resume s) @ [snd (snd w)]
     in (take (length vals) left,
         if length vals \<le> length left then None else Some (VInterrupt (vals ! length left) iid),
         (if length vals < length left then own else remove1 w own) # rest))"
  using assms
proof (induction vals arbitrary: s)
  case (Cons v vs)
  show ?case
  proof (cases "sp_interrupt_counter s = length (sp_resume s)")
    case True
    let ?s' = "set_interrupt_counter s (Suc (sp_interrupt_counter s)) (sp_resume s @ [snd (snd w)])"
    have "run_interrupts iid vs ?s' (remove1 w own # rest) =
        ([], case vs of [] \<Rightarrow> None | u # _ \<Rightarrow> Some (VInterrupt u iid), remove1 w own # rest)"
      by (rule run_interrupts_exhausted) (use True Cons.prems in simp_all)
    with True Cons.prems interrupt_null [OF True Cons.prems(2,3,5), of iid v rest] show ?thesis
      by (simp add: Let_def split: list.splits)
  next
    case False
    with Cons.prems(1) have lt: "sp_interrupt_counter s < length (sp_resume s)" by simp
    let ?s' = "set_interrupt_counter s (Suc (sp_interrupt_counter s)) (sp_resume s)"
    have d: "drop (sp_interrupt_counter s) (sp_resume s) =
        sp_resume s ! sp_interrupt_counter s # drop (Suc (sp_interrupt_counter s)) (sp_resume s)"
      using lt by (simp add: Cons_nth_drop_Suc)
    show ?thesis
      using Cons.IH [of ?s'] Cons.prems lt interrupt_stored [OF lt, of iid v "own # rest"]
      by (simp add: d Let_def)
  qed
qed (simp add: Let_def)



end
