(* ===== verification/Checkpoint_Core.thy ===== *)
theory Checkpoint_Core
  imports Pregel_Apply
begin

section \<open>Checkpoints: building and restoring\<close>

text \<open>
  \<open>pregel/_checkpoint.py\<close> and \<open>get_new_channel_versions\<close> of \<open>pregel/_utils.py\<close>. The clock and
  the id generator are arguments (\<open>ts\<close>, \<open>new_id\<close>); what the saver answers to
  \<open>get_delta_channel_history\<close> is an argument too, a function of the channel names asked for.
\<close>

definition LATEST_VERSION :: int where "LATEST_VERSION = 4"
text \<open>The bound is read from the environment; this is its default.\<close>

definition DELTA_MAX_SUPERSTEPS_SINCE_SNAPSHOT :: int where
  "DELTA_MAX_SUPERSTEPS_SINCE_SNAPSHOT = 5000"

definition empty_checkpoint :: "string \<Rightarrow> string \<Rightarrow> checkpoint" where
  "empty_checkpoint new_id ts =
     \<lparr>cp_v = LATEST_VERSION, cp_id = new_id, cp_ts = ts, channel_values = [], channel_versions = [],
      versions_seen = [], cp_updated_channels = None\<rparr>"

subsection \<open>Task ids for writes saved at exit\<close>

text \<open>
  \<open>str(uuid.UUID(s))\<close> of a string of 32 hexadecimal digits with any hyphens, in lower case and
  grouped 8-4-4-4-12; \<open>None\<close> where the constructor raises.
\<close>

definition hex_lower :: "char \<Rightarrow> char option" where
  "hex_lower c = (let n = of_char c :: nat in
     if 48 \<le> n \<and> n < 58 \<or> 97 \<le> n \<and> n < 103 then Some c
     else if 65 \<le> n \<and> n < 71 then Some (char_of (n + 32)) else None)"

definition uuid_groups :: "string \<Rightarrow> string list option" where
  "uuid_groups s =
     (let hs = map hex_lower (filter (\<lambda>c. c \<noteq> CHR ''-'') s) in
      if length hs = 32 \<and> None \<notin> set hs
      then let h = map the hs in
           Some [take 8 h, take 4 (drop 8 h), take 4 (drop 12 h), take 4 (drop 16 h), drop 20 h]
      else None)"

definition exit_delta_task_id :: "int \<Rightarrow> string \<Rightarrow> string res" where
  "exit_delta_task_id step task_id =
     (case uuid_groups task_id of
        None \<Rightarrow> Inl (ValueError task_id)
      | Some parts \<Rightarrow> Inr (str_join ''-'' (pad_int 8 step # tl parts)))"

lemma exit_delta_task_id_split:
  assumes "exit_delta_task_id step t = Inr s"
  shows "\<exists>rest. s = pad_int 8 step @ ''-'' @ rest"
  using assms
  by (auto simp: exit_delta_task_id_def uuid_groups_def Let_def split: option.splits if_splits)

text \<open>
  The synthetic task ids under which exit mode saves the writes of a step sort by step, whatever
  the tasks' own ids, below a hundred million steps.
\<close>

theorem exit_delta_task_id_ordered:
  assumes "exit_delta_task_id (int m) s = Inr a" and "exit_delta_task_id (int n) t = Inr b"
    and "m < n" and "n < 10 ^ 8"
  shows "a < b"
proof -
  obtain u v where "a = pad_int 8 (int m) @ ''-'' @ u" and "b = pad_int 8 (int n) @ ''-'' @ v"
    using exit_delta_task_id_split assms(1,2) by meson
  moreover have "pad_int (Suc 7) (int m) < pad_int (Suc 7) (int n)"
    by (rule pad_int_less) (use assms in simp_all)
  moreover have "m < 10 ^ Suc 7" and "n < 10 ^ Suc 7" using assms by simp_all
  then have "length (pad_int (Suc 7) (int m)) = length (pad_int (Suc 7) (int n))"
    by (simp only: pad_int_fixed length_fixed_digits)
  ultimately show ?thesis
    using less_append_same_length by simp
qed

lemma exit_delta_task_id_ordered_witness:
  "''00000009-0000-0000-0000-000000000000'' < ''00000010-0000-0000-0000-000000000000''"
proof -
  have a: "exit_delta_task_id (int 9) NULL_TASK_ID = Inr ''00000009-0000-0000-0000-000000000000''"
    by code_simp
  have b: "exit_delta_task_id (int 10) NULL_TASK_ID = Inr ''00000010-0000-0000-0000-000000000000''"
    by code_simp
  show ?thesis
    by (rule exit_delta_task_id_ordered [OF a b]) simp_all
qed

subsection \<open>Building a checkpoint\<close>

definition delta_channels_to_snapshot :: "channels \<Rightarrow> (string, int \<times> int) dict \<Rightarrow> string set" where
  "delta_channels_to_snapshot channels counters =
     set (map fst (filter (\<lambda>(name, ch).
       (case ch of
          Ch_DeltaChannel d \<Rightarrow>
            channel_is_available ch \<and>
            (let (updates, supersteps) = dgetd counters name (0, 0)
             in updates \<ge> dc_snapshot_frequency d
              \<or> supersteps \<ge> DELTA_MAX_SUPERSTEPS_SINCE_SNAPSHOT)
        | _ \<Rightarrow> False)) channels))"

definition checkpoint_channel ::
  "string set option \<Rightarrow> (version option \<Rightarrow> version) option \<Rightarrow> string set \<Rightarrow>
   (string, pyval) dict \<times> versions \<Rightarrow> string \<times> channel \<Rightarrow> ((string, pyval) dict \<times> versions) res" where
  "checkpoint_channel updated_channels get_next_version channels_to_snapshot vv kc =
     (let (k, ch) = kc; (values, versions) = vv in
      case map_of versions k of
        None \<Rightarrow> Inr vv
      | Some ver \<Rightarrow>
          (if k \<in> channels_to_snapshot
           then let versions =
                      (case get_next_version of
                         None \<Rightarrow> versions
                       | Some f \<Rightarrow>
                           if updated_channels = None \<or> k \<notin> the updated_channels
                           then dset k (f (Some ver)) versions else versions)
                in rmap (\<lambda>v. (dset k (VDeltaSnapshot v) values, versions)) (channel_get ch)
           else case channel_checkpoint ch of
                  None \<Rightarrow> Inr vv
                | Some v \<Rightarrow> Inr (dset k v values, versions)))"

definition create_checkpoint ::
  "string \<Rightarrow> string \<Rightarrow> checkpoint \<Rightarrow> channels option \<Rightarrow> string option \<Rightarrow> string set option \<Rightarrow>
   (version option \<Rightarrow> version) option \<Rightarrow> string set \<Rightarrow> checkpoint res" where
  "create_checkpoint new_id ts cp channels given_id updated_channels get_next_version channels_to_snapshot =
     rmap (\<lambda>(values, versions).
        \<lparr>cp_v = LATEST_VERSION,
         cp_id = (case given_id of Some i \<Rightarrow> if i \<noteq> [] then i else new_id | None \<Rightarrow> new_id),
         cp_ts = ts, channel_values = values, channel_versions = versions,
         versions_seen = versions_seen cp,
         cp_updated_channels = map_option sorted_list_of_set updated_channels\<rparr>)
       (case channels of
          None \<Rightarrow> Inr (channel_values cp, channel_versions cp)
        | Some chs \<Rightarrow>
            rfold (checkpoint_channel updated_channels get_next_version channels_to_snapshot)
              ([], channel_versions cp) chs)"

subsection \<open>Restoring channels\<close>

record delta_history =
  dh_writes :: "(string \<times> string \<times> pyval) list"
  dh_seed :: "pyval option"

datatype chan_or_managed = SpecChannel channel | SpecManaged managed_spec

definition needs_replay :: "channel \<Rightarrow> pyval option \<Rightarrow> bool" where
  "needs_replay spec stored = (is_delta spec \<and> stored = None)"

definition channel_specs :: "(string, chan_or_managed) dict \<Rightarrow> channels" where
  "channel_specs specs =
     concat (map (\<lambda>(k, s). case s of SpecChannel c \<Rightarrow> [(k, c)] | SpecManaged m \<Rightarrow> []) specs)"

definition managed_specs :: "(string, chan_or_managed) dict \<Rightarrow> managed" where
  "managed_specs specs =
     concat (map (\<lambda>(k, s). case s of SpecChannel c \<Rightarrow> [] | SpecManaged m \<Rightarrow> [(k, m)]) specs)"

definition restore_channel ::
  "(string, delta_history) dict \<Rightarrow> (string, pyval) dict \<Rightarrow> string \<times> channel \<Rightarrow> (string \<times> channel) res" where
  "restore_channel histories values kc =
     rmap (\<lambda>c. (fst kc, c))
       (case map_of histories (fst kc) of
          None \<Rightarrow> channel_from_checkpoint (snd kc) (map_of values (fst kc))
        | Some history \<Rightarrow>
            (case snd kc of
               Ch_DeltaChannel d \<Rightarrow>
                 rmap Ch_DeltaChannel
                   (rbind (DeltaChannel_from_checkpoint d (dh_seed history))
                     (\<lambda>r. DeltaChannel_replay_writes r (dh_writes history)))
             | c \<Rightarrow> Inl (UserError ''replay_writes'')))"

definition channels_from_checkpoint ::
  "(string, chan_or_managed) dict \<Rightarrow> checkpoint \<Rightarrow> (string list \<Rightarrow> (string, delta_history) dict res) option \<Rightarrow>
   (channels \<times> managed) res" where
  "channels_from_checkpoint specs cp saver =
     (let chs = channel_specs specs;
          delta_channels = map fst (filter (\<lambda>(k, c). needs_replay c (map_of (channel_values cp) k)) chs)
      in rbind (case saver of
                  None \<Rightarrow> Inr []
                | Some get_history \<Rightarrow> if delta_channels = [] then Inr [] else get_history delta_channels)
           (\<lambda>histories.
              rmap (\<lambda>chs'. (chs', managed_specs specs))
                (rmapM (restore_channel histories (channel_values cp)) chs)))"

definition get_new_channel_versions :: "versions \<Rightarrow> versions \<Rightarrow> versions" where
  "get_new_channel_versions previous current =
     (if previous \<noteq> []
      then filter (\<lambda>(k, v). v > dgetd previous k (null_version current)) current
      else current)"

subsection \<open>A checkpoint restores the channels it was built from\<close>

text \<open>What the loop of \<open>create_checkpoint\<close> stores for one channel.\<close>

definition stored_value :: "versions \<Rightarrow> string set \<Rightarrow> string \<Rightarrow> channel \<Rightarrow> pyval option" where
  "stored_value versions snap k ch =
     (if \<not> dmem k versions then None
      else if k \<in> snap then (case channel_get ch of Inr v \<Rightarrow> Some (VDeltaSnapshot v) | Inl e \<Rightarrow> None)
      else channel_checkpoint ch)"

lemma checkpoint_channel_step:
  assumes "checkpoint_channel upd next_version snap (values, versions) (k, ch) = Inr (values', versions')"
    and "map_of values k = None"
  shows "map_of values' = (map_of values)(k := stored_value versions snap k ch)
    \<and> dkeys versions' = dkeys versions"
proof (cases "map_of versions k")
  case None
  then show ?thesis
    using assms by (auto simp: checkpoint_channel_def stored_value_def dmem_def)
next
  case (Some ver)
  then have k: "dmem k versions" by (simp add: dmem_def)
  show ?thesis
  proof (cases "k \<in> snap")
    case True
    with assms k Some show ?thesis
      by (auto simp: checkpoint_channel_def stored_value_def Let_def rmap_Inr_iff dkeys_dset_mem
          split: option.splits if_splits)
  next
    case False
    with assms k Some show ?thesis
      by (auto simp: checkpoint_channel_def stored_value_def split: option.splits)
  qed
qed

lemma stored_value_keys: "dkeys v = dkeys w \<Longrightarrow> stored_value v snap k ch = stored_value w snap k ch"
  by (simp add: stored_value_def dmem_iff_keys)

lemma checkpoint_channels_lookup:
  assumes "rfold (checkpoint_channel upd next_version snap) (values, versions) chs = Inr (values', versions')"
    and "dict_ok chs" and "\<forall>k. dmem k chs \<longrightarrow> map_of values k = None"
  shows "\<forall>k. map_of values' k =
    (case map_of chs k of None \<Rightarrow> map_of values k | Some ch \<Rightarrow> stored_value versions snap k ch)"
  using assms
proof (induction chs arbitrary: "values" versions)
  case (Cons kc chs)
  obtain k ch where kc: "kc = (k, ch)" by (cases kc)
  obtain vals1 vers1 where s: "checkpoint_channel upd next_version snap (values, versions) (k, ch) = Inr (vals1, vers1)"
    and r: "rfold (checkpoint_channel upd next_version snap) (vals1, vers1) chs = Inr (values', versions')"
    using Cons.prems(1) kc by (auto simp: rbind_Inr_iff)
  have v: "map_of vals1 = (map_of values)(k := stored_value versions snap k ch)"
    and vk: "dkeys vers1 = dkeys versions"
    using checkpoint_channel_step [OF s] Cons.prems(3) kc by (auto simp: dmem_def)
  have k: "map_of chs k = None" and d: "dict_ok chs"
    using Cons.prems(2) kc by (auto simp: dict_ok_def map_of_eq_None_iff)
  have fresh: "\<forall>j. dmem j chs \<longrightarrow> map_of vals1 j = None"
    using Cons.prems(3) k kc v by (auto simp: dmem_def)
  show ?case
    using Cons.IH [OF r d fresh] v k kc stored_value_keys [OF vk] by (auto split: option.splits)
qed simp

text \<open>
  The channels a run may hold for a graph's declared channels: same configuration, invariant, and
  a channel without a version has never been written, so it is as restored from nothing.
\<close>

definition run_channels :: "channels \<Rightarrow> channels \<Rightarrow> versions \<Rightarrow> bool" where
  "run_channels specs chs versions =
     (dict_ok specs \<and> dict_ok chs \<and> dkeys chs = dkeys specs
      \<and> (\<forall>k c. map_of chs k = Some c \<longrightarrow>
           channel_inv c \<and> (\<exists>s. map_of specs k = Some s \<and> channel_spec s = channel_spec c
             \<and> (\<not> dmem k versions \<longrightarrow> channel_from_checkpoint s None = Inr c))))"

lemma restored_delta:
  assumes "channel_inv c" and "channel_spec s = channel_spec c" and "is_delta c" and "channel_get c = Inr v"
  shows "channel_from_checkpoint s (Some (VDeltaSnapshot v)) = Inr c"
proof -
  obtain d where c: "c = Ch_DeltaChannel d" using assms(3) by (cases c) auto
  have "DeltaChannel_inv d" "dc_value d = Some v"
    using assms c by (auto simp: DeltaChannel_get_def split: option.splits)
  then have "channel_from_checkpoint c (Some (VDeltaSnapshot v)) = Inr c"
    by (simp add: c DeltaChannel_from_checkpoint_def DeltaChannel_init_self Let_def)
  then show ?thesis
    using channel_from_checkpoint_config [of s] channel_from_checkpoint_config [of c] assms(2) by metis
qed

lemma restore_tracked:
  assumes "channel_inv c" and "channel_spec s = channel_spec c" and "tracked c"
  shows "channel_from_checkpoint s (channel_checkpoint c) = Inr c"
  using channel_roundtrip [OF assms(1,3)] channel_from_checkpoint_config [of s]
    channel_from_checkpoint_config [of c] assms(2) by metis

lemma restored_from_stored:
  assumes "run_channels specs chs versions" and "map_of chs k = Some c" and "map_of specs k = Some s"
    and "tracked c \<and> k \<notin> snap \<or> is_delta c \<and> k \<in> snap \<and> channel_is_available c"
  shows "channel_from_checkpoint s (stored_value versions snap k c) = Inr c"
proof -
  have c: "channel_inv c" "channel_spec s = channel_spec c"
      "\<not> dmem k versions \<longrightarrow> channel_from_checkpoint s None = Inr c"
    using assms(1) [unfolded run_channels_def] assms(2,3) by (metis option.inject)+
  show ?thesis
  proof (cases "dmem k versions")
    case False
    with c(3) show ?thesis by (simp add: stored_value_def)
  next
    case True
    show ?thesis
    proof (cases "k \<in> snap")
      case False
      with True assms(4) c show ?thesis by (simp add: stored_value_def restore_tracked)
    next
      case k: True
      then obtain v where "channel_get c = Inr v" using assms(4) chan.available_iff by auto
      with True k assms(4) c show ?thesis by (simp add: stored_value_def restored_delta)
    qed
  qed
qed

lemma rmapM_restore_lookup:
  assumes "rmapM (restore_channel hs vals) chs = Inr chs'" and "map_of chs k = Some s"
  shows "\<exists>c. restore_channel hs vals (k, s) = Inr (k, c) \<and> map_of chs' k = Some c"
  using assms
proof (induction chs arbitrary: chs')
  case (Cons kc chs)
  obtain y ys where y: "restore_channel hs vals kc = Inr y" and ys: "rmapM (restore_channel hs vals) chs = Inr ys"
    and chs': "chs' = y # ys"
    using Cons.prems(1) by (auto simp: rbind_Inr_iff rmap_Inr_iff)
  have "fst y = fst kc" using y by (auto simp: restore_channel_def rmap_Inr_iff)
  with Cons y ys chs' show ?case
    by (cases kc; cases y) (auto split: if_splits)
qed simp



subsection \<open>No change is lost to the saver\<close>

text \<open>
  When a step's writes are applied with integer versions, every channel whose state changed is
  among the new versions handed to the saver, and only the channels with a new version are.
\<close>

theorem changed_channels_are_saved:
  assumes "apply_writes cp channels tasks (Some increment) t2n = Inr (cp', channels', upd)"
    and "dict_ok channels" and "\<forall>v \<in> snd ` set (channel_versions cp). is_int_version v"
    and "map_of channels k = Some c"
    and "dict_ok (channel_versions cp')" and "channel_versions cp \<noteq> []"
    and "\<forall>v \<in> snd ` set (channel_versions cp'). is_int_version v"
  shows "(map_of channels' k \<noteq> Some c \<longrightarrow>
        dmem k (get_new_channel_versions (channel_versions cp) (channel_versions cp')))
    \<and> (dmem k (get_new_channel_versions (channel_versions cp) (channel_versions cp')) \<longrightarrow>
        map_of (channel_versions cp') k \<noteq> map_of (channel_versions cp) k)"
proof -
  define nv where "nv = increment (max_version (channel_versions cp))"
  have ok: "view_ok nv c (map_of (channel_versions cp) k)
      (map_of channels' k, map_of (channel_versions cp') k, k \<in> upd)"
    using apply_writes_ok [OF assms(1,2,4)] by (simp add: nv_def)
  have above: "\<forall>(j, v) \<in> set (channel_versions cp). v < nv"
    using incr.next_above_all [OF assms(3)] by (auto simp: nv_def)
  have null: "null_version (channel_versions cp') < nv"
  proof -
    obtain j w where jw: "(j, w) \<in> set (channel_versions cp)" using assms(6) by (cases "channel_versions cp") auto
    then have "is_int_version w" and "w < nv" using assms(3) above by force+
    then have "\<exists>v. 0 \<le> v \<and> IntV v < nv" by (cases w) auto
    then obtain v where "0 \<le> v" and "IntV v < nv" by blast
    moreover have "null_version (channel_versions cp') = IntV 0"
    proof (cases "channel_versions cp'")
      case (Cons a list)
      with assms(7) show ?thesis by (cases a; cases "snd a") (auto simp: null_version_def)
    qed (simp add: null_version_def)
    ultimately show ?thesis
      by (metis order.strict_trans1 less_eq_version.simps(1))
  qed
  have mem: "dmem k (get_new_channel_versions (channel_versions cp) (channel_versions cp')) \<longleftrightarrow>
      (\<exists>v. map_of (channel_versions cp') k = Some v
         \<and> dgetd (channel_versions cp) k (null_version (channel_versions cp')) < v)"
  proof -
    have "map_of (filter (\<lambda>(k, v). P k v) d) k = (case map_of d k of None \<Rightarrow> None
        | Some v \<Rightarrow> if P k v then Some v else None)" if "dict_ok d" for P and d :: versions
      using that by (induction d) (auto simp: dict_ok_def map_of_eq_None_iff split: option.splits)
    then show ?thesis
      using assms(5,6) by (auto simp: get_new_channel_versions_def dmem_def split: option.splits if_splits)
  qed
  have "dgetd (channel_versions cp) k (null_version (channel_versions cp')) < nv"
    using null above by (auto simp: dgetd_def split: option.splits dest: map_of_SomeD)
  then show ?thesis
    using ok unfolding mem view_ok_def by (auto simp: dgetd_def split: option.splits)
qed

lemma changed_channels_are_saved_witness:
  "dmem ''b'' (get_new_channel_versions [(''a'', IntV 2), (''b'', IntV 5)] [(''a'', IntV 2), (''b'', IntV 6)])"
  using changed_channels_are_saved [OF example_apply, of "''b''" "example_lv ''b'' None"]
  by (simp add: example_checkpoint_def dict_ok_def LastValue_init_def)

end
