(* ===== verification/Pregel_Prepare.thy ===== *)
theory Pregel_Prepare
  imports Pregel_Scratch Checkpoint_Core
begin

section \<open>Preparing the tasks of the next step\<close>

text \<open>
  The second half of \<open>pregel/_algo.py\<close>: \<open>prepare_next_tasks\<close>, \<open>prepare_single_task\<close> with its three
  kinds of task, the error handler task, and their helpers. The hash functions are the library's:
  arguments from the hashed bytes to the hex digest. A byte string and a text are both character
  lists, so that encoding is the identity. What the code reads of the environment (processes,
  config, store, checkpointer, ...) is one record, \<open>prep_env\<close>; the two mutable objects passed along,
  the input cache and the list of pending writes, are the record \<open>prep_state\<close>.
\<close>

subsection \<open>Task ids\<close>

record hashes =
  xxh3_128_hexdigest :: "string \<Rightarrow> string"
  sha1_hexdigest :: "string \<Rightarrow> string"

definition hex_uuid :: "string \<Rightarrow> string" where
  "hex_uuid hex =
     take 8 hex @ ''-'' @ take 4 (drop 8 hex) @ ''-'' @ take 4 (drop 12 hex) @ ''-''
       @ take 4 (drop 16 hex) @ ''-'' @ take 12 (drop 20 hex)"

definition uuid5_str :: "hashes \<Rightarrow> string \<Rightarrow> string list \<Rightarrow> string" where
  "uuid5_str hs namespace parts = hex_uuid (sha1_hexdigest hs (namespace @ concat parts))"

definition xxhash_str :: "hashes \<Rightarrow> string \<Rightarrow> string list \<Rightarrow> string" where
  "xxhash_str hs namespace parts = hex_uuid (xxh3_128_hexdigest hs (namespace @ concat parts))"

definition task_id_func :: "hashes \<Rightarrow> checkpoint \<Rightarrow> string \<Rightarrow> string list \<Rightarrow> string" where
  "task_id_func hs cp = (if cp_v cp > 1 then xxhash_str hs else uuid5_str hs)"

text \<open>\<open>binascii.unhexlify\<close>: pairs of hexadecimal digits; an odd length or another character raises.\<close>

definition hex_value :: "char \<Rightarrow> nat option" where
  "hex_value c = (case hex_lower c of None \<Rightarrow> None
     | Some d \<Rightarrow> let n = of_char d :: nat in Some (if n < 58 then n - 48 else n - 87))"

fun unhexlify :: "string \<Rightarrow> string res" where
  "unhexlify [] = Inr []"
| "unhexlify [c] = Inl (ValueError ''Odd-length string'')"
| "unhexlify (c # d # cs) =
     (case (hex_value c, hex_value d) of
        (Some a, Some b) \<Rightarrow> rmap (\<lambda>bs. char_of (16 * a + b) # bs) (unhexlify cs)
      | _ \<Rightarrow> Inl (ValueError ''Non-hexadecimal digit found''))"

definition checkpoint_id_bytes :: "checkpoint \<Rightarrow> string res" where
  "checkpoint_id_bytes cp = unhexlify (filter (\<lambda>c. c \<noteq> CHR ''-'') (cp_id cp))"

subsection \<open>The environment\<close>

record call =
  cl_name :: "string option"
  cl_proc :: runnable
  cl_identifier :: "string option"
  cl_input :: pyval
  cl_retry_policy :: "string list option"
  cl_cache_policy :: "cache_policy option"
  cl_callbacks :: "string option"
  cl_timeout :: "nat option"

text \<open>
  A task path as it is asked for: a pull of a node, a push from the parts after \<open>PUSH\<close>, or a push
  by a call, with the parent's path, the index of the call and the parent's id.
\<close>

datatype prep_path =
    PathPull string
  | PathPush "path_part list"
  | PathCall "path_part list" int string call

record prep_env =
  pe_hashes :: hashes
  pe_processes :: "(string, pregel_node) dict"
  pe_identifier :: "pregel_node \<Rightarrow> string option"
  pe_managed :: managed
  pe_config :: run_config
  pe_step :: int
  pe_stop :: int
  pe_store :: "string option"
  pe_checkpointer :: "string option"
  pe_manager :: "string option"
  pe_cache_policy :: "cache_policy option"
  pe_retry_policy :: "string list"

record prep_state =
  ps_input_cache :: "(input_cache_key, pyval) dict option"
  ps_pending :: "pending_write list"

datatype prepared = PreparedTask pregel_task | PreparedExec exec_task

fun prepared_id :: "prepared \<Rightarrow> string" where
  "prepared_id (PreparedTask t) = pt_id t"
| "prepared_id (PreparedExec t) = et_id t"

subsection \<open>Triggers\<close>

definition checkpoint_null_version :: "checkpoint \<Rightarrow> version option" where
  "checkpoint_null_version cp =
     (case channel_versions cp of [] \<Rightarrow> None | (_, v) # _ \<Rightarrow> Some (null_of v))"

fun any_trigger :: "channels \<Rightarrow> (string \<Rightarrow> bool) \<Rightarrow> string list \<Rightarrow> bool res" where
  "any_trigger channels newer [] = Inr False"
| "any_trigger channels newer (chan # rest) =
     (case map_of channels chan of
        None \<Rightarrow> Inl (KeyError chan)
      | Some c \<Rightarrow>
          (if channel_is_available c \<and> newer chan then Inr True else any_trigger channels newer rest))"

definition node_triggers :: "channels \<Rightarrow> versions \<Rightarrow> versions option \<Rightarrow> version \<Rightarrow> pregel_node \<Rightarrow> bool res" where
  "node_triggers channels versions seen null proc =
     (case seen of
        None \<Rightarrow> any_trigger channels (\<lambda>chan. True) (pn_triggers proc)
      | Some s \<Rightarrow>
          any_trigger channels (\<lambda>chan. dgetd versions chan null > dgetd s chan null) (pn_triggers proc))"

subsection \<open>The input of a node\<close>

fun gather_inputs ::
  "managed \<Rightarrow> channels \<Rightarrow> scratchpad \<Rightarrow> (string, pyval) dict \<Rightarrow> string list \<Rightarrow> (string, pyval) dict res" where
  "gather_inputs managed channels scratchpad acc [] = Inr acc"
| "gather_inputs managed channels scratchpad acc (chan # rest) =
     (case map_of channels chan of
        Some c \<Rightarrow>
          (if channel_is_available c
           then rbind (channel_get c)
                  (\<lambda>v. gather_inputs managed channels scratchpad (dset chan v acc) rest)
           else gather_inputs managed channels scratchpad acc rest)
      | None \<Rightarrow>
          (case map_of managed chan of
             None \<Rightarrow> Inl (KeyError chan)
           | Some m \<Rightarrow> gather_inputs managed channels scratchpad (dset chan (managed_get m scratchpad) acc) rest))"

text \<open>The value before the mapper; \<open>None\<close> is \<open>MISSING\<close>.\<close>

definition raw_input ::
  "managed \<Rightarrow> channels \<Rightarrow> scratchpad \<Rightarrow> ch_keys \<Rightarrow> pyval option res" where
  "raw_input managed channels scratchpad keys =
     (case keys of
        ManyKeys ks \<Rightarrow> rmap (\<lambda>d. Some (VDict d)) (gather_inputs managed channels scratchpad [] ks)
      | OneKey k \<Rightarrow>
          (case map_of channels k of
             None \<Rightarrow> Inr None
           | Some c \<Rightarrow> if channel_is_available c then rmap Some (channel_get c) else Inr None))"

definition proc_input ::
  "pregel_node \<Rightarrow> managed \<Rightarrow> channels \<Rightarrow> bool \<Rightarrow> scratchpad \<Rightarrow> (input_cache_key, pyval) dict option \<Rightarrow>
   (pyval option \<times> (input_cache_key, pyval) dict option) res" where
  "proc_input proc managed channels for_execution scratchpad input_cache =
     (case (case input_cache of None \<Rightarrow> None | Some cache \<Rightarrow> map_of cache (input_cache_key proc)) of
        Some v \<Rightarrow> Inr (Some v, input_cache)
      | None \<Rightarrow>
          rbind (raw_input managed channels scratchpad (pn_channels proc))
            (\<lambda>raw. case raw of
               None \<Rightarrow> Inr (None, input_cache)
             | Some v \<Rightarrow>
                 rmap (\<lambda>val. (Some val, map_option (dset (input_cache_key proc) val) input_cache))
                   (case pn_mapper proc of
                      Some m \<Rightarrow> if for_execution then mp_call m v else Inr v
                    | None \<Rightarrow> Inr v)))"

subsection \<open>What the three kinds of task share\<close>

fun path_value :: "path_part \<Rightarrow> pyval" where
  "path_value (PStr s) = VStr s"
| "path_value (PInt i) = VInt i"
| "path_value (PBool b) = VBool b"
| "path_value (PTup ps) = VTuple (map path_value ps)"

definition task_metadata ::
  "int \<Rightarrow> string \<Rightarrow> string list \<Rightarrow> path_part list \<Rightarrow> string \<Rightarrow> (string, pyval) dict" where
  "task_metadata step name triggers path ns =
     [(''langgraph_step'', VInt step), (''langgraph_node'', VStr name),
      (''langgraph_triggers'', VTuple (map VStr triggers)),
      (''langgraph_path'', VTuple (map path_value path)), (''langgraph_checkpoint_ns'', VStr ns)]"

definition child_ns :: "string \<Rightarrow> string \<Rightarrow> string" where
  "child_ns parent_ns name = (if parent_ns \<noteq> [] then parent_ns @ NS_SEP @ name else name)"

definition parent_ns_of :: "run_config \<Rightarrow> string" where
  "parent_ns_of config = (case conf_str config CONFIG_KEY_CHECKPOINT_NS of None \<Rightarrow> [] | Some s \<Rightarrow> s)"

definition DEFAULT_RUNTIME :: runtime where
  "DEFAULT_RUNTIME = \<lparr>rt_store = None, rt_previous = VNone, rt_execution_info = None\<rparr>"

definition conf_runtime :: "run_config \<Rightarrow> runtime" where
  "conf_runtime c =
     (case map_of (conf_of c) CONFIG_KEY_RUNTIME of Some (CRuntime r) \<Rightarrow> r | _ \<Rightarrow> DEFAULT_RUNTIME)"

definition execution_info ::
  "prep_env \<Rightarrow> checkpoint \<Rightarrow> string \<Rightarrow> string \<Rightarrow> string \<times> string \<times> string \<times> string option \<times> string option" where
  "execution_info env cp task_checkpoint_ns task_id =
     (cp_id cp, task_checkpoint_ns, task_id, conf_str (pe_config env) CONFIG_KEY_THREAD_ID,
      case rc_run_id (pe_config env) of Some r \<Rightarrow> if r \<noteq> [] then Some r else None | None \<Rightarrow> None)"

definition previous_value :: "checkpoint \<Rightarrow> pyval" where
  "previous_value cp = dgetd (channel_values cp) PREVIOUS VNone"

definition child_callbacks :: "prep_env \<Rightarrow> string option" where
  "child_callbacks env =
     (case pe_manager env of None \<Rightarrow> None
      | Some m \<Rightarrow> Some (m @ ''/graph:step:'' @ str_of_int (pe_step env)))"

definition task_cache_key ::
  "prep_env \<Rightarrow> cache_policy option \<Rightarrow> string list \<Rightarrow> pyval \<Rightarrow> cache_key option res" where
  "task_cache_key env policy ns arg =
     (case policy of
        None \<Rightarrow> Inr None
      | Some p \<Rightarrow>
          rmap (\<lambda>k. Some \<lparr>ck_ns = ns, ck_key = xxh3_128_hexdigest (pe_hashes env) k, ck_ttl = cpol_ttl p\<rparr>)
            (cpol_key_func p arg))"

definition or_else :: "'a option \<Rightarrow> 'a option \<Rightarrow> 'a option" where
  "or_else a b = (case a of None \<Rightarrow> b | Some x \<Rightarrow> Some x)"

definition or_list :: "'a list option \<Rightarrow> 'a list \<Rightarrow> 'a list" where
  "or_list a b = (case a of None \<Rightarrow> b | Some xs \<Rightarrow> if xs \<noteq> [] then xs else b)"

text \<open>The config a task runs with.\<close>

definition task_config ::
  "prep_env \<Rightarrow> checkpoint \<Rightarrow> run_config \<Rightarrow> string option \<Rightarrow> string \<Rightarrow> string \<Rightarrow> path_part list \<Rightarrow>
   string list \<Rightarrow> string \<Rightarrow> scratchpad \<Rightarrow> runtime \<Rightarrow> configurable \<Rightarrow> run_config" where
  "task_config env cp additional callbacks name task_id path triggers ns scratchpad runtime extra =
     patch_config (merge_configs [Some (pe_config env), Some additional]) callbacks (Some name)
       (Some ([(CONFIG_KEY_TASK_ID, CStr task_id),
               (CONFIG_KEY_SEND, CSend task_id),
               (CONFIG_KEY_READ, CRead name path triggers),
               (CONFIG_KEY_CHECKPOINTER,
                  (case pe_checkpointer env of
                     Some s \<Rightarrow> CSaver s
                   | None \<Rightarrow> dgetd (conf_of (pe_config env)) CONFIG_KEY_CHECKPOINTER CNone)),
               (CONFIG_KEY_CHECKPOINT_MAP,
                  CMap (dset (parent_ns_of (pe_config env)) (cp_id cp)
                    (conf_map (pe_config env) CONFIG_KEY_CHECKPOINT_MAP))),
               (CONFIG_KEY_CHECKPOINT_ID, CNone),
               (CONFIG_KEY_CHECKPOINT_NS, CStr ns),
               (CONFIG_KEY_SCRATCHPAD, CScratchpad scratchpad),
               (CONFIG_KEY_RUNTIME, CRuntime runtime)] @ extra))"

definition node_metadata :: "pregel_node \<Rightarrow> (string, pyval) dict \<Rightarrow> (string, pyval) dict" where
  "node_metadata proc metadata =
     (case pn_metadata proc of None \<Rightarrow> metadata | Some m \<Rightarrow> dupd metadata m)"

definition node_additional :: "pregel_node \<Rightarrow> (string, pyval) dict \<Rightarrow> run_config" where
  "node_additional proc metadata =
     empty_config\<lparr>rc_metadata := Some (node_metadata proc metadata), rc_tags := pn_tags proc\<rparr>"

definition env_scratchpad ::
  "prep_env \<Rightarrow> pending_write list \<Rightarrow> string \<Rightarrow> string \<Rightarrow> scratchpad \<times> pending_write list" where
  "env_scratchpad env pending task_id ns =
     make_scratchpad (conf_scratchpad (pe_config env)) pending task_id
       (xxh3_128_hexdigest (pe_hashes env) ns) (conf_resume_map (pe_config env)) (pe_step env) (pe_stop env)"

definition checksum_ok :: "string option \<Rightarrow> string \<Rightarrow> bool" where
  "checksum_ok checksum task_id = (checksum = None \<or> checksum = Some task_id)"

definition node_cache_ns :: "prep_env \<Rightarrow> pregel_node \<Rightarrow> string \<Rightarrow> string list" where
  "node_cache_ns env proc name =
     [CACHE_NS_WRITES,
      (case pe_identifier env proc of Some i \<Rightarrow> if i \<noteq> [] then i else ''__dynamic__''
       | None \<Rightarrow> ''__dynamic__''), name]"

subsection \<open>Pull tasks\<close>

definition prepare_pull_task ::
  "prep_env \<Rightarrow> checkpoint \<Rightarrow> string \<Rightarrow> channels \<Rightarrow> bool \<Rightarrow> string \<Rightarrow> string option \<Rightarrow> prep_state \<Rightarrow>
   (prepared option \<times> prep_state) res" where
  "prepare_pull_task env cp id_bytes channels for_execution name checksum st =
     (case (map_of (pe_processes env) name, checkpoint_null_version cp) of
        (None, _) \<Rightarrow> Inr (None, st)
      | (_, None) \<Rightarrow> Inr (None, st)
      | (Some proc, Some null) \<Rightarrow>
          rbind (node_triggers channels (channel_versions cp) (map_of (versions_seen cp) name) null proc)
            (\<lambda>triggered.
               if \<not> triggered then Inr (None, st)
               else if rc_conf (pe_config env) = None then Inl (KeyError CONF)
               else
                 let trigs = sort (pn_triggers proc);
                     ns = child_ns (parent_ns_of (pe_config env)) name;
                     task_id = task_id_func (pe_hashes env) cp id_bytes
                                 ([ns, str_of_int (pe_step env), name, PULL] @ trigs);
                     task_ns = ns @ NS_END @ task_id;
                     (scratchpad, pending) = env_scratchpad env (ps_pending st) task_id task_ns;
                     path = [PStr PULL, PStr name];
                     metadata = task_metadata (pe_step env) name trigs path task_ns
                 in rbind (proc_input proc (pe_managed env) channels for_execution scratchpad (ps_input_cache st))
                      (\<lambda>(input, cache).
                         let st' = \<lparr>ps_input_cache = cache, ps_pending = pending\<rparr> in
                         case input of
                           None \<Rightarrow> Inr (None, st')
                         | Some val \<Rightarrow>
                             if \<not> checksum_ok checksum task_id then Inl (AssertionError task_id)
                             else if \<not> for_execution
                             then Inr (Some (PreparedTask \<lparr>pt_id = task_id, pt_name = name, pt_path = path\<rparr>), st')
                             else case node_runnable proc of
                                    None \<Rightarrow> Inr (None, st')
                                  | Some node \<Rightarrow>
                                      rmap (\<lambda>cache_key.
                                        (Some (PreparedExec
                                           \<lparr>et_name = name, et_input = val, et_proc = node, et_writes = [],
                                            et_config = task_config env cp (node_additional proc metadata)
                                              (child_callbacks env) name task_id path trigs task_ns scratchpad
                                              ((conf_runtime (pe_config env))
                                                 \<lparr>rt_previous := previous_value cp, rt_store := pe_store env,
                                                  rt_execution_info := Some (execution_info env cp task_ns task_id)\<rparr>) [],
                                            et_triggers = trigs,
                                            et_retry_policy = or_list (pn_retry_policy proc) (pe_retry_policy env),
                                            et_cache_key = cache_key, et_id = task_id, et_path = path,
                                            et_writers = flat_writers (pn_writers proc),
                                            et_subgraphs = pn_subgraphs proc, et_timeout = pn_timeout proc\<rparr>), st'))
                                        (task_cache_key env (or_else (pn_cache_policy proc) (pe_cache_policy env))
                                           (node_cache_ns env proc name) val))))"

subsection \<open>Push tasks: sends\<close>

definition pending_sends :: "channels \<Rightarrow> pyval list" where
  "pending_sends channels =
     (case map_of channels TASKS of
        None \<Rightarrow> []
      | Some c \<Rightarrow> (case channel_get c of Inr v \<Rightarrow> (case seq_items v of Some vs \<Rightarrow> vs | None \<Rightarrow> []) | Inl e \<Rightarrow> []))"

definition prepare_push_task_send ::
  "prep_env \<Rightarrow> checkpoint \<Rightarrow> string \<Rightarrow> channels \<Rightarrow> bool \<Rightarrow> path_part list \<Rightarrow> string option \<Rightarrow> prep_state \<Rightarrow>
   (prepared option \<times> prep_state) res" where
  "prepare_push_task_send env cp id_bytes channels for_execution rest checksum st =
     (case rest of
        [PInt idx] \<Rightarrow>
          (if \<not> dmem TASKS channels then Inl (KeyError TASKS)
           else let sends = pending_sends channels in
           if idx < 0 \<or> idx \<ge> int (length sends) then Inr (None, st)
           else case sends ! nat idx of
             VSend node arg timeout \<Rightarrow>
               (case map_of (pe_processes env) node of
                  None \<Rightarrow> Inr (None, st)
                | Some proc \<Rightarrow>
                    (case node_runnable proc of
                       None \<Rightarrow> Inr (None, st)
                     | Some proc_node \<Rightarrow>
                         let ns = child_ns (parent_ns_of (pe_config env)) node;
                             task_id = task_id_func (pe_hashes env) cp id_bytes
                               [ns, str_of_int (pe_step env), node, PUSH, str_of_int idx];
                             task_ns = ns @ '':'' @ task_id;
                             path = [PStr PUSH, PInt idx, PBool False];
                             metadata = task_metadata (pe_step env) node [PUSH] path task_ns
                         in if \<not> checksum_ok checksum task_id then Inl (AssertionError task_id)
                            else if \<not> for_execution
                            then Inr (Some (PreparedTask \<lparr>pt_id = task_id, pt_name = node, pt_path = path\<rparr>), st)
                            else rbind (task_cache_key env (or_else (pn_cache_policy proc) (pe_cache_policy env))
                                          (node_cache_ns env proc node) arg)
                              (\<lambda>cache_key.
                                 if rc_conf (pe_config env) = None then Inl (KeyError CONF)
                                 else let (scratchpad, pending) = env_scratchpad env (ps_pending st) task_id task_ns
                                 in Inr (Some (PreparedExec
                                      \<lparr>et_name = node, et_input = arg, et_proc = proc_node, et_writes = [],
                                       et_config = task_config env cp (node_additional proc metadata)
                                         (child_callbacks env) node task_id path [PUSH] task_ns scratchpad
                                         ((conf_runtime (pe_config env))
                                            \<lparr>rt_previous := previous_value cp, rt_store := pe_store env,
                                             rt_execution_info := Some (execution_info env cp task_ns task_id)\<rparr>) [],
                                       et_triggers = [PUSH],
                                       et_retry_policy = or_list (pn_retry_policy proc) (pe_retry_policy env),
                                       et_cache_key = cache_key, et_id = task_id, et_path = path,
                                       et_writers = flat_writers (pn_writers proc),
                                       et_subgraphs = pn_subgraphs proc,
                                       et_timeout = (case timeout of Some t \<Rightarrow> Some t | None \<Rightarrow> pn_timeout proc)\<rparr>),
                                    st\<lparr>ps_pending := pending\<rparr>))))
           | _ \<Rightarrow> Inr (None, st))
      | _ \<Rightarrow> Inr (None, st))"

subsection \<open>Push tasks: calls\<close>

definition prepare_push_task_functional ::
  "prep_env \<Rightarrow> checkpoint \<Rightarrow> string \<Rightarrow> bool \<Rightarrow> path_part list \<Rightarrow> int \<Rightarrow> string \<Rightarrow> call \<Rightarrow> string option \<Rightarrow>
   prep_state \<Rightarrow> (prepared option \<times> prep_state) res" where
  "prepare_push_task_functional env cp id_bytes for_execution parent_path idx parent_id c checksum st =
     (case cl_name c of
        None \<Rightarrow> Inl (ValueError ''`call` functions must have a `__name__` attribute'')
      | Some name \<Rightarrow>
          let ns = child_ns (parent_ns_of (pe_config env)) name;
              task_id = task_id_func (pe_hashes env) cp id_bytes
                [ns, str_of_int (pe_step env), name, PUSH, task_path_str (PTup parent_path), str_of_int idx];
              task_ns = ns @ '':'' @ task_id;
              path = [PStr PUSH, PTup parent_path, PInt idx, PBool True];
              metadata = task_metadata (pe_step env) name [PUSH] path task_ns
          in if \<not> checksum_ok checksum task_id then Inl (AssertionError task_id)
             else if \<not> for_execution
             then Inr (Some (PreparedTask \<lparr>pt_id = task_id, pt_name = name, pt_path = path\<rparr>), st)
             else rmap (\<lambda>cache_key.
                 let (scratchpad, pending) = env_scratchpad env (ps_pending st) task_id task_ns
                 in (Some (PreparedExec
                       \<lparr>et_name = name, et_input = cl_input c, et_proc = cl_proc c, et_writes = [],
                        et_config = task_config env cp (empty_config\<lparr>rc_metadata := Some metadata\<rparr>)
                          (or_else (cl_callbacks c) (child_callbacks env)) name task_id path [PUSH] task_ns scratchpad
                          ((conf_runtime (pe_config env))
                             \<lparr>rt_store := pe_store env,
                              rt_execution_info := Some (execution_info env cp task_ns task_id)\<rparr>) [],
                        et_triggers = [PUSH],
                        et_retry_policy = or_list (cl_retry_policy c) (pe_retry_policy env),
                        et_cache_key = cache_key, et_id = task_id, et_path = path,
                        et_writers = [], et_subgraphs = [], et_timeout = cl_timeout c\<rparr>),
                     st\<lparr>ps_pending := pending\<rparr>))
               (task_cache_key env (or_else (cl_cache_policy c) (pe_cache_policy env))
                  [CACHE_NS_WRITES,
                   (case cl_identifier c of Some i \<Rightarrow> if i \<noteq> [] then i else ''__dynamic__''
                    | None \<Rightarrow> ''__dynamic__'')] (cl_input c)))"

subsection \<open>One task, all tasks\<close>

definition prepare_single_task ::
  "prep_env \<Rightarrow> checkpoint \<Rightarrow> string \<Rightarrow> channels \<Rightarrow> bool \<Rightarrow> prep_path \<Rightarrow> string option \<Rightarrow> prep_state \<Rightarrow>
   (prepared option \<times> prep_state) res" where
  "prepare_single_task env cp id_bytes channels for_execution path checksum st =
     (case path of
        PathCall parent_path idx parent_id c \<Rightarrow>
          prepare_push_task_functional env cp id_bytes for_execution parent_path idx parent_id c checksum st
      | PathPush rest \<Rightarrow> prepare_push_task_send env cp id_bytes channels for_execution rest checksum st
      | PathPull name \<Rightarrow> prepare_pull_task env cp id_bytes channels for_execution name checksum st)"

definition candidate_nodes ::
  "checkpoint \<Rightarrow> (string, pregel_node) dict \<Rightarrow> (string, string list) dict option \<Rightarrow> string set option \<Rightarrow> string list" where
  "candidate_nodes cp processes trigger_to_nodes updated_channels =
     (let t2n = (case trigger_to_nodes of None \<Rightarrow> [] | Some d \<Rightarrow> d);
          updated = (case updated_channels of None \<Rightarrow> {} | Some u \<Rightarrow> u)
      in if updated \<noteq> {} \<and> t2n \<noteq> []
         then sorted_list_of_set (\<Union>c \<in> updated. set (dgetd t2n c []))
         else if channel_versions cp = [] then []
         else dkeys processes)"

definition prepare_one ::
  "prep_env \<Rightarrow> checkpoint \<Rightarrow> string \<Rightarrow> channels \<Rightarrow> bool \<Rightarrow> prepared list \<times> prep_state \<Rightarrow> prep_path \<Rightarrow>
   (prepared list \<times> prep_state) res" where
  "prepare_one env cp id_bytes channels for_execution acc path =
     rmap (\<lambda>(t, st). (case t of None \<Rightarrow> fst acc | Some t \<Rightarrow> fst acc @ [t], st))
       (prepare_single_task env cp id_bytes channels for_execution path None (snd acc))"

definition prepare_next_tasks ::
  "prep_env \<Rightarrow> checkpoint \<Rightarrow> pending_write list \<Rightarrow> channels \<Rightarrow> bool \<Rightarrow>
   (string, string list) dict option \<Rightarrow> string set option \<Rightarrow>
   ((string, prepared) dict \<times> pending_write list) res" where
  "prepare_next_tasks env cp pending_writes channels for_execution trigger_to_nodes updated_channels =
     rbind (checkpoint_id_bytes cp)
       (\<lambda>id_bytes.
          let paths = map (\<lambda>i. PathPush [PInt (int i)]) [0..<length (pending_sends channels)]
                    @ map PathPull (candidate_nodes cp (pe_processes env) trigger_to_nodes updated_channels)
          in rmap (\<lambda>(ts, st). (foldl (\<lambda>d t. dset (prepared_id t) t d) [] ts, ps_pending st))
               (rfold (prepare_one env cp id_bytes channels for_execution)
                  ([], \<lparr>ps_input_cache = Some [], ps_pending = pending_writes\<rparr>) paths))"

subsection \<open>Errors and their handler tasks\<close>

fun value_text :: "pyval \<Rightarrow> string" where
  "value_text (VStr s) = s"
| "value_text (VInt i) = str_of_int i"
| "value_text VNone = ''None''"
| "value_text (VBool b) = (if b then ''True'' else ''False'')"
| "value_text v = ''<object>''"

definition coerce_pending_error :: "pyval \<Rightarrow> pyval" where
  "coerce_pending_error v = (case v of VExc k m \<Rightarrow> VExc k m | _ \<Rightarrow> VExc ''Exception'' (value_text v))"

definition read_errors_from_pending_writes :: "pending_write list \<Rightarrow> pyval list" where
  "read_errors_from_pending_writes pending =
     map (\<lambda>(_, _, v). coerce_pending_error v) (filter (\<lambda>(_, c, _). c = ERROR) pending)"

definition read_error_for_task_id :: "pending_write list \<Rightarrow> string \<Rightarrow> pyval option" where
  "read_error_for_task_id pending task_id =
     map_option (\<lambda>(_, _, v). coerce_pending_error v)
       (find (\<lambda>(t, c, _). t = task_id \<and> c = ERROR) (rev pending))"

definition read_error_source_node :: "pending_write list \<Rightarrow> string \<Rightarrow> string option" where
  "read_error_source_node pending task_id =
     map_option (\<lambda>(_, _, v). value_text v)
       (find (\<lambda>(t, c, _). t = task_id \<and> c = ERROR_SOURCE_NODE) (rev pending))"

definition prepare_node_error_handler_task ::
  "prep_env \<Rightarrow> checkpoint \<Rightarrow> exec_task \<Rightarrow> string \<Rightarrow> pyval \<Rightarrow> pending_write list \<Rightarrow>
   (exec_task option \<times> pending_write list) res" where
  "prepare_node_error_handler_task env cp failed_task handler_node_name failed_error pending =
     (case map_of (pe_processes env) handler_node_name of
        None \<Rightarrow> Inr (None, pending)
      | Some proc \<Rightarrow>
          (case node_runnable proc of
             None \<Rightarrow> Inr (None, pending)
           | Some proc_node \<Rightarrow>
               rbind (checkpoint_id_bytes cp) (\<lambda>id_bytes.
                 let ns = child_ns (parent_ns_of (pe_config env)) handler_node_name;
                     task_id = task_id_func (pe_hashes env) cp id_bytes
                       [ns, str_of_int (pe_step env), handler_node_name, PUSH, ''node_error_handler'',
                        et_id failed_task];
                     task_ns = ns @ '':'' @ task_id;
                     path = take 3 (et_path failed_task) @ [PStr ''node_error_handler'', PBool False];
                     metadata = task_metadata (pe_step env) handler_node_name [PUSH] path task_ns
                 in rbind (task_cache_key env (or_else (pn_cache_policy proc) (pe_cache_policy env))
                       (node_cache_ns env proc handler_node_name) (et_input failed_task))
                    (\<lambda>cache_key.
                       if rc_conf (pe_config env) = None then Inl (KeyError CONF)
                       else let (scratchpad, pending') = env_scratchpad env pending task_id task_ns
                       in Inr (Some
                         \<lparr>et_name = handler_node_name, et_input = et_input failed_task, et_proc = proc_node,
                          et_writes = [],
                          et_config = task_config env cp (node_additional proc metadata)
                            (child_callbacks env) handler_node_name task_id path [PUSH] task_ns scratchpad
                            ((conf_runtime (pe_config env))
                               \<lparr>rt_store := pe_store env, rt_previous := previous_value cp\<rparr>)
                            [(CONFIG_KEY_NODE_ERROR, CNodeError (et_name failed_task) failed_error)],
                          et_triggers = [PUSH],
                          et_retry_policy = or_list (pn_retry_policy proc) (pe_retry_policy env),
                          et_cache_key = cache_key, et_id = task_id, et_path = path,
                          et_writers = flat_writers (pn_writers proc),
                          et_subgraphs = pn_subgraphs proc, et_timeout = None\<rparr>, pending')))))"

subsection \<open>Untracked values in sends\<close>

definition sanitize_untracked_values_in_send :: "channels \<Rightarrow> pyval \<Rightarrow> pyval" where
  "sanitize_untracked_values_in_send channels packet =
     (case packet of
        VSend node (VDict arg) timeout \<Rightarrow>
          VSend node
            (VDict (filter (\<lambda>(k, v). case map_of channels k of None \<Rightarrow> True | Some c \<Rightarrow> \<not> is_untracked c) arg))
            timeout
      | _ \<Rightarrow> packet)"

subsection \<open>The input cache is transparent\<close>

text \<open>The value a node gets without a cache.\<close>

definition uncached_input :: "managed \<Rightarrow> channels \<Rightarrow> bool \<Rightarrow> scratchpad \<Rightarrow> pregel_node \<Rightarrow> pyval option res" where
  "uncached_input managed channels for_execution scratchpad proc =
     rmap fst (proc_input proc managed channels for_execution scratchpad None)"

definition cache_ok ::
  "managed \<Rightarrow> channels \<Rightarrow> bool \<Rightarrow> scratchpad \<Rightarrow> pregel_node set \<Rightarrow> (input_cache_key, pyval) dict \<Rightarrow> bool" where
  "cache_ok managed channels fe sp procs cache =
     (\<forall>p \<in> procs. \<forall>v. map_of cache (input_cache_key p) = Some v \<longrightarrow>
        uncached_input managed channels fe sp p = Inr (Some v))"

text \<open>
  Mappers with one \<open>id()\<close> are one function, and no node reads a single channel that another reads as a
  list of one.
\<close>

definition mappers_identified :: "pregel_node set \<Rightarrow> bool" where
  "mappers_identified procs =
     (\<forall>p \<in> procs. \<forall>q \<in> procs. \<forall>f g. pn_mapper p = Some f \<and> pn_mapper q = Some g \<and> mp_id f = mp_id g \<longrightarrow>
        mp_call f = mp_call g)"

definition one_shape :: "pregel_node set \<Rightarrow> bool" where
  "one_shape procs = (\<forall>p \<in> procs. \<forall>q \<in> procs. \<forall>k. pn_channels p = OneKey k \<longrightarrow> pn_channels q \<noteq> ManyKeys [k])"

lemma same_key_same_reads:
  assumes "mappers_identified procs" and "one_shape procs" and "p \<in> procs" and "q \<in> procs"
    and "input_cache_key p = input_cache_key q"
  shows "pn_channels p = pn_channels q \<and> map_option mp_call (pn_mapper p) = map_option mp_call (pn_mapper q)"
proof
  have "(case pn_channels p of ManyKeys ks \<Rightarrow> ks | OneKey k \<Rightarrow> [k]) = (case pn_channels q of ManyKeys ks \<Rightarrow> ks | OneKey k \<Rightarrow> [k])"
    using assms(5) by (simp add: input_cache_key_def)
  moreover have "pn_channels p = OneKey k \<Longrightarrow> pn_channels q \<noteq> ManyKeys [k]" "pn_channels q = OneKey k \<Longrightarrow> pn_channels p \<noteq> ManyKeys [k]" for k
    using assms(2-4) unfolding one_shape_def by blast+
  ultimately show "pn_channels p = pn_channels q"
    by (cases "pn_channels p"; cases "pn_channels q") simp_all
  have "map_option mp_id (pn_mapper p) = map_option mp_id (pn_mapper q)"
    using assms(5) by (simp add: input_cache_key_def)
  then show "map_option mp_call (pn_mapper p) = map_option mp_call (pn_mapper q)"
  proof (cases "pn_mapper p")
    case None
    with \<open>map_option mp_id (pn_mapper p) = _\<close> show ?thesis by simp
  next
    case (Some f)
    with \<open>map_option mp_id (pn_mapper p) = _\<close> obtain g where g: "pn_mapper q = Some g" "mp_id f = mp_id g"
      by (cases "pn_mapper q") auto
    have "mp_call f = mp_call g"
      using assms(1,3,4) Some g unfolding mappers_identified_def by blast
    with Some g show ?thesis by simp
  qed
qed

lemma gather_inputs_pad:
  "sp_step s = sp_step t \<Longrightarrow> sp_stop s = sp_stop t \<Longrightarrow>
   gather_inputs m chs s acc ks = gather_inputs m chs t acc ks"
proof (induction ks arbitrary: acc)
  case (Cons k ks)
  have "managed_get mg s = managed_get mg t" for mg
    using Cons.prems by (cases mg) simp_all
  with Cons show ?case by (auto split: option.splits simp: rbind_def split: sum.splits)
qed simp

text \<open>The pads of one step agree on what managed values read.\<close>

lemma proc_input_pad:
  assumes "sp_step s = sp_step t" and "sp_stop s = sp_stop t"
  shows "proc_input p m chs fe s c = proc_input p m chs fe t c"
proof -
  have raw: "raw_input m chs s k = raw_input m chs t k" for k
    using gather_inputs_pad [OF assms] by (simp add: raw_input_def split: ch_keys.splits)
  show ?thesis unfolding proc_input_def raw ..
qed

lemma uncached_input_same:
  assumes "pn_channels p = pn_channels q" and "map_option mp_call (pn_mapper p) = map_option mp_call (pn_mapper q)"
  shows "uncached_input m chs fe s p = uncached_input m chs fe s q"
  using assms
  by (cases "pn_mapper p"; cases "pn_mapper q")
    (auto simp: uncached_input_def proc_input_def rbind_def rmap_def split: sum.splits option.splits)

lemma proc_input_miss:
  assumes "map_of cache (input_cache_key p) = None"
  shows "proc_input p m chs fe s (Some cache) =
    rmap (\<lambda>r. (r, Some (case r of None \<Rightarrow> cache | Some v \<Rightarrow> dset (input_cache_key p) v cache)))
      (uncached_input m chs fe s p)"
  using assms
  by (auto simp: proc_input_def uncached_input_def rbind_def rmap_def split: sum.splits option.splits)

text \<open>
  Computing a node's input through the step's shared cache gives what computing it alone would,
  and keeps the cache right for all nodes, when mappers of one identity are one function and no node reads
  a single channel that another reads as a list of one; scratchpads of the same step do not matter.
\<close>

theorem input_cache_transparent:
  assumes "cache_ok managed channels fe s procs cache" and "mappers_identified procs" and "one_shape procs"
    and "p \<in> procs" and "sp_step s = sp_step t" and "sp_stop s = sp_stop t"
  shows "(\<forall>r c'. proc_input p managed channels fe t (Some cache) = Inr (r, c') \<longrightarrow>
            uncached_input managed channels fe s p = Inr r
          \<and> (\<exists>cache'. c' = Some cache' \<and> cache_ok managed channels fe s procs cache'))
    \<and> (\<forall>e. proc_input p managed channels fe t (Some cache) = Inl e \<longrightarrow>
            uncached_input managed channels fe s p = Inl e)"
proof (cases "map_of cache (input_cache_key p)")
  case None
  have t: "uncached_input managed channels fe t p = uncached_input managed channels fe s p"
    unfolding uncached_input_def using proc_input_pad [OF assms(5,6)] by simp
  have "cache_ok managed channels fe s procs (dset (input_cache_key p) v cache)"
    if "uncached_input managed channels fe s p = Inr (Some v)" for v
    unfolding cache_ok_def
  proof (intro ballI allI impI)
    fix q u
    assume q: "q \<in> procs" and u: "map_of (dset (input_cache_key p) v cache) (input_cache_key q) = Some u"
    show "uncached_input managed channels fe s q = Inr (Some u)"
    proof (cases "input_cache_key q = input_cache_key p")
      case True
      then have "uncached_input managed channels fe s q = uncached_input managed channels fe s p"
        using same_key_same_reads [OF assms(2,3) q assms(4)] by (intro uncached_input_same) blast+
      with True u that show ?thesis by simp
    next
      case False
      with u q assms(1) show ?thesis by (simp add: cache_ok_def)
    qed
  qed
  then show ?thesis
    unfolding proc_input_miss [OF None] t using assms(1)
    by (auto simp: rmap_def split: sum.splits option.splits)
next
  case (Some v)
  then have "proc_input p managed channels fe t (Some cache) = Inr (Some v, Some cache)"
    by (simp add: proc_input_def)
  with Some assms(1,4) show ?thesis by (auto simp: cache_ok_def)
qed

lemma input_cache_transparent_witness:
  "uncached_input [] [(''x'', example_lv ''x'' (Some (VInt 1)))] True (Scratchpad 0 9 0 0 0 [] None None)
     (\<lparr>pn_channels = OneKey ''x'', pn_triggers = [''x''], pn_mapper = None, pn_writers = [], pn_bound = None,
       pn_retry_policy = None, pn_cache_policy = None, pn_timeout = None, pn_tags = None, pn_metadata = None,
       pn_is_error_handler = False, pn_error_handler_node = None, pn_subgraphs = []\<rparr>) = Inr (Some (VInt 1))"
proof -
  let ?p = "\<lparr>pn_channels = OneKey ''x'', pn_triggers = [''x''], pn_mapper = None, pn_writers = [], pn_bound = None,
       pn_retry_policy = None, pn_cache_policy = None, pn_timeout = None, pn_tags = None, pn_metadata = None,
       pn_is_error_handler = False, pn_error_handler_node = None, pn_subgraphs = []\<rparr>"
  have "proc_input ?p [] [(''x'', example_lv ''x'' (Some (VInt 1)))] True (Scratchpad 0 9 1 2 3 [] None None) (Some [])
      = Inr (Some (VInt 1), Some [((None, [''x'']), VInt 1)])"
    by (simp add: proc_input_def raw_input_def input_cache_key_def LastValue_defs)
  then show ?thesis
    using input_cache_transparent [of "[]" "[(''x'', example_lv ''x'' (Some (VInt 1)))]" True
        "Scratchpad 0 9 0 0 0 [] None None" "{?p}" "[]" ?p "Scratchpad 0 9 1 2 3 [] None None"]
    by (simp add: cache_ok_def mappers_identified_def one_shape_def)
qed

text \<open>
  A node reading one channel and a node reading the list of just that channel, with the same
  mapper, share a cache key: whichever is prepared second gets the input of the first, the bare value
  instead of the dictionary.
\<close>

theorem input_cache_collision:
  assumes "pn_channels a = OneKey k" and "pn_channels b = ManyKeys [k]" and "pn_mapper a = None"
    and "pn_mapper b = None" and "map_of channels k = Some c" and "channel_get c = Inr v"
    and "proc_input a managed channels fe s (Some []) = Inr (r, cache)"
  shows "proc_input b managed channels fe s cache = Inr (Some v, cache)
    \<and> uncached_input managed channels fe s b = Inr (Some (VDict [(k, v)]))"
  using assms chan.available_iff [of c]
  by (auto simp: proc_input_def raw_input_def input_cache_key_def uncached_input_def)

lemma input_cache_collision_witness:
  "let n = \<lparr>pn_channels = OneKey ''x'', pn_triggers = [''x''], pn_mapper = None, pn_writers = [], pn_bound = None,
       pn_retry_policy = None, pn_cache_policy = None, pn_timeout = None, pn_tags = None, pn_metadata = None,
       pn_is_error_handler = False, pn_error_handler_node = None, pn_subgraphs = []\<rparr>
   in proc_input (n\<lparr>pn_channels := ManyKeys [''x'']\<rparr>) [] [(''x'', example_lv ''x'' (Some (VInt 1)))] True
        (Scratchpad 0 9 0 0 0 [] None None) (Some [((None, [''x'']), VInt 1)])
      = Inr (Some (VInt 1), Some [((None, [''x'']), VInt 1)])"
  unfolding Let_def
  by (rule input_cache_collision [where k = "''x''" and c = "example_lv ''x'' (Some (VInt 1))"
        and r = "Some (VInt 1)"
        and a = "\<lparr>pn_channels = OneKey ''x'', pn_triggers = [''x''], pn_mapper = None, pn_writers = [], pn_bound = None,
       pn_retry_policy = None, pn_cache_policy = None, pn_timeout = None, pn_tags = None, pn_metadata = None,
       pn_is_error_handler = False, pn_error_handler_node = None, pn_subgraphs = []\<rparr>", THEN conjunct1])
    (simp_all add: LastValue_defs proc_input_def raw_input_def input_cache_key_def)

subsection \<open>Looking only at the updated channels misses no node\<close>

definition consume_closes :: "channel \<Rightarrow> bool" where
  "consume_closes c = (fst (channel_consume c) \<longrightarrow> \<not> channel_is_available (snd (channel_consume c)))"

text \<open>Only a barrier that waits for nobody stays open when consumed.\<close>

lemma consume_closes_iff:
  "consume_closes c \<longleftrightarrow> (\<forall>b. c = Ch_NamedBarrierValue b \<longrightarrow> nb_names b = {} \<longrightarrow> nb_seen b \<noteq> {})"
  by (cases c) (auto simp: consume_closes_def BaseChannel_consume_def LastValueAfterFinish_defs
      NamedBarrierValue_consume_def NamedBarrierValue_is_available_def
      NamedBarrierValueAfterFinish_consume_def NamedBarrierValueAfterFinish_is_available_def)

definition stale_ok :: "channel \<Rightarrow> version option \<Rightarrow> chan_view \<Rightarrow> bool" where
  "stale_ok c v w = (\<exists>c1 v1 u. w = (Some c1, v1, u) \<and> (u \<or> (channel_is_available c1 \<longrightarrow> c1 = c \<and> v1 = v)))"

lemma stale_ok_note:
  "stale_ok c v (Some c1, v1, u) \<Longrightarrow> (\<not> b \<longrightarrow> c2 = c1) \<Longrightarrow> stale_ok c v (view_note nv (Some c1, v1, u) (b, c2))"
  by (auto simp: stale_ok_def view_note_def)

lemma stale_ok_write:
  assumes "stale_ok c v w" and "view_write nv vals w = Inr w'"
  shows "stale_ok c v w'"
proof -
  obtain c1 v1 u where w: "w = (Some c1, v1, u)" using assms(1) by (auto simp: stale_ok_def)
  then obtain b c2 where r: "channel_update c1 vals = Inr (b, c2)" and w': "w' = view_note nv w (b, c2)"
    using assms(2) by (auto simp: view_write_def rmap_Inr_iff)
  have "\<not> b \<longrightarrow> c2 = c1" using r chan.update_False by auto
  with assms(1) show ?thesis unfolding w' w by (rule stale_ok_note)
qed

lemma stale_ok_finish:
  assumes "stale_ok c v w"
  shows "stale_ok c v (view_finish nv w)"
proof -
  obtain c1 v1 u where w: "w = (Some c1, v1, u)" using assms by (auto simp: stale_ok_def)
  have "\<not> fst (channel_finish c1) \<longrightarrow> snd (channel_finish c1) = c1"
    using chan.finish_False [of c1 "snd (channel_finish c1)"] by (cases "channel_finish c1") auto
  with assms w show ?thesis
    using stale_ok_note [of c v c1 v1 u "fst (channel_finish c1)" "snd (channel_finish c1)" nv]
    by (simp add: view_finish_def)
qed

lemma view_apply_stale:
  assumes "view_apply nv rd bump_step fin vals (Some c, v, False) = Inr w" and "consume_closes c"
  shows "stale_ok c v w"
proof -
  let ?w0 = "if rd then view_consume nv (Some c, v, False) else (Some c, v, False)"
  obtain w1 w2 where w1: "(if vals = [] then Inr ?w0 else view_write nv vals ?w0) = Inr w1"
    and w2: "(if bump_step then view_step nv w1 else Inr w1) = Inr w2"
    and w: "w = (if fin then view_finish nv w2 else w2)"
    using assms(1) by (auto simp: view_apply_def Let_def rmap_Inr_iff rbind_Inr_iff)
  have "\<not> fst (channel_consume c) \<longrightarrow> snd (channel_consume c) = c"
    using chan.consume_False [of c "snd (channel_consume c)"] by (cases "channel_consume c") auto
  then have "stale_ok c v ?w0"
    using assms(2) by (auto simp: stale_ok_def view_consume_def consume_closes_def)
  then have ok1: "stale_ok c v w1"
    using w1 stale_ok_write [of c v ?w0 nv vals w1] by (simp split: if_splits)
  then obtain c1 v1 u1 where "w1 = (Some c1, v1, u1)" by (auto simp: stale_ok_def)
  then have "stale_ok c v w2"
    using w2 ok1 stale_ok_write [OF ok1, of nv "[]" w2] by (auto simp: view_step_def split: if_splits)
  then show ?thesis
    using stale_ok_finish w by auto
qed

lemma any_trigger_True:
  "any_trigger channels newer ts = Inr True \<Longrightarrow>
   \<exists>c \<in> set ts. \<exists>ch. map_of channels c = Some ch \<and> channel_is_available ch \<and> newer c"
  by (induction ts) (auto split: option.splits if_splits)

lemma any_trigger_False:
  "any_trigger channels newer ts = Inr False \<Longrightarrow> c \<in> set ts \<Longrightarrow> map_of channels c = Some ch \<Longrightarrow>
   \<not> (channel_is_available ch \<and> newer c)"
  by (induction ts) (auto split: option.splits if_splits)

text \<open>Whether a trigger is newer than what the node has seen.\<close>

definition newer_than :: "versions \<Rightarrow> versions option \<Rightarrow> version \<Rightarrow> string \<Rightarrow> bool" where
  "newer_than versions seen null c =
     (case seen of None \<Rightarrow> True | Some s \<Rightarrow> dgetd versions c null > dgetd s c null)"

lemma node_triggers_alt:
  "node_triggers chs vs seen null proc = any_trigger chs (newer_than vs seen null) (pn_triggers proc)"
  by (cases seen) (simp_all add: node_triggers_def newer_than_def [abs_def])

lemma see_tasks_keys:
  "map_of (foldl (see_task cur) seen ts) n = None \<longleftrightarrow> map_of seen n = None \<and> (\<forall>t \<in> set ts. tw_name t \<noteq> n)"
  by (induction ts arbitrary: seen) (auto simp: see_task_def)

lemma apply_writes_versions_seen:
  "apply_writes cp channels tasks nv t2n = Inr (cp', channels', upd) \<Longrightarrow>
   versions_seen cp' = foldl (see_task (channel_versions cp)) (versions_seen cp) (sort_tasks tasks)"
  by (auto simp: apply_writes_def Let_def rmap_Inr_iff case_prod_beta)

text \<open>
  A trigger with an old version is not newer after the step, if it was not before or the node's
  task has just seen it.
\<close>

lemma newer_after_step:
  assumes run: "apply_writes cp channels tasks nv t2n = Inr (cp', channels', upd)"
    and same: "map_of (channel_versions cp') c = map_of (channel_versions cp) c"
    and newer: "newer_than (channel_versions cp') (map_of (versions_seen cp') n) (IntV 0) c"
    and seen_ok: "\<forall>vs \<in> snd ` set (versions_seen cp). \<forall>v \<in> snd ` set vs. is_int_version v"
  shows "newer_than (channel_versions cp) (map_of (versions_seen cp) n) (IntV 0) c
    \<and> (\<forall>t \<in> set tasks. tw_name t = n \<longrightarrow> c \<notin> set (tw_triggers t))"
proof (cases "map_of (versions_seen cp') n")
  case None
  then show ?thesis
    using see_tasks_keys [of "channel_versions cp" "versions_seen cp" "sort_tasks tasks" n]
    unfolding apply_writes_versions_seen [OF run] by (auto simp: newer_than_def)
next
  case (Some s')
  let ?seen = "dgetd (versions_seen cp) n []"
  have s': "map_of s' c =
     (if (\<exists>t \<in> set tasks. n = tw_name t \<and> c \<in> set (tw_triggers t)) \<and> dmem c (channel_versions cp)
      then map_of (channel_versions cp) c else map_of ?seen c)"
    using apply_writes_versions_seen [OF run] see_tasks_lookup [of "channel_versions cp" "versions_seen cp" "sort_tasks tasks" n c] Some
    by (simp add: dgetd_def)
  have gt: "dgetd s' c (IntV 0) < dgetd (channel_versions cp) c (IntV 0)"
    using newer same Some by (simp add: newer_than_def dgetd_def)
  have old: "\<not> dmem c (channel_versions cp) \<Longrightarrow> False"
  proof -
    assume no: "\<not> dmem c (channel_versions cp)"
    then have "map_of s' c = map_of ?seen c" and "dgetd (channel_versions cp) c (IntV 0) = IntV 0"
      using s' by (simp_all add: dmem_def dgetd_def)
    moreover have "is_int_version v" if "map_of ?seen c = Some v" for v
    proof -
      from that obtain vs where "map_of (versions_seen cp) n = Some vs" and "map_of vs c = Some v"
        by (auto simp: dgetd_def split: option.splits)
      then show ?thesis
        using seen_ok by (metis image_eqI map_of_SomeD snd_conv)
    qed
    ultimately show False
      using gt by (cases "map_of ?seen c"; cases "the (map_of ?seen c)") (auto simp: dgetd_def)
  qed
  have notran: "\<forall>t \<in> set tasks. tw_name t = n \<longrightarrow> c \<notin> set (tw_triggers t)"
  proof (intro ballI impI notI)
    fix t
    assume "t \<in> set tasks" and "tw_name t = n" and "c \<in> set (tw_triggers t)"
    then have "map_of s' c = map_of (channel_versions cp) c"
      using s' old by auto
    with gt show False by (simp add: dgetd_def)
  qed
  then have "dgetd s' c (IntV 0) = dgetd ?seen c (IntV 0)"
    using s' by (auto simp: dgetd_def)
  with gt notran show ?thesis
    by (auto simp: newer_than_def dgetd_def split: option.splits)
qed



end
