(* ===== verification/Pregel_Loop.thy ===== *)
theory Pregel_Loop
  imports Pregel_Prepare
begin

section \<open>The Pregel loop\<close>

text \<open>
  \<open>PregelLoop\<close> and the sync \<open>__enter__\<close> of \<open>pregel/_loop.py\<close>: one definition per method over a
  record of the loop's attributes (\<open>loop\<close>) and a record of what is fixed when the loop is made
  (\<open>loop_env\<close>). Calls to the saver go through a background executor; here they are appended, in the
  order they are submitted, to \<open>lp_saver_calls\<close>. New checkpoint ids and timestamps are drawn from
  \<open>le_new_id\<close> and \<open>le_now\<close> by a counter. Streaming, lifecycle events and futures are left out:
  nothing else reads them. A method that may raise returns the loop as it is then, with the result.
\<close>

subsection \<open>State\<close>

datatype durability = Sync | Async | Exit

datatype loop_status =
  St_input | St_pending | St_done | St_draining | St_interrupt_before | St_interrupt_after | St_out_of_steps

datatype loop_input = In_None | In_Value pyval | In_Command command

record ckpt_meta =
  cm_source :: "string option"
  cm_step :: int
  cm_parents :: "(string, string) dict"
  cm_run_id :: "pyval option"
  cm_counters :: "(string, int \<times> int) dict"

datatype saver_call =
    PutWrites run_config writes string string
  | PutCheckpoint run_config checkpoint ckpt_meta versions

record loop_env =
  le_hashes :: hashes
  le_identifier :: "pregel_node \<Rightarrow> string option"
  le_view :: "pyval \<Rightarrow> obj_view"
  le_new_id :: "nat \<Rightarrow> string"
  le_now :: "nat \<Rightarrow> string"
  le_store :: "string option"
  le_checkpointer :: "string option"
  le_manager :: "string option"
  le_retry_policy :: "string list"
  le_cache_policy :: "cache_policy option"
  le_nodes :: "(string, pregel_node) dict"
  le_specs :: "(string, chan_or_managed) dict"
  le_input_keys :: ch_keys
  le_output_keys :: ch_keys
  le_trigger_to_nodes :: "(string, string list) dict"
  le_durability :: durability
  le_interrupt_after :: "string list option"
  le_interrupt_before :: "string list option"
  le_next_version :: "version option \<Rightarrow> version"

record loop =
  lp_input :: loop_input
  lp_config :: run_config
  lp_checkpoint_config :: run_config
  lp_is_nested :: bool
  lp_is_replaying :: bool
  lp_step :: int
  lp_stop :: int
  lp_status :: loop_status
  lp_checkpoint :: checkpoint
  lp_checkpoint_id_saved :: string
  lp_metadata :: ckpt_meta
  lp_channels :: channels
  lp_managed :: managed
  lp_pending :: "pending_write list"
  lp_tasks :: "(string, exec_task) dict option"
  lp_updated :: "string set option"
  lp_previous_versions :: versions
  lp_prev_checkpoint_config :: "run_config option"
  lp_initial_checkpoint_config :: run_config
  lp_has_persisted_parent :: bool
  lp_delta_overwrite :: "string set"
  lp_exit_delta :: "(int \<times> string \<times> string \<times> pyval) list option"
  lp_clock :: nat
  lp_saver_calls :: "saver_call list"

definition the_tasks :: "loop \<Rightarrow> (string, exec_task) dict" where
  "the_tasks l = (case lp_tasks l of None \<Rightarrow> [] | Some ts \<Rightarrow> ts)"

definition spec_of :: "loop_env \<Rightarrow> string \<Rightarrow> channel option" where
  "spec_of env c = (case map_of (le_specs env) c of Some (SpecChannel ch) \<Rightarrow> Some ch | _ \<Rightarrow> None)"

definition untracked_spec :: "loop_env \<Rightarrow> string \<Rightarrow> bool" where
  "untracked_spec env c = (case spec_of env c of None \<Rightarrow> False | Some ch \<Rightarrow> is_untracked ch)"

definition delta_spec :: "loop_env \<Rightarrow> string \<Rightarrow> bool" where
  "delta_spec env c = (case spec_of env c of None \<Rightarrow> False | Some ch \<Rightarrow> is_delta ch)"

definition has_untracked :: "channels \<Rightarrow> bool" where
  "has_untracked chs = (\<exists>(k, c) \<in> set chs. is_untracked c)"

text \<open>\<open>self.config[CONF].get(CONFIG_KEY_CHECKPOINT_NS, "")\<close> and a truthy checkpoint id.\<close>

definition conf_ns :: "run_config \<Rightarrow> confval" where
  "conf_ns c = dgetd (conf_of c) CONFIG_KEY_CHECKPOINT_NS (CStr [])"

definition confval_true :: "confval \<Rightarrow> bool" where
  "confval_true v = (case v of CNone \<Rightarrow> False | CStr s \<Rightarrow> s \<noteq> [] | CBool b \<Rightarrow> b | _ \<Rightarrow> True)"

definition log_call :: "saver_call \<Rightarrow> loop \<Rightarrow> loop" where
  "log_call c l = l\<lparr>lp_saver_calls := lp_saver_calls l @ [c]\<rparr>"

definition writes_config :: "loop \<Rightarrow> run_config" where
  "writes_config l =
     patch_configurable (Some (lp_checkpoint_config l))
       [(CONFIG_KEY_CHECKPOINT_NS, conf_ns (lp_config l)),
        (CONFIG_KEY_CHECKPOINT_ID, CStr (cp_id (lp_checkpoint l)))]"

definition task_path_arg :: "loop \<Rightarrow> string \<Rightarrow> string" where
  "task_path_arg l task_id =
     (case map_of (the_tasks l) task_id of None \<Rightarrow> [] | Some t \<Rightarrow> task_path_str (PTup (et_path t)))"

subsection \<open>Saving writes\<close>

definition special_write :: "string \<Rightarrow> bool" where
  "special_write c = dmem c WRITES_IDX_MAP"

definition dedupe_special :: "writes \<Rightarrow> writes" where
  "dedupe_special ws = (if \<forall>w \<in> set ws. special_write (fst w) then dupd [] ws else ws)"

definition drop_untracked :: "loop_env \<Rightarrow> channels \<Rightarrow> writes \<Rightarrow> writes" where
  "drop_untracked env chs ws =
     (if has_untracked chs
      then map (\<lambda>(c, v). (c, if c = TASKS then sanitize_untracked_values_in_send chs v else v))
             (filter (\<lambda>(c, v). \<not> untracked_spec env c) ws)
      else ws)"

definition writes_of :: "string \<Rightarrow> pending_write list \<Rightarrow> writes" where
  "writes_of tid pending = map snd (filter (\<lambda>w. fst w = tid) pending)"

definition put_writes :: "loop_env \<Rightarrow> string \<Rightarrow> writes \<Rightarrow> loop \<Rightarrow> loop" where
  "put_writes env task_id writes l =
     (if writes = [] then l
      else
        let writes = dedupe_special writes;
            pending = (if task_id = NULL_TASK_ID
                       then filter (\<lambda>w. fst w \<noteq> task_id \<or> \<not> special_write (fst (snd w))) (lp_pending l)
                       else filter (\<lambda>w. fst w \<noteq> task_id) (lp_pending l));
            to_save = (if task_id = NULL_TASK_ID then writes_of task_id pending @ writes else writes);
            to_save = drop_untracked env (lp_channels l) to_save;
            l = l\<lparr>lp_pending := pending @ map (\<lambda>(c, v). (task_id, c, v)) writes\<rparr>
        in if le_durability env \<noteq> Exit \<and> le_checkpointer env \<noteq> None
           then log_call (PutWrites (writes_config l) to_save task_id (task_path_arg l task_id)) l
           else l)"

text \<open>Grouping by task keeps the order in which the tasks first appear.\<close>

definition group_by_task :: "pending_write list \<Rightarrow> (string, writes) dict" where
  "group_by_task pending =
     foldl (\<lambda>d (tid, c, v). dset tid (dgetd d tid [] @ [(c, v)]) d) [] pending"

definition put_pending_writes :: "loop_env \<Rightarrow> loop \<Rightarrow> loop" where
  "put_pending_writes env l =
     (if le_checkpointer env = None \<or> lp_pending l = [] then l
      else foldl (\<lambda>l (tid, ws). log_call (PutWrites (writes_config l) ws tid (task_path_arg l tid)) l)
             l (group_by_task (lp_pending l)))"

subsection \<open>Restoring the writes of tasks that already ran\<close>

definition control_write :: "string \<Rightarrow> bool" where
  "control_write c = (c \<in> {ERROR, ERROR_SOURCE_NODE, INTERRUPT, RESUME})"

definition reapply_write :: "(string, exec_task) dict \<Rightarrow> pending_write \<Rightarrow> (string, exec_task) dict" where
  "reapply_write tasks w =
     (if control_write (fst (snd w)) then tasks
      else case map_of tasks (fst w) of
             None \<Rightarrow> tasks
           | Some t \<Rightarrow> dset (fst w) (t\<lparr>et_writes := et_writes t @ [snd w]\<rparr>) tasks)"

definition reapply_writes_to_succeeded_nodes ::
  "pending_write list \<Rightarrow> (string, exec_task) dict \<Rightarrow> (string, exec_task) dict" where
  "reapply_writes_to_succeeded_nodes pending tasks = foldl reapply_write tasks pending"

definition prep_env_of :: "loop_env \<Rightarrow> loop \<Rightarrow> run_config \<Rightarrow> prep_env" where
  "prep_env_of env l config =
     \<lparr>pe_hashes = le_hashes env, pe_processes = le_nodes env, pe_identifier = le_identifier env,
      pe_managed = lp_managed l, pe_config = config, pe_step = lp_step l, pe_stop = lp_stop l,
      pe_store = le_store env, pe_checkpointer = le_checkpointer env, pe_manager = le_manager env,
      pe_cache_policy = le_cache_policy env, pe_retry_policy = le_retry_policy env\<rparr>"

definition failed_tasks :: "pending_write list \<Rightarrow> (string, pyval) dict" where
  "failed_tasks pending =
     foldl (\<lambda>d (tid, c, v).
        if c = ERROR_SOURCE_NODE
        then (case find (\<lambda>w. fst w = tid \<and> fst (snd w) = ERROR) pending of
                None \<Rightarrow> d
              | Some w \<Rightarrow> if snd (snd w) \<noteq> VNone then dset tid (snd (snd w)) d else d)
        else d) [] pending"

definition resume_error_handler :: "loop_env \<Rightarrow> loop \<Rightarrow> string \<times> pyval \<Rightarrow> loop res" where
  "resume_error_handler env l te =
     (let (task_id, error) = te in
      case map_of (the_tasks l) task_id of
        None \<Rightarrow> Inr l
      | Some task \<Rightarrow>
          (case map_of (le_nodes env) (et_name task) of
             None \<Rightarrow> Inl (KeyError (et_name task))
           | Some node \<Rightarrow>
               (case pn_error_handler_node node of
                  None \<Rightarrow> Inr l
                | Some h \<Rightarrow>
                    if h = [] then Inr l
                    else
                      let task = task\<lparr>et_writes := et_writes task @ [(ERROR, error)]\<rparr>;
                          tasks = dset task_id task (the_tasks l)
                      in rmap (\<lambda>(handler, pending).
                           l\<lparr>lp_tasks := Some (case handler of None \<Rightarrow> tasks | Some t \<Rightarrow> dset (et_id t) t tasks),
                             lp_pending := pending\<rparr>)
                           (prepare_node_error_handler_task (prep_env_of env l (et_config task))
                              (lp_checkpoint l) task h error (lp_pending l)))))"

definition resume_error_handlers_if_applicable :: "loop_env \<Rightarrow> loop \<Rightarrow> loop res" where
  "resume_error_handlers_if_applicable env l =
     rfold (resume_error_handler env) l (failed_tasks (lp_pending l))"

definition accept_push ::
  "loop_env \<Rightarrow> exec_task \<Rightarrow> int \<Rightarrow> call \<Rightarrow> loop \<Rightarrow> (exec_task option \<times> loop) res" where
  "accept_push env task write_idx c l =
     rbind (checkpoint_id_bytes (lp_checkpoint l))
       (\<lambda>id_bytes.
          rmap (\<lambda>(pushed, st).
             let l = l\<lparr>lp_pending := ps_pending st\<rparr> in
             case pushed of
               Some (PreparedExec t) \<Rightarrow>
                 (let t = (if lp_is_replaying l then t
                           else the (map_of (reapply_writes_to_succeeded_nodes (lp_pending l) [(et_id t, t)]) (et_id t)))
                  in (Some t, l\<lparr>lp_tasks := Some (dset (et_id t) t (the_tasks l))\<rparr>))
             | _ \<Rightarrow> (None, l))
            (prepare_single_task (prep_env_of env l (et_config task)) (lp_checkpoint l) id_bytes
               (lp_channels l) True (PathCall (et_path task) write_idx (et_id task) c) None
               \<lparr>ps_input_cache = None, ps_pending = lp_pending l\<rparr>))"

subsection \<open>Saving checkpoints\<close>

text \<open>The counters of each delta channel: its updates and the supersteps since its snapshot.\<close>

definition count_step ::
  "(string, int \<times> int) dict \<Rightarrow> string set \<Rightarrow> channels \<Rightarrow> (string, int \<times> int) dict" where
  "count_step prev updated chs =
     foldl (\<lambda>d (k, ch).
        if is_delta ch
        then (let (u, s) = dgetd prev k (0, 0) in dset k (if k \<in> updated then u + 1 else u, s + 1) d)
        else d) [] chs"

definition reset_counters :: "string set \<Rightarrow> (string, int \<times> int) dict \<Rightarrow> (string, int \<times> int) dict" where
  "reset_counters snap counters =
     filter (\<lambda>(k, v). v \<noteq> (0, 0)) (map (\<lambda>(k, v). (k, if k \<in> snap then (0, 0) else v)) counters)"

definition sanitize_tasks_channel :: "channels \<Rightarrow> checkpoint \<Rightarrow> checkpoint" where
  "sanitize_tasks_channel chs cp =
     (case map_of (channel_values cp) TASKS of
        None \<Rightarrow> cp
      | Some v \<Rightarrow>
          (if has_untracked chs
           then (case seq_items v of
                   None \<Rightarrow> cp
                 | Some vs \<Rightarrow>
                     cp\<lparr>channel_values :=
                          dset TASKS (VList (map (sanitize_untracked_values_in_send chs) vs)) (channel_values cp)\<rparr>)
           else cp))"

definition put_checkpoint :: "loop_env \<Rightarrow> string option \<Rightarrow> loop \<Rightarrow> loop res" where
  "put_checkpoint env source l =
     (let exiting = (source = None) in
      if exiting \<and> cp_id (lp_checkpoint l) = lp_checkpoint_id_saved l then Inr l
      else
        let counters = (if exiting then cm_counters (lp_metadata l)
                        else count_step (cm_counters (lp_metadata l))
                               (case lp_updated l of None \<Rightarrow> {} | Some u \<Rightarrow> u) (lp_channels l));
            meta = (if exiting then lp_metadata l
                    else \<lparr>cm_source = source, cm_step = lp_step l,
                          cm_parents = conf_map (lp_config l) CONFIG_KEY_CHECKPOINT_MAP,
                          cm_run_id = None, cm_counters = []\<rparr>);
            do_checkpoint = (le_checkpointer env \<noteq> None \<and> (exiting \<or> le_durability env \<noteq> Exit));
            snap = (if do_checkpoint
                    then delta_channels_to_snapshot (lp_channels l) counters \<union> lp_delta_overwrite l else {})
        in rmap (\<lambda>cp.
             let meta = meta\<lparr>cm_counters := reset_counters snap counters\<rparr>;
                 cp = sanitize_tasks_channel (lp_channels l) cp;
                 l = l\<lparr>lp_checkpoint := cp, lp_metadata := meta, lp_clock := Suc (lp_clock l),
                       lp_delta_overwrite := (if do_checkpoint then lp_delta_overwrite l - snap
                                              else lp_delta_overwrite l)\<rparr>;
                 l = (if do_checkpoint
                      then
                        let prev = (if confval_true (dgetd (conf_of (lp_checkpoint_config l)) CONFIG_KEY_CHECKPOINT_ID CNone)
                                    then Some (lp_checkpoint_config l) else None);
                            config = patch_configurable (Some (lp_checkpoint_config l))
                                       [(CONFIG_KEY_CHECKPOINT_NS, conf_ns (lp_config l))];
                            new_versions = get_new_channel_versions (lp_previous_versions l) (channel_versions cp);
                            l = log_call (PutCheckpoint config cp meta new_versions) l
                        in l\<lparr>lp_prev_checkpoint_config := prev,
                             lp_previous_versions := channel_versions cp,
                             lp_checkpoint_config := patch_configurable (Some config)
                               [(CONFIG_KEY_CHECKPOINT_ID, CStr (cp_id cp))]\<rparr>
                      else l)
             in if exiting then l else l\<lparr>lp_step := lp_step l + 1\<rparr>)
            (create_checkpoint (le_new_id env (lp_clock l)) (le_now env (lp_clock l)) (lp_checkpoint l)
               (if do_checkpoint then Some (lp_channels l) else None)
               (if exiting then Some (cp_id (lp_checkpoint l)) else None)
               (lp_updated l) (if do_checkpoint then Some (le_next_version env) else None) snap))"

subsection \<open>One iteration\<close>

definition tick :: "loop_env \<Rightarrow> bool \<Rightarrow> loop \<Rightarrow> loop \<times> bool res" where
  "tick env drain_requested l =
     (if lp_step l > lp_stop l then (l\<lparr>lp_status := St_out_of_steps\<rparr>, Inr False)
      else
        case prepare_next_tasks (prep_env_of env l (lp_config l)) (lp_checkpoint l) (lp_pending l)
               (lp_channels l) True (Some (le_trigger_to_nodes env)) (lp_updated l) of
          Inl e \<Rightarrow> (l, Inl e)
        | Inr (prepared, pending) \<Rightarrow>
            let tasks = concat (map (\<lambda>(k, p). case p of PreparedExec t \<Rightarrow> [(k, t)] | PreparedTask t \<Rightarrow> []) prepared);
                l = l\<lparr>lp_tasks := Some tasks, lp_pending := pending\<rparr>
            in if tasks = [] then (l\<lparr>lp_status := St_done\<rparr>, Inr False)
               else if drain_requested then (l\<lparr>lp_status := St_draining\<rparr>, Inr False)
               else
                 case (if \<not> lp_is_replaying l \<and> lp_pending l \<noteq> []
                       then resume_error_handlers_if_applicable env
                              (l\<lparr>lp_tasks := Some (reapply_writes_to_succeeded_nodes (lp_pending l) tasks)\<rparr>)
                       else Inr l) of
                   Inl e \<Rightarrow> (l, Inl e)
                 | Inr l \<Rightarrow>
                     (if le_interrupt_before env \<noteq> Some []
                       \<and> should_interrupt (lp_checkpoint l) (le_interrupt_before env) (map snd (the_tasks l)) \<noteq> []
                      then (l\<lparr>lp_status := St_interrupt_before\<rparr>, Inl (GraphInterrupt []))
                      else (l, Inr True)))"

definition overwritten_deltas :: "loop_env \<Rightarrow> writes \<Rightarrow> string set" where
  "overwritten_deltas env ws = {c \<in> fst ` set ws. delta_spec env c \<and> (\<exists>v. (c, v) \<in> set ws \<and> is_overwrite v)}"

definition pop_resuming :: "run_config \<Rightarrow> run_config" where
  "pop_resuming c = c\<lparr>rc_conf := map_option (ddel CONFIG_KEY_RESUMING) (rc_conf c)\<rparr>"

definition after_tick :: "loop_env \<Rightarrow> loop \<Rightarrow> loop \<times> unit res" where
  "after_tick env l =
     (let tasks = map snd (the_tasks l);
          writes = concat (map et_writes tasks);
          l = l\<lparr>lp_delta_overwrite := lp_delta_overwrite l \<union> overwritten_deltas env writes\<rparr>
      in case apply_writes (lp_checkpoint l) (lp_channels l) (map writes_of_task tasks)
                (Some (le_next_version env)) (le_trigger_to_nodes env) of
           Inl e \<Rightarrow> (l, Inl e)
         | Inr (cp, chs, updated) \<Rightarrow>
             let l = l\<lparr>lp_checkpoint := cp, lp_channels := chs, lp_updated := Some updated,
                       lp_exit_delta := map_option (\<lambda>ws. ws @ map (\<lambda>(tid, c, v). (lp_step l, tid, c, v))
                          (filter (\<lambda>(tid, c, v). delta_spec env c) (lp_pending l))) (lp_exit_delta l),
                       lp_pending := [], lp_is_replaying := False\<rparr>
             in case put_checkpoint env (Some ''loop'') l of
                  Inl e \<Rightarrow> (l, Inl e)
                | Inr l \<Rightarrow>
                    (if le_interrupt_after env \<noteq> Some []
                      \<and> should_interrupt (lp_checkpoint l) (le_interrupt_after env) tasks \<noteq> []
                     then (l\<lparr>lp_status := St_interrupt_after\<rparr>, Inl (GraphInterrupt []))
                     else (l\<lparr>lp_config := pop_resuming (lp_config l)\<rparr>, Inr ())))"

subsection \<open>Pending interrupts\<close>

definition interrupt_id :: "pyval \<Rightarrow> string option" where
  "interrupt_id v = (case seq_items v of
      Some (VInterrupt x i # _) \<Rightarrow> Some i | _ \<Rightarrow> None)"

definition interrupts_of :: "pending_write list \<Rightarrow> (string, string option) dict" where
  "interrupts_of pending =
     foldl (\<lambda>d (tid, c, v). if c = INTERRUPT then dset tid (interrupt_id v) d else d) [] pending"

definition resumed_tasks :: "pending_write list \<Rightarrow> string set" where
  "resumed_tasks pending = {tid. \<exists>(t, c, v) \<in> set pending. t = tid \<and> c \<noteq> INTERRUPT \<and> c = RESUME}"

definition pending_interrupts :: "pending_write list \<Rightarrow> string option set" where
  "pending_interrupts pending =
     (let ints = interrupts_of pending;
          resumed = {i. \<exists>(t, j) \<in> set ints. t \<in> resumed_tasks pending \<and> i = j}
      in snd ` set ints - resumed)"

subsection \<open>The first iteration: input, resume, replay\<close>

definition is_xxh3_128_hexdigest :: "string \<Rightarrow> bool" where
  "is_xxh3_128_hexdigest s =
     (length s = 32 \<and> (\<forall>c \<in> set s. let n = of_char c :: nat in 48 \<le> n \<and> n < 58 \<or> 97 \<le> n \<and> n < 103))"

definition input_chunk :: "loop_input \<Rightarrow> pyval" where
  "input_chunk i = (case i of In_None \<Rightarrow> VNone | In_Value v \<Rightarrow> v | In_Command c \<Rightarrow> VObj ''Command'')"

definition is_resuming :: "loop \<Rightarrow> bool" where
  "is_resuming l =
     (channel_versions (lp_checkpoint l) \<noteq> []
      \<and> (case map_of (conf_of (lp_config l)) CONFIG_KEY_RESUMING of
           Some v \<Rightarrow> confval_true v
         | None \<Rightarrow>
             (case lp_input l of
                In_None \<Rightarrow> True
              | In_Command c \<Rightarrow> True
              | In_Value v \<Rightarrow>
                  \<not> lp_is_nested l
                  \<and> (case cm_run_id (lp_metadata l) of None \<Rightarrow> False
                     | Some r \<Rightarrow> dgetd (case rc_metadata (lp_config l) of None \<Rightarrow> [] | Some m \<Rightarrow> m) ''run_id'' VNone = r))))"

definition resume_of :: "loop_input \<Rightarrow> pyval" where
  "resume_of i = (case i of In_Command c \<Rightarrow> cmd_resume c | _ \<Rightarrow> VNone)"

definition is_time_traveling :: "loop \<Rightarrow> bool" where
  "is_time_traveling l =
     (lp_is_replaying l
      \<and> (lp_is_nested l
           \<and> (case conf_ns (lp_config l) of CStr ns \<Rightarrow> dmem ns (conf_map (lp_config l) CONFIG_KEY_CHECKPOINT_MAP)
              | _ \<Rightarrow> False)
         \<or> \<not> (resume_of (lp_input l) \<noteq> VNone
              \<or> confval_true (dgetd (conf_of (lp_config l)) CONFIG_KEY_RESUMING (CBool False)))))"

text \<open>
  Mapping a command to writes. \<open>resume_is_map\<close> is assigned only when there is a resume value; the
  code reads it again when a write is to \<open>RESUME\<close> and when there are no writes, which raises an
  \<open>UnboundLocalError\<close> when there was none.
\<close>

definition resume_map_of :: "pyval \<Rightarrow> (string, pyval) dict option" where
  "resume_map_of resume =
     (case resume of
        VDict d \<Rightarrow> if \<forall>(k, v) \<in> set d. is_xxh3_128_hexdigest k then Some d else None
      | _ \<Rightarrow> None)"

definition group_command_writes :: "pending_write list \<Rightarrow> (string, writes) dict" where
  "group_command_writes ws = group_by_task ws"

definition first_command :: "loop_env \<Rightarrow> command \<Rightarrow> loop \<Rightarrow> loop res" where
  "first_command env cmd l =
     (let resume = cmd_resume cmd; rmap_d = resume_map_of resume in
      if resume \<noteq> VNone \<and> le_checkpointer env = None
      then Inl (RuntimeError ''Cannot use Command(resume=...) without checkpointer'')
      else if resume \<noteq> VNone \<and> rmap_d = None \<and> card (pending_interrupts (lp_pending l)) > 1
      then Inl (RuntimeError ''multiple pending interrupts'')
      else
        let l = (case rmap_d of
                   None \<Rightarrow> l
                 | Some d \<Rightarrow> l\<lparr>lp_config := patch_configurable (Some (lp_config l)) [(CONFIG_KEY_RESUME_MAP, CResumeMap d)]\<rparr>)
        in rbind (map_command (le_view env) cmd) (\<lambda>ws.
             if resume = VNone \<and> (ws = [] \<or> (\<exists>w \<in> set ws. fst (snd w) = RESUME))
             then Inl (UserError ''UnboundLocalError'')
             else
               let ws = (if rmap_d = None then ws else filter (\<lambda>w. fst (snd w) \<noteq> RESUME) ws)
               in if ws = [] \<and> rmap_d = None then Inl (EmptyInputError ''Received empty Command input'')
                  else Inr (foldl (\<lambda>l (tid, tws). put_writes env tid tws l) l (group_command_writes ws))))"

definition null_task :: "writes \<Rightarrow> task_writes" where
  "null_task ws = \<lparr>tw_path = [], tw_name = INPUT, tw_writes = ws, tw_triggers = []\<rparr>"

definition apply_null_writes :: "loop_env \<Rightarrow> string set option \<Rightarrow> loop \<Rightarrow> (loop \<times> string set option) res" where
  "apply_null_writes env updated l =
     (let nulls = writes_of NULL_TASK_ID (lp_pending l) in
      if nulls = [] then Inr (l, updated)
      else rmap (\<lambda>(cp, chs, upd).
             (l\<lparr>lp_checkpoint := cp, lp_channels := chs\<rparr>, map_option (\<lambda>u. u \<union> upd) updated))
            (apply_writes (lp_checkpoint l) (lp_channels l) [null_task nulls]
               (Some (le_next_version env)) (le_trigger_to_nodes env)))"

definition mark_interrupts_seen :: "channels \<Rightarrow> checkpoint \<Rightarrow> checkpoint" where
  "mark_interrupts_seen chs cp =
     cp\<lparr>versions_seen :=
         dset INTERRUPT
           (foldl (\<lambda>d k. case map_of (channel_versions cp) k of None \<Rightarrow> d | Some v \<Rightarrow> dset k v d)
              (dgetd (versions_seen cp) INTERRUPT []) (dkeys chs))
           (versions_seen cp)\<rparr>"

definition first_input :: "loop_env \<Rightarrow> string set option \<Rightarrow> writes \<Rightarrow> loop \<Rightarrow> (loop \<times> string set option) res" where
  "first_input env updated input_writes l =
     rbind (prepare_next_tasks
              ((prep_env_of env l (lp_config l))
                 \<lparr>pe_store := None, pe_checkpointer := None, pe_manager := None,
                  pe_cache_policy := None, pe_retry_policy := []\<rparr>)
              (lp_checkpoint l) (lp_pending l) (lp_channels l) True None updated)
       (\<lambda>(discard, pending).
          let l = l\<lparr>lp_pending := pending,
                    lp_delta_overwrite := lp_delta_overwrite l \<union> overwritten_deltas env input_writes\<rparr>;
              discard_tasks = concat (map (\<lambda>(k, p). case p of PreparedExec t \<Rightarrow> [writes_of_task t]
                                | PreparedTask t \<Rightarrow> []) discard)
          in rbind (apply_writes (lp_checkpoint l) (lp_channels l) (discard_tasks @ [null_task input_writes])
                      (Some (le_next_version env)) (le_trigger_to_nodes env))
               (\<lambda>(cp, chs, upd).
                  let delta_input = filter (\<lambda>(c, v). delta_spec env c) input_writes;
                      l = l\<lparr>lp_checkpoint := cp, lp_channels := chs,
                            lp_exit_delta := map_option (\<lambda>ws. ws @
                              map (\<lambda>(c, v). (lp_step l, NULL_TASK_ID, c, v)) delta_input) (lp_exit_delta l)\<rparr>;
                      l = (if le_durability env \<noteq> Exit then put_writes env NULL_TASK_ID delta_input l else l)
                  in rmap (\<lambda>l. (l, Some upd)) (put_checkpoint env (Some ''input'') (l\<lparr>lp_updated := Some upd\<rparr>))))"

definition first_resume :: "loop_env \<Rightarrow> bool \<Rightarrow> loop \<Rightarrow> loop res" where
  "first_resume env time_traveling l =
     (let l = l\<lparr>lp_checkpoint := mark_interrupts_seen (lp_channels l) (lp_checkpoint l)\<rparr>
      in if time_traveling \<and> cm_source (lp_metadata l) \<notin> {Some ''update'', Some ''fork''}
         then put_checkpoint env (Some ''fork'')
                (l\<lparr>lp_pending := filter (\<lambda>w. fst (snd w) \<noteq> INTERRUPT) (lp_pending l)\<rparr>)
         else Inr l)"

definition replay_flag :: "bool \<Rightarrow> loop \<Rightarrow> confval" where
  "replay_flag time_traveling l =
     (if \<not> time_traveling then CNone
      else case (cm_source (lp_metadata l) \<in> {Some ''update'', Some ''fork''}, lp_prev_checkpoint_config l) of
             (True, Some c) \<Rightarrow> dgetd (conf_of c) CONFIG_KEY_CHECKPOINT_ID (CStr (cp_id (lp_checkpoint l)))
           | _ \<Rightarrow> CStr (cp_id (lp_checkpoint l)))"

definition loop_first :: "loop_env \<Rightarrow> string set option \<Rightarrow> loop \<Rightarrow> (loop \<times> string set option) res" where
  "loop_first env updated l =
     (let configurable = conf_of (lp_config l);
          resuming = is_resuming l;
          time_traveling = is_time_traveling l;
          l = (if time_traveling
               then l\<lparr>lp_pending := filter (\<lambda>w. fst (snd w) \<noteq> RESUME) (lp_pending l)\<rparr> else l)
      in rbind (case lp_input l of In_Command cmd \<Rightarrow> first_command env cmd l | _ \<Rightarrow> Inr l) (\<lambda>l.
         rbind (apply_null_writes env updated l) (\<lambda>(l, updated).
         rbind (if resuming then rmap (\<lambda>l. (l, updated)) (first_resume env time_traveling l)
                else rbind (map_input (le_input_keys env) (input_chunk (lp_input l))) (\<lambda>input_writes.
                       if input_writes \<noteq> [] then first_input env updated input_writes l
                       else if \<not> dmem CONFIG_KEY_RESUMING configurable
                       then Inl (EmptyInputError ''Received no input'')
                       else Inr (l, updated)))
           (\<lambda>(l, updated).
              let l = (if lp_is_nested l then l
                       else l\<lparr>lp_config := patch_configurable (Some (lp_config l))
                                [(CONFIG_KEY_RESUMING, CBool resuming),
                                 (''__pregel_replay_state'', replay_flag time_traveling l)]\<rparr>)
              in Inr (l\<lparr>lp_status := St_pending\<rparr>, updated)))))"

subsection \<open>Entering and leaving\<close>

record saved_tuple =
  sv_config :: run_config
  sv_checkpoint :: checkpoint
  sv_metadata :: ckpt_meta
  sv_parent_config :: "run_config option"
  sv_pending :: "pending_write list option"

definition initial_tuple :: "loop_env \<Rightarrow> loop \<Rightarrow> saved_tuple" where
  "initial_tuple env l =
     \<lparr>sv_config = lp_checkpoint_config l,
      sv_checkpoint = empty_checkpoint (le_new_id env (lp_clock l)) (le_now env (lp_clock l)),
      sv_metadata = \<lparr>cm_source = None, cm_step = -2, cm_parents = [], cm_run_id = None, cm_counters = []\<rparr>,
      sv_parent_config = None, sv_pending = Some []\<rparr>"

text \<open>\<open>migrate\<close> is the graph's migration, \<open>None\<close> when it has none; \<open>history\<close> is the saver's.\<close>

definition loop_enter ::
  "loop_env \<Rightarrow> (checkpoint \<Rightarrow> checkpoint) option \<Rightarrow> saved_tuple option \<Rightarrow>
   (run_config \<Rightarrow> string list \<Rightarrow> (string, delta_history) dict res) \<Rightarrow> loop \<Rightarrow> loop res" where
  "loop_enter env migrate found history l =
     (let saved = (case found of
                     None \<Rightarrow> initial_tuple env l
                   | Some s \<Rightarrow> (case migrate of None \<Rightarrow> s
                                | Some m \<Rightarrow> s\<lparr>sv_checkpoint := m (sv_checkpoint s)\<rparr>));
          conf = dupd (dupd [(CONFIG_KEY_CHECKPOINT_NS, CStr [])] (conf_of (lp_checkpoint_config l)))
                   (conf_of (sv_config saved));
          ckpt_config = (lp_checkpoint_config l)\<lparr>rc_conf := Some conf\<rparr>;
          cp = sv_checkpoint saved
      in rbind (channels_from_checkpoint (le_specs env) cp
                  (case le_checkpointer env of None \<Rightarrow> None | Some s \<Rightarrow> Some (history ckpt_config)))
         (\<lambda>(chs, managed).
            case rc_recursion_limit (lp_config l) of
              None \<Rightarrow> Inl (KeyError ''recursion_limit'')
            | Some limit \<Rightarrow>
                let step = cm_step (sv_metadata saved) + 1;
                    l = l\<lparr>lp_checkpoint_config := ckpt_config, lp_initial_checkpoint_config := ckpt_config,
                          lp_has_persisted_parent := (found \<noteq> None),
                          lp_prev_checkpoint_config := sv_parent_config saved,
                          lp_checkpoint_id_saved := cp_id cp, lp_checkpoint := cp, lp_metadata := sv_metadata saved,
                          lp_pending := (case sv_pending saved of None \<Rightarrow> [] | Some ws \<Rightarrow> ws),
                          lp_delta_overwrite := {},
                          lp_exit_delta := (if le_durability env = Exit \<and> le_checkpointer env \<noteq> None then Some [] else None),
                          lp_channels := chs, lp_managed := managed, lp_status := St_input,
                          lp_step := step, lp_stop := step + limit + 1,
                          lp_previous_versions := channel_versions cp, lp_clock := Suc (lp_clock l)\<rparr>
                in rmap (\<lambda>(l, updated). l\<lparr>lp_updated := updated\<rparr>)
                     (loop_first env
                        (case cp_updated_channels cp of Some cs \<Rightarrow> if cs \<noteq> [] then Some (set cs) else None
                         | None \<Rightarrow> None) l)))"

text \<open>Writes of delta channels that exit mode kept back, under one synthetic task per step and task.\<close>

definition group_exit_writes ::
  "(int \<times> string \<times> string \<times> pyval) list \<Rightarrow> ((int \<times> string), writes) dict" where
  "group_exit_writes ws =
     foldl (\<lambda>d (step, tid, c, v). dset (step, tid) (dgetd d (step, tid) [] @ [(c, v)]) d) [] ws"

definition exit_anchor :: "loop_env \<Rightarrow> loop \<Rightarrow> run_config \<times> loop" where
  "exit_anchor env l =
     (if lp_has_persisted_parent l then (lp_initial_checkpoint_config l, l)
      else
        let stub = (empty_checkpoint (lp_checkpoint_id_saved l) (le_now env (lp_clock l)));
            anchor = patch_configurable (Some (lp_initial_checkpoint_config l))
                       [(CONFIG_KEY_CHECKPOINT_ID, CStr (cp_id stub))];
            l = log_call (PutCheckpoint
                  (patch_configurable (Some (lp_initial_checkpoint_config l)) [(CONFIG_KEY_CHECKPOINT_ID, CNone)])
                  stub \<lparr>cm_source = None, cm_step = -2, cm_parents = [], cm_run_id = None, cm_counters = []\<rparr> []) l
        in (anchor, l\<lparr>lp_checkpoint_config := anchor\<rparr>))"

definition put_exit_delta_writes :: "loop_env \<Rightarrow> loop \<Rightarrow> loop res" where
  "put_exit_delta_writes env l =
     (let snap = delta_channels_to_snapshot (lp_channels l) (cm_counters (lp_metadata l)) \<union> lp_delta_overwrite l;
          pending = filter (\<lambda>(s, t, c, v). c \<notin> snap) (case lp_exit_delta l of None \<Rightarrow> [] | Some ws \<Rightarrow> ws)
      in if le_checkpointer env = None \<or> pending = [] then Inr l
         else
           let (anchor, l) = exit_anchor env l;
               config = patch_configurable (Some anchor) [(CONFIG_KEY_CHECKPOINT_NS, conf_ns (lp_config l))]
           in rfold (\<lambda>l ((step, tid), ws).
                rmap (\<lambda>synth. log_call (PutWrites config ws synth []) l) (exit_delta_task_id step tid))
                l (group_exit_writes pending))"

text \<open>
  The part of \<open>_suppress_interrupt\<close> that persists: \<open>failed\<close> says whether an exception is leaving.
\<close>

definition checkpoint_ns_parts :: "loop \<Rightarrow> string list" where
  "checkpoint_ns_parts l = (case conf_ns (lp_config l) of
       CStr s \<Rightarrow> if s = [] then [] else split_on (hd NS_SEP) s
     | _ \<Rightarrow> [])"

definition persist_at_exit :: "loop_env \<Rightarrow> bool \<Rightarrow> loop \<Rightarrow> loop res" where
  "persist_at_exit env failed l =
     (if le_durability env = Exit
       \<and> (\<not> lp_is_nested l \<or> failed \<or> (\<forall>part \<in> set (checkpoint_ns_parts l). CHR '':'' \<notin> set part))
      then rbind (put_exit_delta_writes env l) (\<lambda>l.
             rmap (put_pending_writes env) (put_checkpoint env None l))
      else Inr l)"

text \<open>
  \<open>_suppress_interrupt\<close>: after persisting, an interrupt that leaves a top-level graph is suppressed, and
  the output then includes the writes of the tasks of the step; the result is the loop, the output
  when it is saved, and whether the exception is suppressed.
\<close>

definition suppress_interrupt ::
  "loop_env \<Rightarrow> py_exc option \<Rightarrow> loop \<Rightarrow> (loop \<times> pyval option \<times> bool) res" where
  "suppress_interrupt env exc l =
     rbind (persist_at_exit env (exc \<noteq> None) l) (\<lambda>l.
       let output = (\<lambda>l b. rmap (\<lambda>out. (l, Some out, b)) (read_channels (lp_channels l) (le_output_keys env) True))
       in case exc of
            None \<Rightarrow> output l False
          | Some (GraphInterrupt ints) \<Rightarrow>
              if lp_is_nested l then Inr (l, None, False)
              else
                rbind (if lp_pending l \<noteq> [] \<and> (\<exists>(tid, t) \<in> set (the_tasks l). et_writes t \<noteq> [])
                       then rmap (\<lambda>(cp, chs, upd). l\<lparr>lp_checkpoint := cp, lp_channels := chs\<rparr>)
                              (apply_writes (lp_checkpoint l) (lp_channels l)
                                 (map (\<lambda>(tid, t). writes_of_task t) (the_tasks l))
                                 (Some (le_next_version env)) (le_trigger_to_nodes env))
                       else Inr l)
                  (\<lambda>l. output l True)
          | Some e \<Rightarrow> Inr (l, None, False))"

subsection \<open>Making a loop\<close>

definition sub_counter :: "scratchpad \<Rightarrow> nat \<times> scratchpad" where
  "sub_counter s =
     (let (n, next_n) = counter_next (sp_subgraph_counter s)
      in (n, Scratchpad (sp_step s) (sp_stop s) (sp_call_counter s) (sp_interrupt_counter s) next_n
               (sp_resume s) (sp_null_resume s) (sp_parent s)))"

text \<open>
  \<open>__init__\<close>: the result has the parent's scratchpad with its subgraph counter advanced. The
  attributes that \<open>__enter__\<close> sets have placeholder values.
\<close>

definition loop_init :: "loop_input \<Rightarrow> run_config \<Rightarrow> nat \<Rightarrow> (loop \<times> scratchpad option) res" where
  "loop_init input config clock =
     (case rc_conf config of
        None \<Rightarrow> Inl (KeyError CONF)
      | Some conf \<Rightarrow>
          let nested = dmem CONFIG_KEY_TASK_ID conf;
              counted = map_option sub_counter (conf_scratchpad config);
              cnt = (case counted of None \<Rightarrow> 0 | Some (n, s) \<Rightarrow> n)
          in if cnt > 0 \<and> conf_str config CONFIG_KEY_CHECKPOINT_NS = None
             then Inl (KeyError CONFIG_KEY_CHECKPOINT_NS)
             else
               let self_config = (if cnt > 0
                     then patch_configurable (Some config)
                            [(CONFIG_KEY_CHECKPOINT_NS,
                              CStr (the (conf_str config CONFIG_KEY_CHECKPOINT_NS) @ NS_SEP @ str_of_int (int cnt)))]
                     else config);
                   self_config = (if \<not> nested \<and> confval_true (dgetd conf CONFIG_KEY_CHECKPOINT_NS CNone)
                     then patch_configurable (Some self_config)
                            [(CONFIG_KEY_CHECKPOINT_NS, CStr []), (CONFIG_KEY_CHECKPOINT_ID, CNone)]
                     else self_config);
                   mapped = (case conf_str self_config CONFIG_KEY_CHECKPOINT_NS of
                               None \<Rightarrow> None
                             | Some ns \<Rightarrow> map_of (conf_map self_config CONFIG_KEY_CHECKPOINT_MAP) ns);
                   ckpt = (case mapped of None \<Rightarrow> self_config
                           | Some i \<Rightarrow> patch_configurable (Some self_config) [(CONFIG_KEY_CHECKPOINT_ID, CStr i)]);
                   ckpt = (case map_of (conf_of ckpt) CONFIG_KEY_THREAD_ID of
                             Some (CVal v) \<Rightarrow>
                               if py_bool v then patch_configurable (Some ckpt) [(CONFIG_KEY_THREAD_ID, CStr (value_text v))]
                               else ckpt
                           | _ \<Rightarrow> ckpt)
               in Inr (\<lparr>lp_input = input, lp_config = self_config, lp_checkpoint_config = ckpt,
                        lp_is_nested = nested, lp_is_replaying = dmem CONFIG_KEY_CHECKPOINT_ID conf,
                        lp_step = 0, lp_stop = 0, lp_status = St_input,
                        lp_checkpoint = empty_checkpoint [] [], lp_checkpoint_id_saved = [],
                        lp_metadata = \<lparr>cm_source = None, cm_step = -2, cm_parents = [], cm_run_id = None, cm_counters = []\<rparr>,
                        lp_channels = [], lp_managed = [], lp_pending = [], lp_tasks = None, lp_updated = None,
                        lp_previous_versions = [], lp_prev_checkpoint_config = None,
                        lp_initial_checkpoint_config = ckpt, lp_has_persisted_parent = False,
                        lp_delta_overwrite = {}, lp_exit_delta = None, lp_clock = clock, lp_saver_calls = []\<rparr>,
                       map_option snd counted))"

subsection \<open>Cached writes and error handlers\<close>

definition cached_tasks :: "loop \<Rightarrow> ((string list \<times> string), string) dict" where
  "cached_tasks l =
     foldl (\<lambda>d (tid, t). case et_cache_key t of
              Some k \<Rightarrow> if et_writes t = [] then dset (ck_ns k, ck_key k) tid d else d
            | None \<Rightarrow> d) [] (the_tasks l)"

definition match_cached_writes ::
  "((string list \<times> string) list \<Rightarrow> ((string list \<times> string), writes) dict) option \<Rightarrow> loop \<Rightarrow> string list \<times> loop" where
  "match_cached_writes cache_get l =
     (case cache_get of
        None \<Rightarrow> ([], l)
      | Some get \<Rightarrow>
          let cached = cached_tasks l;
              hits = (if cached = [] then [] else get (dkeys cached));
              apply = (\<lambda>(ms, ts) (key, vals). case map_of cached key of
                         None \<Rightarrow> (ms, ts)
                       | Some tid \<Rightarrow>
                           (case map_of ts tid of
                              None \<Rightarrow> (ms, ts)
                            | Some t \<Rightarrow> (ms @ [tid], dset tid (t\<lparr>et_writes := et_writes t @ vals\<rparr>) ts)));
              (matched, tasks) = foldl apply ([], the_tasks l) hits
          in (matched, l\<lparr>lp_tasks := Some tasks\<rparr>))"

definition schedule_error_handler :: "loop_env \<Rightarrow> exec_task \<Rightarrow> pyval \<Rightarrow> loop \<Rightarrow> (exec_task option \<times> loop) res" where
  "schedule_error_handler env failed error l =
     (case map_of (le_nodes env) (et_name failed) of
        None \<Rightarrow> Inl (KeyError (et_name failed))
      | Some node \<Rightarrow>
          (case pn_error_handler_node node of
             None \<Rightarrow> Inr (None, l)
           | Some h \<Rightarrow>
               if h = [] then Inr (None, l)
               else rmap (\<lambda>(handler, pending).
                   let l = l\<lparr>lp_pending := pending\<rparr> in
                   case handler of
                     None \<Rightarrow> (None, l)
                   | Some t \<Rightarrow>
                       let t = (if lp_is_replaying l then t
                                else the (map_of (reapply_writes_to_succeeded_nodes (lp_pending l) [(et_id t, t)]) (et_id t)))
                       in (Some t, l\<lparr>lp_tasks := Some (dset (et_id t) t (the_tasks l))\<rparr>))
                 (prepare_node_error_handler_task (prep_env_of env l (et_config failed)) (lp_checkpoint l)
                    failed h error (lp_pending l))))"

subsection \<open>A loop to evaluate on\<close>

definition example_env :: "durability \<Rightarrow> loop_env" where
  "example_env d =
     \<lparr>le_hashes = \<lparr>xxh3_128_hexdigest = (\<lambda>s. s), sha1_hexdigest = (\<lambda>s. s)\<rparr>, le_identifier = (\<lambda>n. None),
      le_view = (\<lambda>v. \<lparr>ov_keys = [], ov_attrs = [], ov_model = None\<rparr>), le_new_id = (\<lambda>n. ''id'' @ str_of_int (int n)),
      le_now = (\<lambda>n. ''ts''), le_store = None, le_checkpointer = Some ''saver'', le_manager = None,
      le_retry_policy = [], le_cache_policy = None, le_nodes = [], le_specs = [],
      le_input_keys = OneKey ''a'', le_output_keys = OneKey ''a'', le_trigger_to_nodes = [],
      le_durability = d, le_interrupt_after = Some [], le_interrupt_before = Some [],
      le_next_version = increment\<rparr>"

definition example_loop :: loop where
  "example_loop = fst (the (case loop_init In_None (empty_config\<lparr>rc_conf := Some []\<rparr>) 0 of Inr r \<Rightarrow> Some r | Inl e \<Rightarrow> None))"

lemma example_loop_simps [simp]:
  "lp_step example_loop = 0" "lp_stop example_loop = 0" "lp_pending example_loop = []"
  "lp_tasks example_loop = None" "lp_channels example_loop = []" "lp_is_replaying example_loop = False"
  "lp_saver_calls example_loop = []" "lp_exit_delta example_loop = None" "lp_delta_overwrite example_loop = {}"
  by (simp_all add: example_loop_def loop_init_def empty_config_def Let_def conf_scratchpad_def conf_of_def conf_str_def)

end
