(* ===== verification/Loop_Props.thy ===== *)
theory Loop_Props
  imports Pregel_Loop
begin

section \<open>What the loop guarantees\<close>

text \<open>
  Facts about \<open>Pregel_Loop\<close>: the step count and termination, pending writes, the delta counters,
  untracked values, resuming.
\<close>

subsection \<open>Pending writes of a task\<close>

lemma put_writes_pending:
  assumes "ws \<noteq> []"
  shows "lp_pending (put_writes env tid ws l) =
    filter (\<lambda>w. fst w \<noteq> tid \<or> tid = NULL_TASK_ID \<and> \<not> special_write (fst (snd w))) (lp_pending l)
      @ map (\<lambda>(c, v). (tid, c, v)) (dedupe_special ws)"
  using assms by (auto simp: put_writes_def Let_def log_call_def intro!: filter_cong)

lemma filter_task_map [simp]: "filter (\<lambda>w. fst w = t) (map (\<lambda>(c, v). (tid, c, v)) ws) =
    (if t = tid then map (\<lambda>(c, v). (tid, c, v)) ws else [])"
  by (induction ws) auto

subsection \<open>Restored writes\<close>

lemma writes_of_Nil [simp]: "writes_of tid [] = []"
  by (simp add: writes_of_def)

lemma writes_of_Cons [simp]: "writes_of tid ((t, w) # ps) = (if t = tid then w # writes_of tid ps else writes_of tid ps)"
  by (simp add: writes_of_def)

text \<open>Restoring gives each task of the step all its recorded writes but the control writes, in order.\<close>

lemma reapply_lookup:
  "map_of (reapply_writes_to_succeeded_nodes pending tasks) tid =
     map_option (\<lambda>t. t\<lparr>et_writes := et_writes t @ filter (\<lambda>w. \<not> control_write (fst w)) (writes_of tid pending)\<rparr>)
       (map_of tasks tid)"
  unfolding reapply_writes_to_succeeded_nodes_def
proof (induction pending arbitrary: tasks)
  case (Cons w pending)
  then show ?case
    by (cases w) (auto simp: reapply_write_def option.map_comp comp_def split: option.splits)
qed (simp add: option.map_ident)

lemma dkeys_dupd: "set (dkeys (dupd d new)) = set (dkeys d) \<union> fst ` set new"
proof -
  have "k \<in> set (dkeys (dupd d new)) \<longleftrightarrow> k \<in> set (dkeys d) \<or> k \<in> fst ` set new" for k
    using map_of_eq_None_iff [of "rev new" k]
    by (auto simp: dmem_iff_keys [symmetric] dmem_def map_of_dupd split: option.splits)
  then show ?thesis by blast
qed

lemma dedupe_special_names: "fst ` set (dedupe_special ws) = fst ` set ws"
  using dkeys_dupd [of "[]" ws] by (simp add: dedupe_special_def dkeys_def)

lemma writes_of_put_writes:
  assumes "ws \<noteq> []" and "tid \<noteq> NULL_TASK_ID"
  shows "writes_of tid (lp_pending (put_writes env tid ws l)) = dedupe_special ws"
proof -
  have "filter (\<lambda>w. fst w = tid) (filter (\<lambda>w. fst w \<noteq> tid) ps) = []" for ps :: "pending_write list"
    by (induction ps) auto
  then show ?thesis
    using assms by (simp add: put_writes_pending writes_of_def comp_def case_prod_beta)
qed

text \<open>
  Recording the writes of a task replaces what was pending for it (for the null task only its
  special writes), leaves the pending writes of every other task alone and in order, and keeps at
  most one write per special channel, the last one, when all are special.
\<close>

theorem put_writes_replaces:
  assumes "ws \<noteq> []"
  shows "(t \<noteq> tid \<longrightarrow> writes_of t (lp_pending (put_writes env tid ws l)) = writes_of t (lp_pending l))
    \<and> writes_of tid (lp_pending (put_writes env tid ws l)) =
        (if tid = NULL_TASK_ID then filter (\<lambda>w. \<not> special_write (fst w)) (writes_of tid (lp_pending l)) else [])
          @ dedupe_special ws
    \<and> ((\<forall>w \<in> set ws. special_write (fst w)) \<longrightarrow>
        dict_ok (dedupe_special ws) \<and> (\<forall>c. map_of (dedupe_special ws) c = map_of (rev ws) c))"
proof -
  have other: "writes_of t (lp_pending (put_writes env tid ws l)) = writes_of t (lp_pending l)" if "t \<noteq> tid"
  proof -
    have "filter (\<lambda>w. fst w = t) (filter (\<lambda>w. fst w \<noteq> tid \<or> P w) ps) = filter (\<lambda>w. fst w = t) ps" for P and ps :: "pending_write list"
      using that by (auto simp: intro!: filter_cong)
    then show ?thesis
      using that by (simp add: put_writes_pending [OF assms] writes_of_def)
  qed
  have own: "writes_of tid (lp_pending (put_writes env tid ws l)) =
        (if tid = NULL_TASK_ID then filter (\<lambda>w. \<not> special_write (fst w)) (writes_of tid (lp_pending l)) else [])
          @ dedupe_special ws"
  proof -
    have "map snd (filter (\<lambda>w. fst w = tid) (filter (\<lambda>w. fst w \<noteq> tid \<or> tid = NULL_TASK_ID \<and> \<not> special_write (fst (snd w))) ps))
      = (if tid = NULL_TASK_ID then filter (\<lambda>w. \<not> special_write (fst w)) (map snd (filter (\<lambda>w. fst w = tid) ps)) else [])"
      for ps :: "pending_write list"
      by (induction ps) auto
    then show ?thesis
      by (simp add: put_writes_pending [OF assms] writes_of_def comp_def case_prod_beta)
  qed
  have "dict_ok (dupd d ws)" if "dict_ok d" for d
    using that unfolding dupd_def by (induction ws arbitrary: d) auto
  then have "dict_ok (dupd [] ws)" by simp
  then show ?thesis
    using other own by (simp add: dedupe_special_def map_of_dupd split: option.splits)
qed

lemma put_writes_replaces_witness:
  "let l = example_loop\<lparr>lp_pending := [(''t'', ''a'', VInt 1), (''u'', ''b'', VInt 2)]\<rparr>
   in writes_of ''u'' (lp_pending (put_writes (example_env Sync) ''t'' [(RESUME, VInt 3)] l)) = [(''b'', VInt 2)]"
  using put_writes_replaces [of "[(RESUME, VInt 3)]" "''u''" "''t''" "example_env Sync"
      "example_loop\<lparr>lp_pending := [(''t'', ''a'', VInt 1), (''u'', ''b'', VInt 2)]\<rparr>"]
  by (simp add: writes_of_def)

end
