(* ===== verification/Pregel_Retry.thy ===== *)
theory Pregel_Retry
  imports Pregel_Loop
begin

section \<open>Running one task\<close>

text \<open>
  \<open>run_with_retry\<close> and the namespace helpers (\<open>pregel/_retry.py\<close>, \<open>_internal/_config.py\<close>,
  \<open>RetryPolicy\<close> of \<open>types.py\<close>). What the user's code does is a parameter: \<open>re_invoke\<close> gives, for the
  number of the attempt, the writes a task makes and the exception it raises, if any. Sleeping
  between attempts and the clock are left out: no result depends on them.
\<close>

subsection \<open>Checkpoint namespaces\<close>

definition recast_checkpoint_ns :: "string \<Rightarrow> string" where
  "recast_checkpoint_ns ns =
     str_join NS_SEP
       (map (\<lambda>part. hd (split_on (hd NS_END) part))
          (filter (\<lambda>part. \<not> is_digits part) (split_on (hd NS_SEP) ns)))"

definition drop_trailing_digits :: "string list \<Rightarrow> string list" where
  "drop_trailing_digits parts = rev (dropWhile is_digits (rev parts))"

definition checkpoint_ns_for_parent_command :: "string \<Rightarrow> string" where
  "checkpoint_ns_for_parent_command ns =
     (let parts = drop_trailing_digits (split_on (hd NS_SEP) ns);
          parts = (if parts = [] then [] else butlast parts);
          parts = drop_trailing_digits parts
      in str_join NS_SEP parts)"

text \<open>
  The namespace of a task is that of its graph, then the task's name and id (\<open>child_ns\<close> and
  \<open>task_config\<close>); an extra numeric part tells apart several calls of a subgraph in one task.
\<close>

definition task_ns :: "string \<Rightarrow> string \<Rightarrow> string \<Rightarrow> string" where
  "task_ns graph_ns name task_id = child_ns graph_ns name @ NS_END @ task_id"

lemma drop_trailing_digits_snoc [simp]:
  "drop_trailing_digits (ps @ [p]) = (if is_digits p then drop_trailing_digits ps else ps @ [p])"
  by (simp add: drop_trailing_digits_def)

lemma drop_trailing_digits_Nil [simp]: "drop_trailing_digits [] = []"
  by (simp add: drop_trailing_digits_def)

lemma drop_trailing_digits_two [simp]:
  "drop_trailing_digits (ps @ [p, q]) = (if is_digits q then drop_trailing_digits (ps @ [p]) else ps @ [p, q])"
  "drop_trailing_digits [p, q] = (if is_digits q then drop_trailing_digits [p] else [p, q])"
  "drop_trailing_digits [p] = (if is_digits p then [] else [p])"
  by (simp_all add: drop_trailing_digits_def)

lemma colon_not_digits [simp]: "\<not> is_digits (name @ CHR '':'' # tid)"
  by (auto simp: is_digits_def char_digit_def)

lemma split_task_ns:
  assumes "CHR ''|'' \<notin> set name" and "CHR ''|'' \<notin> set tid"
  shows "split_on (CHR ''|'') (task_ns g name tid) =
    (if g = [] then [] else split_on (CHR ''|'') g) @ [name @ '':'' @ tid]"
  using assms split_on_append [of "CHR ''|''" g "name @ '':'' @ tid"]
  by (simp add: task_ns_def child_ns_def const_defs)

text \<open>
  C29: a command sent to the parent graph from inside a task is addressed to the namespace of the
  graph that runs the task, with or without the numeric part of a repeated subgraph call, and whatever
  numeric part that graph's own namespace ends in.
\<close>

theorem parent_command_reaches_parent:
  assumes "CHR ''|'' \<notin> set name" and "CHR ''|'' \<notin> set tid"
    and "g = [] \<or> \<not> is_digits (last (split_on (CHR ''|'') g))"
    and "is_digits n" and "is_digits m"
  shows "checkpoint_ns_for_parent_command (task_ns g name tid) = g
    \<and> checkpoint_ns_for_parent_command (task_ns g name tid @ NS_SEP @ n) = g
    \<and> (g \<noteq> [] \<longrightarrow> checkpoint_ns_for_parent_command (task_ns (g @ NS_SEP @ m) name tid) = g)"
proof -
  have digits_no_sep: "CHR ''|'' \<notin> set d" if "is_digits d" for d
    using that by (auto simp: is_digits_def char_digit_def)
  have g: "str_join ''|'' (drop_trailing_digits (split_on (CHR ''|'') g)) = g" if "g \<noteq> []"
  proof -
    obtain ps p where p: "split_on (CHR ''|'') g = ps @ [p]"
      by (metis append_butlast_last_id split_on_not_Nil)
    with that assms(3) have "\<not> is_digits p" by simp
    then show ?thesis using p join_split_on [of "CHR ''|''" g] by simp
  qed
  have split_n: "split_on (CHR ''|'') (task_ns h name tid @ ''|'' @ n) = split_on (CHR ''|'') (task_ns h name tid) @ [n]" for h
    using split_on_append [of "CHR ''|''" "task_ns h name tid" n] digits_no_sep [OF assms(4)] by simp
  have split_m: "split_on (CHR ''|'') (g @ ''|'' @ m) = split_on (CHR ''|'') g @ [m]"
    using split_on_append [of "CHR ''|''" g m] digits_no_sep [OF assms(5)] by simp
  have 1: "checkpoint_ns_for_parent_command (task_ns g name tid) = g"
    using g by (simp add: checkpoint_ns_for_parent_command_def NS_SEP_def split_task_ns [OF assms(1,2)])
  have 2: "checkpoint_ns_for_parent_command (task_ns g name tid @ NS_SEP @ n) = g"
    using g assms(4)
    by (simp add: checkpoint_ns_for_parent_command_def NS_SEP_def split_n [simplified] split_task_ns [OF assms(1,2)])
  have 3: "checkpoint_ns_for_parent_command (task_ns (g @ NS_SEP @ m) name tid) = g" if "g \<noteq> []"
    using g that assms(5)
    by (simp add: checkpoint_ns_for_parent_command_def NS_SEP_def split_task_ns [OF assms(1,2)] split_m [simplified] butlast_append)
  from 1 2 3 show ?thesis by blast
qed

lemma parent_command_reaches_parent_witness:
  "checkpoint_ns_for_parent_command (task_ns ''a:1'' ''n'' ''t'' @ NS_SEP @ ''2'') = ''a:1''"
  using parent_command_reaches_parent [of "''n''" "''t''" "''a:1''" "''2''" "''3''"]
  by (simp add: is_digits_def char_digit_def)

subsection \<open>Exceptions of a task and retry policies\<close>

text \<open>
  What can leave a task: an ordinary exception or an interrupt (\<open>Raised\<close>), a command for an
  enclosing graph, a drain request, or cancellation. \<open>GraphBubbleUp\<close> has the middle ones.
\<close>

datatype task_exc = Raised py_exc | ParentCommand command | Drained string | Cancelled

fun is_bubble_up :: "task_exc \<Rightarrow> bool" where
  "is_bubble_up (Raised (GraphInterrupt v)) = True"
| "is_bubble_up (ParentCommand c) = True"
| "is_bubble_up (Drained r) = True"
| "is_bubble_up _ = False"

datatype retry_on =
  OnClasses "string list" | OnClass string | OnPredicate "py_exc \<Rightarrow> bool" | OnOther

record retry_policy =
  rp_max_attempts :: int
  rp_retry_on :: retry_on

record retry_env =
  re_policy :: "string \<Rightarrow> retry_policy"
  re_isinstance :: "py_exc \<Rightarrow> string \<Rightarrow> bool"
  re_invoke :: "runnable \<Rightarrow> pyval \<Rightarrow> run_config \<Rightarrow> nat \<Rightarrow> writes \<times> task_exc option"
  re_invoke_command :: "runnable \<Rightarrow> command \<Rightarrow> run_config \<Rightarrow> writes \<times> task_exc option"

definition should_retry_on :: "retry_env \<Rightarrow> retry_policy \<Rightarrow> py_exc \<Rightarrow> bool res" where
  "should_retry_on env policy exc =
     (case rp_retry_on policy of
        OnClasses cs \<Rightarrow> Inr (\<exists>c \<in> set cs. re_isinstance env exc c)
      | OnClass c \<Rightarrow> Inr (re_isinstance env exc c)
      | OnPredicate p \<Rightarrow> Inr (p exc)
      | OnOther \<Rightarrow> Inl (TypeError ''retry_on''))"

fun matching_policy :: "retry_env \<Rightarrow> retry_policy list \<Rightarrow> py_exc \<Rightarrow> retry_policy option res" where
  "matching_policy env [] exc = Inr None"
| "matching_policy env (p # ps) exc =
     rbind (should_retry_on env p exc) (\<lambda>b. if b then Inr (Some p) else matching_policy env ps exc)"

text \<open>After a failed try number \<open>attempts\<close> (from 0): the exception to raise, or nothing to try again.\<close>

definition next_attempt :: "retry_env \<Rightarrow> retry_policy list \<Rightarrow> py_exc \<Rightarrow> nat \<Rightarrow> unit res" where
  "next_attempt env policies exc attempts =
     (if policies = [] then Inl exc
      else rbind (matching_policy env policies exc) (\<lambda>m.
        case m of
          None \<Rightarrow> Inl exc
        | Some p \<Rightarrow> if int (Suc attempts) \<ge> rp_max_attempts p then Inl exc else Inr ()))"

definition policy_bound :: "retry_policy list \<Rightarrow> nat" where
  "policy_bound policies = foldr max (map (\<lambda>p. nat (rp_max_attempts p)) policies) 0"

lemma policy_bound_ge: "p \<in> set policies \<Longrightarrow> nat (rp_max_attempts p) \<le> policy_bound policies"
  unfolding policy_bound_def by (induction policies) auto

lemma matching_policy_mem: "matching_policy env ps e = Inr (Some p) \<Longrightarrow> p \<in> set ps"
  by (induction ps) (auto simp: rbind_Inr_iff split: if_splits)

lemma next_attempt_bound: "next_attempt env policies e n = Inr () \<Longrightarrow> Suc n < policy_bound policies"
  using policy_bound_ge [of _ policies]
  by (force simp: next_attempt_def rbind_Inr_iff split: if_splits option.splits dest: matching_policy_mem)

subsection \<open>Commands for this graph or its parent\<close>

fun run_command_writers ::
  "retry_env \<Rightarrow> command \<Rightarrow> run_config \<Rightarrow> runnable list \<Rightarrow> writes \<times> task_exc option" where
  "run_command_writers env cmd config [] = ([], None)"
| "run_command_writers env cmd config (w # ws) =
     (case re_invoke_command env w cmd config of
        (ts, Some e) \<Rightarrow> (ts, Some e)
      | (ts, None) \<Rightarrow>
          (let (us, e) = run_command_writers env cmd config ws in (ts @ us, e)))"

definition handle_parent_command ::
  "retry_env \<Rightarrow> exec_task \<Rightarrow> run_config \<Rightarrow> command \<Rightarrow> exec_task \<times> task_exc option" where
  "handle_parent_command env task config cmd =
     (case conf_str config CONFIG_KEY_CHECKPOINT_NS of
        None \<Rightarrow> (task, Some (Raised (KeyError CONFIG_KEY_CHECKPOINT_NS)))
      | Some ns \<Rightarrow>
          (if cmd_graph cmd \<in> {Some ns, Some (recast_checkpoint_ns ns), Some (et_name task)}
           then let (ws, e) = run_command_writers env cmd config (et_writers task)
                in (task\<lparr>et_writes := et_writes task @ ws\<rparr>, e)
           else if cmd_graph cmd = Some COMMAND_PARENT
           then (task, Some (ParentCommand (cmd\<lparr>cmd_graph := Some (checkpoint_ns_for_parent_command ns)\<rparr>)))
           else (task, Some (ParentCommand cmd))))"

subsection \<open>The retry loop\<close>

definition ensure_execution_info :: "runtime \<Rightarrow> run_config \<Rightarrow> exec_task \<Rightarrow> runtime" where
  "ensure_execution_info r config task =
     (case rt_execution_info r of
        Some i \<Rightarrow> r
      | None \<Rightarrow>
          let str = (\<lambda>k d. case conf_str config k of Some s \<Rightarrow> if s \<noteq> [] then s else d | None \<Rightarrow> d) in
          r\<lparr>rt_execution_info := Some
              (str CONFIG_KEY_CHECKPOINT_ID [], str CONFIG_KEY_CHECKPOINT_NS [], str CONFIG_KEY_TASK_ID (et_id task),
               conf_str config CONFIG_KEY_THREAD_ID,
               case rc_run_id config of Some i \<Rightarrow> if i \<noteq> [] then Some i else None | None \<Rightarrow> None)\<rparr>)"

definition resuming_config :: "run_config \<Rightarrow> run_config" where
  "resuming_config config = patch_configurable (Some config) [(CONFIG_KEY_RESUMING, CBool True)]"

text \<open>The result has the task with its writes, the exception that leaves it, and the number of tries.\<close>

function retry_loop ::
  "retry_env \<Rightarrow> retry_policy list \<Rightarrow> exec_task \<Rightarrow> run_config \<Rightarrow> nat \<Rightarrow> exec_task \<times> task_exc option \<times> nat" where
  "retry_loop env policies task config attempts =
     (let (ws, exc) = re_invoke env (et_proc task) (et_input task) config attempts;
          task = task\<lparr>et_writes := ws\<rparr>;
          stop = (\<lambda>e. (task, Some e, Suc attempts))
      in case exc of
           None \<Rightarrow> (task, None, Suc attempts)
         | Some (ParentCommand cmd) \<Rightarrow>
             (let (task, e) = handle_parent_command env task config cmd in (task, e, Suc attempts))
         | Some (Drained r) \<Rightarrow> stop (Drained r)
         | Some Cancelled \<Rightarrow> stop (Raised (UserError ''NodeCancelledError''))
         | Some (Raised e) \<Rightarrow>
             (if is_bubble_up (Raised e) then stop (Raised e)
              else case next_attempt env policies e attempts of
                     Inl e' \<Rightarrow> stop (Raised e')
                   | Inr u \<Rightarrow> retry_loop env policies task (resuming_config config) (Suc attempts)))"
  by pat_completeness auto
termination
  by (relation "measure (\<lambda>(env, policies, task, config, attempts). policy_bound policies - attempts)")
    (auto dest: next_attempt_bound)

declare retry_loop.simps [simp del]

definition run_with_retry ::
  "retry_env \<Rightarrow> retry_policy list \<Rightarrow> configurable option \<Rightarrow> exec_task \<Rightarrow> exec_task \<times> task_exc option \<times> nat" where
  "run_with_retry env default_policy conf task =
     (if et_timeout task \<noteq> None then (task, Some (Raised (ValueError (et_name task))), 0)
      else
        let policies = (if et_retry_policy task \<noteq> [] then map (re_policy env) (et_retry_policy task)
                        else default_policy);
            config = (case conf of None \<Rightarrow> et_config task | Some c \<Rightarrow> patch_configurable (Some (et_config task)) c);
            config = (case map_of (conf_of config) CONFIG_KEY_RUNTIME of
                        Some (CRuntime r) \<Rightarrow>
                          patch_configurable (Some config)
                            [(CONFIG_KEY_RUNTIME, CRuntime (ensure_execution_info r config task))]
                      | _ \<Rightarrow> config)
        in retry_loop env policies task config 0)"

subsection \<open>What retrying guarantees\<close>

definition attempt_config :: "run_config \<Rightarrow> nat \<Rightarrow> run_config" where
  "attempt_config config k = (resuming_config ^^ k) config"

definition attempt :: "retry_env \<Rightarrow> exec_task \<Rightarrow> run_config \<Rightarrow> nat \<Rightarrow> nat \<Rightarrow> writes \<times> task_exc option" where
  "attempt env task config first k =
     re_invoke env (et_proc task) (et_input task) (attempt_config config (k - first)) k"

definition retried :: "retry_env \<Rightarrow> retry_policy list \<Rightarrow> nat \<Rightarrow> writes \<times> task_exc option \<Rightarrow> bool" where
  "retried env policies k r =
     (case snd r of
        Some (Raised e) \<Rightarrow> \<not> is_bubble_up (Raised e) \<and> next_attempt env policies e k = Inr ()
      | _ \<Rightarrow> False)"

text \<open>What the result is when an attempt with this outcome is the last one.\<close>

definition final_outcome ::
  "retry_env \<Rightarrow> exec_task \<Rightarrow> run_config \<Rightarrow> writes \<times> task_exc option \<Rightarrow> exec_task \<times> task_exc option \<Rightarrow> bool" where
  "final_outcome env task config r result =
     (case snd r of
        None \<Rightarrow> result = (task\<lparr>et_writes := fst r\<rparr>, None)
      | Some (ParentCommand c) \<Rightarrow> result = handle_parent_command env (task\<lparr>et_writes := fst r\<rparr>) config c
      | Some e \<Rightarrow> snd result \<noteq> None \<and> fst result = task\<lparr>et_writes := fst r\<rparr>)"

lemma retry_loop_spec:
  assumes "retry_loop env policies task config a = (task', out, n)"
  shows "a < n \<and> n \<le> max (Suc a) (policy_bound policies)
    \<and> (\<forall>k. a \<le> k \<and> Suc k < n \<longrightarrow> retried env policies k (attempt env task config a k))
    \<and> \<not> retried env policies (n - 1) (attempt env task config a (n - 1))
    \<and> final_outcome env task (attempt_config config (n - 1 - a)) (attempt env task config a (n - 1)) (task', out)"
  using assms
proof (induction env policies task config a rule: retry_loop.induct)
  case (1 env policies task config a)
  obtain ws exc where inv: "re_invoke env (et_proc task) (et_input task) config a = (ws, exc)" by fastforce
  let ?task = "task\<lparr>et_writes := ws\<rparr>"
  have here: "attempt env task config a a = (ws, exc)" by (simp add: attempt_def attempt_config_def inv)
  show ?case
  proof (cases "retried env policies a (ws, exc)")
    case False
    then have "n = Suc a \<and> final_outcome env task config (ws, exc) (task', out)"
      using 1(2) inv
      by (subst (asm) retry_loop.simps)
        (auto simp: retried_def final_outcome_def Let_def
          split: option.splits task_exc.splits if_splits sum.splits prod.splits)
    with False here show ?thesis by (auto simp: attempt_config_def)
  next
    case True
    then obtain e where e: "exc = Some (Raised e)" "\<not> is_bubble_up (Raised e)" "next_attempt env policies e a = Inr ()"
      by (auto simp: retried_def split: option.splits task_exc.splits)
    then have rec: "retry_loop env policies ?task (resuming_config config) (Suc a) = (task', out, n)"
      using 1(2) inv by (subst (asm) retry_loop.simps) simp
    have conf: "attempt_config (resuming_config config) (k - Suc a) = attempt_config config (k - a)" if "a < k" for k
    proof -
      from that have "k - a = Suc (k - Suc a)" by simp
      then show ?thesis by (simp add: attempt_config_def funpow_swap1)
    qed
    have shift: "attempt env ?task (resuming_config config) (Suc a) k = attempt env task config a k" if "a < k" for k
      using that by (simp add: attempt_def conf)
    have fin: "final_outcome env ?task = final_outcome env task"
      by (intro ext) (simp add: final_outcome_def split: option.split task_exc.split)
    from 1(1) [OF refl inv [symmetric] refl refl e(1) refl e(2) e(3) rec] have ih:
      "Suc a < n" "n \<le> max (Suc (Suc a)) (policy_bound policies)"
      "\<And>k. Suc a \<le> k \<Longrightarrow> Suc k < n \<Longrightarrow> retried env policies k (attempt env ?task (resuming_config config) (Suc a) k)"
      "\<not> retried env policies (n - 1) (attempt env ?task (resuming_config config) (Suc a) (n - 1))"
      "final_outcome env ?task (attempt_config (resuming_config config) (n - 1 - Suc a))
         (attempt env ?task (resuming_config config) (Suc a) (n - 1)) (task', out)"
      by blast+
    have n1: "a < n - 1" using ih(1) by simp
    have "n \<le> policy_bound policies" using ih(2) next_attempt_bound [OF e(3)] by simp
    moreover have "retried env policies k (attempt env task config a k)" if "a \<le> k" "Suc k < n" for k
      using that ih(3) [of k] shift [of k] here True by (cases "k = a") auto
    ultimately show ?thesis
      using ih(1,4,5) shift [OF n1] conf [OF n1] fin by simp
  qed
qed

text \<open>
  C28: running a task makes at most as many attempts as the most generous policy allows (at least one,
  at most \<open>max_attempts\<close>); every attempt but the last raised an exception that some policy retries;
  the last one decides the result, and the writes of the earlier ones are gone.
\<close>

theorem retries_bounded:
  assumes "retry_loop env policies task config 0 = (task', out, n)"
  shows "0 < n \<and> n \<le> max 1 (policy_bound policies)
    \<and> (\<forall>k. Suc k < n \<longrightarrow> retried env policies k (attempt env task config 0 k))
    \<and> \<not> retried env policies (n - 1) (attempt env task config 0 (n - 1))
    \<and> final_outcome env task (attempt_config config (n - 1)) (attempt env task config 0 (n - 1)) (task', out)"
  using retry_loop_spec [OF assms] by simp

definition example_retry_env :: retry_env where
  "example_retry_env =
     \<lparr>re_policy = (\<lambda>s. \<lparr>rp_max_attempts = 3, rp_retry_on = OnClass ''ValueError''\<rparr>),
      re_isinstance = (\<lambda>e c. c = ''ValueError'' \<and> (\<exists>m. e = ValueError m)),
      re_invoke = (\<lambda>r x config k. if k < 1 then ([(''a'', VInt 0)], Some (Raised (ValueError ''bad''))) else ([(''a'', VInt 1)], None)),
      re_invoke_command = (\<lambda>r c config. ([], None))\<rparr>"

lemma retries_bounded_witness:
  "\<exists>t. retry_loop example_retry_env [re_policy example_retry_env ''p''] (example_task ''n'') empty_config 0 = (t, None, 2)
     \<and> et_writes t = [(''a'', VInt 1)]"
proof -
  have "retry_loop example_retry_env [re_policy example_retry_env ''p''] (example_task ''n'') empty_config 0
    = ((example_task ''n'')\<lparr>et_writes := [(''a'', VInt 1)]\<rparr>, None, 2)"
    by (simp add: retry_loop.simps example_retry_env_def next_attempt_def should_retry_on_def)
  from retries_bounded [OF this] this show ?thesis
    by (simp add: final_outcome_def)
qed

end
