(* ===== verification/Pregel_Runner.thy ===== *)
theory Pregel_Runner
  imports Pregel_Retry Loop_Props
begin

section \<open>Running the tasks of a step\<close>

text \<open>
  \<open>PregelRunner\<close> (\<open>pregel/_runner.py\<close>). Tasks run concurrently; their interleaving is the step relation
  \<open>runner_step\<close>: a running task finishes and its result is committed, a running task calls another,
  the waiting thread handles a finished task. Timeouts and cancellation by the executor are left out.
\<close>

subsection \<open>Committing the result of a task\<close>

type_synonym handler_map = "(string, string) dict"

definition should_route_to_error_handler :: "handler_map \<Rightarrow> exec_task \<Rightarrow> bool" where
  "should_route_to_error_handler handlers task =
     (if et_name task \<in> snd ` set handlers then False else dmem (et_name task) handlers)"

fun exc_object :: "task_exc \<Rightarrow> pyval" where
  "exc_object (Raised EmptyChannelError) = VExc ''EmptyChannelError'' []"
| "exc_object (Raised (InvalidUpdateError m)) = VExc ''InvalidUpdateError'' m"
| "exc_object (Raised (KeyError m)) = VExc ''KeyError'' m"
| "exc_object (Raised IndexError) = VExc ''IndexError'' []"
| "exc_object (Raised (ValueError m)) = VExc ''ValueError'' m"
| "exc_object (Raised (TypeError m)) = VExc ''TypeError'' m"
| "exc_object (Raised (RuntimeError m)) = VExc ''RuntimeError'' m"
| "exc_object (Raised (AssertionError m)) = VExc ''AssertionError'' m"
| "exc_object (Raised (EmptyInputError m)) = VExc ''EmptyInputError'' m"
| "exc_object (Raised (GraphInterrupt vs)) = VExc ''GraphInterrupt'' []"
| "exc_object (Raised (UserError m)) = VExc m []"
| "exc_object (ParentCommand c) = VExc ''ParentCommand'' []"
| "exc_object (Drained r) = VExc ''GraphDrained'' r"
| "exc_object Cancelled = VExc ''CancelledError'' []"

text \<open>The tasks of the loop are shared objects: the task's final writes replace those in \<open>lp_tasks\<close>.\<close>

definition set_task :: "exec_task \<Rightarrow> loop \<Rightarrow> loop" where
  "set_task t l = l\<lparr>lp_tasks := Some (dset (et_id t) t (the_tasks l))\<rparr>"

definition finish_task :: "loop_env \<Rightarrow> exec_task \<Rightarrow> writes \<Rightarrow> loop \<Rightarrow> loop" where
  "finish_task env task ws l = put_writes env (et_id task) ws (set_task (task\<lparr>et_writes := ws\<rparr>) l)"

definition commit :: "loop_env \<Rightarrow> handler_map \<Rightarrow> exec_task \<Rightarrow> task_exc option \<Rightarrow> loop \<Rightarrow> loop" where
  "commit env handlers task exc l =
     (case exc of
        None \<Rightarrow> finish_task env task (if et_writes task = [] then [(NO_WRITES, VNone)] else et_writes task) l
      | Some Cancelled \<Rightarrow> finish_task env task (et_writes task @ [(ERROR, exc_object Cancelled)]) l
      | Some (Raised (GraphInterrupt ints)) \<Rightarrow>
          (let l = set_task task l in
           if ints \<noteq> []
           then put_writes env (et_id task)
                  ((INTERRUPT, VTuple ints) # filter (\<lambda>w. fst w = RESUME) (et_writes task)) l
           else l)
      | Some e \<Rightarrow>
          (if is_bubble_up e then set_task task l
           else finish_task env task
                  (et_writes task @ [(ERROR, exc_object e)]
                     @ (if should_route_to_error_handler handlers task
                        then [(ERROR_SOURCE_NODE, VStr (et_name task))] else [])) l))"

text \<open>The tasks of the step that still have to run, as \<open>stream\<close> selects them.\<close>

definition tasks_to_run :: "loop \<Rightarrow> exec_task list" where
  "tasks_to_run l = filter (\<lambda>t. et_writes t = []) (map snd (the_tasks l))"

subsection \<open>Failing or going on\<close>

text \<open>
  A finished future: its exception, whether it was handled by an error handler, and whether its
  exception is raised into a parent task instead (\<open>SKIP_RERAISE_SET\<close>).
\<close>

record done_future =
  df_exc :: "task_exc option"
  df_handled :: bool
  df_skip :: bool

definition should_stop_others :: "done_future list \<Rightarrow> bool" where
  "should_stop_others done =
     (\<exists>f \<in> set done. case df_exc f of None \<Rightarrow> False
        | Some e \<Rightarrow> \<not> df_handled f \<and> \<not> is_bubble_up e \<and> \<not> df_skip f)"

text \<open>The list is the order in which the set of done futures is popped; nothing is in flight.\<close>

fun panic_or_proceed :: "pyval list list \<Rightarrow> done_future list \<Rightarrow> (task_exc + unit)" where
  "panic_or_proceed ints [] =
     (if ints \<noteq> [] then Inl (Raised (GraphInterrupt (concat ints))) else Inr ())"
| "panic_or_proceed ints (f # fs) =
     (case df_exc f of
        None \<Rightarrow> panic_or_proceed ints fs
      | Some e \<Rightarrow>
          if df_handled f then panic_or_proceed ints fs
          else case e of
                 Raised (GraphInterrupt vs) \<Rightarrow> panic_or_proceed (ints @ [vs]) fs
               | _ \<Rightarrow> if \<not> df_skip f then Inl e else panic_or_proceed ints fs)"

subsection \<open>Interleaving\<close>

text \<open>
  The state of a step: the loop, the running tasks (with whether their failure goes to a parent task),
  the finished ones the waiting thread has not seen yet, the futures that are done, and whether that
  thread has stopped waiting.
\<close>

record runner_state =
  rs_loop :: loop
  rs_running :: "(exec_task \<times> bool) list"
  rs_finished :: "(exec_task \<times> bool \<times> task_exc option) list"
  rs_done :: "done_future list"
  rs_stopped :: bool

record runner_env =
  rn_loop :: loop_env
  rn_handlers :: handler_map
  rn_retry :: retry_env
  rn_policy :: "retry_policy list"
  rn_conf :: "exec_task \<Rightarrow> configurable"

definition routed :: "runner_env \<Rightarrow> exec_task \<Rightarrow> task_exc option \<Rightarrow> bool" where
  "routed env t exc =
     (case exc of None \<Rightarrow> False
      | Some e \<Rightarrow> should_route_to_error_handler (rn_handlers env) t \<and> \<not> is_bubble_up e)"

definition start_runner :: "loop \<Rightarrow> runner_state" where
  "start_runner l =
     \<lparr>rs_loop = l, rs_running = map (\<lambda>t. (t, False)) (tasks_to_run l), rs_finished = [], rs_done = [],
      rs_stopped = False\<rparr>"

definition finish_step :: "runner_env \<Rightarrow> exec_task \<Rightarrow> bool \<Rightarrow> runner_state \<Rightarrow> runner_state" where
  "finish_step env t skip s =
     (let (t', exc, n) = run_with_retry (rn_retry env) (rn_policy env) (Some (rn_conf env t)) t
      in s\<lparr>rs_loop := commit (rn_loop env) (rn_handlers env) t' exc (rs_loop s),
           rs_running := remove1 (t, skip) (rs_running s),
           rs_finished := rs_finished s @ [(t', skip, exc)]\<rparr>)"

definition handle_step ::
  "runner_env \<Rightarrow> exec_task \<Rightarrow> bool \<Rightarrow> task_exc option \<Rightarrow> runner_state \<Rightarrow> runner_state res" where
  "handle_step env t skip exc s =
     (let fin = remove1 (t, skip, exc) (rs_finished s) in
      if routed env t exc
      then rmap (\<lambda>(handler, l).
             s\<lparr>rs_loop := l, rs_finished := fin,
               rs_running := rs_running s @ (case handler of None \<Rightarrow> [] | Some h \<Rightarrow> [(h, False)]),
               rs_done := rs_done s @ [\<lparr>df_exc = exc, df_handled = True, df_skip = True\<rparr>]\<rparr>)
             (schedule_error_handler (rn_loop env) t (exc_object (the exc)) (rs_loop s))
      else
        let f = \<lparr>df_exc = exc, df_handled = False, df_skip = skip\<rparr>
        in Inr (s\<lparr>rs_finished := fin, rs_done := rs_done s @ [f],
                  rs_stopped := should_stop_others [f]\<rparr>))"

text \<open>
  A call to a task from a running task: the future of a task that has its writes already is done,
  other tasks start running. The waiting thread is not told about failures of called tasks.
\<close>

definition call_step :: "runner_env \<Rightarrow> exec_task \<Rightarrow> int \<Rightarrow> call \<Rightarrow> runner_state \<Rightarrow> runner_state res" where
  "call_step env t write_idx c s =
     rmap (\<lambda>(pushed, l).
        (case pushed of
           None \<Rightarrow> s\<lparr>rs_loop := l\<rparr>
         | Some t' \<Rightarrow>
             if et_writes t' \<noteq> [] then s\<lparr>rs_loop := l\<rparr>
             else s\<lparr>rs_loop := l, rs_running := rs_running s @ [(t', True)]\<rparr>))
       (accept_push (rn_loop env) t write_idx c (rs_loop s))"

inductive runner_step :: "runner_env \<Rightarrow> runner_state \<Rightarrow> runner_state \<Rightarrow> bool" for env where
  finish: "(t, skip) \<in> set (rs_running s) \<Longrightarrow> runner_step env s (finish_step env t skip s)"
| handle: "(t, skip, exc) \<in> set (rs_finished s) \<Longrightarrow> \<not> rs_stopped s \<Longrightarrow>
    handle_step env t skip exc s = Inr s' \<Longrightarrow> runner_step env s s'"
| call: "(t, skip) \<in> set (rs_running s) \<Longrightarrow> call_step env t write_idx c s = Inr s' \<Longrightarrow> runner_step env s s'"

inductive_cases runner_stepE: "runner_step env s s'"

abbreviation runner_steps :: "runner_env \<Rightarrow> runner_state \<Rightarrow> runner_state \<Rightarrow> bool" where
  "runner_steps env \<equiv> (runner_step env)\<^sup>*\<^sup>*"

text \<open>The step ends when every task is done and handled, or a failure stops it.\<close>

definition runner_finished :: "runner_state \<Rightarrow> bool" where
  "runner_finished s = (rs_stopped s \<or> rs_running s = [] \<and> rs_finished s = [])"

subsection \<open>Nothing a step's tasks do is visible before the step ends\<close>

text \<open>What a step's tasks cannot change: everything but the pending writes, tasks and saver calls.\<close>

definition step_frame :: "loop \<Rightarrow> loop" where
  "step_frame l = l\<lparr>lp_pending := [], lp_tasks := None, lp_saver_calls := []\<rparr>"

lemma put_writes_frame [simp]: "step_frame (put_writes env tid ws l) = step_frame l"
  by (simp add: put_writes_def step_frame_def log_call_def Let_def)

lemma set_task_frame [simp]: "step_frame (set_task t l) = step_frame l"
  by (simp add: set_task_def step_frame_def)

lemma finish_task_frame [simp]: "step_frame (finish_task env t ws l) = step_frame l"
  by (simp add: finish_task_def)

lemma commit_frame [simp]: "step_frame (commit env handlers t exc l) = step_frame l"
  by (auto simp: commit_def Let_def split: option.splits task_exc.splits py_exc.splits)

lemma accept_push_frame: "accept_push env t i c l = Inr (p, l') \<Longrightarrow> step_frame l' = step_frame l"
  unfolding accept_push_def rbind_Inr_iff rmap_Inr_iff
  by (elim exE conjE) (auto simp: Let_def step_frame_def split: option.splits prepared.splits prod.splits)

lemma schedule_error_handler_frame:
  assumes "schedule_error_handler env t e l = Inr (p, l')"
  shows "step_frame l' = step_frame l"
  using assms unfolding schedule_error_handler_def
  by (auto simp: rmap_def Let_def step_frame_def split: option.splits if_splits sum.splits prod.splits)

lemma call_step_frame:
  "call_step env t i c s = Inr s' \<Longrightarrow> step_frame (rs_loop s') = step_frame (rs_loop s)"
  unfolding call_step_def rmap_Inr_iff
  by (elim exE conjE) (auto dest!: accept_push_frame split: option.splits if_splits)

lemma handle_step_frame:
  "handle_step env t skip exc s = Inr s' \<Longrightarrow> step_frame (rs_loop s') = step_frame (rs_loop s)"
  by (auto simp: handle_step_def Let_def rmap_def dest!: schedule_error_handler_frame
      split: if_splits sum.splits prod.splits)

lemma runner_step_frame: "runner_step env s s' \<Longrightarrow> step_frame (rs_loop s') = step_frame (rs_loop s)"
  by (erule runner_stepE)
    (simp_all add: finish_step_def Let_def case_prod_beta handle_step_frame call_step_frame)

lemma runner_steps_frame: "runner_steps env s s' \<Longrightarrow> step_frame (rs_loop s') = step_frame (rs_loop s)"
  by (induction rule: rtranclp_induct) (simp_all add: runner_step_frame)

text \<open>
  C14: while the tasks of a step run, in whatever order they finish, fail, call other tasks or are
  handed to error handlers, the channels, the checkpoint, the step number and everything else the
  next step starts from stay as they were: only pending writes, tasks and calls to the saver change.
\<close>

theorem step_isolation:
  assumes "runner_steps env (start_runner l) s"
  shows "lp_channels (rs_loop s) = lp_channels l \<and> lp_checkpoint (rs_loop s) = lp_checkpoint l
    \<and> lp_step (rs_loop s) = lp_step l \<and> lp_stop (rs_loop s) = lp_stop l
    \<and> lp_updated (rs_loop s) = lp_updated l \<and> lp_metadata (rs_loop s) = lp_metadata l
    \<and> lp_config (rs_loop s) = lp_config l"
proof -
  have "step_frame (rs_loop s) = step_frame l"
    using runner_steps_frame [OF assms] by (simp add: start_runner_def)
  then show ?thesis
    by (cases "rs_loop s"; cases l) (simp add: step_frame_def)
qed

definition example_runner :: runner_env where
  "example_runner =
     \<lparr>rn_loop = example_env Sync, rn_handlers = [], rn_retry = example_retry_env, rn_policy = [], rn_conf = (\<lambda>t. [])\<rparr>"

lemma step_isolation_witness:
  "\<exists>s. runner_steps example_runner (start_runner (example_loop\<lparr>lp_tasks := Some [(''t'', example_task ''n'')]\<rparr>)) s
     \<and> rs_running s = [] \<and> lp_step (rs_loop s) = 0"
proof -
  let ?l = "example_loop\<lparr>lp_tasks := Some [(''t'', example_task ''n'')]\<rparr>"
  let ?s = "finish_step example_runner (example_task ''n'') False (start_runner ?l)"
  have run: "rs_running (start_runner ?l) = [(example_task ''n'', False)]"
    by (simp add: start_runner_def tasks_to_run_def the_tasks_def example_task_def)
  have "runner_step example_runner (start_runner ?l) ?s"
    by (rule runner_step.finish) (simp add: run)
  then have s: "runner_steps example_runner (start_runner ?l) ?s" by blast
  have "rs_running ?s = []"
    using run by (simp add: finish_step_def Let_def case_prod_beta)
  then show ?thesis
    using s step_isolation [OF s] by auto
qed

subsection \<open>A finished task does not run again\<close>

lemma commit_done:
  assumes "et_id t \<noteq> NULL_TASK_ID"
  shows "writes_of (et_id t) (lp_pending (commit env handlers t None l)) =
    (if et_writes t = [] then [(NO_WRITES, VNone)] else dedupe_special (et_writes t))"
  using assms
  by (auto simp: commit_def finish_task_def writes_of_put_writes dedupe_special_def special_write_def
      WRITES_IDX_MAP_def dmem_def const_defs)



text \<open>
  A task whose only writes are the record of its answered interrupts gets no marker when it
  finishes, and is run again when the step is resumed for another task's interrupt.
\<close>

theorem resumed_silent_task_reruns:
  assumes "et_id t \<noteq> NULL_TASK_ID" and "et_writes t = [(RESUME, v)]"
    and "map_of tasks (et_id t) = Some fresh" and "et_writes fresh = []"
  shows "fresh \<in> set (tasks_to_run (l'\<lparr>lp_tasks := Some (reapply_writes_to_succeeded_nodes
            (lp_pending (commit env handlers t None l)) tasks)\<rparr>))"
proof -
  let ?ts = "reapply_writes_to_succeeded_nodes (lp_pending (commit env handlers t None l)) tasks"
  have "writes_of (et_id t) (lp_pending (commit env handlers t None l)) = [(RESUME, v)]"
    using assms(2) by (simp add: commit_done [OF assms(1)] dedupe_special_def special_write_def
        WRITES_IDX_MAP_def dmem_def const_defs dupd_def)
  then have "map_of ?ts (et_id t) = Some fresh"
    using assms(3,4) by (simp add: reapply_lookup control_write_def)
  then have "fresh \<in> set (map snd ?ts)" by (auto dest!: map_of_SomeD intro!: image_eqI)
  with assms(4) show ?thesis by (simp add: tasks_to_run_def the_tasks_def)
qed

lemma resumed_silent_task_reruns_witness:
  "(example_task ''n'')\<lparr>et_id := ''t''\<rparr> \<in> set (tasks_to_run (example_loop\<lparr>lp_tasks := Some
     (reapply_writes_to_succeeded_nodes (lp_pending (commit (example_env Sync) []
        ((example_task ''n'')\<lparr>et_id := ''t'', et_writes := [(RESUME, VList [VInt 1])]\<rparr>) None example_loop))
       [(''t'', (example_task ''n'')\<lparr>et_id := ''t''\<rparr>)])\<rparr>))"
  by (rule resumed_silent_task_reruns [where v = "VList [VInt 1]"])
    (simp_all add: NULL_TASK_ID_def example_task_def)

subsection \<open>How a step ends\<close>

definition interrupt_values :: "done_future \<Rightarrow> pyval list option" where
  "interrupt_values f =
     (case df_exc f of Some (Raised (GraphInterrupt vs)) \<Rightarrow> if df_handled f then None else Some vs | _ \<Rightarrow> None)"

definition fatal :: "done_future \<Rightarrow> bool" where
  "fatal f = (df_exc f \<noteq> None \<and> \<not> df_handled f \<and> \<not> df_skip f \<and> interrupt_values f = None)"

lemma panic_or_proceed_Cons:
  "panic_or_proceed ints (f # fs) =
     (if fatal f then Inl (the (df_exc f))
      else panic_or_proceed (ints @ (case interrupt_values f of None \<Rightarrow> [] | Some vs \<Rightarrow> [vs])) fs)"
  by (simp add: fatal_def interrupt_values_def split: option.split task_exc.split py_exc.split)

lemma panic_or_proceed_spec:
  "panic_or_proceed ints fs =
     (case find fatal fs of
        Some f \<Rightarrow> Inl (the (df_exc f))
      | None \<Rightarrow>
          if ints @ List.map_filter interrupt_values fs = [] then Inr ()
          else Inl (Raised (GraphInterrupt (concat (ints @ List.map_filter interrupt_values fs)))))"
proof (induction fs arbitrary: ints)
  case (Cons f fs)
  show ?case
    by (auto simp add: panic_or_proceed_Cons Cons.IH List.map_filter_simps simp del: panic_or_proceed.simps split: option.split)
qed (simp add: List.map_filter_simps)

text \<open>
  C27: a step goes on exactly when every task succeeded or was handled (failures of called tasks
  aside); otherwise, whatever the order in which the futures are looked at, a failure of some task is
  raised if there is one, and else one interrupt with the interrupts of all the tasks, none lost.
\<close>

theorem step_result:
  assumes "mset fs = mset done"
  shows "(panic_or_proceed [] fs = Inr () \<longleftrightarrow> (\<forall>f \<in> set done. \<not> fatal f \<and> interrupt_values f = None))
    \<and> ((\<exists>f \<in> set done. fatal f) \<longrightarrow> (\<exists>f \<in> set done. fatal f \<and> panic_or_proceed [] fs = Inl (the (df_exc f))))
    \<and> ((\<forall>f \<in> set done. \<not> fatal f) \<and> (\<exists>f \<in> set done. interrupt_values f \<noteq> None) \<longrightarrow>
        (\<exists>vs. panic_or_proceed [] fs = Inl (Raised (GraphInterrupt vs))
          \<and> mset vs = mset (concat (List.map_filter interrupt_values done))))"
proof -
  have s: "set fs = set done" using assms by (rule mset_eq_setD)
  have m: "mset (concat (List.map_filter interrupt_values fs)) = mset (concat (List.map_filter interrupt_values done))"
  proof -
    have c: "mset (concat (List.map_filter interrupt_values xs)) =
        (\<Sum>f \<in># mset xs. mset (case interrupt_values f of None \<Rightarrow> [] | Some v \<Rightarrow> v))" for xs
      by (induction xs) (auto simp: List.map_filter_simps split: option.splits)
    show ?thesis by (simp only: c assms)
  qed
  have none: "find fatal fs = None \<longleftrightarrow> (\<forall>f \<in> set done. \<not> fatal f)"
    by (auto simp: find_None_iff s [symmetric])
  have e: "List.map_filter interrupt_values fs = [] \<longleftrightarrow> (\<forall>f \<in> set done. interrupt_values f = None)"
    by (auto simp: List.map_filter_def filter_empty_conv s [symmetric])
  show ?thesis
  proof (cases "find fatal fs")
    case None
    then have nf: "\<forall>f \<in> set done. \<not> fatal f" using none by simp
    show ?thesis
    proof (cases "List.map_filter interrupt_values fs = []")
      case True
      with None nf e show ?thesis by (auto simp: panic_or_proceed_spec)
    next
      case False
      with None nf e m show ?thesis by (auto simp: panic_or_proceed_spec)
    qed
  next
    case (Some f)
    then have "f \<in> set done \<and> fatal f" by (auto simp: find_Some_iff s [symmetric])
    with Some show ?thesis by (auto simp: panic_or_proceed_spec)
  qed
qed

lemma step_result_witness:
  "\<exists>vs. panic_or_proceed []
      [\<lparr>df_exc = Some (Raised (GraphInterrupt [VInt 1])), df_handled = False, df_skip = False\<rparr>,
       \<lparr>df_exc = None, df_handled = False, df_skip = False\<rparr>,
       \<lparr>df_exc = Some (Raised (GraphInterrupt [VInt 2])), df_handled = False, df_skip = False\<rparr>]
     = Inl (Raised (GraphInterrupt vs)) \<and> mset vs = {#VInt 1, VInt 2#}"
  using step_result [OF refl, of
     "[\<lparr>df_exc = Some (Raised (GraphInterrupt [VInt 1])), df_handled = False, df_skip = False\<rparr>,
       \<lparr>df_exc = None, df_handled = False, df_skip = False\<rparr>,
       \<lparr>df_exc = Some (Raised (GraphInterrupt [VInt 2])), df_handled = False, df_skip = False\<rparr>]"]
  by (simp add: fatal_def interrupt_values_def List.map_filter_simps)

end
