(* ===== verification/Pregel_Run.thy ===== *)
theory Pregel_Run
  imports Pregel_Runner
begin

section \<open>Running a graph\<close>

text \<open>
  The main loop of \<open>Pregel.stream\<close> (\<open>pregel/main.py\<close>): enter the loop, then tick, use cached writes,
  run the tasks and apply their writes until there is nothing to do, leave, and turn the status into
  the result. How the tasks of one step are scheduled is an argument (\<open>run\<close>); \<open>runner_steps\<close> of
  \<open>Pregel_Runner\<close> says what it may do. The fuel bounds the number of iterations; the bound that is
  always enough is proved below.
\<close>

subsection \<open>What an iteration leaves alone\<close>

lemma put_checkpoint_source:
  assumes "put_checkpoint env (Some src) l = Inr l'"
  shows "lp_step l' = lp_step l + 1 \<and> lp_stop l' = lp_stop l \<and> lp_channels l' = lp_channels l
    \<and> lp_pending l' = lp_pending l \<and> lp_updated l' = lp_updated l \<and> lp_tasks l' = lp_tasks l"
  using assms by (auto simp: put_checkpoint_def Let_def rmap_Inr_iff log_call_def)

lemma resume_error_handler_frame:
  "resume_error_handler env l te = Inr l' \<Longrightarrow> step_frame l' = step_frame l"
  by (auto simp: resume_error_handler_def Let_def rmap_def step_frame_def case_prod_beta
      split: option.splits if_splits sum.splits prod.splits)

lemma resume_error_handlers_frame:
  "resume_error_handlers_if_applicable env l = Inr l' \<Longrightarrow> step_frame l' = step_frame l"
  unfolding resume_error_handlers_if_applicable_def
  by (erule rfold_invariant) (auto dest: resume_error_handler_frame)

definition tick_frame :: "loop \<Rightarrow> loop" where
  "tick_frame l = (step_frame l)\<lparr>lp_status := St_input\<rparr>"

lemma tick_cases:
  assumes "tick env drain l = (l', r)"
  shows "tick_frame l' = tick_frame l
    \<and> (r = Inr True \<longrightarrow> lp_step l \<le> lp_stop l \<and> lp_status l' = lp_status l)
    \<and> (r = Inr False \<longrightarrow> lp_status l' = (if lp_step l > lp_stop l then St_out_of_steps
          else if the_tasks l' = [] then St_done else St_draining))"
proof -
  have fr: "step_frame m' = step_frame m \<Longrightarrow> tick_frame m' = tick_frame m \<and> lp_status m' = lp_status m" for m m'
    by (cases m; cases m') (simp add: tick_frame_def step_frame_def)
  show ?thesis
    using assms unfolding tick_def
    by (auto simp: Let_def tick_frame_def step_frame_def the_tasks_def dest!: resume_error_handlers_frame fr
      split: if_splits sum.splits prod.splits)
qed

lemma tick_frame_step: "tick_frame l' = tick_frame l \<Longrightarrow> lp_step l' = lp_step l \<and> lp_stop l' = lp_stop l"
  by (cases l; cases l') (simp add: tick_frame_def step_frame_def)

lemma step_frame_step: "step_frame l' = step_frame l \<Longrightarrow> lp_step l' = lp_step l \<and> lp_stop l' = lp_stop l"
  by (cases l; cases l') (simp add: step_frame_def)

lemma after_tick_step:
  "after_tick env l = (l', Inr ()) \<Longrightarrow> lp_step l' = lp_step l + 1 \<and> lp_stop l' = lp_stop l"
  unfolding after_tick_def
  by (auto simp: Let_def dest!: put_checkpoint_source split: sum.splits prod.splits if_splits)

lemma match_cached_frame: "match_cached_writes cache l = (ms, l') \<Longrightarrow> step_frame l' = step_frame l"
  by (auto simp: match_cached_writes_def Let_def step_frame_def split: option.splits prod.splits)

subsection \<open>The main loop\<close>

type_synonym cache_get = "((string list \<times> string) list \<Rightarrow> ((string list \<times> string), writes) dict) option"

fun stream_loop ::
  "loop_env \<Rightarrow> cache_get \<Rightarrow> (loop \<Rightarrow> bool) \<Rightarrow> (loop \<Rightarrow> loop \<times> (task_exc + unit)) \<Rightarrow> nat \<Rightarrow> loop \<Rightarrow>
   (loop \<times> (task_exc + unit)) option" where
  "stream_loop env cache drain run 0 l = None"
| "stream_loop env cache drain run (Suc fuel) l =
     (case tick env (drain l) l of
        (l, Inl e) \<Rightarrow> Some (l, Inl (Raised e))
      | (l, Inr False) \<Rightarrow> Some (l, Inr ())
      | (l, Inr True) \<Rightarrow>
          (case run (snd (match_cached_writes cache l)) of
             (l, Inl e) \<Rightarrow> Some (l, Inl e)
           | (l, Inr u) \<Rightarrow>
               (case after_tick env l of
                  (l, Inl e) \<Rightarrow> Some (l, Inl (Raised e))
                | (l, Inr u) \<Rightarrow> stream_loop env cache drain run fuel l)))"

fun plain_exc :: "task_exc \<Rightarrow> py_exc" where
  "plain_exc (Raised e) = e"
| "plain_exc (ParentCommand c) = UserError ''ParentCommand''"
| "plain_exc (Drained r) = UserError ''GraphDrained''"
| "plain_exc Cancelled = UserError ''CancelledError''"

text \<open>Leaving the loop, and what \<open>stream\<close> raises for the status the loop is left with.\<close>

definition stream_exit ::
  "loop_env \<Rightarrow> loop \<times> (task_exc + unit) \<Rightarrow> task_exc + (loop \<times> pyval option)" where
  "stream_exit env lr =
     (let (l, r) = lr;
          exc = (case r of Inl e \<Rightarrow> Some e | Inr u \<Rightarrow> None)
      in case suppress_interrupt env (map_option plain_exc exc) l of
           Inl e \<Rightarrow> Inl (Raised e)
         | Inr (l, output, suppressed) \<Rightarrow>
             (case exc of
                Some e \<Rightarrow> if suppressed then Inr (l, output) else Inl e
              | None \<Rightarrow>
                  if lp_status l = St_out_of_steps then Inl (Raised (UserError ''GraphRecursionError''))
                  else if lp_status l = St_draining then Inl (Drained ''shutdown'')
                  else Inr (l, output)))"

definition pregel_stream ::
  "loop_env \<Rightarrow> (checkpoint \<Rightarrow> checkpoint) option \<Rightarrow> saved_tuple option \<Rightarrow>
   (run_config \<Rightarrow> string list \<Rightarrow> (string, delta_history) dict res) \<Rightarrow> cache_get \<Rightarrow> (loop \<Rightarrow> bool) \<Rightarrow>
   (loop \<Rightarrow> loop \<times> (task_exc + unit)) \<Rightarrow> nat \<Rightarrow> loop_input \<Rightarrow> run_config \<Rightarrow>
   (task_exc + (loop \<times> pyval option)) option" where
  "pregel_stream env migrate found history cache drain run fuel input config =
     (case rbind (loop_init input config 0) (\<lambda>(l, parent). loop_enter env migrate found history l) of
        Inl e \<Rightarrow> Some (Inl (Raised e))
      | Inr l \<Rightarrow> map_option (stream_exit env) (stream_loop env cache drain run fuel l))"

subsection \<open>Every run ends\<close>

definition keeps_step :: "(loop \<Rightarrow> loop \<times> (task_exc + unit)) \<Rightarrow> bool" where
  "keeps_step run = (\<forall>l. lp_step (fst (run l)) = lp_step l \<and> lp_stop (fst (run l)) = lp_stop l)"

lemma stream_loop_returns_aux:
  assumes "keeps_step run" and "nat (lp_stop l - lp_step l + 1) < fuel"
  shows "\<exists>l' r. stream_loop env cache drain run fuel l = Some (l', r)
    \<and> (r = Inr () \<longrightarrow> lp_status l' \<in> {St_done, St_draining, St_out_of_steps}
        \<and> (lp_status l' = St_out_of_steps \<longleftrightarrow> lp_stop l < lp_step l') \<and> lp_stop l' = lp_stop l)"
  using assms(2)
proof (induction fuel arbitrary: l)
  case (Suc fuel)
  obtain l1 r1 where t: "tick env (drain l) l = (l1, r1)" by fastforce
  note tc = tick_cases [OF t] and ts = tick_frame_step [OF tick_cases [OF t, THEN conjunct1]]
  show ?case
  proof (cases r1)
    case (Inl e)
    then show ?thesis using t by simp
  next
    case (Inr b)
    show ?thesis
    proof (cases b)
      case False
      then show ?thesis using t Inr tc ts by auto
    next
      case True
      obtain ms l2 where m: "match_cached_writes cache l1 = (ms, l2)" by fastforce
      obtain l3 r3 where r: "run l2 = (l3, r3)" by fastforce
      have s3: "lp_step l3 = lp_step l \<and> lp_stop l3 = lp_stop l"
        using assms(1) r ts step_frame_step [OF match_cached_frame [OF m]]
        unfolding keeps_step_def by (metis fst_conv)
      show ?thesis
      proof (cases r3)
        case (Inl e)
        then show ?thesis using t Inr True m r by simp
      next
        case i3: (Inr u)
        obtain l4 r4 where a: "after_tick env l3 = (l4, r4)" by fastforce
        show ?thesis
        proof (cases r4)
          case (Inl e)
          then show ?thesis using t Inr True m r a i3 by simp
        next
          case i4: (Inr v)
          have s4: "lp_step l4 = lp_step l + 1 \<and> lp_stop l4 = lp_stop l"
            using after_tick_step [of env l3 l4] a i4 s3 by simp
          moreover have "lp_step l \<le> lp_stop l" using tc Inr True by simp
          ultimately have "nat (lp_stop l4 - lp_step l4 + 1) < fuel" using Suc.prems by simp
          from Suc.IH [OF this] s4 show ?thesis
            using t Inr True m r a i3 i4 by simp
        qed
      qed
    qed
  qed
qed simp

subsection \<open>The number of steps of a whole run\<close>

lemma patch_configurable_limit [simp]:
  "rc_recursion_limit (patch_configurable (Some c) p) = rc_recursion_limit c"
  by (simp add: patch_configurable_def split: option.split)

lemma put_writes_step: "lp_step (put_writes env t ws l) = lp_step l \<and> lp_stop (put_writes env t ws l) = lp_stop l"
  by (rule step_frame_step) simp

lemma fold_put_writes_step:
  "lp_step (foldl (\<lambda>l (tid, tws). put_writes env tid tws l) l ws) = lp_step l
   \<and> lp_stop (foldl (\<lambda>l (tid, tws). put_writes env tid tws l) l ws) = lp_stop l"
  by (induction ws arbitrary: l) (auto simp: put_writes_step)

lemma first_command_step: "first_command env cmd l = Inr l' \<Longrightarrow> lp_step l' = lp_step l \<and> lp_stop l' = lp_stop l"
  by (auto simp: first_command_def Let_def rbind_Inr_iff fold_put_writes_step split: if_splits option.splits)

lemma apply_null_writes_step:
  "apply_null_writes env u l = Inr (l', u') \<Longrightarrow> lp_step l' = lp_step l \<and> lp_stop l' = lp_stop l"
  by (auto simp: apply_null_writes_def Let_def rmap_def split: if_splits sum.splits prod.splits)

lemma first_input_step:
  "first_input env u ws l = Inr (l', u') \<Longrightarrow> lp_step l' = lp_step l + 1 \<and> lp_stop l' = lp_stop l"
  by (auto simp: first_input_def Let_def rbind_def rmap_def put_writes_step
      dest!: put_checkpoint_source split: if_splits sum.splits prod.splits)

lemma first_resume_step:
  "first_resume env b l = Inr l' \<Longrightarrow> lp_step l \<le> lp_step l' \<and> lp_stop l' = lp_stop l"
  by (auto simp: first_resume_def Let_def dest!: put_checkpoint_source split: if_splits)

lemma first_source_step:
  "(case i of In_Command cmd \<Rightarrow> first_command env cmd l | _ \<Rightarrow> Inr l) = Inr l' \<Longrightarrow> lp_step l' = lp_step l \<and> lp_stop l' = lp_stop l"
  by (auto split: loop_input.splits dest: first_command_step)

lemma loop_first_step:
  assumes "loop_first env u l = Inr (l', u')"
  shows "lp_step l \<le> lp_step l' \<and> lp_stop l' = lp_stop l"
  using assms unfolding loop_first_def Let_def rbind_Inr_iff case_prod_beta
proof (elim exE conjE, goal_cases)
  case (1 l1 x y)
  have s1: "lp_step l1 = lp_step l \<and> lp_stop l1 = lp_stop l"
    using first_source_step [OF 1(1)] by (simp split: if_splits)
  have s2: "lp_step (fst x) = lp_step l1 \<and> lp_stop (fst x) = lp_stop l1"
    using 1(2) apply_null_writes_step [of env u l1 "fst x" "snd x"] by simp
  have s3: "lp_step (fst x) \<le> lp_step (fst y) \<and> lp_stop (fst y) = lp_stop (fst x)"
  proof (cases "is_resuming l")
    case True
    with 1(3) show ?thesis by (auto simp: rmap_Inr_iff dest: first_resume_step)
  next
    case False
    with 1(3) obtain ws where ws: "(if ws \<noteq> [] then first_input env (snd x) ws (fst x)
        else if \<not> dmem CONFIG_KEY_RESUMING (conf_of (lp_config l)) then Inl (EmptyInputError ''Received no input'')
        else Inr (fst x, snd x)) = Inr y"
      by (auto simp: rbind_Inr_iff)
    then show ?thesis
      using first_input_step [of env "snd x" ws "fst x" "fst y" "snd y"] by (auto split: if_splits)
  qed
  have "lp_step l' = lp_step (fst y) \<and> lp_stop l' = lp_stop (fst y)"
    using 1(4) by (auto split: if_splits)
  with s1 s2 s3 show ?case by simp
qed

lemma loop_enter_steps:
  assumes "loop_enter env migrate found history l = Inr l'" and "rc_recursion_limit (lp_config l) = Some n"
  shows "lp_stop l' \<le> lp_step l' + n + 1"
  using assms unfolding loop_enter_def Let_def rbind_Inr_iff case_prod_beta
  by (auto simp: rmap_Inr_iff dest!: loop_first_step)

lemma if_limit: "rc_recursion_limit (if b then c else d) = (if b then rc_recursion_limit c else rc_recursion_limit d)"
  by simp

lemma loop_init_limit:
  assumes "loop_init input config clock = Inr (l, p)"
  shows "rc_recursion_limit (lp_config l) = rc_recursion_limit config"
proof (cases "rc_conf config")
  case None
  with assms show ?thesis by (simp add: loop_init_def)
next
  case (Some conf)
  have if_Inr: "(if b then Inl e else Inr x) = Inr y \<Longrightarrow> x = y" for b and e :: py_exc and x y :: "loop \<times> scratchpad option"
    by (simp split: if_splits)
  note r = if_Inr [OF assms [unfolded loop_init_def Let_def Some option.case]]
  show ?thesis
    by (simp only: r [symmetric, THEN arg_cong [where f = fst], unfolded fst_conv] loop.simps if_limit
        patch_configurable_limit if_cancel)
qed

text \<open>A scheduler that follows the runner's steps.\<close>

definition follows_runner :: "runner_env \<Rightarrow> (loop \<Rightarrow> loop \<times> (task_exc + unit)) \<Rightarrow> bool" where
  "follows_runner renv run = (\<forall>l. \<exists>s. runner_steps renv (start_runner l) s \<and> fst (run l) = rs_loop s)"

lemma follows_keeps_step: "follows_runner renv run \<Longrightarrow> keeps_step run"
  unfolding follows_runner_def keeps_step_def
proof
  fix l
  assume "\<forall>l. \<exists>s. runner_steps renv (start_runner l) s \<and> fst (run l) = rs_loop s"
  then obtain s where s: "runner_steps renv (start_runner l) s" and r: "fst (run l) = rs_loop s" by blast
  have "step_frame (rs_loop s) = step_frame l"
    using runner_steps_frame [OF s] by (simp add: start_runner_def)
  from step_frame_step [OF this] r show "lp_step (fst (run l)) = lp_step l \<and> lp_stop (fst (run l)) = lp_stop l"
    by simp
qed

text \<open>
  C6: every run of a graph ends: with recursion limit \<open>n\<close> it takes at most \<open>n + 2\<close> supersteps, whatever
  the tasks do and however they are scheduled.
\<close>

theorem every_run_ends:
  assumes "follows_runner renv run" and "rc_recursion_limit config = Some (int n)"
  shows "\<exists>r. pregel_stream env migrate found history cache drain run (n + 3) input config = Some r"
proof (cases "rbind (loop_init input config 0) (\<lambda>(l, parent). loop_enter env migrate found history l)")
  case (Inl e)
  then show ?thesis by (simp add: pregel_stream_def)
next
  case (Inr l)
  then obtain l0 p where "loop_init input config 0 = Inr (l0, p)" and "loop_enter env migrate found history l0 = Inr l"
    by (auto simp: rbind_Inr_iff)
  then have "lp_stop l \<le> lp_step l + int n + 1"
    using assms(2) loop_init_limit loop_enter_steps by metis
  then have "nat (lp_stop l - lp_step l + 1) < n + 3" by linarith
  with stream_loop_returns_aux [OF follows_keeps_step [OF assms(1)]] obtain l' r
    where "stream_loop env cache drain run (n + 3) l = Some (l', r)" by blast
  with Inr show ?thesis by (simp add: pregel_stream_def)
qed

lemma every_run_ends_witness:
  "\<exists>r. pregel_stream (example_env Sync) None None (\<lambda>c ks. Inr []) None (\<lambda>l. False) (\<lambda>l. (l, Inr ())) 5
     (In_Value (VInt 1)) (empty_config\<lparr>rc_recursion_limit := Some 2, rc_conf := Some []\<rparr>) = Some r"
proof -
  have "follows_runner example_runner (\<lambda>l. (l, Inr ()))"
    unfolding follows_runner_def
    by (auto intro!: exI [of _ "start_runner l" for l] simp: start_runner_def)
  then show ?thesis
    using every_run_ends [of example_runner "\<lambda>l. (l, Inr ())"
      "empty_config\<lparr>rc_recursion_limit := Some 2, rc_conf := Some []\<rparr>" 2] by simp
qed

text \<open>
  A run that is not stopped by an exception ends because no task is left, because it was asked to
  drain, or because it is past its last step, and the last is reported exactly then; it ends within
  one iteration more than the steps it has left.
\<close>

theorem stream_loop_status:
  assumes "keeps_step run"
  shows "\<exists>l' r. stream_loop env cache drain run (nat (lp_stop l - lp_step l + 1) + 1) l = Some (l', r)
    \<and> (r = Inr () \<longrightarrow> lp_status l' \<in> {St_done, St_draining, St_out_of_steps}
        \<and> (lp_status l' = St_out_of_steps \<longleftrightarrow> lp_stop l < lp_step l'))"
  using stream_loop_returns_aux [OF assms, of l "nat (lp_stop l - lp_step l + 1) + 1" env cache drain] by auto

lemma stream_loop_status_witness:
  "\<exists>l'. stream_loop (example_env Sync) None (\<lambda>l. False) (\<lambda>l. (l, Inr ())) 1 (example_loop\<lparr>lp_step := 1\<rparr>)
     = Some (l', Inr ()) \<and> lp_status l' = St_out_of_steps"
proof -
  have "keeps_step (\<lambda>l. (l, Inr ()))" by (simp add: keeps_step_def)
  from stream_loop_status [OF this, of "example_env Sync" None "\<lambda>l. False" "example_loop\<lparr>lp_step := 1\<rparr>"]
  show ?thesis by (simp add: tick_def)
qed

end
