(* ===== verification/Serde.thy ===== *)
theory Serde
  imports LG_Prelude
begin

section \<open>Serializers\<close>

text \<open>
  \<open>JsonPlusSerializer.dumps_typed\<close>/\<open>loads_typed\<close> and \<open>EncryptedSerializer\<close> of \<open>checkpoint/serde\<close>. The
  msgpack, JSON and pickle libraries and the cipher are parameters. Byte strings are strings; values
  that are themselves byte strings are not in the value universe. A serializer's contract is the
  locale \<open>serializer\<close>: the values it supports (\<open>ok\<close>) come back.
\<close>

record codec =
  msgpack_enc :: "pyval \<Rightarrow> string option"
  msgpack_dec :: "string \<Rightarrow> pyval"
  json_dec :: "string \<Rightarrow> pyval"
  pickle_fallback :: bool
  pickle_enc :: "pyval \<Rightarrow> string"
  pickle_dec :: "string \<Rightarrow> pyval"

definition JsonPlus_dumps_typed :: "codec \<Rightarrow> pyval \<Rightarrow> (string \<times> string) res" where
  "JsonPlus_dumps_typed c obj =
     (if obj = VNone then Inr (''null'', [])
      else case msgpack_enc c obj of
             Some d \<Rightarrow> Inr (''msgpack'', d)
           | None \<Rightarrow> if pickle_fallback c then Inr (''pickle'', pickle_enc c obj)
                     else Inl (UserError ''MsgpackEncodeError''))"

definition JsonPlus_loads_typed :: "codec \<Rightarrow> string \<times> string \<Rightarrow> pyval res" where
  "JsonPlus_loads_typed c data =
     (let (type_name, payload) = data in
      if type_name = ''null'' then Inr VNone
      else if type_name = ''json'' then Inr (json_dec c payload)
      else if type_name = ''msgpack'' then Inr (msgpack_dec c payload)
      else if pickle_fallback c \<and> type_name = ''pickle'' then Inr (pickle_dec c payload)
      else Inl (UserError ''NotImplementedError''))"

record cipher =
  encrypt :: "string \<Rightarrow> string \<times> string"
  decrypt :: "string \<Rightarrow> string \<Rightarrow> string"

type_synonym dumps = "pyval \<Rightarrow> (string \<times> string) res"
type_synonym loads = "string \<times> string \<Rightarrow> pyval res"

definition Encrypted_dumps_typed :: "cipher \<Rightarrow> dumps \<Rightarrow> dumps" where
  "Encrypted_dumps_typed c base obj =
     rmap (\<lambda>(typ, data). let (ciphername, ciphertext) = encrypt c data
                         in (typ @ ''+'' @ ciphername, ciphertext)) (base obj)"

text \<open>\<open>s.split("+", 1)\<close>\<close>

definition split_once :: "char \<Rightarrow> string \<Rightarrow> string \<times> string" where
  "split_once c s = (takeWhile (\<lambda>x. x \<noteq> c) s, tl (dropWhile (\<lambda>x. x \<noteq> c) s))"

definition Encrypted_loads_typed :: "cipher \<Rightarrow> loads \<Rightarrow> loads" where
  "Encrypted_loads_typed c base data =
     (let (enc_cipher, ciphertext) = data in
      if CHR ''+'' \<notin> set enc_cipher then base data
      else let (typ, ciphername) = split_once (CHR ''+'') enc_cipher
           in base (typ, decrypt c ciphername ciphertext))"

subsection \<open>The contract\<close>

locale serializer =
  fixes dumps :: dumps and loads :: loads and ok :: "pyval \<Rightarrow> bool"
  assumes roundtrip: "ok v \<Longrightarrow> \<exists>t d. dumps v = Inr (t, d) \<and> loads (t, d) = Inr v \<and> t \<noteq> ''empty''"
begin

lemma dumps_loads: "ok v \<Longrightarrow> rbind (dumps v) loads = Inr v"
  using roundtrip by fastforce

lemma dumps_total: "ok v \<Longrightarrow> \<exists>t d. dumps v = Inr (t, d) \<and> t \<noteq> ''empty''"
  using roundtrip by blast

end

text \<open>A serializer whose types name no cipher, as an encrypting one needs for its base.\<close>

locale plain_serializer = serializer +
  assumes no_cipher: "dumps v = Inr (t, d) \<Longrightarrow> CHR ''+'' \<notin> set t"

locale encrypted = plain_serializer +
  fixes c :: cipher and cok :: "string \<Rightarrow> bool"
  assumes decrypts: "cok d \<Longrightarrow> decrypt c (fst (encrypt c d)) (snd (encrypt c d)) = d"
begin

lemma loads_plain: "CHR ''+'' \<notin> set t \<Longrightarrow> Encrypted_loads_typed c loads (t, d) = loads (t, d)"
  by (simp add: Encrypted_loads_typed_def)

lemma split_type: "CHR ''+'' \<notin> set t \<Longrightarrow> split_once (CHR ''+'') (t @ CHR ''+'' # n) = (t, n)"
  by (induction t) (auto simp: split_once_def)

end

sublocale encrypted \<subseteq> enc: serializer "Encrypted_dumps_typed c dumps" "Encrypted_loads_typed c loads"
  "\<lambda>v. ok v \<and> (\<forall>t d. dumps v = Inr (t, d) \<longrightarrow> cok d)"
proof (unfold_locales, goal_cases)
  case (1 v)
  then obtain t d where d: "dumps v = Inr (t, d)" "loads (t, d) = Inr v" "cok d"
    using roundtrip by blast
  obtain n x where e: "encrypt c d = (n, x)" by fastforce
  have t: "CHR ''+'' \<notin> set t" using no_cipher [OF d(1)] .
  have "decrypt c n x = d" using decrypts [OF d(3)] e by simp
  then have "Encrypted_loads_typed c loads (t @ ''+'' @ n, x) = Inr v"
    using d(2) by (simp add: Encrypted_loads_typed_def split_type [OF t])
  moreover have "t @ ''+'' @ n \<noteq> ''empty''"
  proof
    assume "t @ ''+'' @ n = ''empty''"
    then have "CHR ''+'' \<in> set ''empty''" by (metis append_Cons in_set_conv_decomp)
    then show False by simp
  qed
  ultimately show ?case
    using d(1) e by (auto simp: Encrypted_dumps_typed_def)
qed

text \<open>The values a codec supports, and the byte strings a cipher returns unchanged.\<close>

definition packable :: "codec \<Rightarrow> pyval \<Rightarrow> bool" where
  "packable c v =
     (v = VNone \<or> (case msgpack_enc c v of Some d \<Rightarrow> msgpack_dec c d = v
                   | None \<Rightarrow> pickle_fallback c \<and> pickle_dec c (pickle_enc c v) = v))"

definition cipher_ok :: "cipher \<Rightarrow> string \<Rightarrow> bool" where
  "cipher_ok c d = (decrypt c (fst (encrypt c d)) (snd (encrypt c d)) = d)"

lemma JsonPlus_roundtrip:
  assumes "packable k v"
  shows "\<exists>t d. JsonPlus_dumps_typed k v = Inr (t, d) \<and> JsonPlus_loads_typed k (t, d) = Inr v \<and> t \<noteq> ''empty''"
proof (cases "v = VNone")
  case True
  then show ?thesis by (simp add: JsonPlus_dumps_typed_def JsonPlus_loads_typed_def)
next
  case False
  with assms show ?thesis
    by (cases "msgpack_enc k v") (simp_all add: JsonPlus_dumps_typed_def JsonPlus_loads_typed_def packable_def)
qed

lemma JsonPlus_no_cipher: "JsonPlus_dumps_typed k v = Inr (t, d) \<Longrightarrow> CHR ''+'' \<notin> set t"
  by (cases "msgpack_enc k v") (auto simp: JsonPlus_dumps_typed_def split: if_split_asm)

interpretation json: encrypted "JsonPlus_dumps_typed k" "JsonPlus_loads_typed k" "packable k" c "cipher_ok c"
  for k c
proof (unfold_locales, goal_cases)
  case (1 v)
  then show ?case by (rule JsonPlus_roundtrip)
next
  case (2 v t d)
  then show ?case by (rule JsonPlus_no_cipher)
next
  case (3 d)
  then show ?case by (simp add: cipher_ok_def)
qed

text \<open>
  What an encrypting serializer writes it reads back, for every value its base serializer
  supports and every cipher that decrypts what it encrypted; and it still reads data written without
  encryption.
\<close>

theorem encrypted_roundtrip:
  assumes "packable k v" and "\<And>t d. JsonPlus_dumps_typed k v = Inr (t, d) \<Longrightarrow> cipher_ok c d"
  shows "rbind (Encrypted_dumps_typed c (JsonPlus_dumps_typed k) v)
        (Encrypted_loads_typed c (JsonPlus_loads_typed k)) = Inr v
    \<and> rbind (JsonPlus_dumps_typed k v) (Encrypted_loads_typed c (JsonPlus_loads_typed k)) = Inr v"
proof
  show "rbind (Encrypted_dumps_typed c (JsonPlus_dumps_typed k) v)
        (Encrypted_loads_typed c (JsonPlus_loads_typed k)) = Inr v"
    by (rule json.enc.dumps_loads) (use assms in blast)
  obtain t d where "JsonPlus_dumps_typed k v = Inr (t, d)" and "JsonPlus_loads_typed k (t, d) = Inr v"
    using JsonPlus_roundtrip [OF assms(1)] by blast
  then show "rbind (JsonPlus_dumps_typed k v) (Encrypted_loads_typed c (JsonPlus_loads_typed k)) = Inr v"
    using json.loads_plain [of t] JsonPlus_no_cipher by (simp del: json.loads_plain)
qed

definition example_codec :: codec where
  "example_codec =
     \<lparr>msgpack_enc = (\<lambda>v. case v of VStr s \<Rightarrow> Some s | _ \<Rightarrow> None), msgpack_dec = VStr, json_dec = VStr,
      pickle_fallback = False, pickle_enc = (\<lambda>v. []), pickle_dec = (\<lambda>s. VNone)\<rparr>"

definition example_cipher :: cipher where
  "example_cipher = \<lparr>encrypt = (\<lambda>s. (''aes'', rev s)), decrypt = (\<lambda>n s. rev s)\<rparr>"

lemma encrypted_roundtrip_witness:
  "rbind (Encrypted_dumps_typed example_cipher (JsonPlus_dumps_typed example_codec) (VStr ''secret''))
     (Encrypted_loads_typed example_cipher (JsonPlus_loads_typed example_codec)) = Inr (VStr ''secret'')"
  by (rule encrypted_roundtrip [THEN conjunct1])
    (simp_all add: packable_def cipher_ok_def example_codec_def example_cipher_def)

end
