(* ===== verification/Memory_Saver.thy ===== *)
theory Memory_Saver
  imports Pregel_Loop Serde "HOL-Library.Product_Lexorder"
begin

section \<open>The in-memory checkpoint saver\<close>

text \<open>
  \<open>InMemorySaver\<close> (\<open>checkpoint/memory\<close>) and the helpers and default methods of \<open>BaseCheckpointSaver\<close>
  it uses (\<open>checkpoint/base\<close>). The saver's three dictionaries are the fields of \<open>memory_saver\<close>; blobs
  and writes are stored serialized, by the serializer's functions, which are parameters; checkpoints
  and metadata are stored as records. Reading a missing entry of a \<open>defaultdict\<close> leaves an empty one
  behind, which no method can see and the model leaves out. \<open>CheckpointTuple\<close> is \<open>saved_tuple\<close>.
\<close>

type_synonym blob = "string \<times> string"

text \<open>A stored checkpoint: without its values, with its metadata and their extra keys, and its parent's id.\<close>

record stored_checkpoint =
  st_checkpoint :: checkpoint
  st_metadata :: ckpt_meta
  st_extra :: "(string, pyval) dict"
  st_parent :: "string option"

type_synonym write_entry_key = "string \<times> int"

record memory_saver =
  ms_storage :: "(string, (string, (string, stored_checkpoint) dict) dict) dict"
  ms_writes :: "(string \<times> string \<times> string, (write_entry_key, string \<times> string \<times> blob \<times> string) dict) dict"
  ms_blobs :: "(string \<times> string \<times> string \<times> version, blob) dict"

definition empty_saver :: memory_saver where
  "empty_saver = \<lparr>ms_storage = [], ms_writes = [], ms_blobs = []\<rparr>"

definition ns_storage :: "memory_saver \<Rightarrow> string \<Rightarrow> string \<Rightarrow> (string, stored_checkpoint) dict" where
  "ns_storage s thread ns = dgetd (dgetd (ms_storage s) thread []) ns []"

subsection \<open>Configs and metadata\<close>

definition conf_key :: "run_config \<Rightarrow> string \<Rightarrow> string res" where
  "conf_key c k = (case conf_str c k of None \<Rightarrow> Inl (KeyError k) | Some s \<Rightarrow> Inr s)"

definition conf_ns_or_root :: "run_config \<Rightarrow> string" where
  "conf_ns_or_root c = (case conf_str c CONFIG_KEY_CHECKPOINT_NS of None \<Rightarrow> [] | Some s \<Rightarrow> s)"

definition get_checkpoint_id :: "run_config \<Rightarrow> string option" where
  "get_checkpoint_id c = conf_str c CONFIG_KEY_CHECKPOINT_ID"

definition saver_config :: "string \<Rightarrow> string \<Rightarrow> string \<Rightarrow> run_config" where
  "saver_config thread ns cid =
     empty_config\<lparr>rc_conf := Some
       [(CONFIG_KEY_THREAD_ID, CStr thread), (CONFIG_KEY_CHECKPOINT_NS, CStr ns), (CONFIG_KEY_CHECKPOINT_ID, CStr cid)]\<rparr>"

definition EXCLUDED_METADATA_KEYS :: "string list" where
  "EXCLUDED_METADATA_KEYS =
     [''thread_id'', ''checkpoint_id'', ''checkpoint_ns'', ''checkpoint_map'', ''langgraph_step'',
      ''langgraph_node'', ''langgraph_triggers'', ''langgraph_path'', ''langgraph_checkpoint_ns'']"

definition strip_nul :: "string \<Rightarrow> string" where
  "strip_nul s = filter (\<lambda>c. of_char c \<noteq> (0 :: nat)) s"

text \<open>A configuration's value as a metadata value: strings, and numbers and booleans as they are.\<close>

definition confval_meta :: "confval \<Rightarrow> pyval option" where
  "confval_meta v =
     (case v of
        CStr s \<Rightarrow> Some (VStr (strip_nul s))
      | CBool b \<Rightarrow> Some (VBool b)
      | CVal (VStr s) \<Rightarrow> Some (VStr (strip_nul s))
      | CVal (VInt i) \<Rightarrow> Some (VInt i)
      | CVal (VBool b) \<Rightarrow> Some (VBool b)
      | _ \<Rightarrow> None)"

definition add_meta :: "(string, pyval) dict \<Rightarrow> string \<times> confval \<Rightarrow> (string, pyval) dict" where
  "add_meta d kv =
     (let (k, v) = kv in
      if dmem k d \<or> k \<in> set EXCLUDED_METADATA_KEYS \<or> take 2 k = ''__'' then d
      else case confval_meta v of None \<Rightarrow> d | Some w \<Rightarrow> dset k w d)"

text \<open>The metadata's own keys as a dictionary: what \<open>filter\<close> looks into.\<close>

definition meta_items :: "ckpt_meta \<Rightarrow> (string, pyval) dict" where
  "meta_items m =
     (case cm_source m of None \<Rightarrow> [] | Some s \<Rightarrow> [(''source'', VStr (strip_nul s))])
     @ [(''step'', VInt (cm_step m)),
        (''parents'', VDict (map (\<lambda>(k, v). (k, VStr v)) (cm_parents m)))]
     @ (case cm_run_id m of None \<Rightarrow> []
        | Some r \<Rightarrow> [(''run_id'', case r of VStr s \<Rightarrow> VStr (strip_nul s) | _ \<Rightarrow> r)])
     @ (if cm_counters m = [] then []
        else [(''counters_since_delta_snapshot'',
               VDict (map (\<lambda>(k, (u, s)). (k, VTuple [VInt u, VInt s])) (cm_counters m)))])"

definition get_checkpoint_metadata :: "run_config \<Rightarrow> ckpt_meta \<Rightarrow> (string, pyval) dict" where
  "get_checkpoint_metadata config m =
     foldl add_meta (meta_items m)
       (map (\<lambda>(k, v). (k, CVal v)) (case rc_metadata config of None \<Rightarrow> [] | Some d \<Rightarrow> d) @ conf_of config)"

subsection \<open>Writing\<close>

definition blob_of :: "dumps \<Rightarrow> (string, pyval) dict \<Rightarrow> string \<Rightarrow> blob res" where
  "blob_of dumps values k = (case map_of values k of None \<Rightarrow> Inr (''empty'', []) | Some v \<Rightarrow> dumps v)"

definition put_blobs ::
  "dumps \<Rightarrow> string \<Rightarrow> string \<Rightarrow> (string, pyval) dict \<Rightarrow> versions \<Rightarrow>
   (string \<times> string \<times> string \<times> version, blob) dict \<Rightarrow> (string \<times> string \<times> string \<times> version, blob) dict res" where
  "put_blobs dumps thread ns values new_versions blobs =
     rfold (\<lambda>b (k, v). rmap (\<lambda>x. dset (thread, ns, k, v) x b) (blob_of dumps values k)) blobs new_versions"

definition new_entry :: "run_config \<Rightarrow> checkpoint \<Rightarrow> ckpt_meta \<Rightarrow> stored_checkpoint" where
  "new_entry config checkpoint metadata =
     (let meta = get_checkpoint_metadata config metadata in
      \<lparr>st_checkpoint = checkpoint\<lparr>channel_values := []\<rparr>,
       st_metadata = metadata\<lparr>cm_run_id := map_of meta ''run_id''\<rparr>,
       st_extra = filter (\<lambda>(k, v). \<not> dmem k (meta_items metadata)) meta,
       st_parent = conf_str config CONFIG_KEY_CHECKPOINT_ID\<rparr>)"

lemma new_entry_simps [simp]:
  "st_checkpoint (new_entry config cp m) = cp\<lparr>channel_values := []\<rparr>"
  "st_parent (new_entry config cp m) = conf_str config CONFIG_KEY_CHECKPOINT_ID"
  by (simp_all add: new_entry_def Let_def)

definition saver_put ::
  "dumps \<Rightarrow> run_config \<Rightarrow> checkpoint \<Rightarrow> ckpt_meta \<Rightarrow> versions \<Rightarrow> memory_saver \<Rightarrow> (memory_saver \<times> run_config) res" where
  "saver_put dumps config checkpoint metadata new_versions s =
     rbind (conf_key config CONFIG_KEY_THREAD_ID) (\<lambda>thread.
     rbind (conf_key config CONFIG_KEY_CHECKPOINT_NS) (\<lambda>ns.
     rmap (\<lambda>blobs.
       let entry = new_entry config checkpoint metadata;
           nss = dgetd (ms_storage s) thread []
       in (s\<lparr>ms_blobs := blobs,
             ms_storage := dset thread (dset ns (dset (cp_id checkpoint) entry (dgetd nss ns [])) nss) (ms_storage s)\<rparr>,
           saver_config thread ns (cp_id checkpoint)))
       (put_blobs dumps thread ns (channel_values checkpoint) new_versions (ms_blobs s))))"

definition write_key :: "string \<Rightarrow> nat \<Rightarrow> string \<Rightarrow> write_entry_key" where
  "write_key task_id idx c = (task_id, case map_of WRITES_IDX_MAP c of None \<Rightarrow> int idx | Some i \<Rightarrow> i)"

definition put_write ::
  "dumps \<Rightarrow> bool \<Rightarrow> string \<Rightarrow> string \<Rightarrow> (write_entry_key, string \<times> string \<times> blob \<times> string) dict \<Rightarrow>
   nat \<times> string \<times> pyval \<Rightarrow> (write_entry_key, string \<times> string \<times> blob \<times> string) dict res" where
  "put_write dumps had_writes task_id task_path d iw =
     (let (idx, c, v) = iw; key = write_key task_id idx c in
      if snd key \<ge> 0 \<and> had_writes \<and> dmem key d then Inr d
      else rmap (\<lambda>b. dset key (task_id, c, b, task_path) d) (dumps v))"

definition saver_put_writes ::
  "dumps \<Rightarrow> run_config \<Rightarrow> writes \<Rightarrow> string \<Rightarrow> string \<Rightarrow> memory_saver \<Rightarrow> memory_saver res" where
  "saver_put_writes dumps config ws task_id task_path s =
     rbind (conf_key config CONFIG_KEY_THREAD_ID) (\<lambda>thread.
     rbind (conf_key config CONFIG_KEY_CHECKPOINT_ID) (\<lambda>cid.
       let outer = (thread, conf_ns_or_root config, cid);
           old = dgetd (ms_writes s) outer []
       in if ws = [] then Inr s
          else rmap (\<lambda>d. s\<lparr>ms_writes := dset outer d (ms_writes s)\<rparr>)
                 (rfold (put_write dumps (old \<noteq> []) task_id task_path) old (zip [0..<length ws] ws))))"

definition delete_thread :: "string \<Rightarrow> memory_saver \<Rightarrow> memory_saver" where
  "delete_thread thread s =
     \<lparr>ms_storage = ddel thread (ms_storage s),
      ms_writes = filter (\<lambda>(k, d). fst k \<noteq> thread) (ms_writes s),
      ms_blobs = filter (\<lambda>(k, b). fst k \<noteq> thread) (ms_blobs s)\<rparr>"

subsection \<open>Reading\<close>

definition load_blob ::
  "loads \<Rightarrow> memory_saver \<Rightarrow> string \<Rightarrow> string \<Rightarrow> (string, pyval) dict \<Rightarrow> string \<times> version \<Rightarrow> (string, pyval) dict res" where
  "load_blob loads s thread ns result kv =
     (let (k, ver) = kv in
      case map_of (ms_blobs s) (thread, ns, k, ver) of
        None \<Rightarrow> Inr result
      | Some b \<Rightarrow> if fst b = ''empty'' then Inr result else rmap (\<lambda>v. dset k v result) (loads b))"

definition load_blobs :: "loads \<Rightarrow> memory_saver \<Rightarrow> string \<Rightarrow> string \<Rightarrow> versions \<Rightarrow> (string, pyval) dict res" where
  "load_blobs loads s thread ns versions = rfold (load_blob loads s thread ns) [] versions"

definition load_writes ::
  "loads \<Rightarrow> memory_saver \<Rightarrow> string \<Rightarrow> string \<Rightarrow> string \<Rightarrow> pending_write list res" where
  "load_writes loads s thread ns cid =
     rmapM (\<lambda>(key, tid, c, b, path). rmap (\<lambda>v. (tid, c, v)) (loads b)) (dgetd (ms_writes s) (thread, ns, cid) [])"

definition checkpoint_tuple ::
  "loads \<Rightarrow> memory_saver \<Rightarrow> string \<Rightarrow> string \<Rightarrow> run_config \<Rightarrow> string \<Rightarrow> stored_checkpoint \<Rightarrow> saved_tuple res" where
  "checkpoint_tuple loads s thread ns config cid e =
     rbind (load_blobs loads s thread ns (channel_versions (st_checkpoint e))) (\<lambda>values.
     rmap (\<lambda>ws.
        \<lparr>sv_config = config,
         sv_checkpoint = (st_checkpoint e)\<lparr>channel_values := values\<rparr>,
         sv_metadata = st_metadata e,
         sv_parent_config = (case st_parent e of None \<Rightarrow> None
                             | Some p \<Rightarrow> if p \<noteq> [] then Some (saver_config thread ns p) else None),
         sv_pending = Some ws\<rparr>)
       (load_writes loads s thread ns cid))"

definition latest_id :: "(string, stored_checkpoint) dict \<Rightarrow> string" where
  "latest_id d = Max (set (dkeys d))"

definition saver_get_tuple :: "loads \<Rightarrow> memory_saver \<Rightarrow> run_config \<Rightarrow> saved_tuple option res" where
  "saver_get_tuple loads s config =
     rbind (conf_key config CONFIG_KEY_THREAD_ID) (\<lambda>thread.
       let ns = conf_ns_or_root config; cps = ns_storage s thread ns;
           cid = (case get_checkpoint_id config of None \<Rightarrow> [] | Some i \<Rightarrow> i)
       in if cid \<noteq> []
          then case map_of cps cid of
                 None \<Rightarrow> Inr None
               | Some e \<Rightarrow> rmap Some (checkpoint_tuple loads s thread ns config cid e)
          else if cps = [] then Inr None
          else let cid = latest_id cps in
               rmap Some (checkpoint_tuple loads s thread ns (saver_config thread ns cid) cid (the (map_of cps cid))))"

definition saver_meta :: "stored_checkpoint \<Rightarrow> (string, pyval) dict" where
  "saver_meta e = meta_items (st_metadata e) @ st_extra e"

definition list_matches ::
  "string option \<Rightarrow> (string, pyval) dict option \<Rightarrow> run_config option \<Rightarrow> string \<times> stored_checkpoint \<Rightarrow> bool" where
  "list_matches config_id flt earlier ce =
     ((config_id = None \<or> config_id = Some [] \<or> config_id = Some (fst ce))
      \<and> (case earlier of None \<Rightarrow> True
         | Some b \<Rightarrow> (case get_checkpoint_id b of None \<Rightarrow> True | Some i \<Rightarrow> i = [] \<or> fst ce < i))
      \<and> (case flt of None \<Rightarrow> True
         | Some q \<Rightarrow> \<forall>(k, v) \<in> set q. v = dgetd (saver_meta (snd ce)) k VNone))"

text \<open>Newest first within a namespace; the limit counts over all namespaces and threads.\<close>

definition list_entries ::
  "memory_saver \<Rightarrow> run_config option \<Rightarrow> (string, pyval) dict option \<Rightarrow> run_config option \<Rightarrow> int option \<Rightarrow>
   (string \<times> string \<times> string \<times> stored_checkpoint) list res" where
  "list_entries s config flt earlier limit =
     rmap (\<lambda>threads.
        let config_ns = (case config of None \<Rightarrow> None | Some c \<Rightarrow> conf_str c CONFIG_KEY_CHECKPOINT_NS);
            config_id = (case config of None \<Rightarrow> None | Some c \<Rightarrow> get_checkpoint_id c);
            found = concat (map (\<lambda>thread. concat (map (\<lambda>(ns, cps).
                       if config_ns \<noteq> None \<and> config_ns \<noteq> Some ns then []
                       else map (\<lambda>(cid, e). (thread, ns, cid, e))
                              (filter (list_matches config_id flt earlier) (rev (sort_key fst cps))))
                     (dgetd (ms_storage s) thread []))) threads)
        in case limit of None \<Rightarrow> found | Some n \<Rightarrow> take (nat n) found)
       (case config of None \<Rightarrow> Inr (dkeys (ms_storage s))
        | Some c \<Rightarrow> rmap (\<lambda>t. [t]) (conf_key c CONFIG_KEY_THREAD_ID))"

definition saver_list ::
  "loads \<Rightarrow> memory_saver \<Rightarrow> run_config option \<Rightarrow> (string, pyval) dict option \<Rightarrow> run_config option \<Rightarrow> int option \<Rightarrow>
   saved_tuple list res" where
  "saver_list loads s config flt earlier limit =
     rbind (list_entries s config flt earlier limit)
       (rmapM (\<lambda>(thread, ns, cid, e). checkpoint_tuple loads s thread ns (saver_config thread ns cid) cid e))"

subsection \<open>Versions\<close>

text \<open>
  \<open>get_next_version\<close>: \<open>h\<close> is the formatted random number. A string version is read up to its first
  dot; \<open>None\<close> is a value \<open>int()\<close> rejects.
\<close>

definition saver_get_next_version :: "string \<Rightarrow> version option \<Rightarrow> version option" where
  "saver_get_next_version h current =
     map_option (\<lambda>v. StrV (pad_int 32 (v + 1) @ ''.'' @ h))
       (case current of
          None \<Rightarrow> Some 0
        | Some (IntV i) \<Rightarrow> Some i
        | Some (StrV s) \<Rightarrow> map_option int (parse_nat (hd (split_on (CHR ''.'') s))))"

subsection \<open>The history of delta channels\<close>

text \<open>The ancestors of a checkpoint, nearest first; following the parents may not end.\<close>

partial_function (option) parent_chain ::
  "(string, stored_checkpoint) dict \<Rightarrow> string option \<Rightarrow> string list option" where
  "parent_chain d current =
     (case current of
        None \<Rightarrow> Some []
      | Some c \<Rightarrow>
          (case map_of d c of
             None \<Rightarrow> Some []
           | Some e \<Rightarrow> Option.bind (parent_chain d (st_parent e)) (\<lambda>cs. Some (c # cs))))"

record walk_state =
  wk_remaining :: "string set"
  wk_collected :: "(string, pending_write list) dict"
  wk_seeds :: "(string, pyval) dict"

definition blob_value ::
  "loads \<Rightarrow> memory_saver \<Rightarrow> string \<Rightarrow> string \<Rightarrow> versions \<Rightarrow> string \<Rightarrow> pyval option res" where
  "blob_value loads s thread ns versions ch =
     (case map_of versions ch of
        None \<Rightarrow> Inr None
      | Some ver \<Rightarrow>
          (case map_of (ms_blobs s) (thread, ns, ch, ver) of
             None \<Rightarrow> Inr None
           | Some b \<Rightarrow> if fst b = ''empty'' then Inr None else rmap Some (loads b)))"

fun is_delta_snapshot :: "pyval \<Rightarrow> bool" where
  "is_delta_snapshot (VDeltaSnapshot v) = True"
| "is_delta_snapshot _ = False"

definition collect_write ::
  "loads \<Rightarrow> string set \<Rightarrow> (string \<Rightarrow> pyval option) \<Rightarrow> (string, pending_write list) dict \<Rightarrow>
   write_entry_key \<times> string \<times> string \<times> blob \<times> string \<Rightarrow> (string, pending_write list) dict res" where
  "collect_write loads remaining value_of collected w =
     (let (key, tid, ch, b, path) = w in
      if ch \<notin> remaining then Inr collected
      else case value_of ch of
             Some v \<Rightarrow>
               (if v \<noteq> VNone \<and> \<not> is_delta_snapshot v then Inr collected
                else rmap (\<lambda>x. dset ch (dgetd collected ch [] @ [(tid, ch, x)]) collected) (loads b))
           | None \<Rightarrow> rmap (\<lambda>x. dset ch (dgetd collected ch [] @ [(tid, ch, x)]) collected) (loads b))"

definition new_seeds :: "(string \<times> pyval option) list \<Rightarrow> (string, pyval) dict" where
  "new_seeds found = concat (map (\<lambda>(ch, v). case v of None \<Rightarrow> [] | Some x \<Rightarrow> [(ch, x)]) found)"

definition walk_step ::
  "loads \<Rightarrow> memory_saver \<Rightarrow> string \<Rightarrow> string \<Rightarrow> string list \<Rightarrow> walk_state \<Rightarrow> string \<Rightarrow> walk_state res" where
  "walk_step loads s thread ns channels w cid =
     (if wk_remaining w = {} then Inr w
      else
        let versions = (case map_of (ns_storage s thread ns) cid of
                          None \<Rightarrow> [] | Some e \<Rightarrow> channel_versions (st_checkpoint e))
        in rbind (rmapM (\<lambda>ch. rmap (\<lambda>v. (ch, v)) (blob_value loads s thread ns versions ch))
                    (filter (\<lambda>ch. ch \<in> wk_remaining w) channels)) (\<lambda>found.
             let value_of = (\<lambda>ch. case map_of found ch of None \<Rightarrow> None | Some v \<Rightarrow> v);
                 step_writes = rev (sort_key fst (dgetd (ms_writes s) (thread, ns, cid) []))
             in rmap (\<lambda>collected.
                  \<lparr>wk_remaining = {ch \<in> wk_remaining w. value_of ch = None},
                   wk_collected = collected,
                   wk_seeds = wk_seeds w @ new_seeds found\<rparr>)
                (rfold (collect_write loads (wk_remaining w) value_of) (wk_collected w) step_writes)))"

definition saver_delta_history ::
  "loads \<Rightarrow> memory_saver \<Rightarrow> run_config \<Rightarrow> string list \<Rightarrow> (string, delta_history) dict res option" where
  "saver_delta_history loads s config channels =
     (if channels = [] then Some (Inr [])
      else case conf_key config CONFIG_KEY_THREAD_ID of
             Inl e \<Rightarrow> Some (Inl e)
           | Inr thread \<Rightarrow>
               (let ns = conf_ns_or_root config;
                    cps = ns_storage s thread ns;
                    cid = (case get_checkpoint_id config of None \<Rightarrow> [] | Some i \<Rightarrow> i)
                in map_option (\<lambda>chain.
                     rmap (\<lambda>w. map (\<lambda>ch. (ch,
                          \<lparr>dh_writes = rev (dgetd (wk_collected w) ch []), dh_seed = map_of (wk_seeds w) ch\<rparr>)) channels)
                       (rfold (walk_step loads s thread ns channels)
                          \<lparr>wk_remaining = set channels, wk_collected = map (\<lambda>c. (c, [])) channels, wk_seeds = []\<rparr> chain))
                     (parent_chain cps (case map_of cps cid of None \<Rightarrow> None | Some e \<Rightarrow> st_parent e))))"

end
