(* ===== verification/Saver_Props.thy ===== *)
theory Saver_Props
  imports Memory_Saver
begin

section \<open>What the in-memory saver guarantees\<close>

text \<open>
  Reading back what was saved, for a single checkpoint and for a whole run; saved writes; the history of
  delta channels. Lemmas that need only a serializer's contract are proved in the locale
  \<open>serializer\<close>; the properties instantiate them with \<open>JsonPlusSerializer\<close>.
\<close>

subsection \<open>Blobs\<close>

text \<open>The value a checkpoint's channel is read back with.\<close>

definition reads :: "loads \<Rightarrow> memory_saver \<Rightarrow> string \<Rightarrow> string \<Rightarrow> checkpoint \<Rightarrow> bool" where
  "reads loads s thread ns cp =
     (\<forall>k. blob_value loads s thread ns (channel_versions cp) k = Inr (map_of (channel_values cp) k))"

lemma put_blobs_lookup:
  assumes "put_blobs dumps t ns vals new b = Inr b'" and "dict_ok new"
  shows "if t' = t \<and> ns' = ns \<and> map_of new k = Some v
    then \<exists>x. blob_of dumps vals k = Inr x \<and> map_of b' (t', ns', k, v) = Some x
    else map_of b' (t', ns', k, v) = map_of b (t', ns', k, v)"
  using assms unfolding put_blobs_def dict_ok_def
proof (induction new arbitrary: b)
  case (Cons kv new)
  obtain j w where kv: "kv = (j, w)" by fastforce
  from Cons.prems kv obtain x where x: "blob_of dumps vals j = Inr x"
    and r: "rfold (\<lambda>b (k, v). rmap (\<lambda>x. dset (t, ns, k, v) x b) (blob_of dumps vals k)) (dset (t, ns, j, w) x b) new = Inr b'"
    by (auto simp: rbind_Inr_iff rmap_Inr_iff)
  have "map_of new j = None" using Cons.prems(2) kv by (simp add: map_of_eq_None_iff)
  then show ?case
    using Cons.IH [OF r] Cons.prems(2) kv x by (auto split: if_splits)
qed simp

lemma load_blobs_lookup:
  assumes "dict_ok vs" and "\<And>k. blob_value loads s t ns vs k = Inr (f k)"
  shows "\<exists>d. load_blobs loads s t ns vs = Inr d \<and> (\<forall>k. map_of d k = f k)"
proof -
  have one: "load_blob loads s t ns d (k, v) = Inr (case f k of None \<Rightarrow> d | Some x \<Rightarrow> dset k x d)"
    if "map_of vs k = Some v" for d k v
    using assms(2) [of k] that
    by (auto simp: load_blob_def blob_value_def rmap_Inr_iff split: option.splits if_splits)
  have "\<exists>d. rfold (load_blob loads s t ns) acc ws = Inr d
      \<and> (\<forall>k. map_of d k = (if k \<in> fst ` set ws then (case f k of None \<Rightarrow> map_of acc k | Some x \<Rightarrow> Some x) else map_of acc k))"
    if "\<forall>(k, v) \<in> set ws. map_of vs k = Some v" for ws acc
    using that
  proof (induction ws arbitrary: acc)
    case (Cons w ws)
    obtain k v where w: "w = (k, v)" by fastforce
    let ?acc = "case f k of None \<Rightarrow> acc | Some x \<Rightarrow> dset k x acc"
    have "load_blob loads s t ns acc w = Inr ?acc" using one Cons.prems w by simp
    with Cons.IH [of ?acc] Cons.prems show ?case
      by (fastforce simp: w split: option.splits)
  qed simp
  then obtain d where d: "load_blobs loads s t ns vs = Inr d"
    "\<forall>k. map_of d k = (if k \<in> fst ` set vs then f k else None)"
    using assms(1) unfolding load_blobs_def dict_ok_def by (fastforce split: option.splits)
  have "f k = None" if "k \<notin> fst ` set vs" for k
    using assms(2) [of k] that by (auto simp: blob_value_def map_of_eq_None_iff [symmetric] split: option.splits)
  with d show ?thesis by auto
qed

lemma dict_ok_new_versions: "dict_ok cur \<Longrightarrow> dict_ok (get_new_channel_versions prev cur)"
  by (auto simp: get_new_channel_versions_def dict_ok_def distinct_map inj_on_def)

lemma new_versions_lookup:
  assumes "dict_ok cur"
  shows "map_of (get_new_channel_versions prev cur) k =
    (case map_of cur k of None \<Rightarrow> None
     | Some v \<Rightarrow> if prev = [] \<or> v > dgetd prev k (null_version cur) then Some v else None)"
proof (cases "prev = []")
  case True
  then show ?thesis by (simp add: get_new_channel_versions_def split: option.split)
next
  case False
  have "map_of (filter (\<lambda>(k, v). v > dgetd prev k n) d) k =
      (case map_of d k of None \<Rightarrow> None | Some v \<Rightarrow> if v > dgetd prev k n then Some v else None)"
    if "distinct (map fst d)" for n and d :: versions
    using that by (induction d) (auto simp: map_of_eq_None_iff image_iff split: option.splits)
  from this [of cur "null_version cur"] assms False show ?thesis
    by (simp add: get_new_channel_versions_def dict_ok_def split: option.split)
qed

lemma saver_put_result:
  assumes "saver_put dumps config cp meta new s = Inr (s', c')"
    and "conf_str config CONFIG_KEY_THREAD_ID = Some t" and "conf_str config CONFIG_KEY_CHECKPOINT_NS = Some ns"
  shows "put_blobs dumps t ns (channel_values cp) new (ms_blobs s) = Inr (ms_blobs s')
    \<and> ms_writes s' = ms_writes s \<and> c' = saver_config t ns (cp_id cp)
    \<and> (\<forall>t' ns'. ns_storage s' t' ns' =
          (if t' = t \<and> ns' = ns then dset (cp_id cp) (new_entry config cp meta) (ns_storage s t ns) else ns_storage s t' ns'))"
proof -
  define nss where "nss = dgetd (ms_storage s) t []"
  obtain b where b: "put_blobs dumps t ns (channel_values cp) new (ms_blobs s) = Inr b"
    and s': "s' = s\<lparr>ms_blobs := b,
       ms_storage := dset t (dset ns (dset (cp_id cp) (new_entry config cp meta) (dgetd nss ns [])) nss) (ms_storage s)\<rparr>"
    and c': "c' = saver_config t ns (cp_id cp)"
    using assms by (auto simp: saver_put_def conf_key_def rmap_Inr_iff Let_def nss_def)
  have "ns_storage s' t' ns' =
      (if t' = t \<and> ns' = ns then dset (cp_id cp) (new_entry config cp meta) (ns_storage s t ns) else ns_storage s t' ns')" for t' ns'
    by (simp add: s' ns_storage_def nss_def dgetd_def)
  with b s' c' show ?thesis by simp
qed

context serializer
begin

lemma blob_of_loads:
  assumes "blob_of dumps vals k = Inr b" and "\<And>v. map_of vals k = Some v \<Longrightarrow> ok v"
  shows "(if fst b = ''empty'' then Inr None else rmap Some (loads b)) = Inr (map_of vals k)"
  using assms roundtrip by (fastforce simp: blob_of_def split: option.splits)

text \<open>A saved checkpoint is read back, if the values it does not save again are readable already.\<close>

lemma put_reads:
  assumes put: "saver_put dumps config cp meta new s = Inr (s', c')"
    and conf: "conf_str config CONFIG_KEY_THREAD_ID = Some t" "conf_str config CONFIG_KEY_CHECKPOINT_NS = Some ns"
    and new: "dict_ok new" "\<forall>(k, v) \<in> set new. map_of (channel_versions cp) k = Some v"
    and vals: "\<forall>v \<in> snd ` set (channel_values cp). ok v"
    and old: "\<And>k. map_of new k = None \<Longrightarrow>
      blob_value loads s t ns (channel_versions cp) k = Inr (map_of (channel_values cp) k)"
  shows "reads loads s' t ns cp"
proof -
  from saver_put_result [OF put conf]
  have b: "put_blobs dumps t ns (channel_values cp) new (ms_blobs s) = Inr (ms_blobs s')" by blast
  have "blob_value loads s' t ns (channel_versions cp) k = Inr (map_of (channel_values cp) k)" for k
  proof (cases "map_of new k")
    case None
    then have "map_of (ms_blobs s') (t, ns, k, v) = map_of (ms_blobs s) (t, ns, k, v)" for v
      using put_blobs_lookup [OF b new(1), of t ns k v] by simp
    then have "blob_value loads s' t ns (channel_versions cp) k = blob_value loads s t ns (channel_versions cp) k"
      by (simp add: blob_value_def split: option.split)
    with old [OF None] show ?thesis by simp
  next
    case (Some v)
    then have v: "map_of (channel_versions cp) k = Some v" using new(2) by (auto dest!: map_of_SomeD)
    obtain x where x: "blob_of dumps (channel_values cp) k = Inr x" "map_of (ms_blobs s') (t, ns, k, v) = Some x"
      using put_blobs_lookup [OF b new(1), of t ns k v] Some by auto
    have "ok w" if "map_of (channel_values cp) k = Some w" for w
      using vals map_of_SomeD [OF that] by force
    with blob_of_loads [OF x(1)] v x(2) show ?thesis by (simp add: blob_value_def)
  qed
  then show ?thesis by (simp add: reads_def)
qed

text \<open>Saving leaves other checkpoints readable, unless it reuses one of their versions.\<close>

lemma put_keeps_reads:
  assumes put: "saver_put dumps config cp meta new s = Inr (s', c')"
    and conf: "conf_str config CONFIG_KEY_THREAD_ID = Some t" "conf_str config CONFIG_KEY_CHECKPOINT_NS = Some ns"
    and new: "dict_ok new"
    and fresh: "t' = t \<Longrightarrow> ns' = ns \<Longrightarrow> \<forall>(k, v) \<in> set new. map_of (channel_versions old) k \<noteq> Some v"
    and old: "reads loads s t' ns' old"
  shows "reads loads s' t' ns' old"
proof -
  from saver_put_result [OF put conf]
  have b: "put_blobs dumps t ns (channel_values cp) new (ms_blobs s) = Inr (ms_blobs s')" by blast
  have "blob_value loads s' t' ns' (channel_versions old) k = blob_value loads s t' ns' (channel_versions old) k" for k
  proof (cases "map_of (channel_versions old) k")
    case (Some v)
    have "\<not> (t' = t \<and> ns' = ns \<and> map_of new k = Some v)"
      using fresh Some map_of_SomeD [of new k v] by auto
    then have "map_of (ms_blobs s') (t', ns', k, v) = map_of (ms_blobs s) (t', ns', k, v)"
      using put_blobs_lookup [OF b new, of t' ns' k v] by (simp split: if_splits)
    with Some show ?thesis by (simp add: blob_value_def)
  qed (simp add: blob_value_def)
  with old show ?thesis by (simp add: reads_def)
qed

end

subsection \<open>Saving a run\<close>

text \<open>
  The calls a run makes to the saver: each checkpoint is saved under its predecessor, with the versions
  that are new since then.
\<close>

definition put_config :: "string \<Rightarrow> string \<Rightarrow> checkpoint option \<Rightarrow> run_config" where
  "put_config t ns p =
     empty_config\<lparr>rc_conf := Some
       ([(CONFIG_KEY_THREAD_ID, CStr t), (CONFIG_KEY_CHECKPOINT_NS, CStr ns)]
        @ (case p of None \<Rightarrow> [] | Some q \<Rightarrow> [(CONFIG_KEY_CHECKPOINT_ID, CStr (cp_id q))]))\<rparr>"

definition versions_of :: "checkpoint option \<Rightarrow> versions" where
  "versions_of p = (case p of None \<Rightarrow> [] | Some q \<Rightarrow> channel_versions q)"

fun save_run ::
  "dumps \<Rightarrow> string \<Rightarrow> string \<Rightarrow> checkpoint option \<Rightarrow> (checkpoint \<times> ckpt_meta) list \<Rightarrow> memory_saver \<Rightarrow> memory_saver res" where
  "save_run dumps t ns p [] s = Inr s"
| "save_run dumps t ns p ((c, m) # cps) s =
     rbind (saver_put dumps (put_config t ns p) c m
              (get_new_channel_versions (versions_of p) (channel_versions c)) s)
       (\<lambda>(s', conf). save_run dumps t ns (Some c) cps s')"

text \<open>
  What consecutive checkpoints of a run satisfy: no channel's version goes back, and a channel with the
  same version has the same value (\<open>apply_writes_versions\<close>, \<open>checkpoint_restores_channels\<close>).
\<close>

definition succeeds :: "checkpoint \<Rightarrow> checkpoint \<Rightarrow> bool" where
  "succeeds p c =
     ((\<forall>k. dmem k (channel_versions p) \<longrightarrow> dmem k (channel_versions c))
      \<and> (\<forall>k v. map_of (channel_versions c) k = Some v \<longrightarrow>
           (case map_of (channel_versions p) k of
              None \<Rightarrow> null_version (channel_versions c) < v
            | Some w \<Rightarrow> w < v \<or> w = v \<and> map_of (channel_values c) k = map_of (channel_values p) k)))"

definition wf_checkpoint :: "checkpoint \<Rightarrow> bool" where
  "wf_checkpoint c =
     (dict_ok (channel_versions c) \<and> cp_id c \<noteq> []
      \<and> (\<forall>k. dmem k (channel_values c) \<longrightarrow> dmem k (channel_versions c)))"

fun run_ok :: "checkpoint option \<Rightarrow> checkpoint list \<Rightarrow> bool" where
  "run_ok p [] = True"
| "run_ok p (c # cs) =
     (wf_checkpoint c \<and> (case p of None \<Rightarrow> True | Some q \<Rightarrow> succeeds q c) \<and> run_ok (Some c) cs)"

fun run_entries :: "checkpoint option \<Rightarrow> (checkpoint \<times> ckpt_meta) list \<Rightarrow> (checkpoint \<times> ckpt_meta \<times> checkpoint option) list" where
  "run_entries p [] = []"
| "run_entries p ((c, m) # cps) = (c, m, p) # run_entries (Some c) cps"

lemma put_config_simps [simp]:
  "conf_str (put_config t ns p) CONFIG_KEY_THREAD_ID = Some t"
  "conf_str (put_config t ns p) CONFIG_KEY_CHECKPOINT_NS = Some ns"
  "conf_str (put_config t ns p) CONFIG_KEY_CHECKPOINT_ID = map_option cp_id p"
  by (simp_all add: put_config_def conf_str_def conf_of_def empty_config_def const_defs split: option.split)

lemma saver_config_simps [simp]:
  "conf_str (saver_config t ns i) CONFIG_KEY_THREAD_ID = Some t"
  "conf_str (saver_config t ns i) CONFIG_KEY_CHECKPOINT_NS = Some ns"
  "conf_str (saver_config t ns i) CONFIG_KEY_CHECKPOINT_ID = Some i"
  by (simp_all add: saver_config_def conf_str_def conf_of_def empty_config_def const_defs)

definition versions_below :: "checkpoint \<Rightarrow> checkpoint \<Rightarrow> bool" where
  "versions_below d p =
     (\<forall>k v. map_of (channel_versions d) k = Some v \<longrightarrow> (\<exists>w. map_of (channel_versions p) k = Some w \<and> v \<le> w))"

lemma succeeds_below: "succeeds p c \<Longrightarrow> versions_below p c"
  by (force simp: succeeds_def versions_below_def dmem_def split: option.splits)

lemma versions_below_refl: "versions_below p p"
  by (simp add: versions_below_def)

lemma versions_below_trans: "versions_below a b \<Longrightarrow> versions_below b c \<Longrightarrow> versions_below a c"
  unfolding versions_below_def by (meson order.trans)

lemma new_versions_fresh:
  assumes "succeeds p c" and "dict_ok (channel_versions c)" and "versions_below d p"
  shows "\<forall>(k, v) \<in> set (get_new_channel_versions (channel_versions p) (channel_versions c)). map_of (channel_versions d) k \<noteq> Some v"
proof clarify
  fix k v
  assume kv: "(k, v) \<in> set (get_new_channel_versions (channel_versions p) (channel_versions c))"
    and d: "map_of (channel_versions d) k = Some v"
  have "map_of (get_new_channel_versions (channel_versions p) (channel_versions c)) k = Some v"
    using kv dict_ok_new_versions [OF assms(2)] by (simp add: dict_ok_def)
  moreover obtain w where "map_of (channel_versions p) k = Some w" "v \<le> w"
    using assms(3) d by (auto simp: versions_below_def)
  ultimately show False
    by (auto simp: new_versions_lookup [OF assms(2)] dgetd_def split: option.splits if_splits)
qed

lemma new_versions_subset:
  "dict_ok cur \<Longrightarrow> \<forall>(k, v) \<in> set (get_new_channel_versions prev cur). map_of cur k = Some v"
  by (auto simp: get_new_channel_versions_def dict_ok_def split: if_splits)

context serializer
begin

lemma put_successor_reads:
  assumes put: "saver_put dumps (put_config t ns p) c m (get_new_channel_versions (versions_of p) (channel_versions c)) s = Inr (s', c')"
    and wf: "wf_checkpoint c" and ok: "\<forall>v \<in> snd ` set (channel_values c). ok v"
    and p: "\<And>q. p = Some q \<Longrightarrow> succeeds q c \<and> reads loads s t ns q"
  shows "reads loads s' t ns c"
proof (rule put_reads [OF put])
  have d: "dict_ok (channel_versions c)" using wf by (simp add: wf_checkpoint_def)
  show "dict_ok (get_new_channel_versions (versions_of p) (channel_versions c))"
    using d by (rule dict_ok_new_versions)
  show "\<forall>(k, v) \<in> set (get_new_channel_versions (versions_of p) (channel_versions c)). map_of (channel_versions c) k = Some v"
    using d by (rule new_versions_subset)
  fix k
  assume k: "map_of (get_new_channel_versions (versions_of p) (channel_versions c)) k = None"
  show "blob_value loads s t ns (channel_versions c) k = Inr (map_of (channel_values c) k)"
  proof (cases "map_of (channel_versions c) k")
    case None
    then have "map_of (channel_values c) k = None" using wf by (auto simp: wf_checkpoint_def dmem_def)
    with None show ?thesis by (simp add: blob_value_def)
  next
    case (Some v)
    with k have old: "versions_of p \<noteq> []" "\<not> v > dgetd (versions_of p) k (null_version (channel_versions c))"
      by (auto simp: new_versions_lookup [OF d] split: if_splits)
    then obtain q where q: "p = Some q" by (auto simp: versions_of_def split: option.splits)
    with p have s: "succeeds q c" and r: "reads loads s t ns q" by auto
    have "map_of (channel_versions q) k = Some v \<and> map_of (channel_values c) k = map_of (channel_values q) k"
      using s old(2) Some q by (fastforce simp: succeeds_def versions_of_def dgetd_def split: option.splits)
    moreover have "blob_value loads s t ns (channel_versions q) k = Inr (map_of (channel_values q) k)"
      using r by (simp add: reads_def)
    ultimately show ?thesis using Some by (simp add: blob_value_def)
  qed
qed (use ok in simp_all)

end

lemma run_entries_ids: "(c, m, q) \<in> set (run_entries p cps) \<Longrightarrow> c \<in> set (map fst cps)"
  by (induction p cps rule: run_entries.induct) auto

context serializer
begin

lemma save_run_spec:
  assumes "save_run dumps t ns p cps s = Inr s'" and "run_ok p (map fst cps)"
    and "distinct (map cp_id (old @ map fst cps))"
    and "\<forall>c \<in> set (map fst cps). \<forall>v \<in> snd ` set (channel_values c). ok v"
    and "\<forall>d \<in> set old. reads loads s t ns d \<and> (\<exists>q. p = Some q \<and> versions_below d q)"
    and "\<And>q. p = Some q \<Longrightarrow> q \<in> set old"
  shows "(\<forall>d \<in> set old. reads loads s' t ns d
        \<and> map_of (ns_storage s' t ns) (cp_id d) = map_of (ns_storage s t ns) (cp_id d))
    \<and> (\<forall>(c, m, q) \<in> set (run_entries p cps). reads loads s' t ns c
        \<and> map_of (ns_storage s' t ns) (cp_id c) = Some (new_entry (put_config t ns q) c m))
    \<and> ms_writes s' = ms_writes s"
  using assms
proof (induction cps arbitrary: p s old)
  case (Cons cm cps)
  obtain c m where cm: "cm = (c, m)" by fastforce
  note prems = Cons.prems [unfolded cm]
  let ?new = "get_new_channel_versions (versions_of p) (channel_versions c)"
  from prems(1) obtain s1 c1 where put: "saver_put dumps (put_config t ns p) c m ?new s = Inr (s1, c1)"
    and rest: "save_run dumps t ns (Some c) cps s1 = Inr s'"
    by (auto simp: rbind_Inr_iff)
  have wf: "wf_checkpoint c" and run: "run_ok (Some c) (map fst cps)"
    and succ: "\<And>q. p = Some q \<Longrightarrow> succeeds q c"
    using prems(2) by auto
  have dv: "dict_ok (channel_versions c)" using wf by (simp add: wf_checkpoint_def)
  have here: "reads loads s1 t ns c"
    by (rule put_successor_reads [OF put wf]) (use prems(4,5,6) succ in auto)
  have keep: "reads loads s1 t ns d" if mem: "d \<in> set old" for d
  proof (rule put_keeps_reads [OF put])
    obtain q where q: "p = Some q" "versions_below d q" using bspec [OF prems(5) mem] by auto
    show "\<forall>(k, v) \<in> set ?new. map_of (channel_versions d) k \<noteq> Some v"
      using new_versions_fresh [OF succ [OF q(1)] dv q(2)] q(1) by (simp add: versions_of_def)
    show "reads loads s t ns d" using bspec [OF prems(5) mem] by auto
  qed (use dict_ok_new_versions dv in auto)
  have stored: "ns_storage s1 t ns = dset (cp_id c) (new_entry (put_config t ns p) c m) (ns_storage s t ns)"
    and writes: "ms_writes s1 = ms_writes s"
    using saver_put_result [OF put put_config_simps(1,2)] by simp_all
  have below: "versions_below d c" if mem: "d \<in> set old" for d
  proof -
    obtain q where q: "p = Some q" "versions_below d q" using bspec [OF prems(5) mem] by auto
    then show ?thesis using versions_below_trans [OF q(2) succeeds_below [OF succ [OF q(1)]]] by simp
  qed
  have ih: "(\<forall>d \<in> set (old @ [c]). reads loads s' t ns d
        \<and> map_of (ns_storage s' t ns) (cp_id d) = map_of (ns_storage s1 t ns) (cp_id d))
    \<and> (\<forall>(c, m, q) \<in> set (run_entries (Some c) cps). reads loads s' t ns c
        \<and> map_of (ns_storage s' t ns) (cp_id c) = Some (new_entry (put_config t ns q) c m))
    \<and> ms_writes s' = ms_writes s1"
    by (rule Cons.IH [OF rest run])
      (use prems(3,4) here keep below versions_below_refl in auto)
  have "cp_id d \<noteq> cp_id c" if "d \<in> set old" for d
    using prems(3) that by (auto simp: image_iff)
  with ih stored writes show ?case by (auto simp: cm)
qed simp

end

context serializer
begin

lemma tuple_of_entry:
  assumes "reads loads s t ns c" and "dict_ok (channel_versions c)" and "st_checkpoint e = c\<lparr>channel_values := []\<rparr>"
    and "dgetd (ms_writes s) (t, ns, cid) [] = []"
  shows "\<exists>d. checkpoint_tuple loads s t ns config cid e =
      Inr \<lparr>sv_config = config, sv_checkpoint = c\<lparr>channel_values := d\<rparr>, sv_metadata = st_metadata e,
         sv_parent_config = (case st_parent e of None \<Rightarrow> None
                             | Some p \<Rightarrow> if p \<noteq> [] then Some (saver_config t ns p) else None),
         sv_pending = Some []\<rparr>
    \<and> (\<forall>k. map_of d k = map_of (channel_values c) k)"
proof -
  obtain d where "load_blobs loads s t ns (channel_versions c) = Inr d" "\<forall>k. map_of d k = map_of (channel_values c) k"
    using load_blobs_lookup [OF assms(2), of loads s t ns "map_of (channel_values c)"] assms(1)
    by (auto simp: reads_def)
  then show ?thesis
    using assms(3,4) by (auto simp: checkpoint_tuple_def load_writes_def)
qed

end

lemma run_entries_wf:
  "(c, m, q) \<in> set (run_entries p cps) \<Longrightarrow> run_ok p (map fst cps) \<Longrightarrow> (\<And>q. p = Some q \<Longrightarrow> cp_id q \<noteq> []) \<Longrightarrow>
   wf_checkpoint c \<and> (\<forall>r. q = Some r \<longrightarrow> cp_id r \<noteq> [])"
  by (induction p cps rule: run_entries.induct) (auto simp: wf_checkpoint_def)

text \<open>
  C9: every checkpoint of a run, not only the latest, is read back from the saver with the values,
  versions and metadata it was saved with and its predecessor as its parent, although each save stores only
  the values of the channels whose version changed.
\<close>

theorem saved_run_readable:
  assumes "save_run (JsonPlus_dumps_typed k) t ns None cps s = Inr s'" and "run_ok None (map fst cps)"
    and "distinct (map cp_id (map fst cps))"
    and "\<forall>c \<in> set (map fst cps). \<forall>v \<in> snd ` set (channel_values c). packable k v"
    and "\<forall>c \<in> set (map fst cps). dgetd (ms_writes s) (t, ns, cp_id c) [] = []"
    and "(c, m, q) \<in> set (run_entries None cps)"
  shows "\<exists>d. saver_get_tuple (JsonPlus_loads_typed k) s' (saver_config t ns (cp_id c)) = Inr (Some
      \<lparr>sv_config = saver_config t ns (cp_id c), sv_checkpoint = c\<lparr>channel_values := d\<rparr>,
       sv_metadata = st_metadata (new_entry (put_config t ns q) c m),
       sv_parent_config = map_option (\<lambda>p. saver_config t ns (cp_id p)) q, sv_pending = Some []\<rparr>)
    \<and> (\<forall>j. map_of d j = map_of (channel_values c) j)"
proof -
  have "reads (JsonPlus_loads_typed k) s' t ns c
      \<and> map_of (ns_storage s' t ns) (cp_id c) = Some (new_entry (put_config t ns q) c m)"
    and w: "ms_writes s' = ms_writes s"
    using json.save_run_spec [OF assms(1,2), of "[]"] assms(3,4,6) by auto
  then have r: "reads (JsonPlus_loads_typed k) s' t ns c"
    and e: "map_of (ns_storage s' t ns) (cp_id c) = Some (new_entry (put_config t ns q) c m)" by auto
  have wf: "wf_checkpoint c" and q: "\<forall>p. q = Some p \<longrightarrow> cp_id p \<noteq> []"
    using run_entries_wf [OF assms(6,2)] by auto
  have "dgetd (ms_writes s') (t, ns, cp_id c) [] = []"
    using bspec [OF assms(5) run_entries_ids [OF assms(6)]] w by simp
  then obtain d where "checkpoint_tuple (JsonPlus_loads_typed k) s' t ns (saver_config t ns (cp_id c)) (cp_id c)
        (new_entry (put_config t ns q) c m) =
      Inr \<lparr>sv_config = saver_config t ns (cp_id c), sv_checkpoint = c\<lparr>channel_values := d\<rparr>,
         sv_metadata = st_metadata (new_entry (put_config t ns q) c m),
         sv_parent_config = map_option (\<lambda>p. saver_config t ns (cp_id p)) q, sv_pending = Some []\<rparr>"
    and "\<forall>j. map_of d j = map_of (channel_values c) j"
    using json.tuple_of_entry [OF r, of "new_entry (put_config t ns q) c m" "cp_id c" "saver_config t ns (cp_id c)"] wf q
    by (cases q) (auto simp: wf_checkpoint_def)
  then show ?thesis
    using e wf by (auto simp: saver_get_tuple_def conf_key_def get_checkpoint_id_def conf_ns_or_root_def wf_checkpoint_def)
qed

definition example_cp :: "string \<Rightarrow> int \<Rightarrow> string \<Rightarrow> checkpoint" where
  "example_cp i v x =
     \<lparr>cp_v = 4, cp_id = i, cp_ts = [], channel_values = [(''a'', VStr x), (''b'', VStr ''same'')],
      channel_versions = [(''a'', IntV v), (''b'', IntV 1)], versions_seen = [], cp_updated_channels = None\<rparr>"

definition example_meta :: ckpt_meta where
  "example_meta = \<lparr>cm_source = Some ''loop'', cm_step = 0, cm_parents = [], cm_run_id = None, cm_counters = []\<rparr>"

lemma saved_run_readable_witness:
  "\<exists>s' d. save_run (JsonPlus_dumps_typed example_codec) ''t'' [] None
       [(example_cp ''1'' 1 ''x'', example_meta), (example_cp ''2'' 2 ''y'', example_meta)] empty_saver = Inr s'
     \<and> saver_get_tuple (JsonPlus_loads_typed example_codec) s' (saver_config ''t'' [] ''1'') = Inr (Some
        \<lparr>sv_config = saver_config ''t'' [] ''1'', sv_checkpoint = (example_cp ''1'' 1 ''x'')\<lparr>channel_values := d\<rparr>,
         sv_metadata = st_metadata (new_entry (put_config ''t'' [] None) (example_cp ''1'' 1 ''x'') example_meta),
         sv_parent_config = None, sv_pending = Some []\<rparr>)
     \<and> map_of d ''a'' = Some (VStr ''x'')"
proof -
  let ?cps = "[(example_cp ''1'' 1 ''x'', example_meta), (example_cp ''2'' 2 ''y'', example_meta)]"
  have "\<exists>s'. save_run (JsonPlus_dumps_typed example_codec) ''t'' [] None ?cps empty_saver = Inr s'"
    by (simp add: saver_put_def conf_key_def put_blobs_def blob_of_def get_new_channel_versions_def versions_of_def
        example_cp_def JsonPlus_dumps_typed_def example_codec_def dgetd_def null_version_def Let_def)
  then obtain s' where s': "save_run (JsonPlus_dumps_typed example_codec) ''t'' [] None ?cps empty_saver = Inr s'" by blast
  have "run_ok None (map fst ?cps)"
    by (simp add: wf_checkpoint_def succeeds_def example_cp_def dict_ok_def dmem_def null_version_def)
  from saved_run_readable [OF s' this, of "example_cp ''1'' 1 ''x''" example_meta None] s' show ?thesis
    by (auto simp: example_cp_def packable_def example_codec_def empty_saver_def dgetd_def)
qed

subsection \<open>Saving writes\<close>

lemma write_key_simps [simp]: "fst (write_key tid i c) = tid"
  by (simp add: write_key_def)

lemma special_idx: "map_of WRITES_IDX_MAP c = Some i \<Longrightarrow> write_key tid n c = (tid, i)"
  by (simp add: write_key_def)

lemma regular_idx: "map_of WRITES_IDX_MAP c = None \<Longrightarrow> write_key tid n c = (tid, int n)"
  by (simp add: write_key_def)

context serializer
begin

text \<open>What one write does to the entry of a key.\<close>

lemma put_write_lookup:
  assumes "put_write dumps had tid path d (i, c, v) = Inr d'" and "ok v"
  shows "\<exists>b. loads b = Inr v \<and>
    map_of d' key = (if key = write_key tid i c \<and> \<not> (snd key \<ge> 0 \<and> had \<and> dmem key d) then Some (tid, c, b, path) else map_of d key)"
proof -
  obtain t x where "dumps v = Inr (t, x)" "loads (t, x) = Inr v" using roundtrip [OF assms(2)] by blast
  with assms(1) have "loads (t, x) = Inr v" and "d' = (if snd (write_key tid i c) \<ge> 0 \<and> had \<and> dmem (write_key tid i c) d then d
      else dset (write_key tid i c) (tid, c, (t, x), path) d)"
    by (auto simp: put_write_def Let_def split: if_splits)
  then show ?thesis by (intro exI [of _ "(t, x)"]) auto
qed

lemma put_writes_regular:
  assumes "rfold (put_write dumps had tid path) d (zip [n..<n + length ws] ws) = Inr d'" and "\<forall>w \<in> set ws. ok (snd w)"
    and "0 \<le> i"
  shows "if fst key = tid \<and> snd key = i \<and> (\<exists>j < length ws. int (n + j) = i \<and> map_of WRITES_IDX_MAP (fst (ws ! j)) = None)
      \<and> \<not> (had \<and> dmem key d)
    then \<exists>b. map_of d' key = Some (tid, fst (ws ! (nat i - n)), b, path) \<and> loads b = Inr (snd (ws ! (nat i - n)))
    else snd key = i \<longrightarrow> map_of d' key = map_of d key"
  using assms
proof (induction ws arbitrary: d n)
  case (Cons w ws)
  obtain c v where w: "w = (c, v)" by fastforce
  have z: "zip [n..<n + length (w # ws)] (w # ws) = (n, c, v) # zip [Suc n..<Suc n + length ws] ws"
    using upt_conv_Cons [of n "n + length (w # ws)"] by (simp add: w del: upt_Suc)
  from Cons.prems(1) z obtain d1 where one: "put_write dumps had tid path d (n, c, v) = Inr d1"
    and rest: "rfold (put_write dumps had tid path) d1 (zip [Suc n..<Suc n + length ws] ws) = Inr d'"
    by (auto simp: rbind_Inr_iff)
  from put_write_lookup [OF one, of key] Cons.prems(2) w obtain b where b: "loads b = Inr v"
    and d1: "map_of d1 key = (if key = write_key tid n c \<and> \<not> (snd key \<ge> 0 \<and> had \<and> dmem key d) then Some (tid, c, b, path) else map_of d key)"
    by auto
  note ih = Cons.IH [OF rest _ Cons.prems(3)]
  show ?case
  proof (cases "key = write_key tid n c \<and> snd key = i")
    case True
    then have k: "map_of WRITES_IDX_MAP c = None" "i = int n" "key = (tid, int n)"
      using Cons.prems(3) writes_idx_negative [of c] by (auto simp: write_key_def split: option.splits)
    have "map_of d' key = map_of d1 key"
      using ih Cons.prems(2) k by (auto split: if_splits)
    moreover have "write_key tid n c = key" using k by (simp add: regular_idx)
    moreover have "\<exists>j < length (w # ws). int (n + j) = i \<and> map_of WRITES_IDX_MAP (fst ((w # ws) ! j)) = None"
      using k w by (intro exI [of _ 0]) simp
    ultimately show ?thesis
      using k b d1 w by (cases "had \<and> dmem key d"; cases b) simp_all
  next
    case False
    then have m: "snd key = i \<Longrightarrow> map_of d1 key = map_of d key" using d1 by auto
    have n: "\<not> (fst key = tid \<and> snd key = i \<and> int n = i \<and> map_of WRITES_IDX_MAP c = None)"
      using False by (cases key) (auto simp: write_key_def split: option.splits)
    have ex: "(\<exists>j < length (w # ws). int (n + j) = i \<and> map_of WRITES_IDX_MAP (fst ((w # ws) ! j)) = None) \<longleftrightarrow>
        (int n = i \<and> map_of WRITES_IDX_MAP c = None) \<or>
        (\<exists>j < length ws. int (Suc n + j) = i \<and> map_of WRITES_IDX_MAP (fst (ws ! j)) = None)"
      by (auto simp: w nth_Cons' less_Suc_eq_0_disj)
    have nth: "(w # ws) ! (nat i - n) = ws ! (nat i - Suc n)" if "int (Suc n + j) = i" for j
      using that by (auto simp: nth_Cons')
    show ?thesis
      using ih Cons.prems(2) m n nth unfolding ex dmem_def by (auto split: if_splits)
  qed
qed simp

lemma put_writes_special:
  assumes "rfold (put_write dumps had tid path) d (zip [n..<n + length ws] ws) = Inr d'" and "\<forall>w \<in> set ws. ok (snd w)"
    and "map_of WRITES_IDX_MAP c = Some i"
  shows "case map_of (rev ws) c of
      None \<Rightarrow> map_of d' (tid, i) = map_of d (tid, i)
    | Some v \<Rightarrow> \<exists>b. map_of d' (tid, i) = Some (tid, c, b, path) \<and> loads b = Inr v"
  using assms
proof (induction ws arbitrary: d n)
  case (Cons w ws)
  obtain e v where w: "w = (e, v)" by fastforce
  have z: "zip [n..<n + length (w # ws)] (w # ws) = (n, e, v) # zip [Suc n..<Suc n + length ws] ws"
    using upt_conv_Cons [of n "n + length (w # ws)"] by (simp add: w del: upt_Suc)
  from Cons.prems(1) z obtain d1 where one: "put_write dumps had tid path d (n, e, v) = Inr d1"
    and rest: "rfold (put_write dumps had tid path) d1 (zip [Suc n..<Suc n + length ws] ws) = Inr d'"
    by (auto simp: rbind_Inr_iff)
  from put_write_lookup [OF one, of "(tid, i)"] Cons.prems(2) w obtain b where b: "loads b = Inr v"
    and d1: "map_of d1 (tid, i) = (if (tid, i) = write_key tid n e \<and> \<not> (i \<ge> 0 \<and> had \<and> dmem (tid, i) d) then Some (tid, e, b, path) else map_of d (tid, i))"
    by auto
  have i: "i < 0" using Cons.prems(3) by (rule writes_idx_negative)
  have k: "(tid, i) = write_key tid n e \<longleftrightarrow> e = c"
    using Cons.prems(3) i writes_idx_inj [of e i c] by (auto simp: write_key_def split: option.splits)
  show ?case
    using Cons.IH [OF rest _ Cons.prems(3)] Cons.prems(2) i k d1 b
    by (cases b) (auto simp: w map_add_def split: option.splits)
qed simp

lemma put_writes_other_task:
  assumes "rfold (put_write dumps had tid path) d ws = Inr d'" and "fst key \<noteq> tid"
  shows "map_of d' key = map_of d key"
proof -
  have "map_of e' key = map_of e key" if "put_write dumps had tid path e w = Inr e'" for e w e'
    using that assms(2) by (cases w) (auto simp: put_write_def Let_def rmap_Inr_iff split: if_splits)
  with assms(1) show ?thesis
    by (intro rfold_invariant [OF assms(1), where P = "\<lambda>e. map_of e key = map_of d key"]) auto
qed

end

text \<open>
  Saving the writes of a task twice is harmless: a regular write that is saved already stays as it was
  first saved, a special write (error, interrupt, resume) becomes the last one given, new writes are
  added under their position with a value that reads back, and the writes of other tasks and of other
  checkpoints do not change.
\<close>

theorem put_writes_saved:
  assumes "saver_put_writes (JsonPlus_dumps_typed k) (saver_config t ns cid) ws tid path s = Inr s'"
    and "\<forall>w \<in> set ws. packable k (snd w)"
  defines "old \<equiv> dgetd (ms_writes s) (t, ns, cid) []" and "new \<equiv> dgetd (ms_writes s') (t, ns, cid) []"
  shows "(\<forall>key. dmem key old \<and> (fst key \<noteq> tid \<or> 0 \<le> snd key) \<longrightarrow> map_of new key = map_of old key)
    \<and> (\<forall>i < length ws. map_of WRITES_IDX_MAP (fst (ws ! i)) = None \<and> \<not> dmem (tid, int i) old \<longrightarrow>
        (\<exists>b. map_of new (tid, int i) = Some (tid, fst (ws ! i), b, path) \<and> JsonPlus_loads_typed k b = Inr (snd (ws ! i))))
    \<and> (\<forall>c i v. map_of WRITES_IDX_MAP c = Some i \<and> map_of (rev ws) c = Some v \<longrightarrow>
        (\<exists>b. map_of new (tid, i) = Some (tid, c, b, path) \<and> JsonPlus_loads_typed k b = Inr v))
    \<and> (\<forall>outer. outer \<noteq> (t, ns, cid) \<longrightarrow> map_of (ms_writes s') outer = map_of (ms_writes s) outer)"
proof (cases "ws = []")
  case True
  with assms(1) have "s' = s" by (simp add: saver_put_writes_def conf_key_def Let_def)
  with True show ?thesis by (simp add: old_def new_def)
next
  case False
  then obtain d where d: "rfold (put_write (JsonPlus_dumps_typed k) (old \<noteq> []) tid path) old (zip [0..<length ws] ws) = Inr d"
    and s': "s' = s\<lparr>ms_writes := dset (t, ns, cid) d (ms_writes s)\<rparr>"
    using assms(1) by (auto simp: saver_put_writes_def conf_key_def Let_def rmap_Inr_iff conf_ns_or_root_def old_def)
  have new: "new = d" by (simp add: new_def s' dgetd_def)
  have d0: "rfold (put_write (JsonPlus_dumps_typed k) (old \<noteq> []) tid path) old (zip [0..<0 + length ws] ws) = Inr d"
    using d by simp
  note reg = json.put_writes_regular [OF d0 assms(2)]
  have "map_of d key = map_of old key" if "dmem key old" "fst key \<noteq> tid \<or> 0 \<le> snd key" for key
  proof (cases "fst key = tid")
    case True
    have "old \<noteq> []" using that(1) by auto
    with reg [of "snd key" key] that True show ?thesis by (auto split: if_splits)
  next
    case False
    then show ?thesis using json.put_writes_other_task [OF d] by simp
  qed
  moreover have "\<exists>b. map_of d (tid, int i) = Some (tid, fst (ws ! i), b, path) \<and> JsonPlus_loads_typed k b = Inr (snd (ws ! i))"
    if "i < length ws" "map_of WRITES_IDX_MAP (fst (ws ! i)) = None" "\<not> dmem (tid, int i) old" for i
    using reg [of "int i" "(tid, int i)"] that by (simp split: if_splits)
  moreover have "\<exists>b. map_of d (tid, i) = Some (tid, c, b, path) \<and> JsonPlus_loads_typed k b = Inr v"
    if "map_of WRITES_IDX_MAP c = Some i" "map_of (rev ws) c = Some v" for c i v
    using json.put_writes_special [OF d0 assms(2) that(1)] that(2) by simp
  ultimately show ?thesis by (simp add: new s')
qed

lemma put_writes_saved_witness:
  "\<exists>s' b. saver_put_writes (JsonPlus_dumps_typed example_codec) (saver_config ''t'' [] ''1'') [(''a'', VStr ''x''), (RESUME, VStr ''r'')] ''task'' [] empty_saver = Inr s'
     \<and> map_of (dgetd (ms_writes s') (''t'', [], ''1'') []) (''task'', 0) = Some (''task'', ''a'', b, [])
     \<and> JsonPlus_loads_typed example_codec b = Inr (VStr ''x'')"
proof -
  let ?put = "saver_put_writes (JsonPlus_dumps_typed example_codec) (saver_config ''t'' [] ''1'') [(''a'', VStr ''x''), (RESUME, VStr ''r'')] ''task'' [] empty_saver"
  have "\<exists>s'. ?put = Inr s'"
    by (simp add: saver_put_writes_def conf_key_def put_write_def JsonPlus_dumps_typed_def example_codec_def
        empty_saver_def dgetd_def Let_def)
  then obtain s' where s': "?put = Inr s'" by blast
  have a: "map_of WRITES_IDX_MAP ''a'' = None" by code_simp
  have ok: "\<forall>w \<in> set [(''a'', VStr ''x''), (RESUME, VStr ''r'')]. packable example_codec (snd w)"
    by (simp add: packable_def example_codec_def)
  from put_writes_saved [OF s' ok, THEN conjunct2, THEN conjunct1, rule_format, of 0] a s' show ?thesis
    by (auto simp: empty_saver_def dgetd_def)
qed

subsection \<open>The history of delta channels\<close>

text \<open>
  The abstract walk of one channel: \<open>f\<close> gives what each ancestor holds for it, its writes in order and
  its stored value. A plain stored value already includes the ancestor's writes, a snapshot does not.
\<close>

definition subsumes_writes :: "pyval \<Rightarrow> bool" where
  "subsumes_writes v = (v \<noteq> VNone \<and> \<not> is_delta_snapshot v)"

fun history_of :: "(string \<Rightarrow> pending_write list \<times> pyval option) \<Rightarrow> string list \<Rightarrow> pending_write list \<times> pyval option" where
  "history_of f [] = ([], None)"
| "history_of f (cid # cids) =
     (case f cid of
        (ws, Some v) \<Rightarrow> (if subsumes_writes v then [] else ws, Some v)
      | (ws, None) \<Rightarrow> (let (us, seed) = history_of f cids in (us @ ws, seed)))"

definition loaded :: "loads \<Rightarrow> blob \<Rightarrow> pyval" where
  "loaded loads b = (case loads b of Inr v \<Rightarrow> v | Inl e \<Rightarrow> VNone)"

definition entry_versions :: "memory_saver \<Rightarrow> string \<Rightarrow> string \<Rightarrow> string \<Rightarrow> versions" where
  "entry_versions s t ns cid =
     (case map_of (ns_storage s t ns) cid of None \<Rightarrow> [] | Some e \<Rightarrow> channel_versions (st_checkpoint e))"

definition ancestor_holds ::
  "loads \<Rightarrow> memory_saver \<Rightarrow> string \<Rightarrow> string \<Rightarrow> string \<Rightarrow> string \<Rightarrow> pending_write list \<times> pyval option" where
  "ancestor_holds loads s t ns ch cid =
     (map (\<lambda>(key, tid, c, b, path). (tid, c, loaded loads b))
        (filter (\<lambda>(key, tid, c, b, path). c = ch) (sort_key fst (dgetd (ms_writes s) (t, ns, cid) []))),
      case blob_value loads s t ns (entry_versions s t ns cid) ch of Inr v \<Rightarrow> v | Inl e \<Rightarrow> None)"

lemma collect_writes_view:
  assumes "rfold (collect_write loads R value_of) col ws = Inr col'"
  shows "dgetd col' ch [] = dgetd col ch []
    @ (if ch \<in> R \<and> (case value_of ch of Some v \<Rightarrow> \<not> subsumes_writes v | None \<Rightarrow> True)
       then map (\<lambda>(key, tid, c, b, path). (tid, c, loaded loads b)) (filter (\<lambda>(key, tid, c, b, path). c = ch) ws)
       else [])"
  using assms
proof (induction ws arbitrary: col)
  case (Cons w ws)
  obtain key tid c b path where w: "w = (key, tid, c, b, path)" by (metis prod_cases5)
  from Cons.prems obtain col1 where one: "collect_write loads R value_of col w = Inr col1"
    and rest: "rfold (collect_write loads R value_of) col1 ws = Inr col'"
    by (auto simp: rbind_Inr_iff)
  have "dgetd col1 ch [] = dgetd col ch []
    @ (if ch \<in> R \<and> (case value_of ch of Some v \<Rightarrow> \<not> subsumes_writes v | None \<Rightarrow> True) \<and> c = ch
       then [(tid, c, loaded loads b)] else [])"
    using one by (auto simp: w collect_write_def subsumes_writes_def rmap_Inr_iff loaded_def dgetd_def
        split: option.splits if_splits)
  with Cons.IH [OF rest] show ?case by (auto simp: w)
qed (simp add: dgetd_def)

text \<open>One channel's part of the walk: whether it is still looked for, its writes and its value.\<close>

definition wk_view :: "walk_state \<Rightarrow> string \<Rightarrow> bool \<times> pending_write list \<times> pyval option" where
  "wk_view w ch = (ch \<in> wk_remaining w, dgetd (wk_collected w) ch [], map_of (wk_seeds w) ch)"

lemma rmapM_lookup:
  assumes "rmapM (\<lambda>ch. rmap (\<lambda>v. (ch, v)) (g ch)) xs = Inr ys"
  shows "map_of ys ch = (if ch \<in> set xs then case g ch of Inr v \<Rightarrow> Some v | Inl e \<Rightarrow> None else None)
    \<and> (ch \<in> set xs \<longrightarrow> (\<exists>v. g ch = Inr v))"
  using assms
proof (induction xs arbitrary: ys)
  case (Cons x xs)
  then show ?case by (auto simp: rbind_Inr_iff rmap_Inr_iff split: if_splits)
qed simp

lemma rmapM_mem: "rmapM (\<lambda>ch. rmap (\<lambda>v. (ch, v)) (g ch)) xs = Inr ys \<Longrightarrow> (ch, x) \<in> set ys \<Longrightarrow> g ch = Inr x"
  by (induction xs arbitrary: ys) (auto simp: rbind_Inr_iff rmap_Inr_iff)

lemma new_seeds_lookup:
  assumes "\<And>x. (ch, x) \<in> set found \<Longrightarrow> x = v" and "map_of found ch = Some v \<or> v = None"
  shows "map_of (new_seeds found) ch = v"
  using assms
proof (induction found)
  case (Cons f found)
  obtain c x where f: "f = (c, x)" by fastforce
  show ?case
  proof (cases "c = ch")
    case False
    with Cons f show ?thesis by (cases x) (auto simp: new_seeds_def)
  next
    case True
    then have x: "x = v" using Cons.prems(1) f by auto
    show ?thesis
    proof (cases v)
      case None
      have "map_of (new_seeds found) ch = v"
        using Cons.prems(1) None by (intro Cons.IH) auto
      then show ?thesis using x None f True by (simp add: new_seeds_def)
    next
      case (Some y)
      then show ?thesis using x f True by (simp add: new_seeds_def)
    qed
  qed
qed (simp add: new_seeds_def)

lemma walk_step_cases:
  assumes "walk_step loads s t ns channels w cid = Inr w'" and "wk_remaining w \<noteq> {}"
  obtains found col where
    "rmapM (\<lambda>ch. rmap (\<lambda>v. (ch, v)) (blob_value loads s t ns (entry_versions s t ns cid) ch))
       (filter (\<lambda>ch. ch \<in> wk_remaining w) channels) = Inr found"
    and "rfold (collect_write loads (wk_remaining w) (\<lambda>ch. case map_of found ch of None \<Rightarrow> None | Some v \<Rightarrow> v))
        (wk_collected w) (rev (sort_key fst (dgetd (ms_writes s) (t, ns, cid) []))) = Inr col"
    and "w' = \<lparr>wk_remaining = {c \<in> wk_remaining w. (case map_of found c of None \<Rightarrow> None | Some v \<Rightarrow> v) = None},
       wk_collected = col,
       wk_seeds = wk_seeds w @ new_seeds found\<rparr>"
  using assms by (auto simp: walk_step_def Let_def rbind_Inr_iff rmap_Inr_iff entry_versions_def)

lemma walk_step_done:
  assumes "walk_step loads s t ns channels w cid = Inr w'" and "ch \<notin> wk_remaining w"
  shows "wk_view w' ch = wk_view w ch"
proof (cases "wk_remaining w = {}")
  case True
  with assms(1) show ?thesis by (simp add: walk_step_def)
next
  case False
  obtain found col where
    f: "rmapM (\<lambda>ch. rmap (\<lambda>v. (ch, v)) (blob_value loads s t ns (entry_versions s t ns cid) ch))
          (filter (\<lambda>ch. ch \<in> wk_remaining w) channels) = Inr found"
    and c: "rfold (collect_write loads (wk_remaining w) (\<lambda>ch. case map_of found ch of None \<Rightarrow> None | Some v \<Rightarrow> v))
        (wk_collected w) (rev (sort_key fst (dgetd (ms_writes s) (t, ns, cid) []))) = Inr col"
    and w': "w' = \<lparr>wk_remaining = {c \<in> wk_remaining w. (case map_of found c of None \<Rightarrow> None | Some v \<Rightarrow> v) = None},
       wk_collected = col,
       wk_seeds = wk_seeds w @ new_seeds found\<rparr>"
    by (rule walk_step_cases [OF assms(1) False])
  have "map_of found ch = None" using rmapM_lookup [OF f, of ch] assms(2) by simp
  then have "map_of (new_seeds found) ch = None"
    by (intro new_seeds_lookup) (auto simp: map_of_eq_None_iff image_iff)
  with collect_writes_view [OF c, of ch] assms(2) show ?thesis
    by (simp add: wk_view_def w' map_add_def split: option.split)
qed

lemma walk_step_open:
  assumes "walk_step loads s t ns channels w cid = Inr w'" and "ch \<in> wk_remaining w" and "ch \<in> set channels"
    and "map_of (wk_seeds w) ch = None"
  defines "a \<equiv> ancestor_holds loads s t ns ch cid"
  shows "wk_view w' ch = (snd a = None,
      dgetd (wk_collected w) ch [] @ (if \<exists>v. snd a = Some v \<and> subsumes_writes v then [] else rev (fst a)), snd a)"
proof -
  have ne: "wk_remaining w \<noteq> {}" using assms(2) by auto
  obtain found col where
    f: "rmapM (\<lambda>ch. rmap (\<lambda>v. (ch, v)) (blob_value loads s t ns (entry_versions s t ns cid) ch))
          (filter (\<lambda>ch. ch \<in> wk_remaining w) channels) = Inr found"
    and c: "rfold (collect_write loads (wk_remaining w) (\<lambda>ch. case map_of found ch of None \<Rightarrow> None | Some v \<Rightarrow> v))
        (wk_collected w) (rev (sort_key fst (dgetd (ms_writes s) (t, ns, cid) []))) = Inr col"
    and w': "w' = \<lparr>wk_remaining = {c \<in> wk_remaining w. (case map_of found c of None \<Rightarrow> None | Some v \<Rightarrow> v) = None},
       wk_collected = col,
       wk_seeds = wk_seeds w @ new_seeds found\<rparr>"
    by (rule walk_step_cases [OF assms(1) ne])
  obtain v where v: "blob_value loads s t ns (entry_versions s t ns cid) ch = Inr v" and m: "map_of found ch = Some v"
    using rmapM_lookup [OF f, of ch] assms(2,3) by auto
  have a: "snd a = v" by (simp add: a_def ancestor_holds_def v)
  have seeds: "map_of (new_seeds found) ch = v"
    using rmapM_mem [OF f] v m by (intro new_seeds_lookup) auto
  have "rev (map f (filter P xs)) = map f (filter P (rev xs))" for f :: "write_entry_key \<times> string \<times> string \<times> blob \<times> string \<Rightarrow> pending_write" and P xs
    by (simp add: rev_map rev_filter)
  then have "rev (fst a) = map (\<lambda>(key, tid, c, b, path). (tid, c, loaded loads b))
        (filter (\<lambda>(key, tid, c, b, path). c = ch) (rev (sort_key fst (dgetd (ms_writes s) (t, ns, cid) []))))"
    by (simp add: a_def ancestor_holds_def)
  with collect_writes_view [OF c, of ch] assms(2,4) a seeds m show ?thesis
    by (cases v) (auto simp: wk_view_def w' map_add_def)
qed

lemma walk_view:
  assumes "rfold (walk_step loads s t ns channels) w chain = Inr w'" and "ch \<in> set channels"
    and "ch \<in> wk_remaining w \<longrightarrow> map_of (wk_seeds w) ch = None"
  defines "h \<equiv> history_of (ancestor_holds loads s t ns ch) chain"
  shows "snd (wk_view w' ch) = (if ch \<in> wk_remaining w then (dgetd (wk_collected w) ch [] @ rev (fst h), snd h) else snd (wk_view w ch))"
  using assms(1,3) unfolding h_def
proof (induction chain arbitrary: w)
  case Nil
  then show ?case by (simp add: wk_view_def)
next
  case (Cons cid chain)
  from Cons.prems(1) obtain w1 where one: "walk_step loads s t ns channels w cid = Inr w1"
    and rest: "rfold (walk_step loads s t ns channels) w1 chain = Inr w'"
    by (auto simp: rbind_Inr_iff)
  show ?case
  proof (cases "ch \<in> wk_remaining w")
    case False
    from walk_step_done [OF one False] have v: "wk_view w1 ch = wk_view w ch" .
    then have "ch \<notin> wk_remaining w1" using False by (simp add: wk_view_def)
    with Cons.IH [OF rest] v False show ?thesis by simp
  next
    case True
    obtain ws v where a: "ancestor_holds loads s t ns ch cid = (ws, v)" by fastforce
    from walk_step_open [OF one True assms(2)] Cons.prems(2) True
    have w1: "wk_view w1 ch = (v = None, dgetd (wk_collected w) ch [] @ (if \<exists>x. v = Some x \<and> subsumes_writes x then [] else rev ws), v)"
      by (cases v) (auto simp: a)
    show ?thesis
    proof (cases v)
      case None
      with w1 Cons.IH [OF rest] True a show ?thesis by (auto simp: wk_view_def split: prod.splits)
    next
      case (Some x)
      then have "ch \<notin> wk_remaining w1" using w1 by (simp add: wk_view_def)
      with Some w1 Cons.IH [OF rest] True a show ?thesis by (auto simp: wk_view_def)
    qed
  qed
qed

lemma parent_chain_ends:
  assumes "\<And>i e p. map_of d i = Some e \<Longrightarrow> st_parent e = Some p \<Longrightarrow> p < i"
  shows "\<exists>cs. parent_chain d cur = Some cs"
proof (cases cur)
  case None
  then show ?thesis by (simp add: parent_chain.simps)
next
  case (Some c)
  have "\<exists>cs. parent_chain d (Some c) = Some cs"
  proof (induction "card {i \<in> set (dkeys d). i \<le> c}" arbitrary: c rule: less_induct)
    case less
    show ?case
    proof (cases "map_of d c")
      case None
      then show ?thesis by (simp add: parent_chain.simps)
    next
      case e: (Some e)
      show ?thesis
      proof (cases "st_parent e")
        case None
        then show ?thesis using e by (simp add: parent_chain.simps)
      next
        case (Some p)
        have lt: "p < c" using assms e Some by blast
        have "c \<in> set (dkeys d)" using e by (simp add: dmem_iff_keys [symmetric] dmem_def)
        then have "c \<in> {i \<in> set (dkeys d). i \<le> c}" and "c \<notin> {i \<in> set (dkeys d). i \<le> p}"
          and "{i \<in> set (dkeys d). i \<le> p} \<subseteq> {i \<in> set (dkeys d). i \<le> c}"
          using lt by auto
        then have "{i \<in> set (dkeys d). i \<le> p} \<subset> {i \<in> set (dkeys d). i \<le> c}" by blast
        then have "card {i \<in> set (dkeys d). i \<le> p} < card {i \<in> set (dkeys d). i \<le> c}"
          by (intro psubset_card_mono) auto
        from less [OF this] e Some show ?thesis by (auto simp: parent_chain.simps [of d "Some c"])
      qed
    qed
  qed
  with Some show ?thesis by simp
qed

lemma map_of_tabulate: "ch \<in> set xs \<Longrightarrow> map_of (map (\<lambda>c. (c, F c)) xs) ch = Some (F ch)"
  by (induction xs) auto

text \<open>
  C30: asking for the history of delta channels always returns when checkpoints are newer than their
  parents; the answer for each channel is the abstract walk: the writes saved with its ancestors, oldest
  ancestor first and by task id within one, back to the nearest ancestor that stores a value, which is the seed;
  all channels are answered by the one walk as each would be alone.
\<close>

theorem delta_history_refines_walk:
  assumes "conf_str config CONFIG_KEY_THREAD_ID = Some t" and "channels \<noteq> []"
    and "\<And>i e p. map_of (ns_storage s t (conf_ns_or_root config)) i = Some e \<Longrightarrow> st_parent e = Some p \<Longrightarrow> p < i"
  defines "cps \<equiv> ns_storage s t (conf_ns_or_root config)"
    and "cid \<equiv> case get_checkpoint_id config of None \<Rightarrow> [] | Some i \<Rightarrow> i"
  shows "\<exists>chain r. parent_chain cps (case map_of cps cid of None \<Rightarrow> None | Some e \<Rightarrow> st_parent e) = Some chain
    \<and> saver_delta_history loads s config channels = Some r
    \<and> (\<forall>h ch. r = Inr h \<and> ch \<in> set channels \<longrightarrow>
        (let w = history_of (ancestor_holds loads s t (conf_ns_or_root config) ch) chain
         in map_of h ch = Some \<lparr>dh_writes = fst w, dh_seed = snd w\<rparr>))"
proof -
  let ?ns = "conf_ns_or_root config"
  let ?start = "case map_of cps cid of None \<Rightarrow> None | Some e \<Rightarrow> st_parent e"
  let ?w0 = "\<lparr>wk_remaining = set channels, wk_collected = map (\<lambda>c. (c, [])) channels, wk_seeds = []\<rparr>"
  obtain chain where chain: "parent_chain cps ?start = Some chain"
    using parent_chain_ends [of cps ?start] assms(3) unfolding cps_def by blast
  have r: "saver_delta_history loads s config channels = Some
      (rmap (\<lambda>w. map (\<lambda>ch. (ch, \<lparr>dh_writes = rev (dgetd (wk_collected w) ch []), dh_seed = map_of (wk_seeds w) ch\<rparr>)) channels)
        (rfold (walk_step loads s t ?ns channels) ?w0 chain))"
    using chain assms(1,2) by (simp add: saver_delta_history_def conf_key_def Let_def cps_def cid_def)
  have "map_of h ch = Some \<lparr>dh_writes = fst (history_of (ancestor_holds loads s t ?ns ch) chain),
      dh_seed = snd (history_of (ancestor_holds loads s t ?ns ch) chain)\<rparr>"
    if h: "rmap (\<lambda>w. map (\<lambda>ch. (ch, \<lparr>dh_writes = rev (dgetd (wk_collected w) ch []), dh_seed = map_of (wk_seeds w) ch\<rparr>)) channels)
        (rfold (walk_step loads s t ?ns channels) ?w0 chain) = Inr h" and ch: "ch \<in> set channels" for h ch
  proof -
    from h obtain w where w: "rfold (walk_step loads s t ?ns channels) ?w0 chain = Inr w"
      and h: "h = map (\<lambda>ch. (ch, \<lparr>dh_writes = rev (dgetd (wk_collected w) ch []), dh_seed = map_of (wk_seeds w) ch\<rparr>)) channels"
      by (auto simp: rmap_Inr_iff)
    have "dgetd (map (\<lambda>c. (c, [])) channels) ch [] = []"
      using ch by (simp add: dgetd_def map_of_tabulate)
    with walk_view [OF w ch] ch show ?thesis
      by (simp add: h map_of_tabulate wk_view_def)
  qed
  with chain r show ?thesis unfolding Let_def by blast
qed

definition example_saver :: memory_saver where
  "example_saver =
     \<lparr>ms_storage = [(''t'', [([], [(''1'', new_entry (put_config ''t'' [] None) (example_cp ''1'' 1 ''x'') example_meta),
         (''2'', new_entry (put_config ''t'' [] (Some (example_cp ''1'' 1 ''x''))) (example_cp ''2'' 1 ''x'') example_meta)])])],
      ms_writes = [((''t'', [], ''1''), [((''z'', 0), (''z'', ''d'', (''msgpack'', ''x''), [])), ((''a'', 0), (''a'', ''d'', (''msgpack'', ''y''), []))])],
      ms_blobs = []\<rparr>"

lemma delta_history_refines_walk_witness:
  "\<exists>r. saver_delta_history (JsonPlus_loads_typed example_codec) example_saver (saver_config ''t'' [] ''2'') [''d''] = Some r"
proof -
  have "p < i" if "map_of (ns_storage example_saver ''t'' (conf_ns_or_root (saver_config ''t'' [] ''2''))) i = Some e"
    and "st_parent e = Some p" for i e p
    using that by (auto simp: ns_storage_def example_saver_def conf_ns_or_root_def dgetd_def example_cp_def less_char_def split: if_splits)
  from delta_history_refines_walk [of "saver_config ''t'' [] ''2''" "''t''" "[''d'']" example_saver, OF _ _ this]
  show ?thesis by fastforce
qed



subsection \<open>Versions are increasing\<close>

definition saver_version :: "version \<Rightarrow> bool" where
  "saver_version v = (\<exists>n h. Suc n < 10 ^ 32 \<and> v = StrV (pad_int 32 (int n) @ ''.'' @ h))"

definition saver_next :: "string \<Rightarrow> version option \<Rightarrow> version" where
  "saver_next h v = (case saver_get_next_version h v of Some w \<Rightarrow> w | None \<Rightarrow> StrV [])"

lemma saver_next_version:
  assumes "n < 10 ^ 32"
  shows "saver_get_next_version h (Some (StrV (pad_int 32 (int n) @ ''.'' @ g))) = Some (StrV (pad_int 32 (int n + 1) @ ''.'' @ h))"
proof -
  have n: "n < 10 ^ Suc 31" using assms by simp
  have p: "pad_int 32 (int n) = fixed_digits 32 n" using pad_int_fixed [OF n] by simp
  have "split_on (CHR ''.'') (pad_int 32 (int n) @ CHR ''.'' # g) = pad_int 32 (int n) # split_on (CHR ''.'') g"
    using split_on_append [of "CHR ''.''" "pad_int 32 (int n)" g] fixed_digits_no_dot [of 32 n]
    by (simp add: p del: fixed_digits.simps)
  moreover have "parse_nat (pad_int 32 (int n)) = Some n"
    using parse_pad_int [OF n] by simp
  ultimately show ?thesis by (simp add: saver_get_next_version_def)
qed

interpretation mem_versions: versioning "saver_next h" saver_version for h
proof unfold_locales
  fix v :: version
  assume "saver_version v"
  then obtain n g where n: "Suc n < 10 ^ 32" and v: "v = StrV (pad_int 32 (int n) @ ''.'' @ g)"
    by (auto simp: saver_version_def)
  have lt: "pad_int (Suc 31) (int n) < pad_int (Suc 31) (int (Suc n))"
    by (rule pad_int_less) (use n in simp_all)
  have b: "n < 10 ^ Suc 31" "Suc n < 10 ^ Suc 31"
    using n by (simp_all del: power_Suc)
  have len: "length (pad_int (Suc 31) (int n)) = length (pad_int (Suc 31) (int (Suc n)))"
    by (simp only: pad_int_fixed [OF b(1)] pad_int_fixed [OF b(2)] length_fixed_digits)
  have "pad_int 32 (int n) @ ''.'' @ g < pad_int 32 (int n + 1) @ ''.'' @ h"
    using less_append_same_length [OF lt len] by (simp add: add.commute)
  then show "v < saver_next h (Some v)"
    using n by (simp only: v saver_next_def saver_next_version [of n h g] option.case version_less_simps)
qed

end
