(* ===== verification/Graph_Message.thy ===== *)
theory Graph_Message
  imports Channels
begin

section \<open>Reducers for lists of messages\<close>

text \<open>
  \<open>graph/message.py\<close>: \<open>add_messages\<close>, the reducer of \<open>MessagesState\<close>, and \<open>_messages_delta_reducer\<close>,
  its batch form for a \<open>DeltaChannel\<close>. Messages are LangChain's: \<open>VMessage type id content\<close>. What
  LangChain does to them is the record \<open>message_lib\<close>: \<open>convert_to_messages\<close> converts message by message,
  \<open>message_chunk_to_message\<close> turns a chunk into a message, and \<open>_format_messages\<close> rewrites the contents; the
  random ids of \<open>uuid4\<close> are a function from the number of the draw.
\<close>

record message_lib =
  ml_convert :: "pyval \<Rightarrow> pyval res"
  ml_unchunk :: "pyval \<Rightarrow> pyval"
  ml_format :: "pyval list \<Rightarrow> pyval list res"
  ml_new_id :: "nat \<Rightarrow> string"

definition REMOVE_ALL_MESSAGES :: string where
  "REMOVE_ALL_MESSAGES = ''__remove_all__''"

fun msg_id :: "pyval \<Rightarrow> string option" where
  "msg_id (VMessage t i c) = i"
| "msg_id _ = None"

fun is_message :: "pyval \<Rightarrow> bool" where
  "is_message (VMessage t i c) = True"
| "is_message _ = False"

fun is_remove :: "pyval \<Rightarrow> bool" where
  "is_remove (VMessage t i c) = (t = ''remove'')"
| "is_remove _ = False"

subsection \<open>\<open>add_messages\<close>\<close>

fun as_list :: "pyval \<Rightarrow> pyval list" where
  "as_list (VList xs) = xs"
| "as_list v = [v]"

fun convert_messages :: "message_lib \<Rightarrow> pyval list \<Rightarrow> pyval list res" where
  "convert_messages lib [] = Inr []"
| "convert_messages lib (m # ms) =
     rbind (ml_convert lib m) (\<lambda>x. rmap (\<lambda>xs. x # xs) (convert_messages lib ms))"

text \<open>Missing ids are drawn one by one; \<open>n\<close> counts the draws.\<close>

fun set_id :: "string \<Rightarrow> pyval \<Rightarrow> pyval" where
  "set_id i (VMessage t j c) = VMessage t (Some i) c"
| "set_id i v = v"

fun assign_ids :: "message_lib \<Rightarrow> nat \<Rightarrow> pyval list \<Rightarrow> pyval list \<times> nat" where
  "assign_ids lib n [] = ([], n)"
| "assign_ids lib n (m # ms) =
     (if msg_id m = None
      then let (ms', n') = assign_ids lib (Suc n) ms in (set_id (ml_new_id lib n) m # ms', n')
      else let (ms', n') = assign_ids lib n ms in (m # ms', n'))"

definition remove_all_idx :: "pyval list \<Rightarrow> nat option" where
  "remove_all_idx right =
     (let found = filter (\<lambda>i. is_remove (right ! i) \<and> msg_id (right ! i) = Some REMOVE_ALL_MESSAGES)
                    [0..<length right]
      in if found = [] then None else Some (last found))"

record merge_state =
  mg_merged :: "pyval list"
  mg_by_id :: "(string option, nat) dict"
  mg_remove :: "string option set"

definition index_by_id :: "pyval list \<Rightarrow> (string option, nat) dict" where
  "index_by_id ms = foldl (\<lambda>d (i, m). dset (msg_id m) i d) [] (zip [0..<length ms] ms)"

definition merge_message :: "merge_state \<Rightarrow> pyval \<Rightarrow> merge_state res" where
  "merge_message st m =
     (case map_of (mg_by_id st) (msg_id m) of
        Some existing_idx \<Rightarrow>
          (if is_remove m then Inr (st\<lparr>mg_remove := insert (msg_id m) (mg_remove st)\<rparr>)
           else Inr (st\<lparr>mg_remove := mg_remove st - {msg_id m}, mg_merged := (mg_merged st)[existing_idx := m]\<rparr>))
      | None \<Rightarrow>
          (if is_remove m then Inl (ValueError ''Attempting to delete a message with an ID that doesn't exist'')
           else Inr (st\<lparr>mg_by_id := dset (msg_id m) (length (mg_merged st)) (mg_by_id st),
                        mg_merged := mg_merged st @ [m]\<rparr>)))"

definition merge_messages :: "pyval list \<Rightarrow> pyval list \<Rightarrow> pyval list res" where
  "merge_messages left right =
     rmap (\<lambda>st. filter (\<lambda>m. msg_id m \<notin> mg_remove st) (mg_merged st))
       (rfold merge_message \<lparr>mg_merged = left, mg_by_id = index_by_id left, mg_remove = {}\<rparr> right)"

definition format_merged :: "message_lib \<Rightarrow> string option \<Rightarrow> pyval list \<Rightarrow> pyval list res" where
  "format_merged lib format merged =
     (case format of
        None \<Rightarrow> Inr merged
      | Some f \<Rightarrow>
          if f = ''langchain-openai'' then ml_format lib merged
          else if f \<noteq> [] then Inl (ValueError ''Unrecognized format'') else Inr merged)"

definition add_messages :: "message_lib \<Rightarrow> string option \<Rightarrow> pyval \<Rightarrow> pyval \<Rightarrow> pyval res" where
  "add_messages lib format left right =
     rbind (convert_messages lib (as_list left)) (\<lambda>left.
     rbind (convert_messages lib (as_list right)) (\<lambda>right.
       let (left, n) = assign_ids lib 0 (map (ml_unchunk lib) left);
           (right, _) = assign_ids lib n (map (ml_unchunk lib) right)
       in rmap VList
            (case remove_all_idx right of
               Some i \<Rightarrow> Inr (drop (Suc i) right)
             | None \<Rightarrow> rbind (merge_messages left right) (format_merged lib format))))"

text \<open>The wrapper: both arguments, or neither (a partial application, an object here).\<close>

definition add_messages_wrapper :: "message_lib \<Rightarrow> string option \<Rightarrow> pyval \<Rightarrow> pyval \<Rightarrow> pyval res" where
  "add_messages_wrapper lib format left right =
     (if left \<noteq> VNone \<and> right \<noteq> VNone then add_messages lib format left right
      else if left \<noteq> VNone \<or> right \<noteq> VNone
      then Inl (ValueError ''Must specify non-null arguments for both left and right'')
      else Inr (VObj ''partial''))"

subsection \<open>\<open>_messages_delta_reducer\<close>\<close>

definition flat_messages :: "pyval list \<Rightarrow> pyval list" where
  "flat_messages writes = concat (map as_list writes)"

record delta_state =
  ds_result :: "pyval option list"
  ds_index :: "(string, nat) dict"

definition delta_index :: "pyval list \<Rightarrow> (string, nat) dict" where
  "delta_index ms =
     foldl (\<lambda>d (i, m). case msg_id m of None \<Rightarrow> d | Some k \<Rightarrow> dset k i d) [] (zip [0..<length ms] ms)"

definition delta_message :: "delta_state \<Rightarrow> pyval \<Rightarrow> delta_state" where
  "delta_message st msg =
     (case msg_id msg of
        None \<Rightarrow> st\<lparr>ds_result := ds_result st @ [Some msg]\<rparr>
      | Some mid \<Rightarrow>
          (if is_remove msg
           then (case map_of (ds_index st) mid of
                   None \<Rightarrow> st
                 | Some i \<Rightarrow> st\<lparr>ds_result := (ds_result st)[i := None], ds_index := ddel mid (ds_index st)\<rparr>)
           else (case map_of (ds_index st) mid of
                   Some i \<Rightarrow> st\<lparr>ds_result := (ds_result st)[i := Some msg]\<rparr>
                 | None \<Rightarrow> st\<lparr>ds_index := dset mid (length (ds_result st)) (ds_index st),
                              ds_result := ds_result st @ [Some msg]\<rparr>)))"

definition reduce_messages :: "pyval list \<Rightarrow> pyval list \<Rightarrow> pyval list" where
  "reduce_messages state msgs =
     (let st = foldl delta_message \<lparr>ds_result = map Some state, ds_index = delta_index state\<rparr> msgs
      in map the (filter (\<lambda>m. m \<noteq> None) (ds_result st)))"

definition messages_delta_reducer :: "message_lib \<Rightarrow> pyval \<Rightarrow> pyval list \<Rightarrow> pyval res" where
  "messages_delta_reducer lib state writes =
     (case state of
        VList state \<Rightarrow>
          rbind (if state \<noteq> [] \<and> is_message (hd state) then Inr state else convert_messages lib state) (\<lambda>state_msgs.
          rmap (\<lambda>msgs. VList (reduce_messages state_msgs msgs)) (convert_messages lib (flat_messages writes)))
      | _ \<Rightarrow> Inl (TypeError ''state''))"

subsection \<open>The batch reducer is a fold\<close>

text \<open>What one message does to a list of messages with distinct ids.\<close>

definition put_message :: "pyval list \<Rightarrow> pyval \<Rightarrow> pyval list" where
  "put_message l m =
     (case msg_id m of
        None \<Rightarrow> l @ [m]
      | Some k \<Rightarrow>
          if is_remove m then filter (\<lambda>x. msg_id x \<noteq> Some k) l
          else if Some k \<in> msg_id ` set l then map (\<lambda>x. if msg_id x = Some k then m else x) l
          else l @ [m])"

definition ids_distinct :: "pyval list \<Rightarrow> bool" where
  "ids_distinct ms = distinct (List.map_filter msg_id ms)"

lemma ids_distinct_simps [simp]:
  "ids_distinct []"
  "ids_distinct (xs @ [m]) \<longleftrightarrow> ids_distinct xs \<and> (msg_id m = None \<or> msg_id m \<notin> msg_id ` set xs)"
  by (auto simp: ids_distinct_def map_filter_def image_iff)

definition values_of :: "pyval option list \<Rightarrow> pyval list" where
  "values_of result = map the (filter (\<lambda>m. m \<noteq> None) result)"

lemma values_of_simps [simp]:
  "values_of [] = []" "values_of (xs @ ys) = values_of xs @ values_of ys"
  "values_of (Some m # xs) = m # values_of xs" "values_of (None # xs) = values_of xs"
  "values_of (map Some ms) = ms" "m \<in> set (values_of xs) \<longleftrightarrow> Some m \<in> set xs"
  by (force simp: values_of_def comp_def filter_map)+

definition delta_rel :: "delta_state \<Rightarrow> pyval list \<Rightarrow> bool" where
  "delta_rel st l \<longleftrightarrow> l = values_of (ds_result st)
    \<and> (\<forall>k i. map_of (ds_index st) k = Some i \<longleftrightarrow>
         i < length (ds_result st) \<and> (\<exists>m. ds_result st ! i = Some m \<and> msg_id m = Some k))"

lemma delta_rel_split:
  assumes "delta_rel st l" and "map_of (ds_index st) k = Some i"
  obtains pre x post where "ds_result st = pre @ Some x # post" "length pre = i" "msg_id x = Some k"
    "\<forall>y. Some y \<in> set pre \<union> set post \<longrightarrow> msg_id y \<noteq> Some k"
proof -
  let ?r = "ds_result st"
  have at: "\<And>j. map_of (ds_index st) k = Some j \<longleftrightarrow> j < length ?r \<and> (\<exists>m. ?r ! j = Some m \<and> msg_id m = Some k)"
    using assms(1) by (simp add: delta_rel_def)
  then obtain x where i: "i < length ?r" and x: "?r ! i = Some x" "msg_id x = Some k" using assms(2) by blast
  have only: "j = i" if "j < length ?r" "?r ! j = Some y" "msg_id y = Some k" for j y
    using at [of j] that assms(2) by auto
  have "msg_id y \<noteq> Some k" if "Some y \<in> set (take i ?r) \<union> set (drop (Suc i) ?r)" for y
  proof
    assume y: "msg_id y = Some k"
    from that consider j where "j < i" "?r ! j = Some y" | j where "j < length ?r - Suc i" "?r ! (Suc i + j) = Some y"
      using i by (auto simp: in_set_conv_nth)
    then show False
    proof cases
      case 1
      then show False using only [of j y] y i by simp
    next
      case 2
      then have "Suc i + j < length ?r" by arith
      with 2 show False using only [of "Suc i + j" y] y by simp
    qed
  qed
  then show ?thesis
    using that [of "take i ?r" x "drop (Suc i) ?r"] i x by (auto simp: id_take_nth_drop [symmetric] min_def)
      (metis id_take_nth_drop x(1))
qed

lemma delta_rel_absent:
  assumes "delta_rel st l" and "map_of (ds_index st) k = None"
  shows "Some k \<notin> msg_id ` set l"
proof
  assume "Some k \<in> msg_id ` set l"
  then obtain m where "Some m \<in> set (ds_result st)" and m: "msg_id m = Some k"
    using assms(1) by (auto simp: delta_rel_def)
  then obtain i where "i < length (ds_result st)" "ds_result st ! i = Some m" by (auto simp: in_set_conv_nth)
  with m assms show False unfolding delta_rel_def by (metis option.distinct(1))
qed

lemma delta_message_rel:
  assumes "delta_rel st l"
  shows "delta_rel (delta_message st m) (put_message l m)"
proof (cases "msg_id m")
  case None
  with assms show ?thesis
    by (auto simp: delta_rel_def delta_message_def put_message_def nth_append less_Suc_eq)
next
  case k: (Some k)
  have l: "l = values_of (ds_result st)" using assms by (simp add: delta_rel_def)
  show ?thesis
  proof (cases "map_of (ds_index st) k")
    case None
    have "Some k \<notin> msg_id ` set l" by (rule delta_rel_absent [OF assms None])
    moreover from this have "filter (\<lambda>x. msg_id x \<noteq> Some k) l = l" by (intro filter_True) force
    moreover have "msg_id y \<noteq> Some k" if "i < length (ds_result st)" "ds_result st ! i = Some y" for i y
      using assms None that unfolding delta_rel_def by (metis option.distinct(1))
    ultimately show ?thesis
      using assms None k
      by (auto simp: delta_rel_def delta_message_def put_message_def nth_append less_Suc_eq)
  next
    case (Some i)
    obtain pre x post where r: "ds_result st = pre @ Some x # post" and i: "length pre = i"
      and x: "msg_id x = Some k" and other: "\<forall>y. Some y \<in> set pre \<union> set post \<longrightarrow> msg_id y \<noteq> Some k"
      by (rule delta_rel_split [OF assms Some])
    have at: "\<And>j n. map_of (ds_index st) j = Some n \<longleftrightarrow>
        n < length (ds_result st) \<and> (\<exists>m. ds_result st ! n = Some m \<and> msg_id m = Some j)"
      using assms by (simp add: delta_rel_def)
    have in_l: "Some k \<in> msg_id ` set l" unfolding l r using x by (auto simp: image_iff)
    show ?thesis
    proof (cases "is_remove m")
      case True
      have "filter (\<lambda>x. msg_id x \<noteq> Some k) l = values_of ((ds_result st)[i := None])"
        unfolding l r using x other i by (auto simp: list_update_append intro!: filter_True)
      moreover have "map_of (ddel k (ds_index st)) j = Some n \<longleftrightarrow>
          n < length (ds_result st) \<and> (\<exists>m. (ds_result st)[i := None] ! n = Some m \<and> msg_id m = Some j)" for j n
        using at [of j n] at [of j i] at [of k n] Some by (auto simp: nth_list_update)
      ultimately show ?thesis
        using True k Some by (simp add: delta_rel_def delta_message_def put_message_def)
    next
      case False
      have "map (\<lambda>x. if msg_id x = Some k then m else x) l = values_of ((ds_result st)[i := Some m])"
        unfolding l r using x other i by (auto simp: list_update_append intro!: map_idI)
      moreover have "map_of (ds_index st) j = Some n \<longleftrightarrow>
          n < length (ds_result st) \<and> (\<exists>y. (ds_result st)[i := Some m] ! n = Some y \<and> msg_id y = Some j)" for j n
        using at [of j n] at [of j i] at [of k n] at [of k i] Some k by (auto simp: nth_list_update)
      moreover have "delta_message st m = st\<lparr>ds_result := (ds_result st)[i := Some m]\<rparr>"
        and "put_message l m = map (\<lambda>x. if msg_id x = Some k then m else x) l"
        using False k Some in_l by (simp_all add: delta_message_def put_message_def)
      ultimately show ?thesis
        unfolding delta_rel_def by simp
    qed
  qed
qed

lemma zip_upt_snoc: "zip [0..<length (xs @ [x])] (xs @ [x]) = zip [0..<length xs] xs @ [(length xs, x)]"
  by simp

lemma delta_index_at:
  "ids_distinct ms \<Longrightarrow> map_of (delta_index ms) k = Some i \<longleftrightarrow> i < length ms \<and> msg_id (ms ! i) = Some k"
proof (induction ms arbitrary: i rule: rev_induct)
  case (snoc m ms)
  have step: "delta_index (ms @ [m]) =
      (case msg_id m of None \<Rightarrow> delta_index ms | Some j \<Rightarrow> dset j (length ms) (delta_index ms))"
    unfolding delta_index_def zip_upt_snoc foldl_append by (simp split: option.splits)
  show ?case
  proof (cases "msg_id m = Some k")
    case True
    have "msg_id (ms ! i) \<noteq> Some k" if "i < length ms"
      using snoc.prems True that by (auto simp: image_iff) (metis nth_mem)
    with True snoc show ?thesis by (auto simp: step nth_append less_Suc_eq)
  next
    case False
    with snoc show ?thesis by (auto simp: step nth_append less_Suc_eq split: option.splits)
  qed
qed (simp add: delta_index_def)

lemma reduce_messages_fold:
  assumes "ids_distinct state"
  shows "reduce_messages state msgs = foldl put_message state msgs"
proof -
  have "delta_rel \<lparr>ds_result = map Some state, ds_index = delta_index state\<rparr> state"
    using delta_index_at [OF assms] by (auto simp: delta_rel_def)
  then have "delta_rel (foldl delta_message \<lparr>ds_result = map Some state, ds_index = delta_index state\<rparr> msgs)
      (foldl put_message state msgs)"
  proof (induction msgs rule: rev_induct)
    case (snoc m ms)
    then show ?case using delta_message_rel by simp
  qed simp
  then show ?thesis
    by (simp add: reduce_messages_def delta_rel_def values_of_def Let_def)
qed

lemma put_message_ids: "msg_id ` set (put_message l m) \<subseteq> insert (msg_id m) (msg_id ` set l)"
  by (auto simp: put_message_def split: option.splits if_splits)

lemma ids_distinct_filter: "ids_distinct l \<Longrightarrow> ids_distinct (filter P l)"
  by (induction l rule: rev_induct) auto

lemma ids_distinct_replace:
  assumes "ids_distinct l" and "msg_id m = Some k"
  shows "ids_distinct (map (\<lambda>x. if msg_id x = Some k then m else x) l)"
proof -
  have "List.map_filter msg_id (map (\<lambda>x. if msg_id x = Some k then m else x) l) = List.map_filter msg_id l"
    using assms(2) by (induction l) (simp_all add: map_filter_simps split: option.splits)
  with assms(1) show ?thesis by (simp add: ids_distinct_def)
qed

lemma put_message_distinct:
  assumes "ids_distinct l"
  shows "ids_distinct (put_message l m)"
  using assms by (auto simp: put_message_def ids_distinct_filter ids_distinct_replace split: option.splits)

text \<open>The states the reducer keeps: lists of messages with distinct ids.\<close>

definition message_state :: "pyval \<Rightarrow> bool" where
  "message_state s = (\<exists>ms. s = VList ms \<and> list_all is_message ms \<and> ids_distinct ms)"

lemma put_message_messages:
  "list_all is_message l \<Longrightarrow> is_message m \<Longrightarrow> list_all is_message (put_message l m)"
  by (auto simp: put_message_def list_all_iff split: option.splits)

lemma put_messages_state:
  "list_all is_message l \<Longrightarrow> ids_distinct l \<Longrightarrow> list_all is_message ms \<Longrightarrow>
   list_all is_message (foldl put_message l ms) \<and> ids_distinct (foldl put_message l ms)"
  by (induction ms arbitrary: l) (auto simp: put_message_messages put_message_distinct)

text \<open>How LangChain converts messages that are messages already: not at all.\<close>

definition keeps_messages :: "message_lib \<Rightarrow> bool" where
  "keeps_messages lib = (\<forall>m x. (is_message m \<longrightarrow> ml_convert lib m = Inr m)
     \<and> (ml_convert lib m = Inr x \<longrightarrow> is_message x))"

lemma convert_messages_append:
  "convert_messages lib (xs @ ys) = rbind (convert_messages lib xs) (\<lambda>a. rmap (\<lambda>b. a @ b) (convert_messages lib ys))"
  by (induction xs) (auto simp: rbind_def rmap_def split: sum.splits)

lemma convert_messages_typed:
  "keeps_messages lib \<Longrightarrow> convert_messages lib ms = Inr xs \<Longrightarrow> list_all is_message xs"
  by (induction ms arbitrary: xs) (auto simp: rbind_Inr_iff rmap_Inr_iff keeps_messages_def)

lemma convert_messages_id: "keeps_messages lib \<Longrightarrow> list_all is_message ms \<Longrightarrow> convert_messages lib ms = Inr ms"
  by (induction ms) (auto simp: keeps_messages_def)

lemma delta_reducer_state:
  assumes "message_state s" and "keeps_messages lib" and "s = VList ms"
  shows "messages_delta_reducer lib s ws =
     rmap (\<lambda>xs. VList (foldl put_message ms xs)) (convert_messages lib (flat_messages ws))"
proof -
  have ms: "list_all is_message ms" "ids_distinct ms" using assms(1,3) by (auto simp: message_state_def)
  have "ms \<noteq> [] \<Longrightarrow> is_message (hd ms)" using ms(1) by (cases ms) auto
  then have "(if ms \<noteq> [] \<and> is_message (hd ms) then Inr ms else convert_messages lib ms) = Inr ms"
    by (cases "ms = []") simp_all
  with assms(3) show ?thesis
    by (simp add: messages_delta_reducer_def reduce_messages_fold [OF ms(2)])
qed

text \<open>
  The batch reducer's documented requirement, on the states it keeps: it is a fold, so batching does
  not matter and it never leaves them.
\<close>

lemma messages_reducer_batching:
  assumes "keeps_messages lib"
  shows "batching_on message_state (messages_delta_reducer lib)"
  unfolding batching_on_def
proof (intro conjI allI impI)
  fix s xs s'
  assume s: "message_state s" and r: "messages_delta_reducer lib s xs = Inr s'"
  obtain ms where ms: "s = VList ms" "list_all is_message ms" "ids_distinct ms" using s by (auto simp: message_state_def)
  obtain cs where "convert_messages lib (flat_messages xs) = Inr cs" and s': "s' = VList (foldl put_message ms cs)"
    using r by (auto simp: delta_reducer_state [OF s assms ms(1)] rmap_Inr_iff)
  with ms put_messages_state show "message_state s'"
    using convert_messages_typed [OF assms] by (auto simp: message_state_def)
next
  fix s :: pyval and xs ys :: "pyval list"
  assume s: "message_state s"
  obtain ms where ms: "s = VList ms" "list_all is_message ms" "ids_distinct ms" using s by (auto simp: message_state_def)
  have flat: "flat_messages (xs @ ys) = flat_messages xs @ flat_messages ys" by (simp add: flat_messages_def)
  show "rbind (messages_delta_reducer lib s xs) (\<lambda>s'. messages_delta_reducer lib s' ys)
      = messages_delta_reducer lib s (xs @ ys)"
  proof (cases "convert_messages lib (flat_messages xs)")
    case (Inl e)
    then show ?thesis by (simp add: delta_reducer_state [OF s assms ms(1)] flat convert_messages_append)
  next
    case (Inr cs)
    then have "message_state (VList (foldl put_message ms cs))"
      using ms put_messages_state convert_messages_typed [OF assms] by (auto simp: message_state_def)
    from delta_reducer_state [OF this assms refl] Inr show ?thesis
      by (cases "convert_messages lib (flat_messages ys)")
        (simp_all add: delta_reducer_state [OF s assms ms(1)] flat convert_messages_append)
  qed
qed


definition example_lib :: message_lib where
  "example_lib = \<lparr>ml_convert = (\<lambda>m. if is_message m then Inr m else Inl (TypeError ''message'')), ml_unchunk = (\<lambda>m. m),
     ml_format = (\<lambda>ms. Inr ms), ml_new_id = (\<lambda>n. ''uuid-'' @ str_of_int (int n))\<rparr>"

abbreviation example_msg :: "string \<Rightarrow> string \<Rightarrow> pyval" where
  "example_msg i c \<equiv> VMessage ''human'' (Some i) (VStr c)"

lemma example_lib_keeps: "keeps_messages example_lib"
  by (simp add: keeps_messages_def example_lib_def)


subsection \<open>\<open>add_messages\<close> is an update of a dictionary\<close>

text \<open>
  The specification: messages are a dictionary by id in insertion order, the right-hand messages are put
  into it, and the ids whose last right-hand message is a \<open>RemoveMessage\<close> are dropped in the end.
\<close>

definition msg_entries :: "pyval list \<Rightarrow> (string option, pyval) dict" where
  "msg_entries ms = map (\<lambda>m. (msg_id m, m)) ms"

definition put_entry :: "(string option, pyval) dict \<Rightarrow> pyval \<Rightarrow> (string option, pyval) dict" where
  "put_entry d m = (if is_remove m then d else dset (msg_id m) m d)"

definition removed_ids :: "pyval list \<Rightarrow> string option set" where
  "removed_ids right = {i. \<exists>m. find (\<lambda>m. msg_id m = i) (rev right) = Some m \<and> is_remove m}"

definition merged_dict :: "pyval list \<Rightarrow> pyval list \<Rightarrow> (string option, pyval) dict" where
  "merged_dict left right = filter (\<lambda>(i, m). i \<notin> removed_ids right) (foldl put_entry (msg_entries left) right)"

text \<open>Every \<open>RemoveMessage\<close> names a message that is there.\<close>

definition removes_known :: "pyval list \<Rightarrow> pyval list \<Rightarrow> bool" where
  "removes_known left right =
     (\<forall>i < length right. is_remove (right ! i) \<longrightarrow> msg_id (right ! i) \<in> msg_id ` (set left \<union> set (take i right)))"

lemma removed_ids_simps [simp]:
  "removed_ids [] = {}"
  "removed_ids (ms @ [m]) = (if is_remove m then insert (msg_id m) (removed_ids ms) else removed_ids ms - {msg_id m})"
  by (auto simp: removed_ids_def)

lemma dset_at: "dict_ok d \<Longrightarrow> i < length d \<Longrightarrow> fst (d ! i) = k \<Longrightarrow> dset k v d = d[i := (k, v)]"
proof (induction d arbitrary: i)
  case (Cons e d)
  show ?case
  proof (cases i)
    case 0
    with Cons.prems show ?thesis by (cases e) simp
  next
    case (Suc j)
    moreover have "fst e \<noteq> k"
      using Cons.prems Suc by (auto simp: dict_ok_def)
    ultimately show ?thesis using Cons by (cases e) (simp add: dict_ok_def)
  qed
qed simp

definition merge_rel :: "merge_state \<Rightarrow> (string option, pyval) dict \<Rightarrow> string option set \<Rightarrow> bool" where
  "merge_rel st d rem \<longleftrightarrow> mg_merged st = map snd d \<and> dict_ok d \<and> (\<forall>(i, m) \<in> set d. msg_id m = i)
    \<and> mg_remove st = rem
    \<and> (\<forall>k i. map_of (mg_by_id st) k = Some i \<longleftrightarrow> i < length d \<and> fst (d ! i) = k)"

lemma merge_rel_absent: "merge_rel st d rem \<Longrightarrow> map_of (mg_by_id st) k = None \<longleftrightarrow> k \<notin> fst ` set d"
proof -
  assume r: "merge_rel st d rem"
  have "k \<in> set (map fst d) \<longleftrightarrow> (\<exists>i < length d. fst (d ! i) = k)"
    by (auto simp: in_set_conv_nth simp del: set_map)
  then have "k \<in> fst ` set d \<longleftrightarrow> (\<exists>i < length d. fst (d ! i) = k)" by simp
  also have "\<dots> \<longleftrightarrow> (\<exists>i. map_of (mg_by_id st) k = Some i)"
    using r by (auto simp: merge_rel_def)
  finally show ?thesis by auto
qed

lemma merge_message_rel:
  assumes "merge_rel st d rem" and "is_remove m \<longrightarrow> msg_id m \<in> fst ` set d" and "rem \<subseteq> fst ` set d"
  shows "\<exists>st'. merge_message st m = Inr st' \<and> merge_rel st' (put_entry d m)
    (if is_remove m then insert (msg_id m) rem else rem - {msg_id m})"
proof (cases "map_of (mg_by_id st) (msg_id m)")
  case None
  then have new: "msg_id m \<notin> fst ` set d" using merge_rel_absent [OF assms(1)] by simp
  with assms(2) have nr: "\<not> is_remove m" by blast
  have "msg_id m \<notin> rem" using new assms(3) by blast
  moreover have "fst (d ! i) \<noteq> msg_id m" if "i < length d" for i
    using new nth_mem [OF that] by (metis imageI)
  ultimately show ?thesis
    using assms(1) None nr new dset_new [OF new]
    by (auto simp: merge_rel_def merge_message_def put_entry_def nth_append dict_ok_def less_Suc_eq)
next
  case (Some i)
  then have i: "i < length d" "fst (d ! i) = msg_id m" using assms(1) by (auto simp: merge_rel_def)
  show ?thesis
  proof (cases "is_remove m")
    case True
    then have "merge_message st m = Inr (st\<lparr>mg_remove := insert (msg_id m) (mg_remove st)\<rparr>)"
      by (simp add: merge_message_def Some)
    with True assms(1) show ?thesis by (simp add: merge_rel_def put_entry_def)
  next
    case False
    have d: "dset (msg_id m) m d = d[i := (msg_id m, m)]"
      using assms(1) i by (intro dset_at) (auto simp: merge_rel_def)
    have keys: "fst (d[i := (msg_id m, m)] ! j) = fst (d ! j)" if "j < length d" for j
      using i that by (auto simp: nth_list_update)
    have "dict_ok (d[i := (msg_id m, m)])"
      using assms(1) unfolding d [symmetric] by (simp add: merge_rel_def)
    moreover have "\<forall>(i, m) \<in> set (d[i := (msg_id m, m)]). msg_id m = i"
      using assms(1) by (auto simp: merge_rel_def dest!: set_mp [OF set_update_subset_insert])
    moreover have "merge_message st m = Inr (st\<lparr>mg_remove := mg_remove st - {msg_id m}, mg_merged := (mg_merged st)[i := m]\<rparr>)"
      using False by (simp add: merge_message_def Some)
    ultimately show ?thesis
      using assms(1) False keys by (auto simp: merge_rel_def put_entry_def d map_update)
  qed
qed

lemma merge_rel_init:
  assumes "distinct (map msg_id left)"
  shows "merge_rel \<lparr>mg_merged = left, mg_by_id = index_by_id left, mg_remove = {}\<rparr> (msg_entries left) {}"
proof -
  have "map_of (index_by_id left) k = Some i \<longleftrightarrow> i < length left \<and> msg_id (left ! i) = k" for k i
    using assms
  proof (induction left arbitrary: i rule: rev_induct)
    case (snoc m ms)
    have "index_by_id (ms @ [m]) = dset (msg_id m) (length ms) (index_by_id ms)"
      unfolding index_by_id_def zip_upt_snoc foldl_append by simp
    moreover have "msg_id (ms ! j) \<noteq> msg_id m" if "j < length ms" for j
      using snoc.prems nth_mem [OF that] by (auto simp: image_iff)
    ultimately show ?case
      using snoc by (auto simp: nth_append less_Suc_eq)
  qed (simp add: index_by_id_def)
  moreover have "fst (msg_entries left ! i) = msg_id (left ! i)" if "i < length left" for i
    using that by (simp add: msg_entries_def)
  moreover have "map fst (msg_entries left) = map msg_id left" "map snd (msg_entries left) = left"
    by (simp_all add: msg_entries_def comp_def)
  ultimately show ?thesis
    using assms unfolding merge_rel_def dict_ok_def by (auto simp: msg_entries_def comp_def)
qed

lemma put_entry_keys: "fst ` set (put_entry d m) = (if is_remove m then fst ` set d else insert (msg_id m) (fst ` set d))"
  by (simp add: put_entry_def dom_update)

lemma put_entries_keys:
  "fst ` set (foldl put_entry d ms) = fst ` set d \<union> msg_id ` {m \<in> set ms. \<not> is_remove m}"
proof (induction ms rule: rev_induct)
  case (snoc m ms)
  then show ?case by (auto simp: put_entry_keys)
qed simp

lemma removed_ids_sub: "removed_ids ms \<subseteq> msg_id ` set ms"
  by (induction ms rule: rev_induct) auto

lemma removes_known_snoc:
  "removes_known left (ms @ [m]) \<longleftrightarrow> removes_known left ms \<and> (is_remove m \<longrightarrow> msg_id m \<in> msg_id ` (set left \<union> set ms))"
  by (auto simp: removes_known_def less_Suc_eq nth_append)

lemma known_keys:
  assumes "removes_known left ms"
  shows "fst ` set (foldl put_entry (msg_entries left) ms) = msg_id ` (set left \<union> set ms)"
  using assms
proof (induction ms rule: rev_induct)
  case Nil
  show ?case by (auto simp: msg_entries_def image_iff)
next
  case (snoc m ms)
  then show ?case by (auto simp: removes_known_snoc put_entry_keys image_Un)
qed

lemma merge_messages_rel:
  assumes "distinct (map msg_id left)" and "removes_known left right"
  shows "\<exists>st. rfold merge_message \<lparr>mg_merged = left, mg_by_id = index_by_id left, mg_remove = {}\<rparr> right = Inr st
    \<and> merge_rel st (foldl put_entry (msg_entries left) right) (removed_ids right)"
  using assms(2)
proof (induction right rule: rev_induct)
  case Nil
  then show ?case using merge_rel_init [OF assms(1)] by simp
next
  case (snoc m ms)
  then obtain st where st: "rfold merge_message \<lparr>mg_merged = left, mg_by_id = index_by_id left, mg_remove = {}\<rparr> ms = Inr st"
    and rel: "merge_rel st (foldl put_entry (msg_entries left) ms) (removed_ids ms)"
    by (auto simp: removes_known_snoc)
  have "removed_ids ms \<subseteq> fst ` set (foldl put_entry (msg_entries left) ms)"
    using snoc.prems removed_ids_sub [of ms] by (auto simp: removes_known_snoc known_keys)
  from merge_message_rel [OF rel _ this, of m] st show ?case
    using snoc.prems by (auto simp: rfold_append removes_known_snoc known_keys)
qed

lemma merge_messages_error:
  assumes "distinct (map msg_id left)" and "\<not> removes_known left right"
  shows "\<exists>t. merge_messages left right = Inl (ValueError t)"
proof -
  obtain i where i: "i < length right" "is_remove (right ! i)" "msg_id (right ! i) \<notin> msg_id ` (set left \<union> set (take i right))"
    and known: "removes_known left (take i right)"
  proof -
    define bad where "bad i \<longleftrightarrow> i < length right \<and> is_remove (right ! i)
      \<and> msg_id (right ! i) \<notin> msg_id ` (set left \<union> set (take i right))" for i
    have "\<exists>i. bad i" using assms(2) by (auto simp: removes_known_def bad_def)
    then have "bad (LEAST i. bad i)" and "\<forall>j < (LEAST i. bad i). \<not> bad j"
      by (auto intro: LeastI_ex dest: not_less_Least)
    then show ?thesis
      by (intro that [of "LEAST i. bad i"]) (auto simp: bad_def removes_known_def min_def)
  qed
  obtain st where st: "rfold merge_message \<lparr>mg_merged = left, mg_by_id = index_by_id left, mg_remove = {}\<rparr> (take i right) = Inr st"
    and rel: "merge_rel st (foldl put_entry (msg_entries left) (take i right)) (removed_ids (take i right))"
    using merge_messages_rel [OF assms(1) known] by blast
  have "map_of (mg_by_id st) (msg_id (right ! i)) = None"
    using merge_rel_absent [OF rel] i(3) known_keys [OF known] by simp
  then have "\<exists>t. merge_message st (right ! i) = Inl (ValueError t)"
    using i(2) by (simp add: merge_message_def)
  moreover have "right = take i right @ right ! i # drop (Suc i) right"
    using i(1) by (rule id_take_nth_drop)
  ultimately show ?thesis
    using st unfolding merge_messages_def
    by (metis (no_types, lifting) rfold_append rfold.simps(2) rbind_simps rmap_simps(1))
qed

text \<open>
  C20: \<open>add_messages\<close> is an update of a dictionary: with distinct ids on the left, each right-hand message
  replaces the one of its id in place or is added at the end, and the ids whose last right-hand message is
  a \<open>RemoveMessage\<close> are dropped; a \<open>RemoveMessage\<close> for an id that neither side had before is the only
  error; the ids of the result are distinct again.
\<close>

theorem add_messages_merges:
  assumes "convert_messages lib (as_list l) = Inr left0" and "convert_messages lib (as_list r) = Inr right0"
    and "assign_ids lib 0 (map (ml_unchunk lib) left0) = (left, n)"
    and "assign_ids lib n (map (ml_unchunk lib) right0) = (right, n')"
    and "distinct (map msg_id left)" and "remove_all_idx right = None"
  shows "if removes_known left right
    then add_messages lib None l r = Inr (VList (map snd (merged_dict left right)))
      \<and> distinct (map msg_id (map snd (merged_dict left right)))
    else \<exists>t. add_messages lib None l r = Inl (ValueError t)"
proof -
  have eq: "add_messages lib None l r = rmap VList (merge_messages left right)"
    using assms by (cases "merge_messages left right") (simp_all add: add_messages_def format_merged_def)
  show ?thesis
  proof (cases "removes_known left right")
    case True
    obtain st where st: "rfold merge_message \<lparr>mg_merged = left, mg_by_id = index_by_id left, mg_remove = {}\<rparr> right = Inr st"
      and rel: "merge_rel st (foldl put_entry (msg_entries left) right) (removed_ids right)"
      using merge_messages_rel [OF assms(5) True] by blast
    let ?d = "foldl put_entry (msg_entries left) right"
    have ids: "msg_id (snd e) = fst e" if "e \<in> set ?d" for e
      using rel that by (auto simp: merge_rel_def)
    have "filter (\<lambda>m. msg_id m \<notin> removed_ids right) (map snd ?d) = map snd (merged_dict left right)"
      using ids unfolding merged_dict_def filter_map comp_def by (auto intro!: arg_cong [where f = "map snd"] filter_cong)
    then have "merge_messages left right = Inr (map snd (merged_dict left right))"
      using st rel by (simp add: merge_messages_def merge_rel_def)
    moreover have "map (msg_id \<circ> snd) (merged_dict left right) = map fst (merged_dict left right)"
      using ids by (auto simp: merged_dict_def)
    moreover have "distinct (map fst (merged_dict left right))"
      using rel by (auto simp: merge_rel_def dict_ok_def merged_dict_def distinct_map_filter)
    ultimately show ?thesis using True eq by (simp only: if_True map_map rmap_simps)
  next
    case False
    then obtain t where "merge_messages left right = Inl (ValueError t)"
      using merge_messages_error [OF assms(5)] by blast
    with False eq show ?thesis by simp
  qed
qed

lemma example_lib_simps [simp]:
  "ml_convert example_lib m = (if is_message m then Inr m else Inl (TypeError ''message''))"
  "ml_unchunk example_lib m = m"
  by (simp_all add: example_lib_def)

lemma add_messages_merges_witness:
  "add_messages example_lib None (VList [example_msg ''a'' ''x''])
     (VList [example_msg ''b'' ''y'', example_msg ''a'' ''z'', VMessage ''remove'' (Some ''b'') VNone])
   = Inr (VList [example_msg ''a'' ''z''])"
proof -
  have "merged_dict [example_msg ''a'' ''x'']
      [example_msg ''b'' ''y'', example_msg ''a'' ''z'', VMessage ''remove'' (Some ''b'') VNone]
      = [(Some ''a'', example_msg ''a'' ''z'')]"
    by (simp add: merged_dict_def msg_entries_def put_entry_def removed_ids_def)
  moreover have "removes_known [example_msg ''a'' ''x'']
      [example_msg ''b'' ''y'', example_msg ''a'' ''z'', VMessage ''remove'' (Some ''b'') VNone]"
    by (simp add: removes_known_def less_Suc_eq numeral_nat)
  ultimately show ?thesis
    using add_messages_merges [of example_lib "VList [example_msg ''a'' ''x'']" "[example_msg ''a'' ''x'']"
        "VList [example_msg ''b'' ''y'', example_msg ''a'' ''z'', VMessage ''remove'' (Some ''b'') VNone]"
        "[example_msg ''b'' ''y'', example_msg ''a'' ''z'', VMessage ''remove'' (Some ''b'') VNone]"
        "[example_msg ''a'' ''x'']" 0
        "[example_msg ''b'' ''y'', example_msg ''a'' ''z'', VMessage ''remove'' (Some ''b'') VNone]" 0]
    by (simp add: remove_all_idx_def REMOVE_ALL_MESSAGES_def)
qed

text \<open>
  Asking to remove all messages takes what follows the request as it is: messages of one id are not merged,
  requests to remove are kept as messages, and the format is not applied.
\<close>

lemma remove_all_takes_tail:
  assumes "convert_messages lib (as_list l) = Inr left0" and "convert_messages lib (as_list r) = Inr right0"
    and "assign_ids lib 0 (map (ml_unchunk lib) left0) = (left, n)"
    and "assign_ids lib n (map (ml_unchunk lib) right0) = (right, n')"
    and "remove_all_idx right = Some i"
  shows "add_messages lib format l r = Inr (VList (drop (Suc i) right))"
  using assms by (simp add: add_messages_def)

lemma remove_all_keeps_duplicates:
  "add_messages example_lib (Some ''nonsense'') (VList [])
     (VList [VMessage ''remove'' (Some REMOVE_ALL_MESSAGES) VNone, example_msg ''a'' ''x'', example_msg ''a'' ''y'',
             VMessage ''remove'' (Some ''a'') VNone])
   = Inr (VList [example_msg ''a'' ''x'', example_msg ''a'' ''y'', VMessage ''remove'' (Some ''a'') VNone])"
  by (simp add: add_messages_def remove_all_idx_def REMOVE_ALL_MESSAGES_def)

end
