(* ===== verification/Graph_Schema.thy ===== *)
theory Graph_Schema
  imports Checkpoint_Core Pregel_Validate
begin

section \<open>From a state schema to channels\<close>

text \<open>
  The part of \<open>graph/state.py\<close> that reads annotations: \<open>_get_channels\<close>, \<open>_get_channel\<close> and the three
  \<open>_is_field_\<close> functions. An annotation is what these functions can see of it: its \<open>__metadata__\<close>, its
  origin and its arguments. A type stands for the type object; equality of types is equality here.
\<close>

subsection \<open>Annotations\<close>

text \<open>
  An item of \<open>__metadata__\<close>: an instance of a channel class, a channel class itself with what calling it
  on a type returns, a managed value, a function with the number of its positional parameters, or
  anything else. A channel instance is shared by the fields that name it; only its \<open>key\<close>, which is used
  in error messages, can tell.
\<close>

datatype meta_item =
    MetaChannel channel
  | MetaChannelClass "pytype \<Rightarrow> channel res"
  | MetaManaged managed_spec
  | MetaCallable binary_reducer nat
  | MetaOther string

datatype annot =
    Plain pytype
  | Req annot
  | NotReq annot
  | Generic pytype "annot list"
  | Annotated annot "meta_item list"

text \<open>The type object an annotation is to the channel constructors.\<close>

fun annot_type :: "annot \<Rightarrow> pytype" where
  "annot_type (Plain t) = t"
| "annot_type (Req a) = TyRequired (annot_type a)"
| "annot_type (NotReq a) = TyNotRequired (annot_type a)"
| "annot_type (Generic t as) = TyGeneric t (map annot_type as)"
| "annot_type (Annotated a ms) = TyGeneric (annot_type a) []"

subsection \<open>Channels of fields\<close>

fun set_key :: "string \<Rightarrow> channel \<Rightarrow> channel" where
  "set_key k (Ch_LastValue c) = Ch_LastValue (c\<lparr>ch_key := k\<rparr>)"
| "set_key k (Ch_LastValueAfterFinish c) = Ch_LastValueAfterFinish (c\<lparr>ch_key := k\<rparr>)"
| "set_key k (Ch_EphemeralValue c) = Ch_EphemeralValue (c\<lparr>ch_key := k\<rparr>)"
| "set_key k (Ch_AnyValue c) = Ch_AnyValue (c\<lparr>ch_key := k\<rparr>)"
| "set_key k (Ch_UntrackedValue c) = Ch_UntrackedValue (c\<lparr>ch_key := k\<rparr>)"
| "set_key k (Ch_Topic c) = Ch_Topic (c\<lparr>ch_key := k\<rparr>)"
| "set_key k (Ch_NamedBarrierValue c) = Ch_NamedBarrierValue (c\<lparr>ch_key := k\<rparr>)"
| "set_key k (Ch_NamedBarrierValueAfterFinish c) = Ch_NamedBarrierValueAfterFinish (c\<lparr>ch_key := k\<rparr>)"
| "set_key k (Ch_BinaryOperatorAggregate c) = Ch_BinaryOperatorAggregate (c\<lparr>ch_key := k\<rparr>)"
| "set_key k (Ch_DeltaChannel c) = Ch_DeltaChannel (c\<lparr>ch_key := k\<rparr>)"

text \<open>\<open>==\<close> on channels, class by class.\<close>

definition channel_eq :: "channel \<Rightarrow> channel \<Rightarrow> bool" where
  "channel_eq a b =
     (case a of
        Ch_LastValue x \<Rightarrow> (case b of Ch_LastValue y \<Rightarrow> True | _ \<Rightarrow> False)
      | Ch_LastValueAfterFinish x \<Rightarrow> (case b of Ch_LastValueAfterFinish y \<Rightarrow> True | _ \<Rightarrow> False)
      | Ch_EphemeralValue x \<Rightarrow> (case b of Ch_EphemeralValue y \<Rightarrow> ev_guard y = ev_guard x | _ \<Rightarrow> False)
      | Ch_AnyValue x \<Rightarrow> (case b of Ch_AnyValue y \<Rightarrow> True | _ \<Rightarrow> False)
      | Ch_UntrackedValue x \<Rightarrow> (case b of Ch_UntrackedValue y \<Rightarrow> uv_guard y = uv_guard x | _ \<Rightarrow> False)
      | Ch_Topic x \<Rightarrow> (case b of Ch_Topic y \<Rightarrow> tp_accumulate y = tp_accumulate x | _ \<Rightarrow> False)
      | Ch_NamedBarrierValue x \<Rightarrow> (case b of Ch_NamedBarrierValue y \<Rightarrow> nb_names y = nb_names x | _ \<Rightarrow> False)
      | Ch_NamedBarrierValueAfterFinish x \<Rightarrow> (case b of Ch_NamedBarrierValueAfterFinish y \<Rightarrow> nf_names y = nf_names x | _ \<Rightarrow> False)
      | Ch_BinaryOperatorAggregate x \<Rightarrow> (case b of Ch_BinaryOperatorAggregate y \<Rightarrow> BinaryOperatorAggregate_eq x y | _ \<Rightarrow> False)
      | Ch_DeltaChannel x \<Rightarrow> (case b of Ch_DeltaChannel y \<Rightarrow> DeltaChannel_eq x y | _ \<Rightarrow> False))"

text \<open>\<open>_is_field_managed_value\<close>: the last item of the metadata, else the first type argument, recursively.\<close>

fun is_field_managed_value :: "annot \<Rightarrow> managed_spec option" where
  "is_field_managed_value (Annotated a ms) =
     (case ms of
        [] \<Rightarrow> is_field_managed_value a
      | _ \<Rightarrow> (case last ms of MetaManaged m \<Rightarrow> Some m | _ \<Rightarrow> is_field_managed_value a))"
| "is_field_managed_value (Req a) = is_field_managed_value a"
| "is_field_managed_value (NotReq a) = is_field_managed_value a"
| "is_field_managed_value (Generic t (a # as)) = is_field_managed_value a"
| "is_field_managed_value (Generic t []) = None"
| "is_field_managed_value (Plain t) = None"

text \<open>\<open>_is_field_channel\<close>: the first channel or channel class of the metadata.\<close>

definition delta_origin :: "annot \<Rightarrow> pytype" where
  "delta_origin a = (case a of Req b \<Rightarrow> annot_type b | NotReq b \<Rightarrow> annot_type b | _ \<Rightarrow> annot_type a)"

fun first_channel :: "annot \<Rightarrow> meta_item list \<Rightarrow> channel option res" where
  "first_channel a [] = Inr None"
| "first_channel a (MetaChannel (Ch_DeltaChannel d) # ms) =
     rmap (\<lambda>c. Some (Ch_DeltaChannel c))
       (DeltaChannel_init (dc_reducer d) (Some (delta_origin a)) (dc_snapshot_frequency d))"
| "first_channel a (MetaChannel c # ms) = Inr (Some c)"
| "first_channel a (MetaChannelClass f # ms) = rmap Some (f (annot_type a))"
| "first_channel a (m # ms) = first_channel a ms"

fun is_field_channel :: "annot \<Rightarrow> channel option res" where
  "is_field_channel (Annotated a ms) = first_channel a ms"
| "is_field_channel _ = Inr None"

fun is_field_binop :: "annot \<Rightarrow> channel option res" where
  "is_field_binop (Annotated a ms) =
     (if ms = [] then Inr None
      else case last ms of
             MetaCallable f n \<Rightarrow>
               (if n = 2
                then Inr (Some (Ch_BinaryOperatorAggregate
                       (BinaryOperatorAggregate_init (annot_type (Annotated a ms)) f)))
                else Inl (ValueError ''Invalid reducer signature. Expected (a, b) -> c''))
           | _ \<Rightarrow> Inr None)"
| "is_field_binop _ = Inr None"

text \<open>\<open>_get_channel\<close>: one \<open>Required\<close> or \<open>NotRequired\<close> around the annotation is stripped.\<close>

fun strip_required :: "annot \<Rightarrow> annot" where
  "strip_required (Req a) = a"
| "strip_required (NotReq a) = a"
| "strip_required a = a"

definition get_channel :: "string \<Rightarrow> annot \<Rightarrow> bool \<Rightarrow> chan_or_managed res" where
  "get_channel name annotation allow_managed =
     (let annotation = strip_required annotation in
      case is_field_managed_value annotation of
        Some m \<Rightarrow> if allow_managed then Inr (SpecManaged m) else Inl (ValueError ''not allowed in this position'')
      | None \<Rightarrow>
          rbind (is_field_channel annotation) (\<lambda>c.
            case c of
              Some c \<Rightarrow> Inr (SpecChannel (set_key name c))
            | None \<Rightarrow>
                rmap (\<lambda>c. case c of
                        Some c \<Rightarrow> SpecChannel (set_key name c)
                      | None \<Rightarrow> SpecChannel (Ch_LastValue (LastValue_init (annot_type annotation) name)))
                  (is_field_binop annotation)))"

text \<open>A schema without \<open>__annotations__\<close> is one root value; one with them is its fields.\<close>

datatype schema = RootSchema string annot | FieldSchema string "(string \<times> annot) list"

fun schema_name :: "schema \<Rightarrow> string" where
  "schema_name (RootSchema n a) = n"
| "schema_name (FieldSchema n fs) = n"

definition ROOT :: string where "ROOT = ''__root__''"

fun get_channels :: "schema \<Rightarrow> (string, chan_or_managed) dict res" where
  "get_channels (RootSchema n a) = rmap (\<lambda>c. [(ROOT, c)]) (get_channel ROOT a False)"
| "get_channels (FieldSchema n fs) =
     rfold (\<lambda>d (name, typ). rmap (\<lambda>f. dset name f d) (get_channel name typ True)) []
       (filter (\<lambda>(name, typ). name \<noteq> ''__slots__'') fs)"

fun is_managed_field :: "chan_or_managed \<Rightarrow> bool" where
  "is_managed_field (SpecManaged m) = True"
| "is_managed_field (SpecChannel c) = False"

end
