(* ===== verification/Graph_Builder.thy ===== *)
theory Graph_Builder
  imports Graph_Schema
begin

section \<open>The graph builder\<close>

text \<open>
  \<open>StateGraph\<close> (\<open>graph/state.py\<close>), \<open>StateNodeSpec\<close> (\<open>graph/_node.py\<close>) and \<open>BranchSpec\<close>
  (\<open>graph/_branch.py\<close>): the builder's fields as a record and its operations as functions that return the
  builder updated or raise. An exception loses the changes made before it; warnings are left out. What
  \<open>inspect\<close> finds on a function is part of the function here. The sets \<open>edges\<close> and \<open>waiting_edges\<close> are
  lists without duplicates, in the order in which they are iterated.
\<close>

subsection \<open>Nodes, branches and the builder\<close>

datatype node_ends = EndsTuple "string list" | EndsDict "(string, string) dict"

record node_spec =
  nd_runnable :: runnable
  nd_metadata :: "(string, pyval) dict option"
  nd_input_schema :: schema
  nd_retry_policy :: "string list option"
  nd_cache_policy :: "cache_policy option"
  nd_is_error_handler :: bool
  nd_error_handler_node :: "string option"
  nd_ends :: node_ends
  nd_defer :: bool
  nd_timeout :: "nat option"

fun ends_targets :: "node_ends \<Rightarrow> string list" where
  "ends_targets (EndsTuple ts) = ts"
| "ends_targets (EndsDict d) = dkeys d"

text \<open>
  The return annotation of a function: a \<open>Command\<close>, with the literal names it is parameterized with, a
  \<open>Union\<close>, or anything else.
\<close>

datatype return_hint = HintCommand "string list" | HintUnion "return_hint list" | HintLiteral "string list" | HintOther

fun is_command_hint :: "return_hint \<Rightarrow> bool" where
  "is_command_hint (HintCommand ns) = True"
| "is_command_hint _ = False"

text \<open>
  A node function or runnable: its name, the schema its first parameter is annotated with, its return
  annotation, and the runnable \<open>coerce_to_runnable\<close> makes of it.
\<close>

record action =
  ac_name :: "string option"
  ac_input_hint :: "schema option"
  ac_return_hint :: "return_hint option"
  ac_runnable :: runnable

text \<open>The value a branch is decided on, and what it decides, is the user's function.\<close>

record branch_path =
  bp_name :: "string option"
  bp_call :: "pyval \<Rightarrow> pyval res"
  bp_input_hint :: "schema option"
  bp_return_hint :: "return_hint option"

record branch_spec =
  bs_path :: "pyval \<Rightarrow> pyval res"
  bs_ends :: "(pyval, string) dict option"
  bs_input_schema :: "schema option"

record node_defaults =
  df_retry_policy :: "string list option"
  df_cache_policy :: "cache_policy option"
  df_error_handler :: "runnable option"
  df_timeout :: "nat option"

record state_graph =
  sg_edges :: "(string \<times> string) list"
  sg_nodes :: "(string, node_spec) dict"
  sg_branches :: "(string, (string, branch_spec) dict) dict"
  sg_channels :: "(string, channel) dict"
  sg_managed :: "(string, managed_spec) dict"
  sg_schemas :: "(string, (string, chan_or_managed) dict) dict"
  sg_waiting_edges :: "(string list \<times> string) list"
  sg_compiled :: bool
  sg_state_schema :: schema
  sg_input_schema :: schema
  sg_output_schema :: schema
  sg_defaults :: node_defaults

definition all_edges :: "state_graph \<Rightarrow> (string \<times> string) list" where
  "all_edges g = sg_edges g @ concat (map (\<lambda>(starts, target). map (\<lambda>s. (s, target)) starts) (sg_waiting_edges g))"

subsection \<open>Schemas\<close>

definition add_schema_channel :: "state_graph \<Rightarrow> string \<times> channel \<Rightarrow> state_graph res" where
  "add_schema_channel g kc =
     (let (key, channel) = kc in
      case map_of (sg_channels g) key of
        None \<Rightarrow> Inr (g\<lparr>sg_channels := dset key channel (sg_channels g)\<rparr>)
      | Some old \<Rightarrow>
          if channel_eq old channel then Inr g
          else (case channel of
                  Ch_LastValue c \<Rightarrow> Inr g
                | _ \<Rightarrow> Inl (ValueError (''Channel '' @ key @ '' already exists with a different type''))))"

definition add_schema_managed :: "state_graph \<Rightarrow> string \<times> managed_spec \<Rightarrow> state_graph res" where
  "add_schema_managed g km =
     (let (key, m) = km in
      case map_of (sg_managed g) key of
        None \<Rightarrow> Inr (g\<lparr>sg_managed := dset key m (sg_managed g)\<rparr>)
      | Some old \<Rightarrow>
          if old = m then Inr g
          else Inl (ValueError (''Managed value '' @ key @ '' already exists with a different type'')))"

definition add_schema :: "state_graph \<Rightarrow> schema \<Rightarrow> bool \<Rightarrow> state_graph res" where
  "add_schema g schema allow_managed =
     (if dmem (schema_name schema) (sg_schemas g) then Inr g
      else rbind (get_channels schema) (\<lambda>fields.
        let channels = channel_specs fields; managed = managed_specs fields in
        if managed \<noteq> [] \<and> \<not> allow_managed
        then Inl (ValueError ''Invalid managed channels detected'')
        else let g = g\<lparr>sg_schemas := dset (schema_name schema)
                        (dupd (map (\<lambda>(k, c). (k, SpecChannel c)) channels) (map (\<lambda>(k, m). (k, SpecManaged m)) managed))
                        (sg_schemas g)\<rparr>
             in rbind (rfold add_schema_channel g channels) (\<lambda>g. rfold add_schema_managed g managed)))"

definition no_defaults :: node_defaults where
  "no_defaults = \<lparr>df_retry_policy = None, df_cache_policy = None, df_error_handler = None, df_timeout = None\<rparr>"

definition StateGraph_init :: "schema \<Rightarrow> schema option \<Rightarrow> schema option \<Rightarrow> state_graph res" where
  "StateGraph_init state_schema input_schema output_schema =
     (let ins = (case input_schema of None \<Rightarrow> state_schema | Some s \<Rightarrow> s);
          outs = (case output_schema of None \<Rightarrow> state_schema | Some s \<Rightarrow> s);
          g = \<lparr>sg_edges = [], sg_nodes = [], sg_branches = [], sg_channels = [], sg_managed = [], sg_schemas = [],
               sg_waiting_edges = [], sg_compiled = False, sg_state_schema = state_schema, sg_input_schema = ins,
               sg_output_schema = outs, sg_defaults = no_defaults\<rparr>
      in rbind (add_schema g state_schema True) (\<lambda>g.
         rbind (add_schema g ins False) (\<lambda>g. add_schema g outs False)))"

definition set_node_defaults ::
  "string list option \<Rightarrow> cache_policy option \<Rightarrow> runnable option \<Rightarrow> nat option \<Rightarrow> state_graph \<Rightarrow> state_graph" where
  "set_node_defaults retry_policy cache_policy error_handler timeout g =
     (let d = sg_defaults g;
          d = (if retry_policy \<noteq> None then d\<lparr>df_retry_policy := retry_policy\<rparr> else d);
          d = (if cache_policy \<noteq> None then d\<lparr>df_cache_policy := cache_policy\<rparr> else d);
          d = (if error_handler \<noteq> None then d\<lparr>df_error_handler := error_handler\<rparr> else d);
          d = (if timeout \<noteq> None then d\<lparr>df_timeout := timeout\<rparr> else d)
      in g\<lparr>sg_defaults := d\<rparr>)"

subsection \<open>Adding nodes\<close>

record node_args =
  na_defer :: bool
  na_metadata :: "(string, pyval) dict option"
  na_input_schema :: "schema option"
  na_retry_policy :: "string list option"
  na_cache_policy :: "cache_policy option"
  na_error_handler :: "runnable option"
  na_destinations :: "node_ends option"
  na_timeout :: "nat option"

datatype node_arg = NodeName string "action option" | NodeAction action

definition node_of_arg :: "node_arg \<Rightarrow> (string \<times> action) res" where
  "node_of_arg arg =
     (case arg of
        NodeName n None \<Rightarrow> Inl (RuntimeError [])
      | NodeName n (Some a) \<Rightarrow> Inr (n, a)
      | NodeAction a \<Rightarrow>
          (case ac_name a of
             None \<Rightarrow> Inl (ValueError ''Node name must be provided if action is not a function'')
           | Some n \<Rightarrow> Inr (n, a)))"

text \<open>The destinations that the return annotation \<open>Command[Literal[...]]\<close> promises.\<close>

fun hint_ends :: "return_hint \<Rightarrow> string list" where
  "hint_ends (HintCommand ns) = ns"
| "hint_ends (HintUnion hs) =
     (case filter is_command_hint hs of HintCommand ns # _ \<Rightarrow> ns | _ \<Rightarrow> [])"
| "hint_ends _ = []"

definition node_spec_of ::
  "action \<Rightarrow> node_args \<Rightarrow> schema \<Rightarrow> string option \<Rightarrow> node_spec" where
  "node_spec_of a args input_schema handler =
     \<lparr>nd_runnable = ac_runnable a, nd_metadata = na_metadata args, nd_input_schema = input_schema,
      nd_retry_policy = na_retry_policy args, nd_cache_policy = na_cache_policy args,
      nd_is_error_handler = False, nd_error_handler_node = handler,
      nd_ends = (case na_destinations args of
                   Some e \<Rightarrow> e
                 | None \<Rightarrow> EndsTuple (case ac_return_hint a of None \<Rightarrow> [] | Some h \<Rightarrow> hint_ends h)),
      nd_defer = na_defer args, nd_timeout = na_timeout args\<rparr>"

definition handler_spec :: "runnable \<Rightarrow> schema \<Rightarrow> node_spec" where
  "handler_spec r input_schema =
     \<lparr>nd_runnable = r, nd_metadata = None, nd_input_schema = input_schema, nd_retry_policy = None,
      nd_cache_policy = None, nd_is_error_handler = True, nd_error_handler_node = None,
      nd_ends = EndsTuple [], nd_defer = False, nd_timeout = None\<rparr>"

definition name_allowed :: "state_graph \<Rightarrow> string \<Rightarrow> unit res" where
  "name_allowed g node =
     (if dmem node (sg_nodes g) then Inl (ValueError (''Node '' @ node @ '' already present.''))
      else if node = END_NODE \<or> node = START then Inl (ValueError (''Node '' @ node @ '' is reserved.''))
      else if set NS_SEP \<subseteq> set node \<or> set NS_END \<subseteq> set node
      then Inl (ValueError ''reserved character in the node name'')
      else Inr ())"

definition add_handler ::
  "state_graph \<Rightarrow> string \<Rightarrow> runnable option \<Rightarrow> schema \<Rightarrow> (state_graph \<times> string option) res" where
  "add_handler g node error_handler input_schema =
     (case error_handler of
        None \<Rightarrow> Inr (g, None)
      | Some r \<Rightarrow>
          let name = ''__error_handler__'' @ node in
          if dmem name (sg_nodes g)
          then Inl (ValueError (''Auto-generated error handler node '' @ name @ '' already exists.''))
          else Inr (g\<lparr>sg_nodes := dset name (handler_spec r input_schema) (sg_nodes g)\<rparr>, Some name))"

definition add_node :: "node_arg \<Rightarrow> node_args \<Rightarrow> state_graph \<Rightarrow> state_graph res" where
  "add_node arg args g =
     rbind (node_of_arg arg) (\<lambda>(node, a).
     rbind (name_allowed g node) (\<lambda>_.
       let schema = (case na_input_schema args of Some s \<Rightarrow> Some s | None \<Rightarrow> ac_input_hint a);
           resolved = (case schema of Some s \<Rightarrow> s | None \<Rightarrow> sg_state_schema g)
       in rbind (add_handler g node (na_error_handler args) resolved) (\<lambda>(g, handler).
            let g = g\<lparr>sg_nodes := dset node (node_spec_of a args resolved handler) (sg_nodes g)\<rparr>
            in case schema of None \<Rightarrow> Inr g | Some s \<Rightarrow> add_schema g s True)))"

subsection \<open>Adding edges\<close>

definition add_edge :: "string \<Rightarrow> string \<Rightarrow> state_graph \<Rightarrow> state_graph res" where
  "add_edge start_key end_key g =
     (if start_key = END_NODE then Inl (ValueError ''END cannot be a start node'')
      else if end_key = START then Inl (ValueError ''START cannot be an end node'')
      else Inr (g\<lparr>sg_edges := List.insert (start_key, end_key) (sg_edges g)\<rparr>))"

fun check_starts :: "state_graph \<Rightarrow> string list \<Rightarrow> unit res" where
  "check_starts g [] = Inr ()"
| "check_starts g (s # ss) =
     (if s = END_NODE then Inl (ValueError ''END cannot be a start node'')
      else if \<not> dmem s (sg_nodes g) then Inl (ValueError (''Need to add_node '' @ s @ '' first''))
      else check_starts g ss)"

definition add_waiting_edge :: "string list \<Rightarrow> string \<Rightarrow> state_graph \<Rightarrow> state_graph res" where
  "add_waiting_edge starts end_key g =
     rbind (check_starts g starts) (\<lambda>_.
       if end_key = START then Inl (ValueError ''START cannot be an end node'')
       else if end_key \<noteq> END_NODE \<and> \<not> dmem end_key (sg_nodes g)
       then Inl (ValueError (''Need to add_node '' @ end_key @ '' first''))
       else Inr (g\<lparr>sg_waiting_edges := List.insert (starts, end_key) (sg_waiting_edges g)\<rparr>))"

definition set_entry_point :: "string \<Rightarrow> state_graph \<Rightarrow> state_graph res" where
  "set_entry_point key g = add_edge START key g"

definition set_finish_point :: "string \<Rightarrow> state_graph \<Rightarrow> state_graph res" where
  "set_finish_point key g = add_edge key END_NODE g"

datatype path_map = PathDict "(pyval, string) dict" | PathList "string list"

definition names_map :: "string list \<Rightarrow> (pyval, string) dict" where
  "names_map ns = foldl (\<lambda>d n. dset (VStr n) n d) [] ns"

definition BranchSpec_from_path :: "branch_path \<Rightarrow> path_map option \<Rightarrow> branch_spec" where
  "BranchSpec_from_path path pm =
     \<lparr>bs_path = bp_call path,
      bs_ends = (case pm of
                   Some (PathDict d) \<Rightarrow> Some d
                 | Some (PathList ns) \<Rightarrow> Some (names_map ns)
                 | None \<Rightarrow> (case bp_return_hint path of Some (HintLiteral ns) \<Rightarrow> Some (names_map ns) | _ \<Rightarrow> None)),
      bs_input_schema = bp_input_hint path\<rparr>"

definition add_conditional_edges ::
  "string \<Rightarrow> branch_path \<Rightarrow> path_map option \<Rightarrow> state_graph \<Rightarrow> state_graph res" where
  "add_conditional_edges source path pm g =
     (let name = (case bp_name path of Some n \<Rightarrow> if n \<noteq> [] then n else ''condition'' | None \<Rightarrow> ''condition'');
          own = dgetd (sg_branches g) source []
      in if dmem name own then Inl (ValueError (''Branch with name '' @ name @ '' already exists for node '' @ source))
         else let b = BranchSpec_from_path path pm;
                  g = g\<lparr>sg_branches := dset source (dset name b own) (sg_branches g)\<rparr>
              in case bs_input_schema b of None \<Rightarrow> Inr g | Some s \<Rightarrow> add_schema g s True)"

definition set_conditional_entry_point :: "branch_path \<Rightarrow> path_map option \<Rightarrow> state_graph \<Rightarrow> state_graph res" where
  "set_conditional_entry_point path pm g = add_conditional_edges START path pm g"

definition default_args :: node_args where
  "default_args = \<lparr>na_defer = False, na_metadata = None, na_input_schema = None, na_retry_policy = None,
     na_cache_policy = None, na_error_handler = None, na_destinations = None, na_timeout = None\<rparr>"

text \<open>The loop of \<open>add_sequence\<close>: nodes are given with their names.\<close>

definition sequence_step ::
  "string option \<times> state_graph \<Rightarrow> string \<times> action \<Rightarrow> (string option \<times> state_graph) res" where
  "sequence_step pg na =
     (let (previous_name, g) = pg; (name, a) = na in
      if dmem name (sg_nodes g) then Inl (ValueError (''Node names must be unique: '' @ name))
      else rbind (add_node (NodeName name (Some a)) default_args g) (\<lambda>g.
             rmap (\<lambda>g. (Some name, g))
               (case previous_name of None \<Rightarrow> Inr g | Some p \<Rightarrow> add_edge p name g)))"

definition add_sequence :: "(string \<times> action) list \<Rightarrow> state_graph \<Rightarrow> state_graph res" where
  "add_sequence nodes g =
     (if nodes = [] then Inl (ValueError ''Sequence requires at least one node.'')
      else rmap snd (rfold sequence_step (None, g) nodes))"

subsection \<open>Validation\<close>

definition sources :: "state_graph \<Rightarrow> string list" where
  "sources g =
     map fst (all_edges g) @ dkeys (sg_branches g)
       @ map fst (filter (\<lambda>(n, spec). ends_targets (nd_ends spec) \<noteq> []) (sg_nodes g))"

text \<open>The targets of one branch, with the check of its map.\<close>

definition branch_targets :: "state_graph \<Rightarrow> string \<Rightarrow> string \<times> branch_spec \<Rightarrow> string list res" where
  "branch_targets g start cb =
     (case bs_ends (snd cb) of
        Some ends \<Rightarrow>
          rmap (\<lambda>_. map snd ends) (first_bad (\<lambda>e. dmem e (sg_nodes g) \<or> e = END_NODE) id (map snd ends))
      | None \<Rightarrow> Inr (END_NODE # filter (\<lambda>n. n \<noteq> start) (dkeys (sg_nodes g))))"

definition targets :: "state_graph \<Rightarrow> string list res" where
  "targets g =
     rmap (\<lambda>bs. map snd (all_edges g) @ concat bs
              @ concat (map (\<lambda>(n, spec). ends_targets (nd_ends spec)) (sg_nodes g)))
       (rmapM (\<lambda>(start, cb). branch_targets g start cb)
          (concat (map (\<lambda>(start, bs). map (\<lambda>cb. (start, cb)) bs) (sg_branches g))))"

definition validate :: "string list \<Rightarrow> state_graph \<Rightarrow> state_graph res" where
  "validate interrupt g =
     rbind (first_bad (\<lambda>s. dmem s (sg_nodes g) \<or> s = START) id (sources g)) (\<lambda>_.
       if START \<notin> set (sources g) then Inl (ValueError ''Graph must have an entrypoint'')
       else rbind (targets g) (\<lambda>ts.
            rbind (first_bad (\<lambda>t. dmem t (sg_nodes g) \<or> t = END_NODE) id ts) (\<lambda>_.
            rmap (\<lambda>_. g\<lparr>sg_compiled := True\<rparr>)
              (first_bad (\<lambda>n. dmem n (sg_nodes g)) id interrupt))))"

end
