(* ===== verification/Graph_Compile.thy ===== *)
theory Graph_Compile
  imports Graph_Builder Pregel_Prepare
begin

section \<open>Compiling a graph\<close>

text \<open>
  \<open>StateGraph.compile\<close> and the \<open>attach_\<close> methods of \<open>CompiledStateGraph\<close> (\<open>graph/state.py\<close>), the
  construction and validation of a \<open>Pregel\<close> (\<open>pregel/main.py\<close>), the mappers that turn what a node
  returns into writes, and how a branch routes (\<open>graph/_branch.py\<close>). The compiled graph's nodes, channels
  and keys are the record \<open>compiled\<close>. The writer of a branch is the callable \<open>branch_runnable\<close>; what
  running it does is \<open>branch_route\<close>. Coercion of a state to a Pydantic class or a dataclass is the
  parameter \<open>coerce\<close>, \<open>None\<close> for any other schema.
\<close>

subsection \<open>What a node returns, as writes\<close>

fun is_command :: "pyval \<Rightarrow> bool" where
  "is_command (VCommand g u r t) = True"
| "is_command _ = False"

definition keep_keys :: "string list \<Rightarrow> writes \<Rightarrow> writes" where
  "keep_keys output_keys ws = filter (\<lambda>(k, v). k \<in> set output_keys) ws"

definition command_update :: "(pyval \<Rightarrow> obj_view) \<Rightarrow> string option \<Rightarrow> pyval \<Rightarrow> writes option" where
  "command_update view graph update =
     (if graph = Some COMMAND_PARENT then None else Some (update_as_tuples view update))"

text \<open>\<open>_get_updates\<close>; a list with a command in it is read item by item.\<close>

definition object_updates :: "(pyval \<Rightarrow> obj_view) \<Rightarrow> string list \<Rightarrow> pyval \<Rightarrow> writes option res" where
  "object_updates view output_keys input =
     (if ov_keys (view input) \<noteq> []
      then Inr (Some (get_update_as_tuples ((view input)\<lparr>ov_keys := output_keys\<rparr>)))
      else Inl (InvalidUpdateError ''Expected dict''))"

fun get_updates :: "(pyval \<Rightarrow> obj_view) \<Rightarrow> string list \<Rightarrow> pyval \<Rightarrow> writes option res"
  and get_item_updates :: "(pyval \<Rightarrow> obj_view) \<Rightarrow> string list \<Rightarrow> pyval list \<Rightarrow> writes res" where
  "get_updates view output_keys VNone = Inr None"
| "get_updates view output_keys (VDict d) = Inr (Some (keep_keys output_keys d))"
| "get_updates view output_keys (VCommand g u r t) =
     Inr (map_option (keep_keys output_keys) (command_update view g u))"
| "get_updates view output_keys (VList xs) =
     (if list_ex is_command xs then rmap Some (get_item_updates view output_keys xs)
      else object_updates view output_keys (VList xs))"
| "get_updates view output_keys (VTuple xs) =
     (if list_ex is_command xs then rmap Some (get_item_updates view output_keys xs)
      else object_updates view output_keys (VTuple xs))"
| "get_updates view output_keys v = object_updates view output_keys v"
| "get_item_updates view output_keys [] = Inr []"
| "get_item_updates view output_keys (x # xs) =
     rbind (case x of
              VCommand g u r t \<Rightarrow>
                Inr (case command_update view g u of None \<Rightarrow> [] | Some ws \<Rightarrow> keep_keys output_keys ws)
            | _ \<Rightarrow> rmap (\<lambda>ws. case ws of None \<Rightarrow> [] | Some us \<Rightarrow> us) (get_updates view output_keys x))
       (\<lambda>us. rmap (\<lambda>vs. us @ vs) (get_item_updates view output_keys xs))"

text \<open>\<open>_get_root\<close>: the state is one value.\<close>

definition root_item :: "(pyval \<Rightarrow> obj_view) \<Rightarrow> pyval \<Rightarrow> writes" where
  "root_item view x =
     (case x of
        VCommand g u r t \<Rightarrow> (case command_update view g u of None \<Rightarrow> [] | Some ws \<Rightarrow> ws)
      | _ \<Rightarrow> [(ROOT, x)])"

definition get_root :: "(pyval \<Rightarrow> obj_view) \<Rightarrow> pyval \<Rightarrow> writes option res" where
  "get_root view input =
     Inr (if is_command input then Some (root_item view input)
          else case seq_items input of
                 Some xs \<Rightarrow>
                   (if list_ex is_command xs then Some (concat (map (root_item view) xs))
                    else Some [(ROOT, input)])
               | None \<Rightarrow> if input = VNone then None else Some [(ROOT, input)])"

text \<open>\<open>_control_branch\<close>: sends, and the targets of the commands.\<close>

fun goto_writes :: "pyval \<Rightarrow> writes" where
  "goto_writes (VSend node arg timeout) = [(TASKS, VSend node arg timeout)]"
| "goto_writes (VStr node) = (if node = END_NODE then [] else [(branch_to node, VNone)])"
| "goto_writes _ = []"

fun goto_targets :: "pyval \<Rightarrow> pyval list res" where
  "goto_targets (VSend node arg timeout) = Inr [VSend node arg timeout]"
| "goto_targets (VStr node) = Inr [VStr node]"
| "goto_targets (VList xs) = Inr xs"
| "goto_targets (VTuple xs) = Inr xs"
| "goto_targets _ = Inl (TypeError ''goto'')"

fun command_branch :: "pyval \<Rightarrow> writes res" where
  "command_branch (VCommand g u r t) =
     (if g = Some COMMAND_PARENT then Inl (ParentCommandError (VCommand g u r t))
      else rmap (\<lambda>ts. concat (map goto_writes ts)) (goto_targets t))"
| "command_branch _ = Inr []"

definition control_branch :: "pyval \<Rightarrow> writes option res" where
  "control_branch value =
     (case value of
        VSend node arg timeout \<Rightarrow> Inr (Some [(TASKS, value)])
      | _ \<Rightarrow>
          rmap (\<lambda>wss. Some (concat wss))
            (rmapM command_branch
               (if is_command value then [value]
                else case seq_items value of Some xs \<Rightarrow> filter is_command xs | None \<Rightarrow> [])))"

definition control_static :: "node_ends \<Rightarrow> (string \<times> pyval \<times> string option) list" where
  "control_static ends =
     (let chan = (\<lambda>e. if e = END_NODE then e else branch_to e) in
      case ends of
        EndsDict d \<Rightarrow> map (\<lambda>(k, label). (chan k, VNone, Some label)) d
      | EndsTuple es \<Rightarrow> map (\<lambda>e. (chan e, VNone, None)) es)"

subsection \<open>Branches\<close>

definition branch_entries :: "pyval list \<Rightarrow> bool \<Rightarrow> write_entry list" where
  "branch_entries packets static =
     concat (map (\<lambda>p. case p of
         VSend node arg timeout \<Rightarrow> [SendEntry node arg timeout]
       | _ \<Rightarrow> (let n = value_text p in
               if \<not> static \<and> n = END_NODE then []
               else [ChannelWriteEntry (if n = END_NODE then n else branch_to n) VNone False None]))
       packets)"

fun result_list :: "pyval \<Rightarrow> pyval list" where
  "result_list v = (case seq_items v of Some xs \<Rightarrow> xs | None \<Rightarrow> [v])"

definition branch_destination :: "(pyval, string) dict option \<Rightarrow> pyval \<Rightarrow> pyval res" where
  "branch_destination ends r =
     (case ends of
        None \<Rightarrow> Inr r
      | Some d \<Rightarrow>
          if d = [] then Inr r
          else (case r of
                  VSend node arg timeout \<Rightarrow> Inr r
                | _ \<Rightarrow> (case map_of d r of None \<Rightarrow> Inl (KeyError (value_text r)) | Some n \<Rightarrow> Inr (VStr n))))"

fun sends_to_end :: "pyval \<Rightarrow> bool" where
  "sends_to_end (VSend node arg timeout) = (node = END_NODE)"
| "sends_to_end _ = False"

definition branch_finish :: "branch_spec \<Rightarrow> pyval \<Rightarrow> pyval \<Rightarrow> configurable \<Rightarrow> (pyval \<times> writes) res" where
  "branch_finish b input result conf =
     rbind (rmapM (branch_destination (bs_ends b)) (result_list result)) (\<lambda>destinations.
       if list_ex (\<lambda>d. d = VNone \<or> d = VStr START) destinations
       then Inl (ValueError ''Branch did not return a valid destination'')
       else if list_ex sends_to_end destinations
       then Inl (InvalidUpdateError ''Cannot send a packet to the END node'')
       else let entries = branch_entries destinations False in
            if entries = [] then Inr (input, [])
            else rmap (\<lambda>(tid, ws). (input, ws)) (do_write conf entries True))"

text \<open>The value the path is called with: what the reader reads, over the keys of the node's own result.\<close>

definition branch_value :: "branch_spec \<Rightarrow> pyval \<Rightarrow> pyval \<Rightarrow> pyval" where
  "branch_value b input value =
     (case (value, input) of
        (VDict v, VDict i) \<Rightarrow> if bs_input_schema b = None then VDict (dupd i v) else value
      | _ \<Rightarrow> value)"

definition branch_route ::
  "branch_spec \<Rightarrow> pyval res option \<Rightarrow> pyval \<Rightarrow> configurable \<Rightarrow> (pyval \<times> writes) res" where
  "branch_route b reader input conf =
     rbind (case reader of None \<Rightarrow> Inr input | Some r \<Rightarrow> rmap (branch_value b input) r)
       (\<lambda>value. rbind (bs_path b value) (\<lambda>result. branch_finish b input result conf))"

definition branch_name :: "string \<Rightarrow> string \<Rightarrow> string" where
  "branch_name start name = ''branch:'' @ start @ '':'' @ name"

definition branch_runnable :: "string \<Rightarrow> string \<Rightarrow> branch_spec \<Rightarrow> runnable" where
  "branch_runnable start name b =
     register_writer (R_Other (branch_name start name) None)
       (case bs_ends b of
          Some d \<Rightarrow>
            if d = [] then None
            else Some (zip (branch_entries (map (\<lambda>e. VStr (snd e)) d) True) (map (\<lambda>e. Some (value_text (fst e))) d))
        | None \<Rightarrow> None)"

subsection \<open>Attaching nodes, edges and branches\<close>

record compile_env =
  ce_view :: "pyval \<Rightarrow> obj_view"
  ce_coerce :: "schema \<Rightarrow> mapper option"
  ce_subgraphs :: "runnable \<Rightarrow> string list"
  ce_native_async :: "runnable \<Rightarrow> bool"

record compiled =
  cg_nodes :: "(string, pregel_node) dict"
  cg_channels :: "(string, chan_or_managed) dict"
  cg_input_channels :: ch_keys
  cg_output_channels :: ch_keys
  cg_stream_channels :: ch_keys
  cg_interrupt_before :: "string list option"
  cg_interrupt_after :: "string list option"
  cg_error_handlers :: "(string, string) dict"
  cg_mappers :: "(string, mapper option) dict"
  cg_trigger_to_nodes :: "(string, string list) dict"

definition pick_mapper :: "compile_env \<Rightarrow> string list \<Rightarrow> schema \<Rightarrow> mapper option" where
  "pick_mapper env state_keys schema = (if state_keys = [ROOT] then None else ce_coerce env schema)"

definition schema_fields :: "state_graph \<Rightarrow> schema \<Rightarrow> (string, chan_or_managed) dict res" where
  "schema_fields g schema =
     (case map_of (sg_schemas g) (schema_name schema) of
        None \<Rightarrow> Inl (KeyError (schema_name schema))
      | Some d \<Rightarrow> Inr d)"

definition channel_keys :: "(string, chan_or_managed) dict \<Rightarrow> string list" where
  "channel_keys d = map fst (filter (\<lambda>(k, v). \<not> is_managed_field v) d)"

definition node_writer :: "compile_env \<Rightarrow> string list \<Rightarrow> node_ends option \<Rightarrow> runnable" where
  "node_writer env output_keys ends =
     R_ChannelWrite
       [ChannelWriteTupleEntry
          (if output_keys = [ROOT] then get_root (ce_view env) else get_updates (ce_view env) output_keys)
          PASSTHROUGH None,
        ChannelWriteTupleEntry control_branch PASSTHROUGH (map_option control_static ends)]"

definition ANY_TYPE :: pytype where "ANY_TYPE = TyClass ''Any'' None"

definition branch_channel :: "bool \<Rightarrow> channel" where
  "branch_channel defer =
     (if defer then Ch_LastValueAfterFinish (LastValueAfterFinish_init ANY_TYPE [])
      else Ch_EphemeralValue (EphemeralValue_init ANY_TYPE False))"

definition start_node :: "compile_env \<Rightarrow> string list \<Rightarrow> pregel_node" where
  "start_node env output_keys =
     \<lparr>pn_channels = OneKey START, pn_triggers = [START], pn_mapper = None,
      pn_writers = [node_writer env output_keys None], pn_bound = None, pn_retry_policy = None,
      pn_cache_policy = None, pn_timeout = None, pn_tags = Some [TAG_HIDDEN], pn_metadata = None,
      pn_is_error_handler = False, pn_error_handler_node = None, pn_subgraphs = []\<rparr>"

definition state_node :: "compile_env \<Rightarrow> string list \<Rightarrow> string list \<Rightarrow> mapper option \<Rightarrow> string \<Rightarrow> node_spec \<Rightarrow> pregel_node" where
  "state_node env output_keys input_channels mapper key spec =
     \<lparr>pn_channels = (if input_channels = [ROOT] then OneKey ROOT else ManyKeys input_channels),
      pn_triggers = [branch_to key], pn_mapper = mapper,
      pn_writers = [node_writer env output_keys (Some (nd_ends spec))], pn_bound = Some (nd_runnable spec),
      pn_retry_policy = nd_retry_policy spec, pn_cache_policy = nd_cache_policy spec, pn_timeout = nd_timeout spec,
      pn_tags = None, pn_metadata = nd_metadata spec, pn_is_error_handler = nd_is_error_handler spec,
      pn_error_handler_node = nd_error_handler_node spec, pn_subgraphs = ce_subgraphs env (nd_runnable spec)\<rparr>"

definition attach_start :: "compile_env \<Rightarrow> state_graph \<Rightarrow> compiled \<Rightarrow> compiled res" where
  "attach_start env g cg =
     rmap (\<lambda>d. cg\<lparr>cg_nodes := dset START (start_node env (channel_keys d)) (cg_nodes cg)\<rparr>)
       (schema_fields g (sg_input_schema g))"

definition cached_mapper :: "compile_env \<Rightarrow> string list \<Rightarrow> schema \<Rightarrow> compiled \<Rightarrow> mapper option \<times> compiled" where
  "cached_mapper env keys schema cg =
     (case map_of (cg_mappers cg) (schema_name schema) of
        Some m \<Rightarrow> (m, cg)
      | None \<Rightarrow> (let m = pick_mapper env keys schema
                 in (m, cg\<lparr>cg_mappers := dset (schema_name schema) m (cg_mappers cg)\<rparr>)))"

definition attach_node :: "compile_env \<Rightarrow> state_graph \<Rightarrow> compiled \<Rightarrow> string \<times> node_spec \<Rightarrow> compiled res" where
  "attach_node env g cg kn =
     (let (key, spec) = kn; output_keys = dkeys (sg_channels g) @ dkeys (sg_managed g) in
      if key = START then attach_start env g cg
      else rmap (\<lambda>d.
             let input_channels = dkeys d;
                 (mapper, cg) = cached_mapper env input_channels (nd_input_schema spec) cg
             in cg\<lparr>cg_channels := dset (branch_to key) (SpecChannel (branch_channel (nd_defer spec))) (cg_channels cg),
                   cg_nodes := dset key (state_node env output_keys input_channels mapper key spec) (cg_nodes cg)\<rparr>)
             (schema_fields g (nd_input_schema spec)))"

definition add_writer :: "string \<Rightarrow> runnable \<Rightarrow> compiled \<Rightarrow> compiled res" where
  "add_writer node w cg =
     (case map_of (cg_nodes cg) node of
        None \<Rightarrow> Inl (KeyError node)
      | Some p \<Rightarrow> Inr (cg\<lparr>cg_nodes := dset node (p\<lparr>pn_writers := pn_writers p @ [w]\<rparr>) (cg_nodes cg)\<rparr>))"

definition attach_edge :: "compiled \<Rightarrow> string \<times> string \<Rightarrow> compiled res" where
  "attach_edge cg e =
     (let (start, target) = e in
      if target = END_NODE then Inr cg
      else add_writer start (R_ChannelWrite [ChannelWriteEntry (branch_to target) VNone False None]) cg)"

definition join_channel :: "string list \<Rightarrow> string \<Rightarrow> string" where
  "join_channel starts target = ''join:'' @ str_join ''+'' starts @ '':'' @ target"

definition barrier_channel :: "bool \<Rightarrow> string list \<Rightarrow> channel" where
  "barrier_channel defer starts =
     (if defer then Ch_NamedBarrierValueAfterFinish (NamedBarrierValueAfterFinish_init TyStr (set starts))
      else Ch_NamedBarrierValue (NamedBarrierValue_init TyStr (set starts)))"

definition attach_waiting_edge :: "state_graph \<Rightarrow> compiled \<Rightarrow> string list \<times> string \<Rightarrow> compiled res" where
  "attach_waiting_edge g cg e =
     (let (starts, target) = e; name = join_channel starts target in
      if target = END_NODE then Inr cg
      else case (map_of (sg_nodes g) target, map_of (cg_nodes cg) target) of
             (Some spec, Some p) \<Rightarrow>
               rfold (\<lambda>cg s. add_writer s (R_ChannelWrite [ChannelWriteEntry name (VStr s) False None]) cg)
                 (cg\<lparr>cg_channels := dset name (SpecChannel (barrier_channel (nd_defer spec) starts)) (cg_channels cg),
                     cg_nodes := dset target (p\<lparr>pn_triggers := pn_triggers p @ [name]\<rparr>) (cg_nodes cg)\<rparr>)
                 starts
           | _ \<Rightarrow> Inl (KeyError target))"

text \<open>The reader of a branch and its mapper are looked up here; the mapper is remembered.\<close>

definition branch_schema :: "state_graph \<Rightarrow> string \<Rightarrow> branch_spec \<Rightarrow> schema" where
  "branch_schema g start b =
     (case bs_input_schema b of
        Some s \<Rightarrow> s
      | None \<Rightarrow> (case map_of (sg_nodes g) start of Some spec \<Rightarrow> nd_input_schema spec | None \<Rightarrow> sg_state_schema g))"

definition attach_branch ::
  "compile_env \<Rightarrow> state_graph \<Rightarrow> compiled \<Rightarrow> string \<times> string \<times> branch_spec \<Rightarrow> compiled res" where
  "attach_branch env g cg snb =
     (let (start, name, b) = snb; schema = branch_schema g start b in
      rbind (schema_fields g schema) (\<lambda>d.
        let (mapper, cg) = cached_mapper env (dkeys d) schema cg
        in add_writer start (branch_runnable start name b) cg))"

text \<open>What the reader of a branch reads: the state with the task's own writes applied, coerced.\<close>

definition branch_reader ::
  "mapper option \<Rightarrow> string list \<Rightarrow> (ch_keys \<Rightarrow> bool \<Rightarrow> pyval res) \<Rightarrow> pyval res" where
  "branch_reader mapper channels read =
     rbind (read (if channels = [ROOT] then OneKey ROOT else ManyKeys channels) True)
       (\<lambda>v. case mapper of None \<Rightarrow> Inr v | Some m \<Rightarrow> mp_call m v)"

subsection \<open>Building and validating the Pregel graph\<close>

definition SEND_TYPE :: pytype where "SEND_TYPE = TyClass ''Send'' None"

definition with_tasks_channel :: "(string, chan_or_managed) dict \<Rightarrow> (string, chan_or_managed) dict res" where
  "with_tasks_channel channels =
     (if (case map_of channels TASKS of
            None \<Rightarrow> True
          | Some (SpecChannel c) \<Rightarrow> is_topic c
          | Some (SpecManaged m) \<Rightarrow> False)
      then Inr (dset TASKS (SpecChannel (Ch_Topic (Topic_init SEND_TYPE False))) channels)
      else Inl (ValueError ''Channel __pregel_tasks is reserved and cannot be used in the graph.''))"

definition index_trigger :: "(string, string list) dict \<Rightarrow> string \<times> string \<Rightarrow> (string, string list) dict" where
  "index_trigger d nt = dset (snd nt) (dgetd d (snd nt) [] @ [fst nt]) d"

definition trigger_index :: "(string, pregel_node) dict \<Rightarrow> (string, string list) dict" where
  "trigger_index nodes =
     foldl index_trigger [] (concat (map (\<lambda>(name, node). map (\<lambda>t. (name, t)) (pn_triggers node)) nodes))"

definition check_timeout :: "compile_env \<Rightarrow> string \<times> pregel_node \<Rightarrow> unit res" where
  "check_timeout env nn =
     (if pn_timeout (snd nn) = None then Inr ()
      else case node_runnable (snd nn) of
             None \<Rightarrow> Inr ()
           | Some r \<Rightarrow> if ce_native_async env r then Inr () else Inl (ValueError (fst nn)))"

definition Pregel_validate :: "compile_env \<Rightarrow> compiled \<Rightarrow> compiled res" where
  "Pregel_validate env cg =
     rbind (rfold (\<lambda>_. check_timeout env) () (cg_nodes cg)) (\<lambda>_.
     rmap (\<lambda>_. cg\<lparr>cg_trigger_to_nodes := trigger_index (cg_nodes cg)\<rparr>)
       (validate_graph (cg_nodes cg)
          (dkeys (channel_specs (cg_channels cg))) (dkeys (managed_specs (cg_channels cg)))
          (cg_input_channels cg) (cg_output_channels cg) (Some (cg_stream_channels cg))
          (cg_interrupt_after cg) (cg_interrupt_before cg)))"

subsection \<open>\<open>compile\<close>\<close>

definition DEFAULT_ERROR_HANDLER_NODE :: string where
  "DEFAULT_ERROR_HANDLER_NODE = ''__default_error_handler__''"

definition add_default_handler :: "state_graph \<Rightarrow> (state_graph \<times> string option) res" where
  "add_default_handler g =
     (case df_error_handler (sg_defaults g) of
        None \<Rightarrow> Inr (g, None)
      | Some r \<Rightarrow>
          if dmem DEFAULT_ERROR_HANDLER_NODE (sg_nodes g)
          then Inl (ValueError ''Auto-generated default error handler node already exists.'')
          else Inr (g\<lparr>sg_nodes := dset DEFAULT_ERROR_HANDLER_NODE (handler_spec r (sg_state_schema g)) (sg_nodes g)\<rparr>,
                    Some DEFAULT_ERROR_HANDLER_NODE))"

definition apply_defaults :: "node_defaults \<Rightarrow> string option \<Rightarrow> node_spec \<Rightarrow> node_spec" where
  "apply_defaults d handler spec =
     (let spec = (if \<not> nd_is_error_handler spec \<and> handler \<noteq> None \<and> nd_error_handler_node spec = None
                  then spec\<lparr>nd_error_handler_node := handler\<rparr> else spec);
          spec = (if df_retry_policy d \<noteq> None \<and> nd_retry_policy spec = None
                  then spec\<lparr>nd_retry_policy := df_retry_policy d\<rparr> else spec);
          spec = (if \<not> nd_is_error_handler spec \<and> df_cache_policy d \<noteq> None \<and> nd_cache_policy spec = None
                  then spec\<lparr>nd_cache_policy := df_cache_policy d\<rparr> else spec)
      in if df_timeout d \<noteq> None \<and> nd_timeout spec = None then spec\<lparr>nd_timeout := df_timeout d\<rparr> else spec)"

definition error_handler_map :: "(string, node_spec) dict \<Rightarrow> (string, string) dict" where
  "error_handler_map nodes =
     concat (map (\<lambda>(n, spec). case nd_error_handler_node spec of
         Some h \<Rightarrow> if nd_is_error_handler spec then [] else [(n, h)]
       | None \<Rightarrow> []) nodes)"

definition root_or_list :: "string list \<Rightarrow> string list \<Rightarrow> ch_keys" where
  "root_or_list all_keys ks = (if all_keys = [ROOT] then OneKey ROOT else ManyKeys ks)"

definition interrupts_to_check :: "string list option \<Rightarrow> string list option \<Rightarrow> string list" where
  "interrupts_to_check before after =
     (case after of None \<Rightarrow> [] | Some a \<Rightarrow> (case before of None \<Rightarrow> [] | Some b \<Rightarrow> b) @ a)"

definition all_branches :: "state_graph \<Rightarrow> (string \<times> string \<times> branch_spec) list" where
  "all_branches g = concat (map (\<lambda>(start, bs). map (\<lambda>(name, b). (start, name, b)) bs) (sg_branches g))"

definition compiled_init ::
  "state_graph \<Rightarrow> string list option \<Rightarrow> string list option \<Rightarrow> ch_keys \<Rightarrow> compiled res" where
  "compiled_init g before after output =
     rmap (\<lambda>channels.
       \<lparr>cg_nodes = [], cg_channels = channels, cg_input_channels = OneKey START, cg_output_channels = output,
        cg_stream_channels = root_or_list (dkeys (sg_channels g)) (dkeys (sg_channels g)),
        cg_interrupt_before = before, cg_interrupt_after = after,
        cg_error_handlers = error_handler_map (sg_nodes g), cg_mappers = [], cg_trigger_to_nodes = []\<rparr>)
       (with_tasks_channel
          (dset START (SpecChannel (Ch_EphemeralValue (EphemeralValue_init (TyClass (schema_name (sg_input_schema g)) None) True)))
             (dupd (map (\<lambda>(k, c). (k, SpecChannel c)) (sg_channels g))
                (map (\<lambda>(k, m). (k, SpecManaged m)) (sg_managed g)))))"

definition attach_all :: "compile_env \<Rightarrow> state_graph \<Rightarrow> compiled \<Rightarrow> compiled res" where
  "attach_all env g cg =
     rbind (attach_start env g cg) (\<lambda>cg.
     rbind (rfold (attach_node env g) cg (sg_nodes g)) (\<lambda>cg.
     rbind (rfold attach_edge cg (sg_edges g)) (\<lambda>cg.
     rbind (rfold (attach_waiting_edge g) cg (sg_waiting_edges g)) (\<lambda>cg.
     rfold (attach_branch env g) cg (all_branches g)))))"

definition compile_graph ::
  "compile_env \<Rightarrow> string list option \<Rightarrow> string list option \<Rightarrow> state_graph \<Rightarrow> (state_graph \<times> compiled) res" where
  "compile_graph env interrupt_before interrupt_after g =
     rbind (validate (interrupts_to_check interrupt_before interrupt_after) g) (\<lambda>g.
     rbind (schema_fields g (sg_output_schema g)) (\<lambda>outs.
     rbind (add_default_handler g) (\<lambda>(g, handler).
       let g = g\<lparr>sg_nodes := map (\<lambda>(n, spec). (n, apply_defaults (sg_defaults g) handler spec)) (sg_nodes g)\<rparr>
       in rbind (compiled_init g interrupt_before interrupt_after (root_or_list (dkeys outs) (channel_keys outs))) (\<lambda>cg.
          rbind (attach_all env g cg) (\<lambda>cg.
          rmap (\<lambda>cg. (g, cg)) (Pregel_validate env cg))))))"

end
