(* ===== verification/Graph_Invariant.thy ===== *)
theory Graph_Invariant
  imports Graph_Compile
begin

section \<open>The invariant of the graph builder\<close>

text \<open>
  What every operation of \<open>StateGraph\<close> keeps of the builder, whatever is called in whatever order, compiling
  included: the predicate \<open>builder_wf\<close>, proved of every builder that can be reached (\<open>built\<close>).
\<close>

definition has_schema :: "state_graph \<Rightarrow> schema \<Rightarrow> bool" where
  "has_schema g s = dmem (schema_name s) (sg_schemas g)"

fun field_known :: "state_graph \<Rightarrow> string \<times> chan_or_managed \<Rightarrow> bool" where
  "field_known g (k, SpecChannel c) = dmem k (sg_channels g)"
| "field_known g (k, SpecManaged m) = dmem k (sg_managed g)"

definition plain_name :: "string \<Rightarrow> bool" where
  "plain_name n = (n \<noteq> START \<and> n \<noteq> END_NODE \<and> \<not> set NS_SEP \<subseteq> set n \<and> \<not> set NS_END \<subseteq> set n)"

definition schemas_wf :: "state_graph \<Rightarrow> bool" where
  "schemas_wf g \<longleftrightarrow>
     dict_ok (sg_channels g) \<and> dict_ok (sg_managed g)
   \<and> (\<forall>(sn, fields) \<in> set (sg_schemas g). \<forall>f \<in> set fields. field_known g f)
   \<and> has_schema g (sg_state_schema g) \<and> has_schema g (sg_input_schema g) \<and> has_schema g (sg_output_schema g)"

text \<open>
  A node or a branch is added before its schema is: \<open>S\<close> holds the schemas still to be added, none between
  operations.
\<close>

definition nodes_wf :: "schema set \<Rightarrow> state_graph \<Rightarrow> bool" where
  "nodes_wf S g \<longleftrightarrow>
     dict_ok (sg_nodes g)
   \<and> (\<forall>(n, spec) \<in> set (sg_nodes g). plain_name n \<and> (has_schema g (nd_input_schema spec) \<or> nd_input_schema spec \<in> S))"

definition edges_wf :: "schema set \<Rightarrow> state_graph \<Rightarrow> bool" where
  "edges_wf S g \<longleftrightarrow>
     (\<forall>(s, t) \<in> set (sg_edges g). s \<noteq> END_NODE \<and> t \<noteq> START)
   \<and> (\<forall>(ss, t) \<in> set (sg_waiting_edges g).
        (\<forall>s \<in> set ss. dmem s (sg_nodes g)) \<and> (t = END_NODE \<or> dmem t (sg_nodes g)))
   \<and> (\<forall>(start, bs) \<in> set (sg_branches g). \<forall>(name, b) \<in> set bs. \<forall>s. bs_input_schema b = Some s \<longrightarrow> has_schema g s \<or> s \<in> S)"

definition builder_wf :: "state_graph \<Rightarrow> bool" where
  "builder_wf g \<longleftrightarrow> schemas_wf g \<and> nodes_wf {} g \<and> edges_wf {} g"

lemmas builder_wf_defs = builder_wf_def schemas_wf_def nodes_wf_def edges_wf_def has_schema_def

subsection \<open>Dictionaries as sets of entries\<close>

lemma set_dset: "set (dset k v d) \<subseteq> insert (k, v) (set d)"
  by (induction d) auto

lemma set_dupd: "set (dupd d new) \<subseteq> set d \<union> set new"
  unfolding dupd_def
proof (induction new arbitrary: d)
  case (Cons x new)
  then show ?case using set_dset [of "fst x" "snd x" d] by (fastforce simp: case_prod_beta)
qed simp

lemma dict_mem: "(k, v) \<in> set d \<Longrightarrow> dmem k d"
  by (force simp: dmem_iff_keys dkeys_def)

lemma dmem_entry: "dmem k d \<Longrightarrow> \<exists>v. (k, v) \<in> set d"
  by (auto simp: dmem_iff_keys dkeys_def)

subsection \<open>Adding schemas\<close>

lemma add_schema_channels:
  assumes "rfold add_schema_channel g cs = Inr g'" and "dict_ok (sg_channels g)"
  shows "\<exists>chs. g' = g\<lparr>sg_channels := chs\<rparr> \<and> dict_ok chs
    \<and> (\<forall>k. dmem k chs \<longleftrightarrow> dmem k (sg_channels g) \<or> k \<in> fst ` set cs)"
  using assms
proof (induction cs arbitrary: g)
  case Nil
  then show ?case by (intro exI [of _ "sg_channels g"]) simp
next
  case (Cons x cs)
  obtain k c where x: "x = (k, c)" by fastforce
  obtain g1 where a: "add_schema_channel g (k, c) = Inr g1" and r: "rfold add_schema_channel g1 cs = Inr g'"
    using Cons.prems(1) x by (auto simp: rbind_Inr_iff)
  have "\<exists>chs. g1 = g\<lparr>sg_channels := chs\<rparr> \<and> dict_ok chs \<and> (\<forall>j. dmem j chs \<longleftrightarrow> dmem j (sg_channels g) \<or> j = k)"
  proof (cases "map_of (sg_channels g) k")
    case None
    with a Cons.prems(2) show ?thesis
      by (intro exI [of _ "dset k c (sg_channels g)"]) (auto simp: add_schema_channel_def)
  next
    case (Some old)
    with a have "g1 = g" by (auto simp: add_schema_channel_def split: if_splits channel.splits)
    with Some Cons.prems(2) show ?thesis by (intro exI [of _ "sg_channels g"]) (auto simp: dmem_def)
  qed
  then obtain chs where g1: "g1 = g\<lparr>sg_channels := chs\<rparr>" "dict_ok chs"
    and k: "\<forall>j. dmem j chs \<longleftrightarrow> dmem j (sg_channels g) \<or> j = k" by blast
  from Cons.IH [OF r] g1 obtain chs' where "g' = g1\<lparr>sg_channels := chs'\<rparr>" "dict_ok chs'"
    "\<forall>j. dmem j chs' \<longleftrightarrow> dmem j chs \<or> j \<in> fst ` set cs" by auto
  with g1 k x show ?case by (intro exI [of _ chs']) auto
qed

lemma add_schema_manageds:
  assumes "rfold add_schema_managed g ms = Inr g'" and "dict_ok (sg_managed g)"
  shows "\<exists>ms'. g' = g\<lparr>sg_managed := ms'\<rparr> \<and> dict_ok ms'
    \<and> (\<forall>k. dmem k ms' \<longleftrightarrow> dmem k (sg_managed g) \<or> k \<in> fst ` set ms)"
  using assms
proof (induction ms arbitrary: g)
  case Nil
  then show ?case by (intro exI [of _ "sg_managed g"]) simp
next
  case (Cons x ms)
  obtain k m where x: "x = (k, m)" by fastforce
  obtain g1 where a: "add_schema_managed g (k, m) = Inr g1" and r: "rfold add_schema_managed g1 ms = Inr g'"
    using Cons.prems(1) x by (auto simp: rbind_Inr_iff)
  have "\<exists>ms'. g1 = g\<lparr>sg_managed := ms'\<rparr> \<and> dict_ok ms' \<and> (\<forall>j. dmem j ms' \<longleftrightarrow> dmem j (sg_managed g) \<or> j = k)"
  proof (cases "map_of (sg_managed g) k")
    case None
    with a Cons.prems(2) show ?thesis
      by (intro exI [of _ "dset k m (sg_managed g)"]) (auto simp: add_schema_managed_def)
  next
    case (Some old)
    with a have "g1 = g" by (auto simp: add_schema_managed_def split: if_splits)
    with Some Cons.prems(2) show ?thesis by (intro exI [of _ "sg_managed g"]) (auto simp: dmem_def)
  qed
  then obtain ms1 where g1: "g1 = g\<lparr>sg_managed := ms1\<rparr>" "dict_ok ms1"
    and k: "\<forall>j. dmem j ms1 \<longleftrightarrow> dmem j (sg_managed g) \<or> j = k" by blast
  from Cons.IH [OF r] g1 obtain ms' where "g' = g1\<lparr>sg_managed := ms'\<rparr>" "dict_ok ms'"
    "\<forall>j. dmem j ms' \<longleftrightarrow> dmem j ms1 \<or> j \<in> fst ` set ms" by auto
  with g1 k x show ?case by (intro exI [of _ ms']) auto
qed

definition fields_wf :: "state_graph \<Rightarrow> bool" where
  "fields_wf g \<longleftrightarrow> dict_ok (sg_channels g) \<and> dict_ok (sg_managed g)
     \<and> (\<forall>(sn, fields) \<in> set (sg_schemas g). \<forall>f \<in> set fields. field_known g f)"

lemma schemas_wf_alt:
  "schemas_wf g \<longleftrightarrow> fields_wf g \<and> has_schema g (sg_state_schema g) \<and> has_schema g (sg_input_schema g)
     \<and> has_schema g (sg_output_schema g)"
  by (auto simp: schemas_wf_def fields_wf_def)

lemma field_known_mono:
  assumes "\<And>k. dmem k (sg_channels g) \<Longrightarrow> dmem k (sg_channels g')"
    and "\<And>k. dmem k (sg_managed g) \<Longrightarrow> dmem k (sg_managed g')" and "field_known g f"
  shows "field_known g' f"
  using assms by (cases "(g, f)" rule: field_known.cases) auto

lemma add_schema_effect:
  assumes "add_schema g s allow = Inr g'" and "fields_wf g"
  shows "\<exists>chs ms ss. g' = g\<lparr>sg_schemas := ss, sg_channels := chs, sg_managed := ms\<rparr> \<and> fields_wf g'
    \<and> (\<forall>n. dmem n ss \<longleftrightarrow> n = schema_name s \<or> dmem n (sg_schemas g))"
proof (cases "dmem (schema_name s) (sg_schemas g)")
  case True
  with assms show ?thesis
    by (intro exI [of _ "sg_channels g"] exI [of _ "sg_managed g"] exI [of _ "sg_schemas g"])
      (auto simp: add_schema_def)
next
  case False
  obtain fields where f: "get_channels s = Inr fields"
    using assms(1) False by (auto simp: add_schema_def rbind_Inr_iff)
  let ?cs = "channel_specs fields" and ?ms = "managed_specs fields"
  let ?fields = "dupd (map (\<lambda>(k, c). (k, SpecChannel c)) ?cs) (map (\<lambda>(k, m). (k, SpecManaged m)) ?ms)"
  let ?ss = "dset (schema_name s) ?fields (sg_schemas g)"
  obtain g1 where c: "rfold add_schema_channel (g\<lparr>sg_schemas := ?ss\<rparr>) ?cs = Inr g1"
    and m: "rfold add_schema_managed g1 ?ms = Inr g'"
    using assms(1) False f by (auto simp: add_schema_def Let_def rbind_Inr_iff split: if_splits)
  have ok: "dict_ok (sg_channels g)" "dict_ok (sg_managed g)"
    and old: "\<forall>(sn, fields) \<in> set (sg_schemas g). \<forall>f \<in> set fields. field_known g f"
    using assms(2) by (auto simp: fields_wf_def)
  obtain chs where g1: "g1 = g\<lparr>sg_schemas := ?ss, sg_channels := chs\<rparr>" "dict_ok chs"
    and chs: "\<forall>k. dmem k chs \<longleftrightarrow> dmem k (sg_channels g) \<or> k \<in> fst ` set ?cs"
    using add_schema_channels [OF c] ok by auto
  obtain ms where g': "g' = g\<lparr>sg_schemas := ?ss, sg_channels := chs, sg_managed := ms\<rparr>" "dict_ok ms"
    and ms: "\<forall>k. dmem k ms \<longleftrightarrow> dmem k (sg_managed g) \<or> k \<in> fst ` set ?ms"
    using add_schema_manageds [OF m] ok g1 by auto
  have new: "field_known g' f" if "f \<in> set ?fields" for f
    using subsetD [OF set_dupd that] chs ms g'(1) by (force simp: image_iff)
  have "\<forall>(sn, fields) \<in> set (sg_schemas g'). \<forall>f \<in> set fields. field_known g' f"
  proof (clarify)
    fix sn fs k v
    assume "(sn, fs) \<in> set (sg_schemas g')" and f: "(k, v) \<in> set fs"
    then have "(sn, fs) = (schema_name s, ?fields) \<or> (sn, fs) \<in> set (sg_schemas g)"
      using set_dset [of "schema_name s" ?fields "sg_schemas g"] g'(1) by auto
    then show "field_known g' (k, v)"
    proof
      assume "(sn, fs) = (schema_name s, ?fields)"
      with f new show ?thesis by blast
    next
      assume "(sn, fs) \<in> set (sg_schemas g)"
      with old f have "field_known g (k, v)" by blast
      then show ?thesis
        by (rule field_known_mono [rotated 2]) (use g'(1) chs ms in auto)
    qed
  qed
  with g' g1(2) show ?thesis
    by (intro exI [of _ chs] exI [of _ ms] exI [of _ ?ss]) (auto simp: fields_wf_def)
qed

lemma add_schema_wf_upto:
  assumes "add_schema g s allow = Inr g'" and "schemas_wf g" and "nodes_wf {s} g" and "edges_wf {s} g"
  shows "builder_wf g'"
proof -
  have f: "fields_wf g" using assms(2) by (simp add: schemas_wf_alt)
  from add_schema_effect [OF assms(1) f] obtain chs ms ss
    where g': "g' = g\<lparr>sg_schemas := ss, sg_channels := chs, sg_managed := ms\<rparr>" and w: "fields_wf g'"
      and ss: "\<forall>n. dmem n ss \<longleftrightarrow> n = schema_name s \<or> dmem n (sg_schemas g)" by blast
  have "has_schema g' t" if "has_schema g t \<or> t \<in> {s}" for t
    using that g' ss by (auto simp: has_schema_def)
  then show ?thesis
    using assms(2-4) w g'
    by (auto simp: builder_wf_def schemas_wf_alt nodes_wf_def edges_wf_def split: prod.splits)
qed

lemma StateGraph_init_wf:
  assumes "StateGraph_init state_schema input_schema output_schema = Inr g"
  shows "builder_wf g"
proof -
  let ?ins = "case input_schema of None \<Rightarrow> state_schema | Some s \<Rightarrow> s"
  let ?outs = "case output_schema of None \<Rightarrow> state_schema | Some s \<Rightarrow> s"
  let ?g0 = "\<lparr>sg_edges = [], sg_nodes = [], sg_branches = [], sg_channels = [], sg_managed = [], sg_schemas = [],
               sg_waiting_edges = [], sg_compiled = False, sg_state_schema = state_schema, sg_input_schema = ?ins,
               sg_output_schema = ?outs, sg_defaults = no_defaults\<rparr>"
  obtain g1 g2 where 1: "add_schema ?g0 state_schema True = Inr g1" and 2: "add_schema g1 ?ins False = Inr g2"
    and 3: "add_schema g2 ?outs False = Inr g"
    using assms by (auto simp: StateGraph_init_def Let_def rbind_Inr_iff)
  have "fields_wf ?g0" by (simp add: fields_wf_def)
  from add_schema_effect [OF 1 this] obtain chs ms ss
    where g1: "g1 = ?g0\<lparr>sg_schemas := ss, sg_channels := chs, sg_managed := ms\<rparr>" "fields_wf g1"
      "dmem (schema_name state_schema) ss" by auto
  from add_schema_effect [OF 2 g1(2)] obtain chs2 ms2 ss2
    where g2: "g2 = g1\<lparr>sg_schemas := ss2, sg_channels := chs2, sg_managed := ms2\<rparr>" "fields_wf g2"
      "\<forall>n. dmem n ss2 \<longleftrightarrow> n = schema_name ?ins \<or> dmem n ss" using g1 by auto
  from add_schema_effect [OF 3 g2(2)] obtain chs3 ms3 ss3
    where g: "g = g2\<lparr>sg_schemas := ss3, sg_channels := chs3, sg_managed := ms3\<rparr>" "fields_wf g"
      "\<forall>n. dmem n ss3 \<longleftrightarrow> n = schema_name ?outs \<or> dmem n ss2" using g2 by auto
  from g g1 g2 show ?thesis
    by (simp add: builder_wf_def schemas_wf_alt nodes_wf_def edges_wf_def has_schema_def)
qed

subsection \<open>The operations\<close>

lemma field_known_simps [simp]:
  "field_known (g\<lparr>sg_nodes := ns\<rparr>) = field_known g"
  "field_known (g\<lparr>sg_edges := es\<rparr>) = field_known g"
  "field_known (g\<lparr>sg_waiting_edges := ws\<rparr>) = field_known g"
  "field_known (g\<lparr>sg_branches := bs\<rparr>) = field_known g"
  "field_known (g\<lparr>sg_compiled := c\<rparr>) = field_known g"
  "field_known (g\<lparr>sg_defaults := d\<rparr>) = field_known g"
  by (auto simp: fun_eq_iff elim!: field_known.elims)

lemma schemas_wf_simps [simp]:
  "schemas_wf (g\<lparr>sg_nodes := ns\<rparr>) = schemas_wf g"
  "schemas_wf (g\<lparr>sg_edges := es\<rparr>) = schemas_wf g"
  "schemas_wf (g\<lparr>sg_waiting_edges := ws\<rparr>) = schemas_wf g"
  "schemas_wf (g\<lparr>sg_branches := bs\<rparr>) = schemas_wf g"
  "schemas_wf (g\<lparr>sg_compiled := c\<rparr>) = schemas_wf g"
  "schemas_wf (g\<lparr>sg_defaults := d\<rparr>) = schemas_wf g"
  by (simp_all add: schemas_wf_def has_schema_def)

lemma nodes_wf_simps [simp]:
  "nodes_wf S (g\<lparr>sg_edges := es\<rparr>) = nodes_wf S g"
  "nodes_wf S (g\<lparr>sg_waiting_edges := ws\<rparr>) = nodes_wf S g"
  "nodes_wf S (g\<lparr>sg_branches := bs\<rparr>) = nodes_wf S g"
  "nodes_wf S (g\<lparr>sg_compiled := c\<rparr>) = nodes_wf S g"
  "nodes_wf S (g\<lparr>sg_defaults := d\<rparr>) = nodes_wf S g"
  by (simp_all add: nodes_wf_def has_schema_def)

lemma edges_wf_simps [simp]:
  "edges_wf S (g\<lparr>sg_compiled := c\<rparr>) = edges_wf S g"
  "edges_wf S (g\<lparr>sg_defaults := d\<rparr>) = edges_wf S g"
  by (simp_all add: edges_wf_def has_schema_def)

lemma set_node_defaults_wf: "builder_wf g \<Longrightarrow> builder_wf (set_node_defaults rp cp eh t g)"
  by (simp add: set_node_defaults_def Let_def builder_wf_def)

lemma nodes_wf_add:
  "nodes_wf S g \<Longrightarrow> plain_name n \<Longrightarrow> has_schema g (nd_input_schema spec) \<or> nd_input_schema spec \<in> S \<Longrightarrow>
   nodes_wf S (g\<lparr>sg_nodes := dset n spec (sg_nodes g)\<rparr>)"
  using set_dset [of n spec "sg_nodes g"] by (fastforce simp: nodes_wf_def has_schema_def)

lemma edges_wf_add: "edges_wf S g \<Longrightarrow> edges_wf S (g\<lparr>sg_nodes := dset n spec (sg_nodes g)\<rparr>)"
  by (fastforce simp: edges_wf_def has_schema_def)

lemma wf_mono: "S \<subseteq> T \<Longrightarrow> nodes_wf S g \<Longrightarrow> nodes_wf T g" "S \<subseteq> T \<Longrightarrow> edges_wf S g \<Longrightarrow> edges_wf T g"
  by (fastforce simp: nodes_wf_def edges_wf_def)+

lemma plain_handler: "plain_name n \<Longrightarrow> plain_name (''__error_handler__'' @ n)"
  by (auto simp: plain_name_def const_defs)

lemma add_node_wf:
  assumes "add_node arg args g = Inr g'" and "builder_wf g"
  shows "builder_wf g'"
proof -
  obtain node a where na: "node_of_arg arg = Inr (node, a)" and "name_allowed g node = Inr ()"
    using assms(1) by (auto simp: add_node_def rbind_Inr_iff)
  then have plain: "plain_name node"
    by (auto simp: name_allowed_def plain_name_def split: if_splits)
  let ?schema = "case na_input_schema args of Some s \<Rightarrow> Some s | None \<Rightarrow> ac_input_hint a"
  let ?resolved = "case ?schema of Some s \<Rightarrow> s | None \<Rightarrow> sg_state_schema g"
  let ?S = "case ?schema of Some s \<Rightarrow> {s} | None \<Rightarrow> {}"
  obtain g1 handler where h: "add_handler g node (na_error_handler args) ?resolved = Inr (g1, handler)"
    and r: "(case ?schema of None \<Rightarrow> Inr (g1\<lparr>sg_nodes := dset node (node_spec_of a args ?resolved handler) (sg_nodes g1)\<rparr>)
      | Some s \<Rightarrow> add_schema (g1\<lparr>sg_nodes := dset node (node_spec_of a args ?resolved handler) (sg_nodes g1)\<rparr>) s True) = Inr g'"
    using assms(1) na by (auto simp: add_node_def rbind_Inr_iff Let_def)
  let ?g2 = "g1\<lparr>sg_nodes := dset node (node_spec_of a args ?resolved handler) (sg_nodes g1)\<rparr>"
  have wf: "schemas_wf g" "nodes_wf ?S g" "edges_wf ?S g"
    using assms(2) wf_mono [of "{}" ?S g] by (simp_all add: builder_wf_def)
  have res: "has_schema g ?resolved \<or> ?resolved \<in> ?S"
    using wf(1) by (auto simp: schemas_wf_alt split: option.splits)
  have g1: "schemas_wf g1 \<and> nodes_wf ?S g1 \<and> edges_wf ?S g1 \<and> (has_schema g1 ?resolved \<or> ?resolved \<in> ?S)"
  proof (cases "na_error_handler args")
    case None
    with h wf res show ?thesis by (simp add: add_handler_def)
  next
    case (Some r)
    with h have "g1 = g\<lparr>sg_nodes := dset (''__error_handler__'' @ node) (handler_spec r ?resolved) (sg_nodes g)\<rparr>"
      by (auto simp: add_handler_def Let_def split: if_splits)
    then show ?thesis
      using wf res nodes_wf_add [OF wf(2) plain_handler [OF plain], of "handler_spec r ?resolved"] edges_wf_add [OF wf(3)]
      by (simp add: handler_spec_def has_schema_def)
  qed
  then have g2: "schemas_wf ?g2 \<and> nodes_wf ?S ?g2 \<and> edges_wf ?S ?g2"
    using nodes_wf_add [OF _ plain, of ?S g1 "node_spec_of a args ?resolved handler"] edges_wf_add
    by (simp add: node_spec_of_def)
  show ?thesis
  proof (cases ?schema)
    case None
    with r g2 show ?thesis by (simp add: builder_wf_def)
  next
    case (Some s)
    have "add_schema ?g2 s True = Inr g'" using r Some by simp
    then show ?thesis
      by (rule add_schema_wf_upto) (use g2 Some in simp_all)
  qed
qed

lemma add_edge_wf: "add_edge s t g = Inr g' \<Longrightarrow> builder_wf g \<Longrightarrow> builder_wf g'"
  by (fastforce simp: add_edge_def builder_wf_def edges_wf_def has_schema_def split: if_splits)

lemma check_starts_Inr: "check_starts g ss = Inr () \<Longrightarrow> s \<in> set ss \<Longrightarrow> dmem s (sg_nodes g)"
  by (induction ss) (auto split: if_splits)

lemma add_waiting_edge_wf:
  assumes "add_waiting_edge ss t g = Inr g'" and "builder_wf g"
  shows "builder_wf g'"
proof -
  have "check_starts g ss = Inr ()" and "t = END_NODE \<or> dmem t (sg_nodes g)"
    and g': "g' = g\<lparr>sg_waiting_edges := List.insert (ss, t) (sg_waiting_edges g)\<rparr>"
    using assms(1) by (auto simp: add_waiting_edge_def rbind_Inr_iff split: if_splits)
  with assms(2) show ?thesis
    by (fastforce simp: builder_wf_def edges_wf_def has_schema_def dest: check_starts_Inr)
qed

lemma add_conditional_edges_wf:
  assumes "add_conditional_edges source path pm g = Inr g'" and "builder_wf g"
  shows "builder_wf g'"
proof -
  let ?b = "BranchSpec_from_path path pm"
  let ?S = "case bs_input_schema ?b of Some s \<Rightarrow> {s} | None \<Rightarrow> {}"
  let ?own = "dgetd (sg_branches g) source []"
  obtain name where r: "(case bs_input_schema ?b of
      None \<Rightarrow> Inr (g\<lparr>sg_branches := dset source (dset name ?b ?own) (sg_branches g)\<rparr>)
    | Some s \<Rightarrow> add_schema (g\<lparr>sg_branches := dset source (dset name ?b ?own) (sg_branches g)\<rparr>) s True) = Inr g'"
    using assms(1) by (auto simp: add_conditional_edges_def Let_def split: if_splits)
  let ?g1 = "g\<lparr>sg_branches := dset source (dset name ?b ?own) (sg_branches g)\<rparr>"
  have wf: "schemas_wf g" "nodes_wf ?S g" "edges_wf ?S g"
    using assms(2) wf_mono [of "{}" ?S g] by (simp_all add: builder_wf_def)
  have own: "\<forall>(name, b) \<in> set ?own. \<forall>s. bs_input_schema b = Some s \<longrightarrow> has_schema g s \<or> s \<in> ?S"
  proof (cases "map_of (sg_branches g) source")
    case None
    then show ?thesis by (simp add: dgetd_def)
  next
    case (Some bs)
    then have "(source, bs) \<in> set (sg_branches g)" by (rule map_of_SomeD)
    with wf(3) have "\<forall>(name, b) \<in> set bs. \<forall>s. bs_input_schema b = Some s \<longrightarrow> has_schema g s \<or> s \<in> ?S"
      unfolding edges_wf_def by blast
    with Some show ?thesis by (simp add: dgetd_def)
  qed
  have new: "\<forall>s. bs_input_schema ?b = Some s \<longrightarrow> has_schema g s \<or> s \<in> ?S" by auto
  have ins: "\<forall>(nm, b) \<in> set (dset name ?b ?own). \<forall>s. bs_input_schema b = Some s \<longrightarrow> has_schema g s \<or> s \<in> ?S"
    using set_dset [of name ?b ?own] own new by blast
  have "\<forall>(start, bs) \<in> set (dset source (dset name ?b ?own) (sg_branches g)). \<forall>(nm, b) \<in> set bs.
      \<forall>s. bs_input_schema b = Some s \<longrightarrow> has_schema g s \<or> s \<in> ?S"
    using set_dset [of source "dset name ?b ?own" "sg_branches g"] ins wf(3) unfolding edges_wf_def by blast
  then have g1: "schemas_wf ?g1 \<and> nodes_wf ?S ?g1 \<and> edges_wf ?S ?g1"
    using wf by (simp add: edges_wf_def has_schema_def)
  show ?thesis
  proof (cases "bs_input_schema ?b")
    case None
    with r g1 show ?thesis by (simp add: builder_wf_def)
  next
    case (Some s)
    have "add_schema ?g1 s True = Inr g'" using r Some by simp
    then show ?thesis
      by (rule add_schema_wf_upto) (use g1 Some in simp_all)
  qed
qed

lemma add_sequence_wf:
  assumes "add_sequence nodes g = Inr g'" and "builder_wf g"
  shows "builder_wf g'"
proof -
  obtain p where r: "rfold sequence_step (None, g) nodes = Inr (p, g')"
    using assms(1) by (auto simp: add_sequence_def rmap_Inr_iff split: if_splits)
  have step: "builder_wf (snd t)" if "builder_wf (snd s)" and "sequence_step s na = Inr t" for s na t
  proof -
    obtain prev h name a where s: "s = (prev, h)" and na: "na = (name, a)" by fastforce
    with that(2) obtain h1 h2 where "add_node (NodeName name (Some a)) default_args h = Inr h1"
      and "(case prev of None \<Rightarrow> Inr h1 | Some p \<Rightarrow> add_edge p name h1) = Inr h2" and "t = (Some name, h2)"
      by (auto simp: sequence_step_def rbind_Inr_iff rmap_Inr_iff split: if_splits)
    with that(1) s show ?thesis
      by (auto dest: add_node_wf add_edge_wf split: option.splits)
  qed
  from rfold_invariant [OF r, of "\<lambda>s. builder_wf (snd s)"] assms(2) step show ?thesis by auto
qed

lemma validate_builder: "validate ns g = Inr g' \<Longrightarrow> g' = g\<lparr>sg_compiled := True\<rparr>"
  by (auto simp: validate_def rbind_Inr_iff rmap_Inr_iff split: if_splits)

text \<open>What compiling leaves in the builder: the default error handler and the defaults of the nodes.\<close>

definition builder_after :: "state_graph \<Rightarrow> state_graph" where
  "builder_after g =
     (case add_default_handler (g\<lparr>sg_compiled := True\<rparr>) of
        Inl e \<Rightarrow> g
      | Inr (h, handler) \<Rightarrow> h\<lparr>sg_nodes := map (\<lambda>(n, spec). (n, apply_defaults (sg_defaults h) handler spec)) (sg_nodes h)\<rparr>)"

lemma compile_builder:
  assumes "compile_graph env before after g = Inr (g', cg)"
  shows "g' = builder_after g"
    and "\<exists>cg0 cg1 outs. schema_fields g (sg_output_schema g) = Inr outs
      \<and> compiled_init g' before after (root_or_list (dkeys outs) (channel_keys outs)) = Inr cg0
      \<and> attach_all env g' cg0 = Inr cg1 \<and> Pregel_validate env cg1 = Inr cg"
proof -
  obtain g1 where v1: "validate (interrupts_to_check before after) g = Inr g1"
    using assms by (auto simp: compile_graph_def rbind_Inr_iff)
  then have v: "validate (interrupts_to_check before after) g = Inr (g\<lparr>sg_compiled := True\<rparr>)"
    using validate_builder by blast
  obtain outs h handler where o: "schema_fields (g\<lparr>sg_compiled := True\<rparr>) (sg_output_schema g) = Inr outs"
    and h: "add_default_handler (g\<lparr>sg_compiled := True\<rparr>) = Inr (h, handler)"
    and r: "rbind (compiled_init (builder_after g) before after (root_or_list (dkeys outs) (channel_keys outs)))
       (\<lambda>cg. rbind (attach_all env (builder_after g) cg)
         (\<lambda>cg. rmap (\<lambda>cg. (builder_after g, cg)) (Pregel_validate env cg))) = Inr (g', cg)"
    using assms by (auto simp: compile_graph_def v rbind_Inr_iff Let_def builder_after_def)
  have "schema_fields g (sg_output_schema g) = Inr outs"
    using o by (simp add: schema_fields_def split: option.splits)
  with r show "g' = builder_after g" and "\<exists>cg0 cg1 outs. schema_fields g (sg_output_schema g) = Inr outs
      \<and> compiled_init g' before after (root_or_list (dkeys outs) (channel_keys outs)) = Inr cg0
      \<and> attach_all env g' cg0 = Inr cg1 \<and> Pregel_validate env cg1 = Inr cg"
    by (auto simp: rbind_Inr_iff rmap_Inr_iff)
qed

lemma apply_defaults_input [simp]: "nd_input_schema (apply_defaults d h spec) = nd_input_schema spec"
  by (simp add: apply_defaults_def Let_def)

lemma plain_default_handler: "plain_name DEFAULT_ERROR_HANDLER_NODE"
  by (simp add: plain_name_def DEFAULT_ERROR_HANDLER_NODE_def const_defs)

lemma dmem_map_snd [simp]: "dmem k (map (\<lambda>(n, x). (n, f x)) d) = dmem k d"
  by (auto simp: dmem_def map_of_map_snd)

lemma map_nodes_wf:
  assumes "builder_wf g" and "\<And>spec. nd_input_schema (f spec) = nd_input_schema spec"
  shows "builder_wf (g\<lparr>sg_nodes := map (\<lambda>(n, spec). (n, f spec)) (sg_nodes g)\<rparr>)"
proof -
  have "map fst (map (\<lambda>(n, spec). (n, f spec)) d) = map fst d" for d :: "(string, node_spec) dict"
    by (induction d) auto
  then have "dict_ok (map (\<lambda>(n, spec). (n, f spec)) (sg_nodes g)) = dict_ok (sg_nodes g)"
    by (simp only: dict_ok_def)
  then show ?thesis
    using assms by (fastforce simp: builder_wf_def nodes_wf_def edges_wf_def has_schema_def)
qed

lemma builder_after_wf:
  assumes "builder_wf g"
  shows "builder_wf (builder_after g)"
proof (cases "add_default_handler (g\<lparr>sg_compiled := True\<rparr>)")
  case (Inr hh)
  obtain h handler where hh: "hh = (h, handler)" by fastforce
  have g1: "builder_wf (g\<lparr>sg_compiled := True\<rparr>)" using assms by (simp add: builder_wf_def)
  have "builder_wf h"
  proof (cases "df_error_handler (sg_defaults g)")
    case None
    with Inr hh g1 show ?thesis by (simp add: add_default_handler_def)
  next
    case (Some r)
    let ?spec = "handler_spec r (sg_state_schema g)"
    have "h = (g\<lparr>sg_compiled := True\<rparr>)\<lparr>sg_nodes := dset DEFAULT_ERROR_HANDLER_NODE ?spec (sg_nodes g)\<rparr>"
      using Inr hh Some by (auto simp: add_default_handler_def split: if_splits)
    moreover have "has_schema g (nd_input_schema ?spec)"
      using assms by (simp add: builder_wf_def schemas_wf_alt handler_spec_def)
    ultimately show ?thesis
      using g1 nodes_wf_add [OF _ plain_default_handler, of "{}" "g\<lparr>sg_compiled := True\<rparr>" ?spec]
        edges_wf_add [of "{}" "g\<lparr>sg_compiled := True\<rparr>" DEFAULT_ERROR_HANDLER_NODE ?spec]
      by (simp add: builder_wf_def has_schema_def)
  qed
  then show ?thesis
    using map_nodes_wf [of h] by (simp add: builder_after_def Inr hh)
qed (simp add: builder_after_def assms)

subsection \<open>Every builder that can be reached\<close>

inductive built :: "state_graph \<Rightarrow> bool" where
  init: "StateGraph_init state_schema input_schema output_schema = Inr g \<Longrightarrow> built g"
| defaults: "built g \<Longrightarrow> built (set_node_defaults retry_policy cache_policy error_handler timeout g)"
| node: "built g \<Longrightarrow> add_node arg args g = Inr g' \<Longrightarrow> built g'"
| edge: "built g \<Longrightarrow> add_edge s t g = Inr g' \<Longrightarrow> built g'"
| join: "built g \<Longrightarrow> add_waiting_edge ss t g = Inr g' \<Longrightarrow> built g'"
| branch: "built g \<Longrightarrow> add_conditional_edges source path pm g = Inr g' \<Longrightarrow> built g'"
| sequence: "built g \<Longrightarrow> add_sequence nodes g = Inr g' \<Longrightarrow> built g'"
| compile: "built g \<Longrightarrow> compile_graph env before after g = Inr (g', cg) \<Longrightarrow> built g'"

lemma builder_wf_built: "built g \<Longrightarrow> builder_wf g"
proof (induction rule: built.induct)
  case (compile g env before after g' cg)
  then show ?case using compile_builder(1) builder_after_wf by blast
qed (auto intro: StateGraph_init_wf set_node_defaults_wf add_node_wf add_edge_wf add_waiting_edge_wf
      add_conditional_edges_wf add_sequence_wf)

text \<open>
  C3: every builder that the operations of \<open>StateGraph\<close> can reach, in any order and compiling in between, is
  well-formed: node names are distinct, neither reserved nor with a separator; the schemas of the state, the
  nodes and the branches are known and each of their fields has its channel or managed value; no edge
  leaves the end or enters the start; and joins name nodes only.
\<close>

theorem builder_invariant:
  assumes "built g"
  shows "builder_wf g"
  using assms by (rule builder_wf_built)

definition example_schema :: schema where
  "example_schema = FieldSchema ''State'' [(''x'', Plain TyInt)]"

definition example_runnable :: "string \<Rightarrow> runnable" where
  "example_runnable n = R_Other n None"

definition example_action :: "string \<Rightarrow> action" where
  "example_action n = \<lparr>ac_name = Some n, ac_input_hint = None, ac_return_hint = None, ac_runnable = example_runnable n\<rparr>"

text \<open>A graph with nodes \<open>a\<close>, \<open>b\<close> and \<open>c\<close> in sequence, entered at \<open>a\<close>.\<close>

definition example_builder :: "state_graph res" where
  "example_builder =
     rbind (StateGraph_init example_schema None None) (\<lambda>g.
     rbind (add_sequence [(''a'', example_action ''a''), (''b'', example_action ''b''), (''c'', example_action ''c'')] g)
       (set_entry_point ''a''))"

lemma example_builder_built: "example_builder = Inr g \<Longrightarrow> built g"
  unfolding example_builder_def set_entry_point_def
  by (auto simp: rbind_Inr_iff) (blast intro: built.init built.sequence built.edge)

lemma example_builder_ok: "\<exists>g. example_builder = Inr g \<and> dkeys (sg_nodes g) = [''a'', ''b'', ''c'']
  \<and> sg_edges g = [(START, ''a''), (''b'', ''c''), (''a'', ''b'')]"
  by (simp add: example_builder_def StateGraph_init_def add_schema_def example_schema_def
      add_sequence_def sequence_step_def add_node_def example_action_def get_channel_def channel_specs_def
      managed_specs_def add_schema_channel_def dupd_def node_of_arg_def name_allowed_def default_args_def
      add_handler_def no_defaults_def add_edge_def set_entry_point_def const_defs dmem_def dkeys_def Let_def node_spec_of_def List.insert_def)

lemma builder_invariant_witness:
  "\<exists>g. example_builder = Inr g \<and> builder_wf g \<and> dkeys (sg_nodes g) = [''a'', ''b'', ''c'']"
  using example_builder_ok builder_invariant [OF example_builder_built] by blast

end
