(* ===== verification/Graph_Wiring.thy ===== *)
theory Graph_Wiring
  imports Graph_Invariant
begin

section \<open>A compiled graph follows the builder's edges\<close>

text \<open>
  What compiling makes of each node: its triggers and its writers, read off the edges, the joins and the
  branches of the builder; and what a step of the compiled graph does with them: a node runs next when a
  task of the step has an edge to it, wrote to it with a command, or routed to it.
\<close>

subsection \<open>What the attach methods make of each node\<close>

text \<open>
  The writers and triggers that the edges, joins and branches of the builder give to node \<open>n\<close>, in the
  order in which they are attached.
\<close>

definition edge_writer :: "string \<Rightarrow> runnable" where
  "edge_writer target = R_ChannelWrite [ChannelWriteEntry (branch_to target) VNone False None]"

definition join_writer :: "string list \<Rightarrow> string \<Rightarrow> string \<Rightarrow> runnable" where
  "join_writer starts target n = R_ChannelWrite [ChannelWriteEntry (join_channel starts target) (VStr n) False None]"

definition edge_writers :: "(string \<times> string) list \<Rightarrow> string \<Rightarrow> runnable list" where
  "edge_writers es n = map (\<lambda>e. edge_writer (snd e)) (filter (\<lambda>e. fst e = n \<and> snd e \<noteq> END_NODE) es)"

definition join_writers :: "(string list \<times> string) list \<Rightarrow> string \<Rightarrow> runnable list" where
  "join_writers ws n =
     concat (map (\<lambda>e. replicate (count_list (fst e) n) (join_writer (fst e) (snd e) n))
                 (filter (\<lambda>e. snd e \<noteq> END_NODE) ws))"

definition join_triggers :: "(string list \<times> string) list \<Rightarrow> string \<Rightarrow> string list" where
  "join_triggers ws n =
     map (\<lambda>e. join_channel (fst e) (snd e)) (filter (\<lambda>e. snd e = n \<and> n \<noteq> END_NODE) ws)"

definition branch_writers :: "(string \<times> string \<times> branch_spec) list \<Rightarrow> string \<Rightarrow> runnable list" where
  "branch_writers bs n = map (\<lambda>b. branch_runnable (fst b) (fst (snd b)) (snd (snd b))) (filter (\<lambda>b. fst b = n) bs)"

definition wired :: "runnable list \<Rightarrow> string list \<Rightarrow> pregel_node \<Rightarrow> pregel_node" where
  "wired ws ts p = p\<lparr>pn_writers := pn_writers p @ ws, pn_triggers := pn_triggers p @ ts\<rparr>"

lemma wired_wired [simp]: "wired ws2 ts2 (wired ws1 ts1 p) = wired (ws1 @ ws2) (ts1 @ ts2) p"
  by (simp add: wired_def)

lemma wired_Nil [simp]: "wired [] [] = (\<lambda>p. p)"
  by (simp add: wired_def fun_eq_iff)

lemma map_option_same [simp]: "map_option (\<lambda>x. x) r = r"
  by (cases r) simp_all

lemma wired_parts [simp]:
  "pn_writers (wired ws ts p) = pn_writers p @ ws" "pn_triggers (wired ws ts p) = pn_triggers p @ ts"
  by (simp_all add: wired_def)

text \<open>A change that wires every node \<open>n\<close> with \<open>ws n\<close> and \<open>ts n\<close>, and adds or removes none.\<close>

definition rewires :: "(string \<Rightarrow> runnable list) \<Rightarrow> (string \<Rightarrow> string list) \<Rightarrow> compiled \<Rightarrow> compiled \<Rightarrow> bool" where
  "rewires ws ts cg cg' \<longleftrightarrow>
     dkeys (cg_nodes cg') = dkeys (cg_nodes cg)
   \<and> (\<forall>n. map_of (cg_nodes cg') n = map_option (wired (ws n) (ts n)) (map_of (cg_nodes cg) n))"

lemma rewires_refl: "(\<And>n. ws n = []) \<Longrightarrow> (\<And>n. ts n = []) \<Longrightarrow> cg_nodes cg' = cg_nodes cg \<Longrightarrow> rewires ws ts cg cg'"
  by (simp add: rewires_def)

lemma rewires_trans:
  "rewires ws1 ts1 cg1 cg2 \<Longrightarrow> rewires ws2 ts2 cg2 cg3 \<Longrightarrow>
   rewires (\<lambda>n. ws1 n @ ws2 n) (\<lambda>n. ts1 n @ ts2 n) cg1 cg3"
  by (auto simp: rewires_def option.map_comp comp_def)

lemma rewires_rfold:
  assumes "\<And>cg x cg'. f cg x = Inr cg' \<Longrightarrow> rewires (ws x) (ts x) cg cg'"
    and "rfold f cg xs = Inr cg'"
  shows "rewires (\<lambda>n. concat (map (\<lambda>x. ws x n) xs)) (\<lambda>n. concat (map (\<lambda>x. ts x n) xs)) cg cg'"
  using assms(2)
proof (induction xs arbitrary: cg)
  case Nil
  then show ?case by (simp add: rewires_refl)
next
  case (Cons x xs)
  then obtain cg1 where "f cg x = Inr cg1" and "rfold f cg1 xs = Inr cg'"
    by (auto simp: rbind_Inr_iff)
  with assms(1) [of cg x cg1] Cons.IH [of cg1] show ?case
    using rewires_trans by fastforce
qed

lemma rewires_add_writer:
  "add_writer node w cg = Inr cg' \<Longrightarrow> rewires (\<lambda>n. if n = node then [w] else []) (\<lambda>n. []) cg cg'"
  by (auto simp: add_writer_def rewires_def wired_def dkeys_dset_mem dmem_def split: option.splits)

lemma concat_map_single: "concat (map (\<lambda>x. if P x then [f x] else []) xs) = map f (filter P xs)"
  by (induction xs) auto

lemma rewires_edge:
  "attach_edge cg e = Inr cg' \<Longrightarrow>
   rewires (\<lambda>n. if fst e = n \<and> snd e \<noteq> END_NODE then [edge_writer (snd e)] else []) (\<lambda>n. []) cg cg'"
  using rewires_add_writer [of "fst e" "edge_writer (snd e)" cg cg']
  by (cases "snd e = END_NODE")
    (auto simp: attach_edge_def edge_writer_def rewires_refl case_prod_beta eq_commute [of "fst e"])

lemma concat_map_Nil [simp]: "concat (map (\<lambda>x. []) xs) = []"
  by (induction xs) simp_all

lemma concat_replicate_count:
  "concat (map (\<lambda>s. if n = s then [w s] else []) starts) = replicate (count_list starts n) (w n)"
  by (induction starts) auto

lemma rewires_waiting:
  assumes "attach_waiting_edge g cg e = Inr cg'"
  shows "rewires (\<lambda>n. if snd e \<noteq> END_NODE then replicate (count_list (fst e) n) (join_writer (fst e) (snd e) n) else [])
     (\<lambda>n. if snd e = n \<and> n \<noteq> END_NODE then [join_channel (fst e) (snd e)] else []) cg cg'"
proof (cases "snd e = END_NODE")
  case True
  with assms show ?thesis
    by (auto simp: attach_waiting_edge_def case_prod_beta Let_def rewires_refl)
next
  case False
  let ?name = "join_channel (fst e) (snd e)"
  obtain spec where spec: "map_of (sg_nodes g) (snd e) = Some spec"
    using assms False by (auto simp: attach_waiting_edge_def Let_def case_prod_beta split: option.splits)
  obtain p where p: "map_of (cg_nodes cg) (snd e) = Some p"
    using assms False by (auto simp: attach_waiting_edge_def Let_def case_prod_beta split: option.splits)
  have r: "rfold (\<lambda>cg s. add_writer s (join_writer (fst e) (snd e) s) cg)
         (cg\<lparr>cg_channels := dset ?name (SpecChannel (barrier_channel (nd_defer spec) (fst e))) (cg_channels cg),
             cg_nodes := dset (snd e) (p\<lparr>pn_triggers := pn_triggers p @ [?name]\<rparr>) (cg_nodes cg)\<rparr>) (fst e) = Inr cg'"
    using assms False spec p by (simp add: attach_waiting_edge_def join_writer_def Let_def case_prod_beta)
  let ?cg1 = "cg\<lparr>cg_channels := dset ?name (SpecChannel (barrier_channel (nd_defer spec) (fst e))) (cg_channels cg),
             cg_nodes := dset (snd e) (p\<lparr>pn_triggers := pn_triggers p @ [?name]\<rparr>) (cg_nodes cg)\<rparr>"
  have a: "rewires (\<lambda>n. []) (\<lambda>n. if snd e = n then [?name] else []) cg ?cg1"
    using p by (auto simp: rewires_def wired_def dkeys_dset_mem dmem_def)
  have "rewires (\<lambda>n. concat (map (\<lambda>s. if n = s then [join_writer (fst e) (snd e) s] else []) (fst e)))
      (\<lambda>n. concat (map (\<lambda>s. []) (fst e))) ?cg1 cg'"
    by (rule rewires_rfold [OF _ r]) (rule rewires_add_writer)
  from rewires_trans [OF a this] False show ?thesis
    by (auto simp: concat_replicate_count rewires_def)
qed

lemma rewires_branch:
  "attach_branch env g cg b = Inr cg' \<Longrightarrow>
   rewires (\<lambda>n. if fst b = n then [branch_runnable (fst b) (fst (snd b)) (snd (snd b))] else []) (\<lambda>n. []) cg cg'"
  by (fastforce simp: attach_branch_def cached_mapper_def Let_def rbind_Inr_iff rewires_def eq_commute [of "fst b"]
      split: prod.splits option.splits dest!: rewires_add_writer)

lemma concat_map_if: "concat (map (\<lambda>x. if P x then f x else []) xs) = concat (map f (filter P xs))"
  by (induction xs) auto

lemma cached_mapper_nodes [simp]:
  "cg_nodes (snd (cached_mapper env ks s cg)) = cg_nodes cg"
  "cg_channels (snd (cached_mapper env ks s cg)) = cg_channels cg"
  by (simp_all add: cached_mapper_def Let_def split: option.splits)

definition state_keys :: "state_graph \<Rightarrow> string list" where
  "state_keys g = dkeys (sg_channels g) @ dkeys (sg_managed g)"

lemma attach_node_nodes:
  assumes "attach_node env g cg (n, spec) = Inr cg'" and "n \<noteq> START"
  shows "\<exists>ic m. cg_nodes cg' = dset n (state_node env (state_keys g) ic m n spec) (cg_nodes cg)"
  using assms
  by (auto simp: attach_node_def Let_def rmap_Inr_iff state_keys_def case_prod_beta) blast

lemma dkeys_dset_new: "\<not> dmem k d \<Longrightarrow> dkeys (dset k v d) = dkeys d @ [k]"
  by (simp add: dkeys_def dmem_def update_keys map_of_eq_None_iff del: update_conv')

lemma attach_nodes_nodes:
  assumes "rfold (attach_node env g) cg xs = Inr cg'" and "distinct (map fst xs)"
    and "START \<notin> fst ` set xs" and "\<And>x. x \<in> set xs \<Longrightarrow> \<not> dmem (fst x) (cg_nodes cg)"
  shows "dkeys (cg_nodes cg') = dkeys (cg_nodes cg) @ map fst xs
    \<and> (\<forall>n spec. (n, spec) \<in> set xs \<longrightarrow>
         (\<exists>ic m. map_of (cg_nodes cg') n = Some (state_node env (state_keys g) ic m n spec)))
    \<and> (\<forall>n. n \<notin> fst ` set xs \<longrightarrow> map_of (cg_nodes cg') n = map_of (cg_nodes cg) n)"
  using assms
proof (induction xs arbitrary: cg)
  case (Cons x xs)
  obtain n spec where x: "x = (n, spec)" by fastforce
  obtain cg1 where a: "attach_node env g cg (n, spec) = Inr cg1" and r: "rfold (attach_node env g) cg1 xs = Inr cg'"
    using Cons.prems(1) x by (auto simp: rbind_Inr_iff)
  obtain ic m where n1: "cg_nodes cg1 = dset n (state_node env (state_keys g) ic m n spec) (cg_nodes cg)"
    using attach_node_nodes [OF a] Cons.prems(3) x by auto
  have fresh: "\<not> dmem n (cg_nodes cg)" using Cons.prems(4) [of x] x by simp
  have others: "\<not> dmem (fst y) (cg_nodes cg1)" if "y \<in> set xs" for y
    using that Cons.prems(2) Cons.prems(4) [of y] x n1 by force
  have ih: "dkeys (cg_nodes cg') = dkeys (cg_nodes cg1) @ map fst xs
    \<and> (\<forall>n spec. (n, spec) \<in> set xs \<longrightarrow>
         (\<exists>ic m. map_of (cg_nodes cg') n = Some (state_node env (state_keys g) ic m n spec)))
    \<and> (\<forall>n. n \<notin> fst ` set xs \<longrightarrow> map_of (cg_nodes cg') n = map_of (cg_nodes cg1) n)"
    using Cons.IH [OF r] Cons.prems(2,3) others by simp
  moreover have "n \<notin> fst ` set xs" using Cons.prems(2) x by simp
  ultimately show ?case
    using x n1 fresh by (auto simp: dkeys_dset_new)
qed simp

text \<open>All the edges, joins and branches together.\<close>

definition wires :: "state_graph \<Rightarrow> string \<Rightarrow> pregel_node \<Rightarrow> pregel_node" where
  "wires g n =
     wired (edge_writers (sg_edges g) n @ join_writers (sg_waiting_edges g) n @ branch_writers (all_branches g) n)
       (join_triggers (sg_waiting_edges g) n)"

lemma attach_rest:
  assumes "rbind (rfold attach_edge cg (sg_edges g)) (\<lambda>cg.
     rbind (rfold (attach_waiting_edge g) cg (sg_waiting_edges g)) (\<lambda>cg.
     rfold (attach_branch env g) cg (all_branches g))) = Inr cg'"
  shows "dkeys (cg_nodes cg') = dkeys (cg_nodes cg)
    \<and> map_of (cg_nodes cg') n = map_option (wires g n) (map_of (cg_nodes cg) n)"
proof -
  obtain cg1 cg2 where 1: "rfold attach_edge cg (sg_edges g) = Inr cg1"
    and 2: "rfold (attach_waiting_edge g) cg1 (sg_waiting_edges g) = Inr cg2"
    and 3: "rfold (attach_branch env g) cg2 (all_branches g) = Inr cg'"
    using assms by (auto simp: rbind_Inr_iff)
  have r1: "rewires (edge_writers (sg_edges g)) (\<lambda>n. []) cg cg1"
    using rewires_rfold [OF rewires_edge 1]
    by (simp add: edge_writers_def [abs_def] concat_map_single)
  have r2: "rewires (join_writers (sg_waiting_edges g)) (join_triggers (sg_waiting_edges g)) cg1 cg2"
    using rewires_rfold [OF rewires_waiting 2]
    by (simp add: join_writers_def [abs_def] join_triggers_def [abs_def] concat_map_single concat_map_if)
  have r3: "rewires (branch_writers (all_branches g)) (\<lambda>n. []) cg2 cg'"
    using rewires_rfold [OF rewires_branch 3]
    by (simp add: branch_writers_def [abs_def] concat_map_single)
  from rewires_trans [OF rewires_trans [OF r1 r2] r3] show ?thesis
    by (simp add: rewires_def wires_def)
qed

text \<open>The compiled nodes: the start node and the nodes of the builder, wired.\<close>

lemma compiled_nodes:
  assumes "compile_graph env before after g = Inr (g', cg)" and "built g"
  shows "dkeys (cg_nodes cg) = START # dkeys (sg_nodes g')"
    and "\<exists>d. schema_fields g (sg_input_schema g) = Inr d
      \<and> map_of (cg_nodes cg) START = Some (wires g START (start_node env (channel_keys d)))"
    and "map_of (sg_nodes g') n = Some spec \<Longrightarrow>
      \<exists>ic m. map_of (cg_nodes cg) n = Some (wires g n (state_node env (state_keys g) ic m n spec))"
proof -
  have g': "g' = builder_after g" using compile_builder(1) [OF assms(1)] .
  have same: "sg_edges g' = sg_edges g" "sg_waiting_edges g' = sg_waiting_edges g" "sg_branches g' = sg_branches g"
    "sg_channels g' = sg_channels g" "sg_managed g' = sg_managed g" "sg_input_schema g' = sg_input_schema g"
    "sg_schemas g' = sg_schemas g"
    unfolding g' by (auto simp: builder_after_def add_default_handler_def split: option.splits sum.splits if_splits)
  have "builder_wf g'"
    using builder_after_wf [OF builder_wf_built [OF assms(2)]] g' by simp
  then have d: "distinct (map fst (sg_nodes g'))" and st: "START \<notin> fst ` set (sg_nodes g')"
    by (auto simp: builder_wf_def nodes_wf_def dict_ok_def plain_name_def)
  obtain cg0 cg1 outs where c0: "compiled_init g' before after outs = Inr cg0"
    and a: "attach_all env g' cg0 = Inr cg1" and v: "Pregel_validate env cg1 = Inr cg"
    using compile_builder(2) [OF assms(1)] by blast
  have n0: "cg_nodes cg0 = []" using c0 by (auto simp: compiled_init_def rmap_Inr_iff)
  have nv: "cg_nodes cg = cg_nodes cg1" using v by (auto simp: Pregel_validate_def rbind_Inr_iff rmap_Inr_iff)
  obtain cs cn where s: "attach_start env g' cg0 = Inr cs" and n: "rfold (attach_node env g') cs (sg_nodes g') = Inr cn"
    and r: "rbind (rfold attach_edge cn (sg_edges g')) (\<lambda>cg.
     rbind (rfold (attach_waiting_edge g') cg (sg_waiting_edges g')) (\<lambda>cg.
     rfold (attach_branch env g') cg (all_branches g'))) = Inr cg1"
    using a by (auto simp: attach_all_def rbind_Inr_iff)
  obtain d0 where d0: "schema_fields g' (sg_input_schema g') = Inr d0"
    and ns: "cg_nodes cs = [(START, start_node env (channel_keys d0))]"
    using s n0 by (auto simp: attach_start_def rmap_Inr_iff)
  have fresh: "\<not> dmem (fst x) (cg_nodes cs)" if "x \<in> set (sg_nodes g')" for x
    using that st ns by (force simp: dmem_iff_keys dkeys_def)
  note at = attach_nodes_nodes [OF n d st fresh]
  have "state_keys g' = state_keys g" "wires g' = wires g"
    using same by (simp_all add: state_keys_def wires_def all_branches_def fun_eq_iff)
  note rest = attach_rest [OF r, unfolded this(2)]
  show "dkeys (cg_nodes cg) = START # dkeys (sg_nodes g')"
    using at rest ns nv by (simp add: dkeys_def)
  show "\<exists>d. schema_fields g (sg_input_schema g) = Inr d
      \<and> map_of (cg_nodes cg) START = Some (wires g START (start_node env (channel_keys d)))"
    using at rest [of START] ns nv st d0 same by (auto simp: schema_fields_def)
  show "\<exists>ic m. map_of (cg_nodes cg) n = Some (wires g n (state_node env (state_keys g) ic m n spec))"
    if "map_of (sg_nodes g') n = Some spec"
    using at rest [of n] nv map_of_SomeD [OF that] \<open>state_keys g' = state_keys g\<close> by fastforce
qed

text \<open>
  A compiled graph has the start node and the nodes of the builder. A node is triggered by its own
  branch channel and by the channel of each join into it, and its writers are the one that publishes what
  it returns, then one per edge out of it, one per join it takes part in and one per branch, in this order;
  edges and joins into the end have none.
\<close>

theorem compiled_wiring:
  assumes "compile_graph env before after g = Inr (g', cg)" and "built g"
    and "map_of (sg_nodes g') n = Some spec"
  shows "dkeys (cg_nodes cg) = START # dkeys (sg_nodes g')
    \<and> (\<exists>p. map_of (cg_nodes cg) n = Some p
      \<and> pn_triggers p = branch_to n # join_triggers (sg_waiting_edges g) n
      \<and> pn_writers p = node_writer env (state_keys g) (Some (nd_ends spec)) # edge_writers (sg_edges g) n
          @ join_writers (sg_waiting_edges g) n @ branch_writers (all_branches g) n
      \<and> pn_bound p = Some (nd_runnable spec))"
  using compiled_nodes [OF assms(1,2)] assms(3)
  by (fastforce simp: wires_def state_node_def wired_def)

subsection \<open>What the writers of a node write\<close>

definition writes_keys :: "writes \<Rightarrow> string set" where
  "writes_keys ws = fst ` set ws"

lemma writes_keys_simps [simp]:
  "writes_keys [] = {}" "writes_keys (w # ws) = insert (fst w) (writes_keys ws)"
  "writes_keys (ws @ vs) = writes_keys ws \<union> writes_keys vs"
  by (auto simp: writes_keys_def)

lemma keep_keys_keys: "writes_keys (keep_keys ks ws) \<subseteq> set ks"
  by (auto simp: writes_keys_def keep_keys_def)

lemma object_updates_keys: "object_updates view ks v = Inr (Some ws) \<Longrightarrow> writes_keys ws \<subseteq> set ks"
  by (auto simp: object_updates_def get_update_as_tuples_def writes_keys_def Let_def
      split: if_splits option.splits)

text \<open>The updates that a node publishes are updates of the state's keys.\<close>

lemma get_items_keys:
  assumes "get_item_updates view ks vs = Inr ws"
    and "\<And>x ws. x \<in> set vs \<Longrightarrow> get_updates view ks x = Inr (Some ws) \<Longrightarrow> writes_keys ws \<subseteq> set ks"
  shows "writes_keys ws \<subseteq> set ks"
  using assms
proof (induction vs arbitrary: ws)
  case (Cons x xs)
  let ?item = "case x of
              VCommand g u r t \<Rightarrow>
                Inr (case command_update view g u of None \<Rightarrow> [] | Some ws \<Rightarrow> keep_keys ks ws)
            | _ \<Rightarrow> rmap (\<lambda>ws. case ws of None \<Rightarrow> [] | Some us \<Rightarrow> us) (get_updates view ks x)"
  obtain us where x: "?item = Inr us" using Cons.prems(1) by (cases ?item) auto
  obtain vs where vs: "get_item_updates view ks xs = Inr vs" "ws = us @ vs"
    using Cons.prems(1) x by (auto simp: rmap_Inr_iff)
  have "writes_keys us \<subseteq> set ks"
  proof (cases "is_command x")
    case True
    with x show ?thesis
      using keep_keys_keys by (cases x) (auto split: option.splits)
  next
    case False
    with x obtain r where "get_updates view ks x = Inr r" and "us = (case r of None \<Rightarrow> [] | Some us \<Rightarrow> us)"
      by (cases x) (auto simp: rmap_Inr_iff)
    with Cons.prems(2) [of x] show ?thesis
      by (cases r) auto
  qed
  moreover have "writes_keys vs \<subseteq> set ks"
    by (rule Cons.IH [OF vs(1)]) (use Cons.prems(2) in auto)
  ultimately show ?case using vs by simp
qed simp

lemma get_updates_keys: "get_updates view ks v = Inr (Some ws) \<Longrightarrow> writes_keys ws \<subseteq> set ks"
proof (induction v arbitrary: ws)
  case (VList xs)
  then show ?case
    using get_items_keys [of view ks xs ws] object_updates_keys by (auto simp: rmap_Inr_iff split: if_splits)
next
  case (VTuple xs)
  then show ?case
    using get_items_keys [of view ks xs ws] object_updates_keys by (auto simp: rmap_Inr_iff split: if_splits)
qed (use object_updates_keys in \<open>auto dest: subsetD [OF keep_keys_keys]\<close>)

text \<open>What \<open>ChannelWrite\<close>s write and pass on.\<close>

definition conf_sends :: "configurable \<Rightarrow> string \<Rightarrow> bool" where
  "conf_sends conf tid = (map_of conf CONFIG_KEY_SEND = Some (CSend tid))"

definition goto_keys :: "pyval \<Rightarrow> string set" where
  "goto_keys v = (case control_branch v of Inr (Some ws) \<Rightarrow> writes_keys ws | _ \<Rightarrow> {})"

lemma node_writer_writes:
  assumes "run_writer run conf (node_writer env ks ends) v = Inr (v', ws)" and "ks \<noteq> [ROOT]"
  shows "v' = v \<and> (\<exists>us. writes_keys us \<subseteq> set ks \<and> writes_keys ws = writes_keys us \<union> goto_keys v)"
proof -
  obtain u c where u: "get_updates (ce_view env) ks v = Inr u" and c: "control_branch v = Inr c"
    and ws: "ws = (case u of None \<Rightarrow> [] | Some us \<Rightarrow> us) @ (case c of None \<Rightarrow> [] | Some cs \<Rightarrow> cs)" and v: "v' = v"
    using assms
    by (cases "get_updates (ce_view env) ks v"; cases "control_branch v")
      (auto simp: run_writer_def node_writer_def ChannelWrite_write_def do_write_def
        split: option.splits confval.splits)
  have "writes_keys (case u of None \<Rightarrow> [] | Some us \<Rightarrow> us) \<subseteq> set ks"
    using get_updates_keys [of "ce_view env" ks v] u by (cases u) auto
  moreover have "writes_keys (case c of None \<Rightarrow> [] | Some cs \<Rightarrow> cs) = goto_keys v"
    using c by (auto simp: goto_keys_def split: option.splits)
  ultimately show ?thesis
    using ws v by auto
qed

lemma run_seq_Cons:
  "run_seq run conf (r # rs) v = Inr (v', ws) \<longleftrightarrow>
   (\<exists>y ws1 ws2. run_writer run conf r v = Inr (y, ws1) \<and> run_seq run conf rs y = Inr (v', ws2) \<and> ws = ws1 @ ws2)"
proof -
  have acc: "rfold (\<lambda>(x, acc) r. rmap (\<lambda>(y, ts). (y, acc @ ts)) (run_writer run conf r x)) (x, a @ b) rs
    = rmap (\<lambda>(y, ts). (y, a @ ts))
        (rfold (\<lambda>(x, acc) r. rmap (\<lambda>(y, ts). (y, acc @ ts)) (run_writer run conf r x)) (x, b) rs)" for x a b rs
  proof (induction rs arbitrary: x b)
    case (Cons r rs)
    show ?case
    proof (cases "run_writer run conf r x")
      case (Inr yt)
      then show ?thesis
        using Cons [of "fst yt" "b @ snd yt"] by (simp add: case_prod_beta)
    qed simp
  qed simp
  show ?thesis
  proof (cases "run_writer run conf r v")
    case (Inr yt)
    obtain y ws1 where yt: "yt = (y, ws1)" by fastforce
    have "run_seq run conf (r # rs) v = rmap (\<lambda>(z, ts). (z, ws1 @ ts)) (run_seq run conf rs y)"
      using acc [of y ws1 "[]" rs] Inr yt by (simp add: run_seq_def)
    then show ?thesis using Inr yt by (auto simp: rmap_Inr_iff)
  qed (simp add: run_seq_def)
qed

text \<open>Writers that pass their input on: what they write together.\<close>

lemma run_seq_passes:
  assumes "run_seq run conf rs v = Inr (v', ws)"
    and "\<And>r y us. r \<in> set rs \<Longrightarrow> run_writer run conf r v = Inr (y, us) \<Longrightarrow> y = v"
  shows "v' = v \<and> writes_keys ws = \<Union> {writes_keys us |r us. r \<in> set rs \<and> run_writer run conf r v = Inr (v, us)}"
  using assms
proof (induction rs arbitrary: ws)
  case Nil
  then show ?case by (simp add: run_seq_def)
next
  case (Cons r rs)
  then obtain ws1 ws2 where r: "run_writer run conf r v = Inr (v, ws1)" and s: "run_seq run conf rs v = Inr (v', ws2)"
    and ws: "ws = ws1 @ ws2"
    unfolding run_seq_Cons by fastforce
  have ih: "v' = v \<and> writes_keys ws2 = \<Union> {writes_keys us |r us. r \<in> set rs \<and> run_writer run conf r v = Inr (v, us)}"
    by (rule Cons.IH [OF s]) (use Cons.prems(2) in auto)
  then show ?case
    using r unfolding ws by auto
qed

text \<open>
  Where a task of node \<open>s\<close> that returned \<open>v\<close> goes: along its edges, to the targets of the commands it
  returned, and where its branches route. What a branch does is the parameter \<open>run\<close>: like \<open>branch_finish\<close>
  it hands its input on.
\<close>

definition hands_on :: "(runnable \<Rightarrow> pyval \<Rightarrow> (pyval \<times> writes) res) \<Rightarrow> bool" where
  "hands_on run \<longleftrightarrow> (\<forall>r x y ws. run r x = Inr (y, ws) \<longrightarrow> y = x)"

definition routes_to ::
  "(runnable \<Rightarrow> pyval \<Rightarrow> (pyval \<times> writes) res) \<Rightarrow> state_graph \<Rightarrow> string \<Rightarrow> pyval \<Rightarrow> string \<Rightarrow> bool" where
  "routes_to run g s v n \<longleftrightarrow>
     (\<exists>r \<in> set (branch_writers (all_branches g) s). \<exists>ws. run r v = Inr (v, ws) \<and> branch_to n \<in> writes_keys ws)"

definition goes_to ::
  "(runnable \<Rightarrow> pyval \<Rightarrow> (pyval \<times> writes) res) \<Rightarrow> state_graph \<Rightarrow> string \<Rightarrow> pyval \<Rightarrow> string \<Rightarrow> bool" where
  "goes_to run g s v n \<longleftrightarrow>
     n \<noteq> END_NODE \<and> (s, n) \<in> set (sg_edges g) \<or> branch_to n \<in> goto_keys v \<or> routes_to run g s v n"

lemma branch_to_inj [simp]: "branch_to a = branch_to b \<longleftrightarrow> a = b"
  by (simp add: branch_to_def)

lemma join_not_branch [simp]: "join_channel ss t \<noteq> branch_to n" "branch_to n \<noteq> join_channel ss t"
  by (simp_all add: join_channel_def branch_to_def)

lemma run_branch [simp]: "run_writer run conf (branch_runnable start name b) v = run (branch_runnable start name b) v"
  by (simp add: run_writer_def branch_runnable_def)

lemma run_entry_writer:
  "run_writer run conf (R_ChannelWrite [ChannelWriteEntry c w False None]) v = Inr (y, us) \<Longrightarrow>
   w \<noteq> PASSTHROUGH \<Longrightarrow> w \<noteq> SKIP_WRITE \<Longrightarrow> y = v \<and> us = [(c, w)]"
  by (auto simp: run_writer_def ChannelWrite_write_def do_write_def rmap_Inr_iff
      split: option.splits confval.splits if_splits)

lemma run_entry_writer_ok:
  "conf_sends conf tid \<Longrightarrow> c \<noteq> TASKS \<Longrightarrow> w \<noteq> PASSTHROUGH \<Longrightarrow> w \<noteq> SKIP_WRITE \<Longrightarrow>
   run_writer run conf (R_ChannelWrite [ChannelWriteEntry c w False None]) v = Inr (v, [(c, w)])"
  by (simp add: run_writer_def ChannelWrite_write_def do_write_def conf_sends_def)

lemma sentinels_not_values [simp]:
  "VNone \<noteq> PASSTHROUGH" "VNone \<noteq> SKIP_WRITE" "VStr s \<noteq> PASSTHROUGH" "VStr s \<noteq> SKIP_WRITE"
  by (simp_all add: PASSTHROUGH_def SKIP_WRITE_def)

lemma branch_to_not_tasks [simp]: "branch_to n \<noteq> TASKS" "join_channel ss n \<noteq> TASKS"
  by (simp_all add: branch_to_def join_channel_def const_defs)

lemma run_edge_writer: "run_writer run conf (edge_writer t) v = Inr (y, us) \<Longrightarrow> y = v \<and> us = [(branch_to t, VNone)]"
  unfolding edge_writer_def by (drule run_entry_writer) simp_all

lemma run_join_writer:
  "run_writer run conf (join_writer ss t s) v = Inr (y, us) \<Longrightarrow> y = v \<and> us = [(join_channel ss t, VStr s)]"
  unfolding join_writer_def by (drule run_entry_writer) simp_all

text \<open>The writers of a compiled node, whatever its own first writer, write where the task goes.\<close>

lemma wired_writes:
  assumes "run_seq run conf (node_writer env ks ends # edge_writers (sg_edges g) s
          @ join_writers (sg_waiting_edges g) s @ branch_writers (all_branches g) s) v = Inr (out, ws)"
    and "hands_on run" and "ks \<noteq> [ROOT]" and "conf_sends conf tid" and "branch_to n \<notin> set ks"
  shows "branch_to n \<in> writes_keys ws \<longleftrightarrow> goes_to run g s v n"
proof -
  let ?E = "edge_writers (sg_edges g) s" and ?J = "join_writers (sg_waiting_edges g) s"
    and ?B = "branch_writers (all_branches g) s"
  obtain ws1 ws2 where n: "run_writer run conf (node_writer env ks ends) v = Inr (v, ws1)"
    and r: "run_seq run conf (?E @ ?J @ ?B) v = Inr (out, ws2)" and ws: "ws = ws1 @ ws2"
    using assms(1) node_writer_writes [OF _ assms(3)] unfolding run_seq_Cons by blast
  have first: "branch_to n \<in> writes_keys ws1 \<longleftrightarrow> branch_to n \<in> goto_keys v"
    using node_writer_writes [OF n assms(3)] assms(5) by auto
  have edge: "r \<in> set ?E \<Longrightarrow> \<exists>t. r = edge_writer t \<and> (s, t) \<in> set (sg_edges g) \<and> t \<noteq> END_NODE" for r
    by (auto simp: edge_writers_def)
  have join: "r \<in> set ?J \<Longrightarrow> \<exists>ss t. r = join_writer ss t s" for r
    by (auto simp: join_writers_def)
  have branch: "r \<in> set ?B \<Longrightarrow> run_writer run conf r v = run r v" for r
    by (auto simp: branch_writers_def)
  have pass: "y = v" if "r \<in> set (?E @ ?J @ ?B)" and "run_writer run conf r v = Inr (y, us)" for r y us
  proof -
    consider "r \<in> set ?E" | "r \<in> set ?J" | "r \<in> set ?B" using \<open>r \<in> set (?E @ ?J @ ?B)\<close> by auto
    then show ?thesis
    proof cases
      case 1
      with edge that(2) show ?thesis by (blast dest: run_edge_writer)
    next
      case 2
      with join that(2) show ?thesis by (blast dest: run_join_writer)
    next
      case 3
      have "run r v = Inr (y, us)" using branch [OF 3] that(2) by simp
      then show ?thesis using assms(2) unfolding hands_on_def by blast
    qed
  qed
  have "writes_keys ws2 = \<Union> {writes_keys us |r us. r \<in> set (?E @ ?J @ ?B) \<and> run_writer run conf r v = Inr (v, us)}"
    by (rule run_seq_passes [OF r, THEN conjunct2]) (rule pass)
  then have "branch_to n \<in> writes_keys ws2 \<longleftrightarrow>
      (\<exists>r \<in> set (?E @ ?J @ ?B). \<exists>us. run_writer run conf r v = Inr (v, us) \<and> branch_to n \<in> writes_keys us)"
    by blast
  also have "\<dots> \<longleftrightarrow> n \<noteq> END_NODE \<and> (s, n) \<in> set (sg_edges g) \<or> routes_to run g s v n" (is "?L \<longleftrightarrow> ?R")
  proof
    assume ?L
    then obtain r us where r: "r \<in> set (?E @ ?J @ ?B)" "run_writer run conf r v = Inr (v, us)" "branch_to n \<in> writes_keys us"
      by blast
    consider "r \<in> set ?E" | "r \<in> set ?J" | "r \<in> set ?B" using r(1) by auto
    then show ?R
    proof cases
      case 1
      then obtain t where "r = edge_writer t" "(s, t) \<in> set (sg_edges g)" "t \<noteq> END_NODE" using edge by blast
      with r run_edge_writer [of run conf t v v us] show ?thesis by simp
    next
      case 2
      then obtain ss t where "r = join_writer ss t s" using join by blast
      with r run_join_writer [of run conf ss t s v v us] show ?thesis by simp
    next
      case 3
      have "run r v = Inr (v, us)" using branch [OF 3] r(2) by simp
      with 3 r(3) show ?thesis unfolding routes_to_def by blast
    qed
  next
    assume ?R
    then show ?L
    proof
      assume "n \<noteq> END_NODE \<and> (s, n) \<in> set (sg_edges g)"
      then have "edge_writer n \<in> set ?E" by (force simp: edge_writers_def)
      moreover have "run_writer run conf (edge_writer n) v = Inr (v, [(branch_to n, VNone)])"
        unfolding edge_writer_def by (rule run_entry_writer_ok [OF assms(4)]) simp_all
      ultimately show ?L by force
    next
      assume "routes_to run g s v n"
      then obtain r ws where "r \<in> set ?B" "run r v = Inr (v, ws)" "branch_to n \<in> writes_keys ws"
        unfolding routes_to_def by blast
      with branch [of r] show ?L by auto
    qed
  qed
  finally show ?thesis
    using first unfolding ws goes_to_def by auto
qed

subsection \<open>What a step does with a branch channel\<close>

text \<open>No node has seen a version that its channel has not had.\<close>

definition seen_bounded :: "checkpoint \<Rightarrow> bool" where
  "seen_bounded cp \<longleftrightarrow>
     (\<forall>v \<in> snd ` set (channel_versions cp). is_int_version v)
   \<and> (\<forall>n c v. map_of (dgetd (versions_seen cp) n []) c = Some v \<longrightarrow>
        (\<exists>w. map_of (channel_versions cp) c = Some w \<and> v \<le> w))"

lemma increment_positive: "IntV 0 < increment m"
  if "\<forall>v. m = Some v \<longrightarrow> is_int_version v"
  using that by (cases m rule: increment.cases) auto

lemma increment_int: "\<forall>v. m = Some v \<longrightarrow> is_int_version v \<Longrightarrow> is_int_version (increment m)"
  by (cases m rule: increment.cases) auto

lemma ev_value_same: "ev_value c = v \<Longrightarrow> c\<lparr>ev_value := v\<rparr> = c"
  by (cases c) simp

lemma ephemeral_step:
  assumes run: "apply_writes cp channels tasks (Some increment) t2n = Inr (cp', channels', upd)"
    and ok: "dict_ok channels" and c: "map_of channels k = Some (Ch_EphemeralValue c)" and g: "\<not> ev_guard c"
    and k: "k \<notin> set CONTROL_WRITES" and trig: "\<exists>t \<in> set tasks. tw_triggers t \<noteq> []"
  defines "nv \<equiv> increment (max_version (channel_versions cp))"
  shows "if \<exists>t \<in> set tasks. k \<in> writes_keys (tw_writes t)
     then \<exists>v. map_of channels' k = Some (Ch_EphemeralValue (c\<lparr>ev_value := Some v\<rparr>))
            \<and> map_of (channel_versions cp') k = Some nv
     else map_of channels' k = Some (Ch_EphemeralValue (c\<lparr>ev_value := None\<rparr>))"
proof -
  have dk: "dmem k channels" using c by (simp add: dmem_def)
  obtain fin where v: "view_apply nv (k \<in> set (read_triggers tasks channels)) True fin (step_values channels tasks k)
     (map_of channels k, map_of (channel_versions cp) k, False)
     = Inr (map_of channels' k, map_of (channel_versions cp') k, k \<in> upd)"
    using apply_writes_view [OF run ok] dk trig unfolding nv_def by auto
  have vals: "step_values channels tasks k \<noteq> [] \<longleftrightarrow> (\<exists>t \<in> set tasks. k \<in> writes_keys (tw_writes t))"
    using dk k by (force simp: step_values_def writable_def values_for_def writes_keys_def filter_empty_conv)
  show ?thesis
    using v unfolding vals [symmetric] c
    by (cases "ev_value c")
      (auto simp: view_apply_def view_write_def view_step_def view_note_def view_consume_def view_finish_def
        BaseChannel_consume_def BaseChannel_finish_def EphemeralValue_defs g ev_value_same
        split: if_splits dest!: sym [of _ "map_of channels' k"] sym [of _ "map_of (channel_versions cp') k"])
qed

text \<open>
  A node whose only trigger is such a channel is triggered after the step exactly when a task of the step
  wrote to the channel.
\<close>

lemma branch_triggers:
  assumes run: "apply_writes cp channels tasks (Some increment) t2n = Inr (cp', channels', upd)"
    and ok: "dict_ok channels" and c: "map_of channels k = Some (Ch_EphemeralValue c)" and g: "\<not> ev_guard c"
    and k: "k \<notin> set CONTROL_WRITES" and trig: "\<exists>t \<in> set tasks. tw_triggers t \<noteq> []"
    and seen: "seen_bounded cp" and p: "pn_triggers p = [k]"
  shows "node_triggers channels' (channel_versions cp') (map_of (versions_seen cp') n) (IntV 0) p
    = Inr (\<exists>t \<in> set tasks. k \<in> writes_keys (tw_writes t))"
proof (cases "\<exists>t \<in> set tasks. k \<in> writes_keys (tw_writes t)")
  case False
  then show ?thesis
    using ephemeral_step [OF run ok c g k trig] p
    by (simp add: node_triggers_alt EphemeralValue_is_available_def)
next
  case True
  let ?nv = "increment (max_version (channel_versions cp))"
  obtain v where ch: "map_of channels' k = Some (Ch_EphemeralValue (c\<lparr>ev_value := Some v\<rparr>))"
    and nv: "map_of (channel_versions cp') k = Some ?nv"
    using ephemeral_step [OF run ok c g k trig] True by auto
  have ints: "\<forall>v \<in> snd ` set (channel_versions cp). is_int_version v"
    and bound: "map_of (dgetd (versions_seen cp) n []) k = Some u \<Longrightarrow>
      \<exists>w. map_of (channel_versions cp) k = Some w \<and> u \<le> w" for u
    using seen by (auto simp: seen_bounded_def)
  have below: "w < ?nv" if "map_of (channel_versions cp) k = Some w" for w
    using incr.next_above_all [OF ints] map_of_SomeD [OF that] by blast
  have pos: "IntV 0 < ?nv"
    by (rule increment_positive) (use ints max_version_mem in blast)
  have "newer_than (channel_versions cp') (map_of (versions_seen cp') n) (IntV 0) k"
  proof (cases "map_of (versions_seen cp') n")
    case None
    then show ?thesis by (simp add: newer_than_def)
  next
    case (Some s)
    have "map_of s k = (if (\<exists>t \<in> set tasks. n = tw_name t \<and> k \<in> set (tw_triggers t)) \<and> dmem k (channel_versions cp)
        then map_of (channel_versions cp) k else map_of (dgetd (versions_seen cp) n []) k)"
      using see_tasks_lookup [of "channel_versions cp" "versions_seen cp" "sort_tasks tasks" n k]
        apply_writes_versions_seen [OF run] Some by (simp add: dgetd_def)
    then have "dgetd s k (IntV 0) < ?nv"
      using below pos bound by (fastforce simp: dgetd_def dmem_def split: option.splits if_splits)
    then show ?thesis using Some nv by (simp add: newer_than_def dgetd_def)
  qed
  then show ?thesis
    using ch p True by (simp add: node_triggers_alt EphemeralValue_is_available_def)
qed

lemma branch_to_not_control [simp]: "branch_to n \<notin> set CONTROL_WRITES"
  by (simp add: branch_to_def CONTROL_WRITES_def const_defs)

text \<open>
  The tasks of a step of a compiled graph: each ran a node of the graph on some value and its writes are
  what the node's writers wrote.
\<close>

definition task_of ::
  "(runnable \<Rightarrow> pyval \<Rightarrow> (pyval \<times> writes) res) \<Rightarrow> configurable \<Rightarrow> compiled \<Rightarrow> task_writes \<Rightarrow> pyval \<Rightarrow> bool" where
  "task_of run conf cg t v \<longleftrightarrow>
     (\<exists>p out. map_of (cg_nodes cg) (tw_name t) = Some p
        \<and> run_seq run conf (flat_writers (pn_writers p)) v = Inr (out, tw_writes t))"

lemma input_keys_known:
  assumes "built g" and "schema_fields g s = Inr d"
  shows "set (channel_keys d) \<subseteq> set (state_keys g)"
proof -
  have "builder_wf g" using assms(1) by (rule builder_wf_built)
  then have "\<forall>f \<in> set d. field_known g f"
    using assms(2) by (auto simp: builder_wf_def schemas_wf_def schema_fields_def split: option.splits
        dest!: map_of_SomeD)
  then show ?thesis
    by (fastforce simp: channel_keys_def state_keys_def dmem_iff_keys split: chan_or_managed.splits
        elim!: is_managed_field.elims)
qed

lemma task_writes_targets:
  assumes "compile_graph env before after g = Inr (g', cg)" and "built g" and "task_of run conf cg t v"
    and "hands_on run" and "conf_sends conf tid" and "ROOT \<notin> set (state_keys g)" and "branch_to n \<notin> set (state_keys g)"
  shows "branch_to n \<in> writes_keys (tw_writes t) \<longleftrightarrow> goes_to run g (tw_name t) v n"
proof -
  obtain p out where p: "map_of (cg_nodes cg) (tw_name t) = Some p"
    and r: "run_seq run conf (pn_writers p) v = Inr (out, tw_writes t)"
    using assms(3) run_flat by (auto simp: task_of_def)
  have "\<exists>ks ends. set ks \<subseteq> set (state_keys g) \<and> pn_writers p = node_writer env ks ends # edge_writers (sg_edges g) (tw_name t)
          @ join_writers (sg_waiting_edges g) (tw_name t) @ branch_writers (all_branches g) (tw_name t)"
  proof (cases "tw_name t = START")
    case True
    obtain d where "schema_fields g (sg_input_schema g) = Inr d"
      and "p = wires g START (start_node env (channel_keys d))"
      using compiled_nodes(2) [OF assms(1,2)] p True by auto
    with True input_keys_known [OF assms(2)] show ?thesis
      by (intro exI [of _ "channel_keys d"] exI [of _ None]) (auto simp: wires_def start_node_def)
  next
    case False
    then have "dmem (tw_name t) (sg_nodes g')"
      using compiled_nodes(1) [OF assms(1,2)] p by (metis dmem_def dmem_iff_keys option.distinct(1) set_ConsD)
    then obtain spec where "map_of (sg_nodes g') (tw_name t) = Some spec" by (auto simp: dmem_def)
    with compiled_nodes(3) [OF assms(1,2)] p show ?thesis
      by (fastforce simp: wires_def state_node_def)
  qed
  then obtain ks ends where ks: "set ks \<subseteq> set (state_keys g)"
    and w: "pn_writers p = node_writer env ks ends # edge_writers (sg_edges g) (tw_name t)
          @ join_writers (sg_waiting_edges g) (tw_name t) @ branch_writers (all_branches g) (tw_name t)" by blast
  show ?thesis
    by (rule wired_writes [OF r [unfolded w] assms(4) _ assms(5)]) (use ks assms(6,7) in auto)
qed

subsection \<open>Steps keep the bounds\<close>

lemma foldl_invariant: "P s \<Longrightarrow> (\<And>s x. P s \<Longrightarrow> P (f s x)) \<Longrightarrow> P (foldl f s xs)"
  by (induction xs arbitrary: s) simp_all

text \<open>What setting channels and setting versions to the next one keep, a step keeps.\<close>

lemma apply_writes_invariant:
  assumes run: "apply_writes cp channels tasks (Some f) t2n = Inr (cp', channels', upd)"
    and init: "P channels (channel_versions cp)"
    and chan: "\<And>k c cs vs. P cs vs \<Longrightarrow> P (dset k c cs) vs"
    and vers: "\<And>k cs vs. P cs vs \<Longrightarrow> P cs (dset k (f (max_version (channel_versions cp))) vs)"
  shows "P channels' (channel_versions cp')"
proof -
  let ?nv = "f (max_version (channel_versions cp))"
  let ?P = "\<lambda>st. P (as_channels st) (as_versions st)"
  let ?cv = "foldl (consume_channel (Some ?nv)) (channels, channel_versions cp) (read_triggers (sort_tasks tasks) channels)"
  let ?st0 = "\<lparr>as_channels = fst ?cv, as_versions = snd ?cv, as_updated = {}\<rparr>"
  let ?bump = "\<exists>t \<in> set tasks. tw_triggers t \<noteq> []"
  obtain st1 st2 where w: "rfold (write_channel (Some ?nv)) ?st0 (group_writes channels (sort_tasks tasks)) = Inr st1"
    and s: "(if ?bump then rfold (step_channel (Some ?nv)) st1 (dkeys channels) else Inr st1) = Inr st2"
    and r: "(channels', channel_versions cp') =
      (let st = (if ?bump \<and> as_updated st2 \<inter> set (dkeys t2n) = {}
                 then foldl (finish_channel (Some ?nv)) st2 (dkeys channels) else st2) in (as_channels st, as_versions st))"
    using run by (auto simp: apply_writes_def Let_def rmap_Inr_iff rbind_Inr_iff case_prod_beta)
  have changed: "?P (note_change (Some ?nv) k st bc)" if "?P st" for k st bc
    using that by (simp add: note_change_def bump_def Let_def chan vers)
  have "P (fst ?cv) (snd ?cv)"
    by (rule foldl_invariant [where P = "\<lambda>cv. P (fst cv) (snd cv)"])
      (auto simp: init chan vers consume_channel_def bump_def case_prod_beta Let_def split: option.splits)
  then have "?P st1"
    by (intro rfold_invariant [OF w, where P = ?P])
      (auto simp: write_channel_def rmap_Inr_iff changed split: option.splits)
  moreover have "?P s'" if "?P st" and "step_channel (Some ?nv) st k = Inr s'" for st k s'
    using that by (auto simp: step_channel_def rmap_Inr_iff changed split: option.splits if_splits)
  ultimately have "?P st2"
    using s by (auto split: if_splits elim: rfold_invariant [where P = ?P])
  moreover have "?P (foldl (finish_channel (Some ?nv)) st2 (dkeys channels))" if "?P st2"
    by (rule foldl_invariant [where P = ?P])
      (use that in \<open>auto simp: finish_channel_def changed split: option.splits\<close>)
  ultimately show ?thesis using r by (auto simp: Let_def split: if_splits)
qed

lemma apply_writes_dict_ok:
  assumes "apply_writes cp channels tasks (Some f) t2n = Inr (cp', channels', upd)" and "dict_ok channels"
  shows "dict_ok channels'"
  by (rule apply_writes_invariant [OF assms(1), where P = "\<lambda>cs vs. dict_ok cs"]) (simp_all add: assms(2))

lemma apply_writes_seen_bounded:
  assumes run: "apply_writes cp channels tasks (Some increment) t2n = Inr (cp', channels', upd)"
    and seen: "seen_bounded cp"
  shows "seen_bounded cp'"
proof -
  let ?nv = "increment (max_version (channel_versions cp))"
  have ints: "\<forall>v \<in> snd ` set (channel_versions cp). is_int_version v" using seen by (simp add: seen_bounded_def)
  have nv: "is_int_version ?nv"
    by (rule increment_int) (use ints max_version_mem in blast)
  have 1: "\<forall>v \<in> snd ` set (channel_versions cp'). is_int_version v"
    by (rule apply_writes_invariant [OF run, where P = "\<lambda>cs vs. \<forall>v \<in> snd ` set vs. is_int_version v"])
      (use ints nv set_dset in fastforce)+
  have below: "w < ?nv" if "map_of (channel_versions cp) k = Some w" for w k
    using incr.next_above_all [OF ints] map_of_SomeD [OF that] by blast
  have 2: "\<forall>k w. map_of (channel_versions cp) k = Some w \<longrightarrow> (\<exists>w'. map_of (channel_versions cp') k = Some w' \<and> w \<le> w')"
    by (rule apply_writes_invariant [OF run, where P = "\<lambda>cs vs. \<forall>k w. map_of (channel_versions cp) k = Some w \<longrightarrow>
          (\<exists>w'. map_of vs k = Some w' \<and> w \<le> w')"])
      (use below in \<open>auto simp: less_imp_le\<close>)
  have "\<exists>w. map_of (channel_versions cp') c = Some w \<and> v \<le> w"
    if v: "map_of (dgetd (versions_seen cp') n []) c = Some v" for n c v
  proof -
    have "map_of (dgetd (versions_seen cp') n []) c =
       (if (\<exists>t \<in> set tasks. n = tw_name t \<and> c \<in> set (tw_triggers t)) \<and> dmem c (channel_versions cp)
        then map_of (channel_versions cp) c else map_of (dgetd (versions_seen cp) n []) c)"
      using see_tasks_lookup [of "channel_versions cp" "versions_seen cp" "sort_tasks tasks" n c]
      by (simp add: apply_writes_versions_seen [OF run])
    with v seen have "\<exists>w. map_of (channel_versions cp) c = Some w \<and> v \<le> w"
      by (auto simp: seen_bounded_def split: if_splits)
    with 2 show ?thesis by (meson order_trans)
  qed
  with 1 show ?thesis by (auto simp: seen_bounded_def)
qed

subsection \<open>The channels of a compiled graph\<close>

lemma add_writer_channels: "add_writer n w cg = Inr cg' \<Longrightarrow> cg_channels cg' = cg_channels cg"
  by (auto simp: add_writer_def split: option.splits)

lemma add_writers_channels: "rfold (\<lambda>cg s. add_writer s (w s) cg) cg ss = Inr cg' \<Longrightarrow> cg_channels cg' = cg_channels cg"
  by (rule rfold_invariant [where P = "\<lambda>c. cg_channels c = cg_channels cg"]) (auto dest: add_writer_channels)

lemma attach_edge_channels: "attach_edge cg e = Inr cg' \<Longrightarrow> cg_channels cg' = cg_channels cg"
  by (auto simp: attach_edge_def case_prod_beta split: if_splits dest: add_writer_channels)

lemma attach_waiting_edge_channels:
  "attach_waiting_edge g cg e = Inr cg' \<Longrightarrow> snd e \<noteq> END_NODE \<Longrightarrow>
   \<exists>spec. map_of (sg_nodes g) (snd e) = Some spec \<and>
     cg_channels cg' = dset (join_channel (fst e) (snd e)) (SpecChannel (barrier_channel (nd_defer spec) (fst e))) (cg_channels cg)"
  "attach_waiting_edge g cg e = Inr cg' \<Longrightarrow> snd e = END_NODE \<Longrightarrow> cg' = cg"
  by (auto simp: attach_waiting_edge_def Let_def case_prod_beta split: option.splits dest!: add_writers_channels)

lemma attach_branch_channels: "attach_branch env g cg b = Inr cg' \<Longrightarrow> cg_channels cg' = cg_channels cg"
  by (auto simp: attach_branch_def Let_def case_prod_beta rbind_Inr_iff dest!: add_writer_channels)

lemma attach_rest_channel:
  assumes "rbind (rfold attach_edge cg (sg_edges g)) (\<lambda>cg.
     rbind (rfold (attach_waiting_edge g) cg (sg_waiting_edges g)) (\<lambda>cg.
     rfold (attach_branch env g) cg (all_branches g))) = Inr cg'"
    and "\<And>ss t. k \<noteq> join_channel ss t"
  shows "map_of (cg_channels cg') k = map_of (cg_channels cg) k"
proof -
  obtain cg1 cg2 where 1: "rfold attach_edge cg (sg_edges g) = Inr cg1"
    and 2: "rfold (attach_waiting_edge g) cg1 (sg_waiting_edges g) = Inr cg2"
    and 3: "rfold (attach_branch env g) cg2 (all_branches g) = Inr cg'"
    using assms by (auto simp: rbind_Inr_iff)
  have "cg_channels cg1 = cg_channels cg"
    by (rule rfold_invariant [OF 1]) (auto dest: attach_edge_channels)
  moreover have "map_of (cg_channels cg2) k = map_of (cg_channels cg1) k"
  proof (rule rfold_invariant [OF 2])
    fix c e c'
    assume "map_of (cg_channels c) k = map_of (cg_channels cg1) k" and "attach_waiting_edge g c e = Inr c'"
    with attach_waiting_edge_channels [of g c e c'] assms(2) [of "fst e" "snd e"]
    show "map_of (cg_channels c') k = map_of (cg_channels cg1) k" by (cases "snd e = END_NODE") auto
  qed simp
  moreover have "cg_channels cg' = cg_channels cg2"
    by (rule rfold_invariant [OF 3]) (auto dest: attach_branch_channels)
  ultimately show ?thesis by simp
qed

lemma attach_nodes_channel:
  assumes "rfold (attach_node env g) cg xs = Inr cg'" and "distinct (map fst xs)" and "START \<notin> fst ` set xs"
  shows "map_of (cg_channels cg') (branch_to n) =
    (case map_of xs n of Some spec \<Rightarrow> Some (SpecChannel (branch_channel (nd_defer spec)))
     | None \<Rightarrow> map_of (cg_channels cg) (branch_to n))"
  using assms
proof (induction xs arbitrary: cg)
  case (Cons x xs)
  obtain k spec where x: "x = (k, spec)" by fastforce
  obtain cg1 where a: "attach_node env g cg (k, spec) = Inr cg1" and r: "rfold (attach_node env g) cg1 xs = Inr cg'"
    using Cons.prems(1) x by (auto simp: rbind_Inr_iff)
  have c1: "cg_channels cg1 = dset (branch_to k) (SpecChannel (branch_channel (nd_defer spec))) (cg_channels cg)"
    using a Cons.prems(3) x by (auto simp: attach_node_def Let_def rmap_Inr_iff case_prod_beta)
  have ih: "map_of (cg_channels cg') (branch_to n) =
    (case map_of xs n of Some spec \<Rightarrow> Some (SpecChannel (branch_channel (nd_defer spec)))
     | None \<Rightarrow> map_of (cg_channels cg1) (branch_to n))"
    using Cons.IH [OF r] Cons.prems by simp
  have "map_of xs k = None" using Cons.prems(2) x by (simp add: map_of_eq_None_iff)
  then show ?case using ih c1 x by (cases "map_of xs n") auto
qed simp

lemma compiled_branch_channel:
  assumes "compile_graph env before after g = Inr (g', cg)" and "built g"
    and "map_of (sg_nodes g') n = Some spec"
  shows "map_of (cg_channels cg) (branch_to n) = Some (SpecChannel (branch_channel (nd_defer spec)))"
proof -
  have "builder_wf g'"
    using builder_after_wf [OF builder_wf_built [OF assms(2)]] compile_builder(1) [OF assms(1)] by simp
  then have d: "distinct (map fst (sg_nodes g'))" and st: "START \<notin> fst ` set (sg_nodes g')"
    by (auto simp: builder_wf_def nodes_wf_def dict_ok_def plain_name_def)
  obtain cg0 cg1 where a: "attach_all env g' cg0 = Inr cg1" and v: "Pregel_validate env cg1 = Inr cg"
    using compile_builder(2) [OF assms(1)] by blast
  obtain cs cn where n: "rfold (attach_node env g') cs (sg_nodes g') = Inr cn"
    and r: "rbind (rfold attach_edge cn (sg_edges g')) (\<lambda>cg.
     rbind (rfold (attach_waiting_edge g') cg (sg_waiting_edges g')) (\<lambda>cg.
     rfold (attach_branch env g') cg (all_branches g'))) = Inr cg1"
    using a by (auto simp: attach_all_def rbind_Inr_iff)
  have "cg_channels cg = cg_channels cg1" using v by (auto simp: Pregel_validate_def rbind_Inr_iff rmap_Inr_iff)
  with attach_rest_channel [OF r, of "branch_to n"] attach_nodes_channel [OF n d st, of n] assms(3)
  show ?thesis by simp
qed

subsection \<open>The next nodes\<close>

definition runs_on :: "channels \<Rightarrow> compiled \<Rightarrow> bool" where
  "runs_on channels cg \<longleftrightarrow> dict_ok channels
     \<and> (\<forall>k c. map_of (cg_channels cg) k = Some (SpecChannel c) \<longrightarrow>
          (\<exists>ch. map_of channels k = Some ch \<and> channel_spec ch = channel_spec c))"

lemma apply_writes_runs_on:
  assumes run: "apply_writes cp channels tasks (Some increment) t2n = Inr (cp', channels', upd)"
    and on: "runs_on channels cg"
  shows "runs_on channels' cg"
proof -
  have ok: "dict_ok channels" using on by (simp add: runs_on_def)
  have "dict_ok channels'"
    using apply_writes_dict_ok [OF run ok] .
  moreover have "\<exists>ch. map_of channels' k = Some ch \<and> channel_spec ch = channel_spec c"
    if "map_of (cg_channels cg) k = Some (SpecChannel c)" for k c
  proof -
    from on that obtain ch where ch: "map_of channels k = Some ch" "channel_spec ch = channel_spec c"
      unfolding runs_on_def by blast
    from apply_writes_ok [OF run ok ch(1)] ch(2) show ?thesis by (auto simp: view_ok_def)
  qed
  ultimately show ?thesis by (simp add: runs_on_def)
qed

lemma channel_spec_ephemeral:
  "channel_spec ch = channel_spec (branch_channel False) \<Longrightarrow> \<exists>c. ch = Ch_EphemeralValue c \<and> \<not> ev_guard c"
  by (cases ch) (auto simp: branch_channel_def EphemeralValue_init_def dest: arg_cong [where f = ev_guard])

lemma next_nodes:
  assumes compiled: "compile_graph env before after g = Inr (g', cg)" and built: "built g"
    and node: "map_of (sg_nodes g') n = Some spec" "\<not> nd_defer spec" "\<forall>(ss, t) \<in> set (sg_waiting_edges g). t \<noteq> n"
    and on: "runs_on channels cg" and seen: "seen_bounded cp"
    and keys: "ROOT \<notin> set (state_keys g)" "branch_to n \<notin> set (state_keys g)"
    and run: "hands_on run" "\<forall>t \<in> set tasks. task_of run (conf t) cg t (val t) \<and> conf_sends (conf t) (tid t)"
    and trig: "\<exists>t \<in> set tasks. tw_triggers t \<noteq> []"
    and step: "apply_writes cp channels tasks (Some increment) t2n = Inr (cp', channels', upd)"
    and p: "map_of (cg_nodes cg) n = Some p"
  shows "node_triggers channels' (channel_versions cp') (map_of (versions_seen cp') n) (IntV 0) p
      = Inr (\<exists>t \<in> set tasks. goes_to run g (tw_name t) (val t) n)"
proof -
  obtain ic m where "p = wires g n (state_node env (state_keys g) ic m n spec)"
    using compiled_nodes(3) [OF compiled built node(1)] p by auto
  moreover have "join_triggers (sg_waiting_edges g) n = []"
    using node(3) by (auto simp: join_triggers_def filter_empty_conv)
  ultimately have trigs: "pn_triggers p = [branch_to n]" by (simp add: wires_def state_node_def)
  obtain ch where ch: "map_of channels (branch_to n) = Some ch" "channel_spec ch = channel_spec (branch_channel False)"
    using on compiled_branch_channel [OF compiled built node(1)] node(2) by (auto simp: runs_on_def)
  then obtain c where c: "map_of channels (branch_to n) = Some (Ch_EphemeralValue c)" "\<not> ev_guard c"
    using channel_spec_ephemeral by blast
  have targets: "branch_to n \<in> writes_keys (tw_writes t) \<longleftrightarrow> goes_to run g (tw_name t) (val t) n" if "t \<in> set tasks" for t
    by (rule task_writes_targets [OF compiled built _ run(1) _ keys]) (use run(2) that in blast)+
  have "dict_ok channels" using on by (simp add: runs_on_def)
  from branch_triggers [OF step this c branch_to_not_control trig seen trigs, of n] targets
  show ?thesis by simp
qed


definition example_env :: compile_env where
  "example_env = \<lparr>ce_view = (\<lambda>_. \<lparr>ov_keys = [], ov_attrs = [], ov_model = None\<rparr>), ce_coerce = (\<lambda>_. None),
     ce_subgraphs = (\<lambda>_. []), ce_native_async = (\<lambda>_. True)\<rparr>"

definition example_graph :: state_graph where
  "example_graph = projr example_builder"

lemmas builder_simps =
  example_builder_def StateGraph_init_def add_schema_def example_schema_def
      add_sequence_def sequence_step_def add_node_def example_action_def get_channel_def channel_specs_def
      managed_specs_def add_schema_channel_def dupd_def node_of_arg_def name_allowed_def default_args_def
      add_handler_def no_defaults_def add_edge_def set_entry_point_def const_defs dmem_def dkeys_def Let_def node_spec_of_def List.insert_def

lemmas compile_simps =
  compile_graph_def validate_def interrupts_to_check_def sources_def targets_def all_edges_def
  schema_fields_def add_default_handler_def apply_defaults_def compiled_init_def error_handler_map_def with_tasks_channel_def
  root_or_list_def channel_keys_def attach_all_def attach_start_def attach_node_def attach_edge_def add_writer_def
  all_branches_def Pregel_validate_def check_timeout_def validate_graph_def trigger_index_def index_trigger_def
  cached_mapper_def pick_mapper_def state_node_def start_node_def ROOT_def dgetd_def
  branch_to_def check_node_def subscribed_def check_inputs_def check_interrupts_def RESERVED_def

lemma example_graph_built: "built example_graph"
proof -
  obtain g where g: "example_builder = Inr g" using example_builder_ok by blast
  show ?thesis using example_builder_built [OF g] unfolding example_graph_def g by simp
qed

definition example_ran :: "string \<Rightarrow> writes \<Rightarrow> task_writes" where
  "example_ran n ws = \<lparr>tw_path = [PStr PULL, PStr n], tw_name = n, tw_writes = ws, tw_triggers = [branch_to n]\<rparr>"

definition no_run :: "runnable \<Rightarrow> pyval \<Rightarrow> (pyval \<times> writes) res" where
  "no_run r x = Inr (x, [])"

text \<open>Node \<open>a\<close> of the example returns a new value of \<open>x\<close>: the nxt node is \<open>b\<close>.\<close>

lemma example_step:
  "\<exists>g' cg. compile_graph example_env (Some []) (Some []) example_graph = Inr (g', cg)
    \<and> map_option nd_defer (map_of (sg_nodes g') ''b'') = Some False
    \<and> map_option nd_defer (map_of (sg_nodes g') ''c'') = Some False
    \<and> map_of (cg_nodes cg) ''b'' \<noteq> None \<and> map_of (cg_nodes cg) ''c'' \<noteq> None
    \<and> runs_on (channel_specs (cg_channels cg)) cg
    \<and> task_of no_run [(CONFIG_KEY_SEND, CSend ''t'')] cg
        (example_ran ''a'' [(''x'', VInt 1), (branch_to ''b'', VNone)]) (VDict [(''x'', VInt 1)])
    \<and> (\<exists>cp' channels' upd. apply_writes (example_checkpoint [(branch_to ''a'', IntV 2)]) (channel_specs (cg_channels cg))
        [example_ran ''a'' [(''x'', VInt 1), (branch_to ''b'', VNone)]] (Some increment) (cg_trigger_to_nodes cg)
        = Inr (cp', channels', upd))"
  by (simp add: example_graph_def builder_simps compile_simps runs_on_def dict_ok_def task_of_def
      flat_writers_def run_seq_def run_writer_def node_writer_def ChannelWrite_write_def do_write_def
      keep_keys_def control_branch_def PASSTHROUGH_def SKIP_WRITE_def
      apply_simps example_ran_def branch_channel_def example_checkpoint_def LastValue_defs EphemeralValue_defs Topic_defs)

lemma example_goes:
  "set (sg_edges example_graph) = {(START, ''a''), (''b'', ''c''), (''a'', ''b'')}"
  "sg_waiting_edges example_graph = []" "all_branches example_graph = []" "state_keys example_graph = [''x'']"
  "sg_nodes example_graph \<noteq> []"
  by (auto simp add: example_graph_def builder_simps all_branches_def state_keys_def)


lemma compiled_wiring_witness:
  "\<exists>g' cg p. compile_graph example_env (Some []) (Some []) example_graph = Inr (g', cg)
    \<and> map_of (cg_nodes cg) ''b'' = Some p \<and> pn_triggers p = [branch_to ''b'']
    \<and> tl (pn_writers p) = [edge_writer ''c'']"
proof -
  obtain g' cg where c: "compile_graph example_env (Some []) (Some []) example_graph = Inr (g', cg)"
    and "map_option nd_defer (map_of (sg_nodes g') ''b'') = Some False"
    using example_step by blast
  then obtain s where s: "map_of (sg_nodes g') ''b'' = Some s" by auto
  have "sg_edges example_graph = [(START, ''a''), (''b'', ''c''), (''a'', ''b'')]"
  proof -
    obtain g where g: "example_builder = Inr g" "sg_edges g = [(START, ''a''), (''b'', ''c''), (''a'', ''b'')]"
      using example_builder_ok by blast
    show ?thesis unfolding example_graph_def g(1) using g(2) by simp
  qed
  with compiled_wiring [OF c example_graph_built s] c show ?thesis
    by (fastforce simp: join_triggers_def join_writers_def branch_writers_def edge_writers_def example_goes const_defs)
qed

subsection \<open>Branches hand their input on\<close>

lemma branch_route_hands_on: "branch_route b reader v conf = Inr (y, ws) \<Longrightarrow> y = v"
  by (auto simp: branch_route_def branch_finish_def Let_def rbind_Inr_iff rmap_Inr_iff split: if_splits)

end
