(* ===== verification/Graph_Accept.thy ===== *)
theory Graph_Accept
  imports Graph_Wiring
begin

section \<open>A validated builder compiles\<close>

text \<open>
  The static checks of \<open>validate\<close> are enough: apart from reserved names, timeouts of synchronous nodes and
  a second default error handler, a builder that passes them compiles, and the compiled graph passes the
  checks of \<open>Pregel.validate\<close>. The proof follows the attach methods with the invariant \<open>cg_ok\<close>.
\<close>

subsection \<open>Loops that do not raise\<close>

lemma rfold_ok:
  assumes "P s" and "\<And>s x. x \<in> set xs \<Longrightarrow> P s \<Longrightarrow> \<exists>s'. f s x = Inr s' \<and> P s'"
  shows "\<exists>s'. rfold f s xs = Inr s' \<and> P s'"
  using assms
proof (induction xs arbitrary: s)
  case (Cons x xs)
  then obtain s1 where "f s x = Inr s1" "P s1" by (meson list.set_intros(1))
  with Cons.IH [of s1] Cons.prems(2) show ?case by auto
qed simp

subsection \<open>What a compiled graph keeps\<close>

definition chan_in :: "compiled \<Rightarrow> string \<Rightarrow> bool" where
  "chan_in cg k = (\<exists>c. map_of (cg_channels cg) k = Some (SpecChannel c))"

definition reads_ok :: "compiled \<Rightarrow> pregel_node \<Rightarrow> bool" where
  "reads_ok cg p = (case pn_channels p of OneKey k \<Rightarrow> chan_in cg k | ManyKeys ks \<Rightarrow> \<forall>k \<in> set ks. dmem k (cg_channels cg))"

definition node_ok :: "compiled \<Rightarrow> pregel_node \<Rightarrow> bool" where
  "node_ok cg p \<longleftrightarrow> pn_timeout p = None \<and> (\<forall>t \<in> set (pn_triggers p). chan_in cg t) \<and> reads_ok cg p"

definition same_io :: "compiled \<Rightarrow> compiled \<Rightarrow> bool" where
  "same_io cg cg' \<longleftrightarrow> cg_input_channels cg' = cg_input_channels cg \<and> cg_output_channels cg' = cg_output_channels cg
     \<and> cg_stream_channels cg' = cg_stream_channels cg \<and> cg_interrupt_before cg' = cg_interrupt_before cg
     \<and> cg_interrupt_after cg' = cg_interrupt_after cg"

definition cg_ok :: "state_graph \<Rightarrow> compiled \<Rightarrow> compiled \<Rightarrow> bool" where
  "cg_ok g cg0 cg \<longleftrightarrow>
     dict_ok (cg_channels cg) \<and> dict_ok (cg_nodes cg) \<and> same_io cg0 cg
   \<and> (\<forall>k. dmem k (sg_channels g) \<longrightarrow> chan_in cg k) \<and> (\<forall>k. dmem k (sg_managed g) \<longrightarrow> dmem k (cg_channels cg))
   \<and> chan_in cg START \<and> (\<forall>k. dmem k (cg_channels cg) \<longrightarrow> k \<notin> set RESERVED)
   \<and> (\<forall>n p. map_of (cg_nodes cg) n = Some p \<longrightarrow> n \<notin> set RESERVED \<and> node_ok cg p)"

lemma branch_to_unreserved [simp]: "branch_to n \<notin> set RESERVED" "join_channel ss t \<notin> set RESERVED"
  by (simp_all add: branch_to_def join_channel_def RESERVED_def const_defs)

lemma cg_ok_add_channel:
  "cg_ok g cg0 cg \<Longrightarrow> k \<notin> set RESERVED \<Longrightarrow> cg_ok g cg0 (cg\<lparr>cg_channels := dset k (SpecChannel c) (cg_channels cg)\<rparr>)"
  by (fastforce simp: cg_ok_def chan_in_def node_ok_def reads_ok_def same_io_def split: ch_keys.splits)

lemma cg_ok_add_node:
  "cg_ok g cg0 cg \<Longrightarrow> n \<notin> set RESERVED \<Longrightarrow> node_ok cg p \<Longrightarrow> cg_ok g cg0 (cg\<lparr>cg_nodes := dset n p (cg_nodes cg)\<rparr>)"
  by (auto simp: cg_ok_def chan_in_def node_ok_def reads_ok_def same_io_def split: ch_keys.splits)

lemma cg_ok_mappers: "cg_ok g cg0 (cg\<lparr>cg_mappers := ms\<rparr>) = cg_ok g cg0 cg"
  by (simp add: cg_ok_def chan_in_def node_ok_def reads_ok_def same_io_def cong: ch_keys.case_cong)

lemma cg_ok_cached: "cg_ok g cg0 (snd (cached_mapper env ks s cg)) = cg_ok g cg0 cg"
  by (simp add: cached_mapper_def Let_def cg_ok_mappers split: option.splits)

text \<open>The nodes attached so far.\<close>

definition attached :: "string set \<Rightarrow> compiled \<Rightarrow> bool" where
  "attached ns cg = (\<forall>n \<in> ns. dmem n (cg_nodes cg))"

lemma add_writer_ok:
  assumes "cg_ok g cg0 cg" and "dmem n (cg_nodes cg)" and "attached ns cg"
  shows "\<exists>cg'. add_writer n w cg = Inr cg' \<and> cg_ok g cg0 cg' \<and> attached ns cg'"
proof -
  obtain p where p: "map_of (cg_nodes cg) n = Some p" using assms(2) by (auto simp: dmem_def)
  then have "n \<notin> set RESERVED" and "node_ok cg (p\<lparr>pn_writers := pn_writers p @ [w]\<rparr>)"
    using assms(1) by (auto simp: cg_ok_def node_ok_def reads_ok_def)
  from cg_ok_add_node [OF assms(1) this] assms(3) p show ?thesis
    by (simp add: add_writer_def attached_def)
qed

lemma attach_edge_ok:
  assumes "cg_ok g cg0 cg" and "attached ns cg" and "fst e \<in> ns"
  shows "\<exists>cg'. attach_edge cg e = Inr cg' \<and> cg_ok g cg0 cg' \<and> attached ns cg'"
  using add_writer_ok [OF assms(1) _ assms(2)] assms
  by (auto simp: attach_edge_def case_prod_beta attached_def)

lemma attach_waiting_edge_ok:
  assumes "cg_ok g cg0 cg" and "attached ns cg" and "set (fst e) \<subseteq> ns"
    and "snd e = END_NODE \<or> snd e \<in> ns \<and> dmem (snd e) (sg_nodes g)"
  shows "\<exists>cg'. attach_waiting_edge g cg e = Inr cg' \<and> cg_ok g cg0 cg' \<and> attached ns cg'"
proof (cases "snd e = END_NODE")
  case True
  with assms show ?thesis by (simp add: attach_waiting_edge_def case_prod_beta Let_def)
next
  case False
  let ?name = "join_channel (fst e) (snd e)"
  obtain spec where spec: "map_of (sg_nodes g) (snd e) = Some spec" using assms(4) False by (auto simp: dmem_def)
  obtain p where p: "map_of (cg_nodes cg) (snd e) = Some p"
    using assms(2,4) False by (auto simp: attached_def dmem_def)
  let ?cg1 = "cg\<lparr>cg_channels := dset ?name (SpecChannel (barrier_channel (nd_defer spec) (fst e))) (cg_channels cg)\<rparr>"
  let ?cg2 = "?cg1\<lparr>cg_nodes := dset (snd e) (p\<lparr>pn_triggers := pn_triggers p @ [?name]\<rparr>) (cg_nodes ?cg1)\<rparr>"
  have 1: "cg_ok g cg0 ?cg1" by (rule cg_ok_add_channel [OF assms(1)]) simp
  have "snd e \<notin> set RESERVED" and "node_ok ?cg1 p"
    using 1 p by (auto simp: cg_ok_def)
  then have "cg_ok g cg0 ?cg2"
    by (intro cg_ok_add_node [OF 1]) (auto simp: node_ok_def reads_ok_def chan_in_def)
  moreover have "attached ns ?cg2" using assms(2) by (simp add: attached_def)
  moreover have "\<exists>cg'. rfold (\<lambda>cg s. add_writer s (R_ChannelWrite [ChannelWriteEntry ?name (VStr s) False None]) cg) ?cg2 (fst e)
      = Inr cg' \<and> (cg_ok g cg0 cg' \<and> attached ns cg')" if "cg_ok g cg0 ?cg2 \<and> attached ns ?cg2"
  proof (rule rfold_ok [where P = "\<lambda>c. cg_ok g cg0 c \<and> attached ns c"])
    fix c s
    assume "s \<in> set (fst e)" and c: "cg_ok g cg0 c \<and> attached ns c"
    then have "dmem s (cg_nodes c)" using assms(3) by (auto simp: attached_def)
    with c show "\<exists>c'. add_writer s (R_ChannelWrite [ChannelWriteEntry ?name (VStr s) False None]) c = Inr c'
        \<and> cg_ok g cg0 c' \<and> attached ns c'"
      using add_writer_ok by blast
  qed (rule that)
  ultimately show ?thesis
    using False spec p by (simp add: attach_waiting_edge_def case_prod_beta Let_def)
qed

lemma attach_branch_ok:
  assumes "cg_ok g cg0 cg" and "attached ns cg" and "fst b \<in> ns"
    and "has_schema g (branch_schema g (fst b) (snd (snd b)))"
  shows "\<exists>cg'. attach_branch env g cg b = Inr cg' \<and> cg_ok g cg0 cg' \<and> attached ns cg'"
proof -
  let ?s = "branch_schema g (fst b) (snd (snd b))"
  obtain d where d: "schema_fields g ?s = Inr d"
    using assms(4) by (auto simp: has_schema_def schema_fields_def dmem_def)
  let ?cg1 = "snd (cached_mapper env (dkeys d) ?s cg)"
  have "\<exists>cg'. add_writer (fst b) (branch_runnable (fst b) (fst (snd b)) (snd (snd b))) ?cg1 = Inr cg'
      \<and> cg_ok g cg0 cg' \<and> attached ns cg'"
    by (rule add_writer_ok) (use assms in \<open>auto simp: cg_ok_cached attached_def\<close>)
  then show ?thesis
    using d by (simp add: attach_branch_def case_prod_beta Let_def)
qed

subsection \<open>Attaching all nodes\<close>

definition names_free :: "state_graph \<Rightarrow> bool" where
  "names_free g \<longleftrightarrow>
     (\<forall>k. \<not> (dmem k (sg_channels g) \<and> dmem k (sg_managed g)))
   \<and> \<not> dmem ROOT (sg_managed g) \<and> \<not> dmem TASKS (sg_channels g) \<and> \<not> dmem TASKS (sg_managed g)
   \<and> (\<forall>k \<in> set RESERVED. \<not> dmem k (sg_channels g) \<and> \<not> dmem k (sg_managed g) \<and> \<not> dmem k (sg_nodes g))"

lemma field_in_graph:
  assumes "cg_ok g cg0 cg" and "field_known g f"
  shows "dmem (fst f) (cg_channels cg)" and "\<not> is_managed_field (snd f) \<Longrightarrow> chan_in cg (fst f)"
  using assms by (cases "(g, f)" rule: field_known.cases; auto simp: cg_ok_def chan_in_def dmem_def)+

lemma schema_fields_known:
  assumes "builder_wf g" and "schema_fields g s = Inr d"
  shows "\<forall>f \<in> set d. field_known g f"
  using assms by (auto simp: builder_wf_def schemas_wf_def schema_fields_def split: option.splits dest!: map_of_SomeD)

lemma root_field:
  assumes "names_free g" and "\<forall>f \<in> set d. field_known g f" and "dkeys d = [ROOT]"
  shows "\<exists>f. d = [(ROOT, f)] \<and> \<not> is_managed_field f \<and> dmem ROOT (sg_channels g)"
proof -
  obtain f where d: "d = [(ROOT, f)]" using assms(3) by (auto simp: dkeys_def)
  with assms(1,2) show ?thesis by (cases f) (auto simp: names_free_def)
qed

lemma attach_start_ok:
  assumes "cg_ok g cg0 cg" and "has_schema g (sg_input_schema g)"
  shows "\<exists>cg'. attach_start env g cg = Inr cg' \<and> cg_ok g cg0 cg'
    \<and> (\<exists>p. map_of (cg_nodes cg') START = Some p \<and> START \<in> set (pn_triggers p))"
proof -
  obtain d where d: "schema_fields g (sg_input_schema g) = Inr d"
    using assms(2) by (auto simp: has_schema_def schema_fields_def dmem_def)
  have "node_ok cg (start_node env (channel_keys d))"
    using assms(1) by (simp add: node_ok_def reads_ok_def start_node_def cg_ok_def)
  moreover have "START \<notin> set RESERVED" by (simp add: RESERVED_def const_defs)
  ultimately show ?thesis
    using cg_ok_add_node [OF assms(1)] d by (simp add: attach_start_def start_node_def)
qed

lemma attach_node_ok:
  assumes ok: "cg_ok g cg0 cg" and wf: "builder_wf g" and free: "names_free g"
    and n: "n \<noteq> START" "n \<notin> set RESERVED" and s: "has_schema g (nd_input_schema spec)" and t: "nd_timeout spec = None"
  shows "\<exists>cg' p. attach_node env g cg (n, spec) = Inr cg' \<and> cg_ok g cg0 cg' \<and> cg_nodes cg' = dset n p (cg_nodes cg)"
proof -
  obtain d where d: "schema_fields g (nd_input_schema spec) = Inr d"
    using s by (auto simp: has_schema_def schema_fields_def dmem_def)
  note known = schema_fields_known [OF wf d]
  let ?cg1 = "snd (cached_mapper env (dkeys d) (nd_input_schema spec) cg)"
  let ?m = "fst (cached_mapper env (dkeys d) (nd_input_schema spec) cg)"
  let ?cg2 = "?cg1\<lparr>cg_channels := dset (branch_to n) (SpecChannel (branch_channel (nd_defer spec))) (cg_channels ?cg1)\<rparr>"
  let ?p = "state_node env (dkeys (sg_channels g) @ dkeys (sg_managed g)) (dkeys d) ?m n spec"
  have 1: "cg_ok g cg0 ?cg2"
    by (rule cg_ok_add_channel) (simp_all add: cg_ok_cached ok)
  have reads: "reads_ok ?cg2 ?p"
  proof (cases "dkeys d = [ROOT]")
    case True
    with root_field [OF free known True] have "chan_in ?cg2 ROOT" using 1 unfolding cg_ok_def by blast
    with True show ?thesis by (simp add: reads_ok_def state_node_def)
  next
    case False
    have "\<forall>k \<in> set (dkeys d). dmem k (cg_channels ?cg2)"
      using field_in_graph(1) [OF 1] known by (force simp: dkeys_def)
    with False show ?thesis by (simp add: reads_ok_def state_node_def)
  qed
  have "chan_in ?cg2 (branch_to n)" by (simp add: chan_in_def)
  then have "node_ok ?cg2 ?p"
    using reads t by (simp add: node_ok_def state_node_def)
  from cg_ok_add_node [OF 1 n(2) this] show ?thesis
    using d n(1) by (auto simp: attach_node_def Let_def case_prod_beta)
qed

definition specs_ok :: "state_graph \<Rightarrow> bool" where
  "specs_ok g \<longleftrightarrow> (\<forall>(n, spec) \<in> set (sg_nodes g). nd_timeout spec = None)"

lemma attach_nodes_ok:
  assumes "cg_ok g cg0 cg" and wf: "builder_wf g" and free: "names_free g" and specs: "specs_ok g"
    and "set xs \<subseteq> set (sg_nodes g)"
  shows "\<exists>cg'. rfold (attach_node env g) cg xs = Inr cg' \<and> cg_ok g cg0 cg'
    \<and> (\<forall>n. dmem n (cg_nodes cg') \<longleftrightarrow> dmem n (cg_nodes cg) \<or> n \<in> fst ` set xs)
    \<and> map_of (cg_nodes cg') START = map_of (cg_nodes cg) START"
  using assms(1,5)
proof (induction xs arbitrary: cg)
  case (Cons x xs)
  obtain n spec where x: "x = (n, spec)" by fastforce
  have mem: "(n, spec) \<in> set (sg_nodes g)" using Cons.prems(2) x by simp
  then have "n \<noteq> START" "has_schema g (nd_input_schema spec)"
    using wf by (auto simp: builder_wf_def nodes_wf_def plain_name_def)
  moreover have "n \<notin> set RESERVED" using free dict_mem [OF mem] by (auto simp: names_free_def)
  moreover have "nd_timeout spec = None" using specs mem by (auto simp: specs_ok_def)
  ultimately obtain cg1 p where a: "attach_node env g cg (n, spec) = Inr cg1" and ok: "cg_ok g cg0 cg1"
    and n1: "cg_nodes cg1 = dset n p (cg_nodes cg)"
    using attach_node_ok [OF Cons.prems(1) wf free] by blast
  have "set xs \<subseteq> set (sg_nodes g)" using Cons.prems(2) by simp
  from Cons.IH [OF ok this] obtain cg' where "rfold (attach_node env g) cg1 xs = Inr cg'" "cg_ok g cg0 cg'"
    "\<forall>m. dmem m (cg_nodes cg') \<longleftrightarrow> dmem m (cg_nodes cg1) \<or> m \<in> fst ` set xs"
    "map_of (cg_nodes cg') START = map_of (cg_nodes cg1) START" by blast
  with a n1 x \<open>n \<noteq> START\<close> show ?case by (intro exI [of _ cg']) auto
qed auto

text \<open>What \<open>validate\<close> has checked, of the edges, joins and branches.\<close>

definition ends_known :: "state_graph \<Rightarrow> bool" where
  "ends_known g \<longleftrightarrow>
     (\<forall>(s, t) \<in> set (sg_edges g). (s = START \<or> dmem s (sg_nodes g)) \<and> (t = END_NODE \<or> dmem t (sg_nodes g)))
   \<and> (\<forall>(start, bs) \<in> set (sg_branches g). start = START \<or> dmem start (sg_nodes g))"

lemma validate_ends_known:
  assumes "validate ns g = Inr g1"
  shows "ends_known g"
proof -
  obtain ts where src: "\<forall>s \<in> set (sources g). dmem s (sg_nodes g) \<or> s = START"
    and ts: "targets g = Inr ts" "\<forall>t \<in> set ts. dmem t (sg_nodes g) \<or> t = END_NODE"
    using assms by (auto simp: validate_def rbind_Inr_iff rmap_Inr_iff split: if_splits)
  have "snd ` set (sg_edges g) \<subseteq> set ts"
  proof -
    obtain us where "ts = map snd (sg_edges g) @ us"
      using ts(1) by (auto simp: targets_def rmap_Inr_iff all_edges_def)
    then show ?thesis by simp
  qed
  moreover have "fst ` set (sg_edges g) \<subseteq> set (sources g)" "fst ` set (sg_branches g) \<subseteq> set (sources g)"
    by (auto simp: sources_def all_edges_def dkeys_def)
  ultimately show ?thesis
    using src ts(2) unfolding ends_known_def by (fastforce simp: image_subset_iff)
qed

lemma attach_all_ok:
  assumes ok: "cg_ok g cg0 cg" and wf: "builder_wf g" and free: "names_free g" and specs: "specs_ok g"
    and ends: "ends_known g"
  shows "\<exists>cg'. attach_all env g cg = Inr cg' \<and> cg_ok g cg0 cg' \<and> attached (insert START (set (dkeys (sg_nodes g)))) cg'
    \<and> (\<exists>p. map_of (cg_nodes cg') START = Some p \<and> START \<in> set (pn_triggers p))"
proof -
  let ?ns = "insert START (set (dkeys (sg_nodes g)))"
  have "has_schema g (sg_input_schema g)" using wf by (simp add: builder_wf_def schemas_wf_def)
  from attach_start_ok [OF ok this] obtain c1 p1 where 1: "attach_start env g cg = Inr c1" "cg_ok g cg0 c1"
    and p1: "map_of (cg_nodes c1) START = Some p1" "START \<in> set (pn_triggers p1)" by blast
  from attach_nodes_ok [OF 1(2) wf free specs subset_refl, where env = env] obtain c2
    where 2: "rfold (attach_node env g) c1 (sg_nodes g) = Inr c2" "cg_ok g cg0 c2"
      and at2: "\<forall>n. dmem n (cg_nodes c2) \<longleftrightarrow> dmem n (cg_nodes c1) \<or> n \<in> fst ` set (sg_nodes g)"
      and p2: "map_of (cg_nodes c2) START = Some p1" using p1 by auto
  have at: "attached ?ns c2" using at2 p1(1) by (auto simp: attached_def dkeys_def dmem_def)
  have 3: "\<exists>c3. rfold attach_edge c2 (sg_edges g) = Inr c3 \<and> (cg_ok g cg0 c3 \<and> attached ?ns c3)"
    by (rule rfold_ok [where P = "\<lambda>c. cg_ok g cg0 c \<and> attached ?ns c"])
      (use 2 at ends attach_edge_ok in \<open>fastforce simp: ends_known_def dmem_iff_keys\<close>)+
  then obtain c3 where c3: "rfold attach_edge c2 (sg_edges g) = Inr c3" "cg_ok g cg0 c3" "attached ?ns c3" by blast
  have waits: "set (fst e) \<subseteq> ?ns" "snd e = END_NODE \<or> snd e \<in> ?ns \<and> dmem (snd e) (sg_nodes g)"
    if "e \<in> set (sg_waiting_edges g)" for e
    using wf that by (auto simp: builder_wf_def edges_wf_def dmem_iff_keys)
  have 4: "\<exists>c4. rfold (attach_waiting_edge g) c3 (sg_waiting_edges g) = Inr c4 \<and> (cg_ok g cg0 c4 \<and> attached ?ns c4)"
    by (rule rfold_ok [where P = "\<lambda>c. cg_ok g cg0 c \<and> attached ?ns c"])
      (use c3 waits attach_waiting_edge_ok in blast)+
  then obtain c4 where c4: "rfold (attach_waiting_edge g) c3 (sg_waiting_edges g) = Inr c4" "cg_ok g cg0 c4" "attached ?ns c4"
    by blast
  have br: "fst b \<in> ?ns \<and> has_schema g (branch_schema g (fst b) (snd (snd b)))" if b: "b \<in> set (all_branches g)" for b
  proof -
    obtain bs where bs: "(fst b, bs) \<in> set (sg_branches g)" "(fst (snd b), snd (snd b)) \<in> set bs"
      using b unfolding all_branches_def by (fastforce simp: case_prod_beta)
    then have "fst b \<in> ?ns" using ends by (auto simp: ends_known_def dmem_iff_keys)
    moreover have "has_schema g s" if "bs_input_schema (snd (snd b)) = Some s" for s
      using wf bs that by (fastforce simp: builder_wf_def edges_wf_def)
    moreover have "has_schema g (nd_input_schema spec)" if "map_of (sg_nodes g) n = Some spec" for n spec
      using wf map_of_SomeD [OF that] by (auto simp: builder_wf_def nodes_wf_def)
    moreover have "has_schema g (sg_state_schema g)" using wf by (simp add: builder_wf_def schemas_wf_def)
    ultimately show ?thesis by (auto simp: branch_schema_def split: option.splits)
  qed
  have 5: "\<exists>c5. rfold (attach_branch env g) c4 (all_branches g) = Inr c5 \<and> (cg_ok g cg0 c5 \<and> attached ?ns c5)"
    by (rule rfold_ok [where P = "\<lambda>c. cg_ok g cg0 c \<and> attached ?ns c"])
      (use c4 br attach_branch_ok in blast)+
  then obtain c5 where c5: "rfold (attach_branch env g) c4 (all_branches g) = Inr c5" "cg_ok g cg0 c5" "attached ?ns c5"
    by blast
  have rest: "rbind (rfold attach_edge c2 (sg_edges g)) (\<lambda>cg.
     rbind (rfold (attach_waiting_edge g) cg (sg_waiting_edges g)) (\<lambda>cg.
     rfold (attach_branch env g) cg (all_branches g))) = Inr c5"
    using c3 c4 c5 by simp
  have "map_of (cg_nodes c5) START = Some (wires g START p1)"
    using attach_rest [OF rest] p2 by simp
  moreover have "START \<in> set (pn_triggers (wires g START p1))" using p1(2) by (simp add: wires_def)
  moreover have "attach_all env g cg = Inr c5" using 1 2 rest by (simp add: attach_all_def)
  ultimately show ?thesis using c5 by blast
qed

subsection \<open>Compiling\<close>

lemma compiled_init_ok:
  assumes wf: "builder_wf g" and free: "names_free g"
  shows "\<exists>cg. compiled_init g before after out = Inr cg \<and> cg_ok g cg cg \<and> cg_input_channels cg = OneKey START
    \<and> cg_output_channels cg = out \<and> cg_stream_channels cg = root_or_list (dkeys (sg_channels g)) (dkeys (sg_channels g))
    \<and> cg_interrupt_before cg = before \<and> cg_interrupt_after cg = after"
proof -
  let ?cs = "map (\<lambda>(k, c). (k, SpecChannel c)) (sg_channels g)"
  let ?ms = "map (\<lambda>(k, m). (k, SpecManaged m)) (sg_managed g)"
  let ?start = "SpecChannel (Ch_EphemeralValue (EphemeralValue_init (TyClass (schema_name (sg_input_schema g)) None) True))"
  let ?d = "dset START ?start (dupd ?cs ?ms)"
  let ?d2 = "dset TASKS (SpecChannel (Ch_Topic (Topic_init SEND_TYPE False))) ?d"
  have oks: "dict_ok (sg_channels g)" "dict_ok (sg_managed g)"
    using wf by (simp_all add: builder_wf_def schemas_wf_def)
  have keys: "map fst (map (\<lambda>(k, c). (k, f c)) d) = map fst d" for f :: "'a \<Rightarrow> chan_or_managed" and d :: "(string, 'a) dict"
    by (induction d) auto
  have dd: "dict_ok d \<Longrightarrow> dict_ok (dupd d new)" for d new :: "(string, chan_or_managed) dict"
    unfolding dupd_def by (induction new arbitrary: d) auto
  have d_ok: "dict_ok ?cs" "dict_ok ?ms" using oks by (simp_all only: dict_ok_def keys)
  have at: "map_of (dupd ?cs ?ms) k = (case map_of (sg_managed g) k of
      Some m \<Rightarrow> Some (SpecManaged m) | None \<Rightarrow> map_option SpecChannel (map_of (sg_channels g) k))" for k
    using d_ok(2) by (simp add: map_of_dupd map_of_rev dict_ok_def map_of_map_snd split: option.splits)
  have st: "START \<noteq> TASKS" by (simp add: const_defs)
  have tasks: "with_tasks_channel ?d = Inr ?d2"
    using free st by (simp add: with_tasks_channel_def at names_free_def dmem_def)
  let ?cg = "\<lparr>cg_nodes = [], cg_channels = ?d2, cg_input_channels = OneKey START, cg_output_channels = out,
        cg_stream_channels = root_or_list (dkeys (sg_channels g)) (dkeys (sg_channels g)),
        cg_interrupt_before = before, cg_interrupt_after = after,
        cg_error_handlers = error_handler_map (sg_nodes g), cg_mappers = [], cg_trigger_to_nodes = []\<rparr>"
  have "compiled_init g before after out = Inr ?cg"
    using tasks by (simp add: compiled_init_def)
  moreover have "dict_ok ?d2" using dd [OF d_ok(1)] by simp
  moreover have "\<exists>c. map_of ?d2 k = Some (SpecChannel c)" if "dmem k (sg_channels g)" for k
  proof -
    have "\<not> dmem k (sg_managed g)" using that free unfolding names_free_def by blast
    then have "map_of (sg_managed g) k = None" by (simp add: dmem_def)
    with that show ?thesis by (auto simp: at dmem_def)
  qed
  moreover have "dmem k ?d2" if "dmem k (sg_managed g)" for k
    using that by (auto simp: at dmem_def split: option.splits)
  moreover have "k \<notin> set RESERVED" if "dmem k ?d2" for k
  proof -
    have "k = TASKS \<or> k = START \<or> dmem k (sg_channels g) \<or> dmem k (sg_managed g)"
      using that by (auto simp: at dmem_def split: option.splits if_splits)
    moreover have "START \<notin> set RESERVED" by (simp add: RESERVED_def const_defs)
    ultimately show ?thesis using free unfolding names_free_def by auto
  qed
  ultimately show ?thesis
    using st by (intro exI [of _ ?cg]) (simp add: cg_ok_def chan_in_def same_io_def)
qed

lemma specs_keys:
  "set (dkeys (channel_specs d)) = {k. \<exists>c. (k, SpecChannel c) \<in> set d}"
  "set (dkeys (managed_specs d)) = {k. \<exists>m. (k, SpecManaged m) \<in> set d}"
  by (induction d) (auto simp: channel_specs_def managed_specs_def dkeys_def split: chan_or_managed.splits)

lemma chan_in_specs:
  assumes "dict_ok (cg_channels cg)"
  shows "k \<in> set (dkeys (channel_specs (cg_channels cg))) \<longleftrightarrow> chan_in cg k"
    and "dmem k (cg_channels cg) \<longleftrightarrow>
      k \<in> set (dkeys (channel_specs (cg_channels cg))) \<union> set (dkeys (managed_specs (cg_channels cg)))"
proof -
  have at: "(k, v) \<in> set (cg_channels cg) \<longleftrightarrow> map_of (cg_channels cg) k = Some v" for v
    using assms by (simp add: dict_ok_def)
  show "k \<in> set (dkeys (channel_specs (cg_channels cg))) \<longleftrightarrow> chan_in cg k"
    by (simp add: specs_keys chan_in_def at)
  have "(\<exists>v. map_of (cg_channels cg) k = Some v) \<longleftrightarrow>
      (\<exists>c. map_of (cg_channels cg) k = Some (SpecChannel c)) \<or> (\<exists>m. map_of (cg_channels cg) k = Some (SpecManaged m))"
    by (metis chan_or_managed.exhaust)
  then show "dmem k (cg_channels cg) \<longleftrightarrow>
      k \<in> set (dkeys (channel_specs (cg_channels cg))) \<union> set (dkeys (managed_specs (cg_channels cg)))"
    by (simp add: specs_keys at dmem_def)
qed

lemma Pregel_validate_ok:
  assumes ok: "cg_ok g cg0 cg" and start: "map_of (cg_nodes cg) START = Some p" "START \<in> set (pn_triggers p)"
    and io: "cg_input_channels cg0 = OneKey START" "\<forall>k \<in> set (node_reads (cg_output_channels cg0)). chan_in cg k"
      "\<forall>k \<in> set (node_reads (cg_stream_channels cg0)). chan_in cg k"
      "\<forall>ns. cg_interrupt_before cg0 = Some ns \<longrightarrow> (\<forall>n \<in> set ns. dmem n (cg_nodes cg))"
      "\<forall>ns. cg_interrupt_after cg0 = Some ns \<longrightarrow> (\<forall>n \<in> set ns. dmem n (cg_nodes cg))"
  shows "\<exists>cg'. Pregel_validate env cg = Inr cg'"
    and "graph_wf (cg_nodes cg) (dkeys (channel_specs (cg_channels cg))) (dkeys (managed_specs (cg_channels cg)))
      (cg_input_channels cg) (cg_output_channels cg) (Some (cg_stream_channels cg))
      (cg_interrupt_after cg) (cg_interrupt_before cg)"
proof -
  have d: "dict_ok (cg_channels cg)" "dict_ok (cg_nodes cg)" and same: "same_io cg0 cg"
    and nodes: "\<forall>n p. map_of (cg_nodes cg) n = Some p \<longrightarrow> n \<notin> set RESERVED \<and> node_ok cg p"
    and res: "\<forall>k. dmem k (cg_channels cg) \<longrightarrow> k \<notin> set RESERVED" and sc: "chan_in cg START"
    using ok by (simp_all add: cg_ok_def)
  have at: "(n, q) \<in> set (cg_nodes cg) \<longleftrightarrow> map_of (cg_nodes cg) n = Some q" for n q
    using d(2) by (simp add: dict_ok_def)
  have chans: "k \<in> set (dkeys (channel_specs (cg_channels cg))) \<longleftrightarrow> chan_in cg k" for k
    by (rule chan_in_specs(1) [OF d(1)])
  have mems: "dmem k (cg_channels cg) \<longleftrightarrow>
      k \<in> set (dkeys (channel_specs (cg_channels cg))) \<union> set (dkeys (managed_specs (cg_channels cg)))" for k
    by (rule chan_in_specs(2) [OF d(1)])
  have r1: "set RESERVED \<inter> (set (dkeys (channel_specs (cg_channels cg))) \<union> set (dkeys (managed_specs (cg_channels cg)))
      \<union> set (dkeys (cg_nodes cg))) = {}"
    using res mems nodes by (force simp: dmem_iff_keys [symmetric] dmem_def)
  have r2: "set (pn_triggers q) \<subseteq> set (dkeys (channel_specs (cg_channels cg)))
      \<and> (case pn_channels q of OneKey k \<Rightarrow> k \<in> set (dkeys (channel_specs (cg_channels cg)))
         | ManyKeys ks \<Rightarrow> set ks \<subseteq> set (dkeys (channel_specs (cg_channels cg))) \<union> set (dkeys (managed_specs (cg_channels cg))))"
    if "(n, q) \<in> set (cg_nodes cg)" for n q
  proof -
    have "node_ok cg q" using that nodes at by blast
    then show ?thesis
      using chans mems by (fastforce simp: node_ok_def reads_ok_def split: ch_keys.splits)
  qed
  have r3: "input_ok (cg_input_channels cg) (dkeys (channel_specs (cg_channels cg))) (subscribed (cg_nodes cg))"
    using same io(1) start sc chans at [of START p] by (force simp: same_io_def input_ok_def subscribed_def)
  have r4: "set (node_reads (cg_output_channels cg)) \<subseteq> set (dkeys (channel_specs (cg_channels cg)))"
    "set (node_reads (cg_stream_channels cg)) \<subseteq> set (dkeys (channel_specs (cg_channels cg)))"
    using same io(2,3) chans by (auto simp: same_io_def)
  have r5: "\<forall>ns. cg_interrupt_after cg = Some ns \<longrightarrow> set ns \<subseteq> set (dkeys (cg_nodes cg))"
    "\<forall>ns. cg_interrupt_before cg = Some ns \<longrightarrow> set ns \<subseteq> set (dkeys (cg_nodes cg))"
    using same io(4,5) by (auto simp: same_io_def dmem_iff_keys)
  show wf: "graph_wf (cg_nodes cg) (dkeys (channel_specs (cg_channels cg))) (dkeys (managed_specs (cg_channels cg)))
      (cg_input_channels cg) (cg_output_channels cg) (Some (cg_stream_channels cg))
      (cg_interrupt_after cg) (cg_interrupt_before cg)"
    unfolding graph_wf_def using r1 r2 r3 r4 r5 by blast
  have "\<forall>x \<in> set (cg_nodes cg). check_timeout env x = Inr ()"
    using nodes at by (auto simp: check_timeout_def node_ok_def)
  then have "rfold (\<lambda>_. check_timeout env) () (cg_nodes cg) = Inr ()"
    using rfold_unit_Inr [of "check_timeout env" "cg_nodes cg" "()"] by simp
  with wf show "\<exists>cg'. Pregel_validate env cg = Inr cg'"
    by (simp add: Pregel_validate_def validate_graph_Inr [symmetric])
qed

definition handler_free :: "state_graph \<Rightarrow> bool" where
  "handler_free g \<longleftrightarrow> (df_error_handler (sg_defaults g) = None \<or> \<not> dmem DEFAULT_ERROR_HANDLER_NODE (sg_nodes g))"

text \<open>The builder after its defaults are applied.\<close>

lemma builder_after_ok:
  assumes free: "names_free g" and specs: "specs_ok g" and df: "df_timeout (sg_defaults g) = None"
    and h: "handler_free g" and ends: "ends_known g"
  shows "\<exists>g1 handler. add_default_handler (g\<lparr>sg_compiled := True\<rparr>) = Inr (g1, handler)
      \<and> builder_after g = g1\<lparr>sg_nodes := map (\<lambda>(n, spec). (n, apply_defaults (sg_defaults g1) handler spec)) (sg_nodes g1)\<rparr>"
    and "names_free (builder_after g)" and "specs_ok (builder_after g)" and "ends_known (builder_after g)"
    and "\<And>n. dmem n (sg_nodes g) \<Longrightarrow> dmem n (sg_nodes (builder_after g))"
    and "sg_channels (builder_after g) = sg_channels g" "sg_schemas (builder_after g) = sg_schemas g"
proof -
  obtain g1 handler where a: "add_default_handler (g\<lparr>sg_compiled := True\<rparr>) = Inr (g1, handler)"
    and g1: "\<exists>ns. g1 = g\<lparr>sg_compiled := True, sg_nodes := ns\<rparr>
      \<and> (ns = sg_nodes g \<or> (\<exists>r. ns = dset DEFAULT_ERROR_HANDLER_NODE (handler_spec r (sg_state_schema g)) (sg_nodes g)))"
  proof (cases "df_error_handler (sg_defaults g)")
    case None
    show ?thesis
      by (rule that [of "g\<lparr>sg_compiled := True\<rparr>" None]) (use None in \<open>auto simp: add_default_handler_def intro: exI [of _ "sg_nodes g"]\<close>)
  next
    case (Some r)
    show ?thesis
      by (rule that [of "g\<lparr>sg_compiled := True, sg_nodes := dset DEFAULT_ERROR_HANDLER_NODE (handler_spec r (sg_state_schema g)) (sg_nodes g)\<rparr>"
            "Some DEFAULT_ERROR_HANDLER_NODE"])
        (use Some h in \<open>auto simp: add_default_handler_def handler_free_def\<close>)
  qed
  then obtain ns where ns: "g1 = g\<lparr>sg_compiled := True, sg_nodes := ns\<rparr>"
    and cases: "ns = sg_nodes g \<or> (\<exists>r. ns = dset DEFAULT_ERROR_HANDLER_NODE (handler_spec r (sg_state_schema g)) (sg_nodes g))"
    by blast
  let ?f = "\<lambda>(n, spec). (n, apply_defaults (sg_defaults g1) handler spec)"
  have after: "builder_after g = g1\<lparr>sg_nodes := map ?f (sg_nodes g1)\<rparr>"
    by (simp add: builder_after_def a)
  show "\<exists>g1 handler. add_default_handler (g\<lparr>sg_compiled := True\<rparr>) = Inr (g1, handler)
      \<and> builder_after g = g1\<lparr>sg_nodes := map (\<lambda>(n, spec). (n, apply_defaults (sg_defaults g1) handler spec)) (sg_nodes g1)\<rparr>"
    using a after by blast
  have mem: "dmem n (sg_nodes (builder_after g)) \<longleftrightarrow> dmem n ns" for n
    unfolding after using ns by simp
  have res: "DEFAULT_ERROR_HANDLER_NODE \<notin> set RESERVED"
    by (simp add: DEFAULT_ERROR_HANDLER_NODE_def RESERVED_def const_defs)
  show grow: "\<And>n. dmem n (sg_nodes g) \<Longrightarrow> dmem n (sg_nodes (builder_after g))"
    using cases by (auto simp: mem)
  show "names_free (builder_after g)"
    using free cases res unfolding names_free_def mem by (auto simp: after ns)
  show "ends_known (builder_after g)"
    using ends grow unfolding ends_known_def by (fastforce simp: after ns)
  have "\<forall>(n, spec) \<in> set ns. nd_timeout spec = None"
    using cases specs set_dset [of DEFAULT_ERROR_HANDLER_NODE _ "sg_nodes g"]
    by (fastforce simp: specs_ok_def handler_spec_def)
  then show "specs_ok (builder_after g)"
    unfolding specs_ok_def after using ns df by (auto simp: apply_defaults_def Let_def)
  show "sg_channels (builder_after g) = sg_channels g" "sg_schemas (builder_after g) = sg_schemas g"
    using after ns by simp_all
qed

lemma chan_in_keys:
  assumes ok: "cg_ok g cg0 cg" and free: "names_free g" and known: "\<forall>f \<in> set d. field_known g f"
  shows "\<forall>k \<in> set (node_reads (root_or_list (dkeys d) (channel_keys d))). chan_in cg k"
proof (cases "dkeys d = [ROOT]")
  case True
  with root_field [OF free known True] ok show ?thesis by (auto simp: root_or_list_def cg_ok_def)
next
  case False
  have "chan_in cg k" if "k \<in> set (channel_keys d)" for k
    using that field_in_graph(2) [OF ok] known by (auto simp: channel_keys_def)
  with False show ?thesis by (simp add: root_or_list_def)
qed

text \<open>
  C2: what \<open>validate\<close> accepts, compiles: any builder that can be reached and that passes the checks becomes a
  graph whose every trigger, read and output exists, as long as no name is reserved, no key of the state is
  both a channel and a managed value, no node has a timeout, and the default error handler is not there yet.
\<close>

theorem validated_builder_compiles:
  assumes built: "built g" and valid: "validate (interrupts_to_check before after) g = Inr g1"
    and free: "names_free g" and specs: "specs_ok g" and df: "df_timeout (sg_defaults g) = None" and h: "handler_free g"
    and ints: "\<forall>ns. before = Some ns \<or> after = Some ns \<longrightarrow> (\<forall>n \<in> set ns. dmem n (sg_nodes g))"
  shows "\<exists>g' cg. compile_graph env before after g = Inr (g', cg)
    \<and> graph_wf (cg_nodes cg) (dkeys (channel_specs (cg_channels cg))) (dkeys (managed_specs (cg_channels cg)))
        (cg_input_channels cg) (cg_output_channels cg) (Some (cg_stream_channels cg))
        (cg_interrupt_after cg) (cg_interrupt_before cg)"
proof -
  note ends = validate_ends_known [OF valid]
  note aft = builder_after_ok [OF free specs df h ends]
  let ?g = "builder_after g"
  have wf: "builder_wf g" "builder_wf ?g" using builder_wf_built [OF built] builder_after_wf by blast+
  obtain outs where outs: "schema_fields g (sg_output_schema g) = Inr outs"
    using wf(1) by (auto simp: builder_wf_def schemas_wf_def has_schema_def schema_fields_def dmem_def)
  let ?out = "root_or_list (dkeys outs) (channel_keys outs)"
  obtain c0 where c0: "compiled_init ?g before after ?out = Inr c0" "cg_ok ?g c0 c0"
    and io: "cg_input_channels c0 = OneKey START" "cg_output_channels c0 = ?out"
      "cg_stream_channels c0 = root_or_list (dkeys (sg_channels ?g)) (dkeys (sg_channels ?g))"
      "cg_interrupt_before c0 = before" "cg_interrupt_after c0 = after"
    using compiled_init_ok [OF wf(2) aft(2), of before after ?out] by blast
  obtain c1 p where c1: "attach_all env ?g c0 = Inr c1" "cg_ok ?g c0 c1"
    and at: "attached (insert START (set (dkeys (sg_nodes ?g)))) c1"
    and p: "map_of (cg_nodes c1) START = Some p" "START \<in> set (pn_triggers p)"
    using attach_all_ok [OF c0(2) wf(2) aft(2,3,4)] by blast
  have "schema_fields ?g (sg_output_schema g) = Inr outs" using outs aft(7) by (simp add: schema_fields_def)
  then have o: "\<forall>k \<in> set (node_reads (cg_output_channels c0)). chan_in c1 k"
    using chan_in_keys [OF c1(2) aft(2)] schema_fields_known [OF wf(2)] io(2) by auto
  have s: "\<forall>k \<in> set (node_reads (cg_stream_channels c0)). chan_in c1 k"
    using c1(2) io(3) by (auto simp: cg_ok_def root_or_list_def dmem_iff_keys)
  have n: "dmem n (cg_nodes c1)" if "dmem n (sg_nodes g)" for n
    using that aft(5) at by (auto simp: attached_def dmem_iff_keys)
  have b: "\<forall>ns. cg_interrupt_before c0 = Some ns \<longrightarrow> (\<forall>n \<in> set ns. dmem n (cg_nodes c1))"
    "\<forall>ns. cg_interrupt_after c0 = Some ns \<longrightarrow> (\<forall>n \<in> set ns. dmem n (cg_nodes c1))"
    using ints n io(4,5) by auto
  note v = Pregel_validate_ok [OF c1(2) p io(1) o s b]
  obtain cg where cg: "Pregel_validate env c1 = Inr cg" using v(1) by blast
  have "schema_fields (g\<lparr>sg_compiled := True\<rparr>) (sg_output_schema g) = Inr outs"
    using outs by (simp add: schema_fields_def)
  then have "compile_graph env before after g = Inr (?g, cg)"
    using valid validate_builder [OF valid] aft(1) c0(1) c1(1) cg by (auto simp: compile_graph_def Let_def)
  moreover have "cg = c1\<lparr>cg_trigger_to_nodes := trigger_index (cg_nodes c1)\<rparr>"
    using cg by (auto simp: Pregel_validate_def rbind_Inr_iff rmap_Inr_iff)
  ultimately show ?thesis
    using v(2) by auto
qed

lemma example_graph_checks:
  "\<exists>g1. validate [] example_graph = Inr g1" "names_free example_graph" "specs_ok example_graph"
  "df_timeout (sg_defaults example_graph) = None" "handler_free example_graph"
  by (simp_all add: example_graph_def builder_simps compile_simps names_free_def specs_ok_def handler_free_def)

lemma validated_builder_compiles_witness:
  "\<exists>g' cg. compile_graph example_env (Some []) (Some []) example_graph = Inr (g', cg)"
proof -
  obtain g1 where "validate (interrupts_to_check (Some []) (Some [])) example_graph = Inr g1"
    using example_graph_checks(1) by (auto simp: interrupts_to_check_def)
  from validated_builder_compiles [OF example_graph_built this example_graph_checks(2-5), of example_env]
  show ?thesis by auto
qed

subsection \<open>Compiling changes the builder\<close>

text \<open>
  A builder with a default error handler compiles once: the handler's node stays in the builder, so
  that every later \<open>compile\<close> of the same builder raises.
\<close>

theorem default_handler_compiles_once:
  assumes "compile_graph env before after g = Inr (g', cg)" and "df_error_handler (sg_defaults g) \<noteq> None"
  shows "compile_graph env' before' after' g' \<noteq> Inr r"
proof
  assume again: "compile_graph env' before' after' g' = Inr r"
  obtain h handler where h: "add_default_handler (g\<lparr>sg_compiled := True\<rparr>) = Inr (h, handler)"
    and h1: "dmem DEFAULT_ERROR_HANDLER_NODE (sg_nodes h)" "sg_defaults h = sg_defaults g"
  proof -
    obtain g1 where "validate (interrupts_to_check before after) g = Inr g1"
      using assms(1) by (auto simp: compile_graph_def rbind_Inr_iff)
    then obtain h handler where "add_default_handler (g\<lparr>sg_compiled := True\<rparr>) = Inr (h, handler)"
      using assms(1) validate_builder by (fastforce simp: compile_graph_def rbind_Inr_iff)
    with that assms(2) show thesis
      by (fastforce simp: add_default_handler_def split: if_splits)
  qed
  have "g' = h\<lparr>sg_nodes := map (\<lambda>(n, spec). (n, apply_defaults (sg_defaults h) handler spec)) (sg_nodes h)\<rparr>"
    using compile_builder(1) [OF assms(1)] h by (simp add: builder_after_def)
  with h1 have g': "dmem DEFAULT_ERROR_HANDLER_NODE (sg_nodes g')" "sg_defaults g' = sg_defaults g" by simp_all
  obtain g2 where "validate (interrupts_to_check before' after') g' = Inr g2"
    using again by (auto simp: compile_graph_def rbind_Inr_iff)
  then have "\<exists>x. add_default_handler (g'\<lparr>sg_compiled := True\<rparr>) = Inr x"
    using again validate_builder by (fastforce simp: compile_graph_def rbind_Inr_iff)
  with g' assms(2) show False by (auto simp: add_default_handler_def)
qed

definition handled_builder :: state_graph where
  "handled_builder = set_node_defaults None None (Some (example_runnable ''h'')) None example_graph"

lemma default_handler_compiles_once_witness:
  "\<exists>g' cg. compile_graph example_env (Some []) (Some []) handled_builder = Inr (g', cg)
    \<and> compile_graph example_env (Some []) (Some []) g' \<noteq> Inr (g', cg)"
proof -
  have "\<exists>g' cg. compile_graph example_env (Some []) (Some []) handled_builder = Inr (g', cg)"
    by (simp add: handled_builder_def set_node_defaults_def example_graph_def builder_simps compile_simps handler_spec_def
        DEFAULT_ERROR_HANDLER_NODE_def)
  then obtain g' cg where c: "compile_graph example_env (Some []) (Some []) handled_builder = Inr (g', cg)" by blast
  have "df_error_handler (sg_defaults handled_builder) \<noteq> None"
    by (simp add: handled_builder_def set_node_defaults_def)
  from default_handler_compiles_once [OF c this] c show ?thesis by blast
qed

subsection \<open>The names of joins\<close>

lemma split_target:
  assumes "CHR '':'' \<notin> set t" "CHR '':'' \<notin> set t'" and "a @ '':'' @ t = b @ '':'' @ t'"
  shows "a = b \<and> t = t'"
proof -
  have "rev t @ CHR '':'' # rev a = rev t' @ CHR '':'' # rev b"
    using arg_cong [OF assms(3), of rev] by simp
  moreover have "takeWhile (\<lambda>c. c \<noteq> CHR '':'') (rev u @ CHR '':'' # x) = rev u" if "CHR '':'' \<notin> set u" for u x
    by (rule trans [OF takeWhile_append2]) (use that in auto)
  ultimately have "rev t = rev t'" using assms(1,2) by metis
  with assms(3) show ?thesis by simp
qed

lemma split_join: "ss \<noteq> [] \<Longrightarrow> \<forall>s \<in> set ss. c \<notin> set s \<Longrightarrow> split_on c (str_join [c] ss) = ss"
proof (induction ss)
  case (Cons s ss)
  then show ?case
    by (cases ss) (simp_all add: split_on_append)
qed simp

text \<open>
  Joins with different starts or ends have different channels, as long as no name contains a plus;
  separators are already excluded from names. With a plus, two joins into one node can share a channel: the
  graph compiles, the channel waits for the starts of the last join only, and the first start of the
  other one fails the step.
\<close>

theorem join_channels_differ:
  assumes "ss \<noteq> []" "ss' \<noteq> []" and "\<forall>s \<in> set ss \<union> set ss'. CHR ''+'' \<notin> set s"
    and "plain_name t" "plain_name t'"
  shows "join_channel ss t = join_channel ss' t' \<longleftrightarrow> ss = ss' \<and> t = t'"
proof
  assume "join_channel ss t = join_channel ss' t'"
  then have "str_join ''+'' ss @ '':'' @ t = str_join ''+'' ss' @ '':'' @ t'" by (simp add: join_channel_def)
  then have eq: "str_join ''+'' ss = str_join ''+'' ss' \<and> t = t'"
    using assms(4,5) by (intro split_target) (simp_all add: plain_name_def const_defs)
  have "ss = split_on (CHR ''+'') (str_join ''+'' ss)" "ss' = split_on (CHR ''+'') (str_join ''+'' ss')"
    using split_join assms(1-3) by simp_all
  with eq show "ss = ss' \<and> t = t'" by metis
qed simp

lemma join_channels_differ_witness:
  "join_channel [''a'', ''b''] ''t'' \<noteq> join_channel [''a''] ''t''"
  using join_channels_differ [of "[''a'', ''b'']" "[''a'']" "''t''" "''t''"]
  by (simp add: plain_name_def const_defs)

definition plus_builder :: "state_graph res" where
  "plus_builder =
     rbind (StateGraph_init example_schema None None) (\<lambda>g.
     rbind (rfold (\<lambda>g n. add_node (NodeName n (Some (example_action n))) default_args g) g
              [''a'', ''a+b'', ''b+c'', ''c'', ''t'']) (\<lambda>g.
     rbind (rfold (\<lambda>g n. add_edge START n g) g [''a'', ''a+b'', ''b+c'', ''c'']) (\<lambda>g.
     rbind (add_waiting_edge [''a'', ''b+c''] ''t'' g) (add_waiting_edge [''a+b'', ''c''] ''t''))))"

text \<open>
  Such a graph: the builder accepts the joins of \<open>a+b\<close> and \<open>c\<close> and of \<open>a\<close> and \<open>b+c\<close> into one node and
  compiles them to one channel, on which \<open>a+b\<close>, when it finishes, raises an \<open>InvalidUpdateError\<close>.
\<close>

theorem join_channel_collision:
  "\<exists>g g' cg c e. plus_builder = Inr g \<and> compile_graph example_env (Some []) (Some []) g = Inr (g', cg)
    \<and> join_channel [''a+b'', ''c''] ''t'' = join_channel [''a'', ''b+c''] ''t''
    \<and> map_of (cg_channels cg) (join_channel [''a+b'', ''c''] ''t'') = Some (SpecChannel c)
    \<and> channel_update c [VStr ''a+b''] = Inl (InvalidUpdateError e)"
  by (simp add: plus_builder_def builder_simps compile_simps add_waiting_edge_def attach_waiting_edge_def
      join_channel_def barrier_channel_def NamedBarrierValue_defs)

end
