(* ===== verification/Store_Text.thy ===== *)
theory Store_Text
  imports LG_Prelude
begin

section \<open>Text of stored values\<close>

text \<open>
  \<open>tokenize_path\<close> and \<open>get_text_at_path\<close> (\<open>store/base/embed.py\<close>): which texts of a stored value are
  embedded for search. The parts of Python's library they call are here as well: \<open>int\<close> and \<open>str.strip\<close> on
  Latin-1 strings, \<open>json.dumps\<close> with sorted keys. Floats are not in the value universe.
\<close>

subsection \<open>Python's strings\<close>

definition is_space :: "char \<Rightarrow> bool" where
  "is_space c = (let n = of_char c :: nat in 9 \<le> n \<and> n \<le> 13 \<or> 28 \<le> n \<and> n \<le> 32 \<or> n = 133 \<or> n = 160)"

definition py_strip :: "string \<Rightarrow> string" where
  "py_strip s = rev (dropWhile is_space (rev (dropWhile is_space s)))"

definition starts_with :: "string \<Rightarrow> string \<Rightarrow> bool" where
  "starts_with p s = (take (length p) s = p)"

definition ends_with :: "string \<Rightarrow> string \<Rightarrow> bool" where
  "ends_with p s = starts_with (rev p) (rev s)"

text \<open>\<open>int(s)\<close>: blanks around, a sign, digits with single underscores between them.\<close>

fun int_rest :: "nat \<Rightarrow> string \<Rightarrow> nat option" where
  "int_rest a [] = Some a"
| "int_rest a (c # cs) =
     (case char_digit c of
       Some d \<Rightarrow> int_rest (10 * a + d) cs
     | None \<Rightarrow>
         if c = CHR ''_''
         then (case cs of
                 [] \<Rightarrow> None
               | x # xs \<Rightarrow> (case char_digit x of Some d \<Rightarrow> int_rest (10 * a + d) xs | None \<Rightarrow> None))
         else None)"

fun int_digits :: "string \<Rightarrow> nat option" where
  "int_digits [] = None"
| "int_digits (c # cs) = (case char_digit c of Some d \<Rightarrow> int_rest d cs | None \<Rightarrow> None)"

definition int_literal :: "string \<Rightarrow> int option" where
  "int_literal s =
     (case s of
       [] \<Rightarrow> None
     | c # cs \<Rightarrow>
         if c = CHR ''-'' then map_option (\<lambda>n. - int n) (int_digits cs)
         else if c = CHR ''+'' then map_option int (int_digits cs)
         else map_option int (int_digits (c # cs)))"

definition py_int :: "string \<Rightarrow> int option" where
  "py_int s = int_literal (py_strip s)"

subsection \<open>JSON\<close>

definition hex_digit :: "nat \<Rightarrow> char" where
  "hex_digit n = (if n < 10 then digit_char n else char_of (87 + n))"

definition json_char :: "char \<Rightarrow> string" where
  "json_char c =
     (let n = of_char c :: nat in
      if n = 34 then [CHR 0x5C, c]
      else if n = 92 then [c, c]
      else if n = 10 then [CHR 0x5C, CHR ''n'']
      else if n = 13 then [CHR 0x5C, CHR ''r'']
      else if n = 9 then [CHR 0x5C, CHR ''t'']
      else if n = 8 then [CHR 0x5C, CHR ''b'']
      else if n = 12 then [CHR 0x5C, CHR ''f'']
      else if n < 32 then CHR 0x5C # ''u00'' @ [hex_digit (n div 16), hex_digit (n mod 16)]
      else [c])"

definition json_string :: "string \<Rightarrow> string" where
  "json_string s = CHR 0x22 # concat (map json_char s) @ [CHR 0x22]"

fun json_dumps :: "pyval \<Rightarrow> string res"
and json_items :: "pyval list \<Rightarrow> string list res"
and json_fields :: "(string \<times> pyval) list \<Rightarrow> (string \<times> string) list res" where
  "json_dumps VNone = Inr ''null''"
| "json_dumps (VBool b) = Inr (if b then ''true'' else ''false'')"
| "json_dumps (VInt i) = Inr (str_of_int i)"
| "json_dumps (VStr s) = Inr (json_string s)"
| "json_dumps (VList vs) = rmap (\<lambda>ss. ''['' @ str_join '', '' ss @ '']'') (json_items vs)"
| "json_dumps (VTuple vs) = rmap (\<lambda>ss. ''['' @ str_join '', '' ss @ '']'') (json_items vs)"
| "json_dumps (VDict d) =
     rmap (\<lambda>fs. ''{'' @ str_join '', '' (map snd (sort_key fst fs)) @ ''}'') (json_fields d)"
| "json_dumps _ = Inl (TypeError ''not JSON serializable'')"
| "json_items [] = Inr []"
| "json_items (v # vs) = rbind (json_dumps v) (\<lambda>s. rmap (\<lambda>ss. s # ss) (json_items vs))"
| "json_fields [] = Inr []"
| "json_fields ((k, v) # d) =
     rbind (json_dumps v) (\<lambda>s. rmap (\<lambda>fs. (k, json_string k @ '': '' @ s) # fs) (json_fields d))"

subsection \<open>Paths\<close>

text \<open>
  A bracketed group up to its matching close, with the brackets that are open; an unclosed group takes
  the rest of the path.
\<close>

fun take_group :: "char \<Rightarrow> char \<Rightarrow> nat \<Rightarrow> string \<Rightarrow> string \<times> string" where
  "take_group a b 0 s = ([], s)"
| "take_group a b (Suc n) [] = ([], [])"
| "take_group a b (Suc n) (c # cs) =
     (let (g, r) = take_group a b (if c = a then Suc (Suc n) else if c = b then n else Suc n) cs
      in (c # g, r))"

lemma take_group_length: "length (snd (take_group a b n s)) \<le> length s"
  by (induction a b n s rule: take_group.induct) (auto simp: case_prod_unfold Let_def le_SucI)

definition open_field :: "string \<Rightarrow> string list" where
  "open_field cur = (if cur = [] then [] else [cur])"

function tokenize_from :: "string \<Rightarrow> string \<Rightarrow> string list" where
  "tokenize_from cur [] = open_field cur"
| "tokenize_from cur (c # cs) =
     (if c = CHR ''['' then
        let gr = take_group (CHR ''['') (CHR '']'') 1 cs in open_field cur @ (c # fst gr) # tokenize_from [] (snd gr)
      else if c = CHR ''{'' then
        let gr = take_group (CHR ''{'') (CHR ''}'') 1 cs in open_field cur @ (c # fst gr) # tokenize_from [] (snd gr)
      else if c = CHR ''.'' then open_field cur @ tokenize_from [] cs
      else tokenize_from (cur @ [c]) cs)"
  by pat_completeness auto
termination
  by (relation "measure (\<lambda>(cur, s). length s)") (auto simp: le_imp_less_Suc take_group_length)

definition tokenize_path :: "string \<Rightarrow> string list" where
  "tokenize_path path = tokenize_from [] path"

datatype text_path = PathStr string | PathTokens "string list"

text \<open>What is collected at the end of a path.\<close>

fun py_str :: "pyval \<Rightarrow> string" where
  "py_str (VStr s) = s"
| "py_str (VInt i) = str_of_int i"
| "py_str (VBool b) = (if b then ''True'' else ''False'')"
| "py_str _ = []"

fun leaf_text :: "pyval \<Rightarrow> string list res" where
  "leaf_text (VStr s) = Inr [py_str (VStr s)]"
| "leaf_text (VInt i) = Inr [py_str (VInt i)]"
| "leaf_text (VBool b) = Inr [py_str (VBool b)]"
| "leaf_text (VList vs) = rmap (\<lambda>s. [s]) (json_dumps (VList vs))"
| "leaf_text (VDict d) = rmap (\<lambda>s. [s]) (json_dumps (VDict d))"
| "leaf_text _ = Inr []"

fun rconcat :: "('a \<Rightarrow> 'b list res) \<Rightarrow> 'a list \<Rightarrow> 'b list res" where
  "rconcat f [] = Inr []"
| "rconcat f (x # xs) = rbind (f x) (\<lambda>ys. rmap (\<lambda>zs. ys @ zs) (rconcat f xs))"

fun walk_fields :: "string list \<Rightarrow> pyval \<Rightarrow> pyval" where
  "walk_fields [] v = v"
| "walk_fields (t # ts) (VDict d) = (case map_of d t of Some v \<Rightarrow> walk_fields ts v | None \<Rightarrow> VNone)"
| "walk_fields (t # ts) v = VNone"

definition multi_field_text :: "pyval \<Rightarrow> string \<Rightarrow> string list res" where
  "multi_field_text obj field =
     (let ts = tokenize_path field in if ts = [] then Inr [] else leaf_text (walk_fields ts obj))"

fun extract_from_obj :: "string list \<Rightarrow> pyval \<Rightarrow> string list res" where
  "extract_from_obj [] obj = leaf_text obj"
| "extract_from_obj (t # ts) obj =
     (if starts_with ''['' t \<and> ends_with '']'' t then
        (case obj of
          VList xs \<Rightarrow>
            (let index = butlast (tl t) in
             if index = ''*'' then rconcat (\<lambda>x. extract_from_obj ts x) xs
             else (case py_int index of
                     None \<Rightarrow> Inr []
                   | Some i \<Rightarrow>
                       let j = (if i < 0 then int (length xs) + i else i)
                       in if 0 \<le> j \<and> j < int (length xs) then extract_from_obj ts (xs ! nat j) else Inr []))
        | _ \<Rightarrow> Inr [])
      else if starts_with ''{'' t \<and> ends_with ''}'' t then
        (case obj of
          VDict d \<Rightarrow> rconcat (\<lambda>f. multi_field_text obj (py_strip f)) (split_on (CHR '','') (butlast (tl t)))
        | _ \<Rightarrow> Inr [])
      else if t = ''*'' then
        (case obj of
          VDict d \<Rightarrow> rconcat (\<lambda>x. extract_from_obj ts x) (map snd d)
        | VList xs \<Rightarrow> rconcat (\<lambda>x. extract_from_obj ts x) xs
        | _ \<Rightarrow> Inr [])
      else
        (case obj of
          VDict d \<Rightarrow> (case map_of d t of Some v \<Rightarrow> extract_from_obj ts v | None \<Rightarrow> Inr [])
        | _ \<Rightarrow> Inr []))"

fun get_text_at_path :: "pyval \<Rightarrow> text_path \<Rightarrow> string list res" where
  "get_text_at_path obj (PathStr p) =
     (if p = [] \<or> p = ''$'' then rmap (\<lambda>s. [s]) (json_dumps obj) else extract_from_obj (tokenize_path p) obj)"
| "get_text_at_path obj (PathTokens ts) =
     (if ts = [] then rmap (\<lambda>s. [s]) (json_dumps obj) else extract_from_obj ts obj)"

subsection \<open>Paths of plain names\<close>

definition plain_field :: "string \<Rightarrow> bool" where
  "plain_field f = (f \<noteq> [] \<and> set f \<inter> {CHR ''['', CHR ''{'', CHR ''.''} = {})"

lemma tokenize_plain:
  assumes "set f \<inter> {CHR ''['', CHR ''{'', CHR ''.''} = {}"
  shows "tokenize_from cur (f @ s) = tokenize_from (cur @ f) s"
  using assms by (induction f arbitrary: cur) auto

theorem tokenize_path_join:
  assumes "fs \<noteq> []" and "\<forall>f \<in> set fs. plain_field f"
  shows "tokenize_path (str_join ''.'' fs) = fs"
  using assms
proof (induction fs rule: list_nonempty_induct)
  case (single f)
  then show ?case
    using tokenize_plain [of f "[]" "[]"] by (simp add: tokenize_path_def plain_field_def open_field_def)
next
  case (cons f fs)
  then show ?case
    using tokenize_plain [of f "[]" "''.'' @ str_join ''.'' fs"]
    by (simp add: tokenize_path_def plain_field_def open_field_def str_join_Cons)
qed

end
