(* ===== verification/Store_Base.thy ===== *)
theory Store_Base
  imports Store_Text Complex_Main
begin

section \<open>Stores: items, operations and the interface\<close>

text \<open>
  \<open>store/base/__init__.py\<close>: items, the four operations, namespaces and the public methods of
  \<open>BaseStore\<close>. A store implements \<open>batch\<close>; the methods build one operation and take its result, so
  they are functions of an arbitrary \<open>batch\<close> here. The async methods have the same bodies.
  \<open>datetime\<close>s are integers; scores, vectors and the ttl in minutes are real numbers.
\<close>

subsection \<open>Items and operations\<close>

type_synonym namespace = "string list"
type_synonym vec = "real list"

record item =
  it_value :: "(string, pyval) dict"
  it_key :: string
  it_namespace :: namespace
  it_created_at :: int
  it_updated_at :: int

definition SearchItem :: "item \<Rightarrow> real option \<Rightarrow> item \<times> real option" where
  "SearchItem it score = (it, score)"

record get_op =
  go_namespace :: namespace
  go_key :: string
  go_refresh_ttl :: bool

record search_op =
  so_namespace_prefix :: namespace
  so_filter :: "(string, pyval) dict option"
  so_limit :: int
  so_offset :: int
  so_query :: "string option"
  so_refresh_ttl :: bool

datatype match_type = MatchPrefix | MatchSuffix | MatchOther string

record match_condition =
  mc_match_type :: match_type
  mc_path :: namespace

record list_op =
  lo_match_conditions :: "match_condition list option"
  lo_max_depth :: "int option"
  lo_limit :: int
  lo_offset :: int

datatype put_index = IndexDefault | IndexFalse | IndexFields "string list"

record put_op =
  po_namespace :: namespace
  po_key :: string
  po_value :: "(string, pyval) dict option"
  po_index :: put_index
  po_ttl :: "real option"

datatype op = GetOp get_op | SearchOp search_op | ListNamespacesOp list_op | PutOp put_op

datatype op_result =
    ResNone
  | ResItem item
  | ResSearch "(item \<times> real option) list"
  | ResNamespaces "namespace list"

subsection \<open>Namespaces and time to live\<close>

definition InvalidNamespaceError :: py_exc where
  "InvalidNamespaceError = UserError ''InvalidNamespaceError''"

text \<open>Labels are strings here; the check that raises for anything else has nothing to check.\<close>

definition validate_namespace :: "namespace \<Rightarrow> unit res" where
  "validate_namespace ns =
     (if ns = [] then Inl InvalidNamespaceError
      else rbind (rfold (\<lambda>u label. if CHR ''.'' \<in> set label then Inl InvalidNamespaceError
                               else if label = [] then Inl InvalidNamespaceError
                               else Inr u) () ns)
             (\<lambda>u. if hd ns = ''langgraph'' then Inl InvalidNamespaceError else Inr ()))"

record ttl_config =
  tc_refresh_on_read :: "bool option"
  tc_default_ttl :: "real option"

definition ensure_refresh :: "ttl_config option \<Rightarrow> bool option \<Rightarrow> bool" where
  "ensure_refresh cfg refresh =
     (case refresh of
       Some b \<Rightarrow> b
     | None \<Rightarrow> (case cfg of Some c \<Rightarrow> (case tc_refresh_on_read c of Some b \<Rightarrow> b | None \<Rightarrow> True) | None \<Rightarrow> True))"

text \<open>\<open>NOT_PROVIDED\<close> is the outer \<open>None\<close>; an empty configuration has no default either way.\<close>

definition ensure_ttl :: "ttl_config option \<Rightarrow> real option option \<Rightarrow> real option" where
  "ensure_ttl cfg ttl =
     (case ttl of None \<Rightarrow> (case cfg of Some c \<Rightarrow> tc_default_ttl c | None \<Rightarrow> None) | Some t \<Rightarrow> t)"

subsection \<open>The public methods\<close>

text \<open>
  A store class: whether it supports a ttl, its ttl configuration, and \<open>batch\<close>, which turns a state and
  operations into one result for each and the new state.
\<close>

record 's store_class =
  sc_supports_ttl :: bool
  sc_ttl_config :: "ttl_config option"
  sc_batch :: "op list \<Rightarrow> 's \<Rightarrow> (op_result list \<times> 's) res"

definition batch_one :: "'s store_class \<Rightarrow> op \<Rightarrow> 's \<Rightarrow> (op_result \<times> 's) res" where
  "batch_one cls op s = rbind (sc_batch cls [op] s) (\<lambda>(rs, s').
     case rs of [] \<Rightarrow> Inl IndexError | r # _ \<Rightarrow> Inr (r, s'))"

definition store_get ::
  "'s store_class \<Rightarrow> namespace \<Rightarrow> string \<Rightarrow> bool option \<Rightarrow> 's \<Rightarrow> (op_result \<times> 's) res" where
  "store_get cls ns key refresh =
     batch_one cls (GetOp \<lparr>go_namespace = ns, go_key = key,
                       go_refresh_ttl = ensure_refresh (sc_ttl_config cls) refresh\<rparr>)"

definition store_search ::
  "'s store_class \<Rightarrow> namespace \<Rightarrow> string option \<Rightarrow> (string, pyval) dict option \<Rightarrow> int \<Rightarrow> int \<Rightarrow> bool option
    \<Rightarrow> 's \<Rightarrow> (op_result \<times> 's) res" where
  "store_search cls prefix query filt limit offset refresh =
     batch_one cls (SearchOp \<lparr>so_namespace_prefix = prefix, so_filter = filt, so_limit = limit, so_offset = offset,
                       so_query = query, so_refresh_ttl = ensure_refresh (sc_ttl_config cls) refresh\<rparr>)"

definition store_put ::
  "'s store_class \<Rightarrow> namespace \<Rightarrow> string \<Rightarrow> (string, pyval) dict option \<Rightarrow> put_index \<Rightarrow> real option option
    \<Rightarrow> 's \<Rightarrow> (op_result \<times> 's) res" where
  "store_put cls ns key val index ttl s =
     rbind (validate_namespace ns) (\<lambda>_.
       if ttl \<noteq> None \<and> ttl \<noteq> Some None \<and> \<not> sc_supports_ttl cls then Inl (UserError ''NotImplementedError'')
       else rmap (\<lambda>(rs, s'). (ResNone, s'))
              (sc_batch cls [PutOp \<lparr>po_namespace = ns, po_key = key, po_value = val, po_index = index,
                                po_ttl = ensure_ttl (sc_ttl_config cls) ttl\<rparr>] s))"

definition store_delete :: "'s store_class \<Rightarrow> namespace \<Rightarrow> string \<Rightarrow> 's \<Rightarrow> (op_result \<times> 's) res" where
  "store_delete cls ns key s =
     rmap (\<lambda>(rs, s'). (ResNone, s'))
       (sc_batch cls [PutOp \<lparr>po_namespace = ns, po_key = key, po_value = None, po_index = IndexDefault,
                         po_ttl = None\<rparr>] s)"

definition store_list_namespaces ::
  "'s store_class \<Rightarrow> namespace option \<Rightarrow> namespace option \<Rightarrow> int option \<Rightarrow> int \<Rightarrow> int
    \<Rightarrow> 's \<Rightarrow> (op_result \<times> 's) res" where
  "store_list_namespaces cls prefix suffix max_depth limit offset =
     (let cond = (\<lambda>t p. case p of Some (x # xs) \<Rightarrow> [\<lparr>mc_match_type = t, mc_path = x # xs\<rparr>] | _ \<Rightarrow> [])
      in batch_one cls (ListNamespacesOp
           \<lparr>lo_match_conditions = Some (cond MatchPrefix prefix @ cond MatchSuffix suffix),
            lo_max_depth = max_depth, lo_limit = limit, lo_offset = offset\<rparr>))"

lemma validate_namespace_Inr:
  "validate_namespace ns = Inr u \<longleftrightarrow>
    ns \<noteq> [] \<and> (\<forall>l \<in> set ns. l \<noteq> [] \<and> CHR ''.'' \<notin> set l) \<and> hd ns \<noteq> ''langgraph''"
proof -
  have "rfold (\<lambda>u label. if CHR ''.'' \<in> set label then Inl InvalidNamespaceError
                   else if label = [] then Inl InvalidNamespaceError else Inr u) () xs = Inr ()
     \<longleftrightarrow> (\<forall>l \<in> set xs. l \<noteq> [] \<and> CHR ''.'' \<notin> set l)" for xs :: namespace
    by (induction xs) auto
  then show ?thesis by (auto simp: validate_namespace_def rbind_Inr_iff)
qed

end
