(* ===== verification/Memory_Store.thy ===== *)
theory Memory_Store
  imports Store_Base
begin

section \<open>The in-memory store\<close>

text \<open>
  \<open>InMemoryStore\<close> (\<open>store/memory/__init__.py\<close>): its two nested dictionaries and every operation on them.
  Both are \<open>defaultdict\<close>s, so that looking up a namespace creates it (\<open>touch\<close>). The embedding
  functions are parameters; arithmetic on vectors is that of the reals, and the similarity is the one of the
  branch without NumPy. The clock is a function from the number of the reading.
\<close>

subsection \<open>Comparing values\<close>

text \<open>\<open>a == b\<close> on values: a bool is an integer, dictionaries are compared without their order.\<close>

fun as_number :: "pyval \<Rightarrow> int option" where
  "as_number (VBool b) = Some (if b then 1 else 0)"
| "as_number (VInt i) = Some i"
| "as_number _ = None"

fun py_eq :: "pyval \<Rightarrow> pyval \<Rightarrow> bool"
and py_eq_list :: "pyval list \<Rightarrow> pyval list \<Rightarrow> bool"
and py_eq_fields :: "(string \<times> pyval) list \<Rightarrow> (string \<times> pyval) list \<Rightarrow> bool" where
  "py_eq (VList xs) w = (case w of VList ys \<Rightarrow> py_eq_list xs ys | _ \<Rightarrow> False)"
| "py_eq (VTuple xs) w = (case w of VTuple ys \<Rightarrow> py_eq_list xs ys | _ \<Rightarrow> False)"
| "py_eq (VDict d) w = (case w of VDict e \<Rightarrow> length d = length e \<and> py_eq_fields d e | _ \<Rightarrow> False)"
| "py_eq (VBool b) w = (as_number w = as_number (VBool b))"
| "py_eq (VInt i) w = (as_number w = as_number (VInt i))"
| "py_eq v w = (v = w)"
| "py_eq_list [] ys = (ys = [])"
| "py_eq_list (x # xs) ys = (case ys of [] \<Rightarrow> False | y # ys \<Rightarrow> py_eq x y \<and> py_eq_list xs ys)"
| "py_eq_fields [] e = True"
| "py_eq_fields ((k, v) # d) e = (case map_of e k of Some w \<Rightarrow> py_eq v w \<and> py_eq_fields d e | None \<Rightarrow> False)"

text \<open>
  \<open>float(v)\<close>: integers are rounded to 53 bits, half to even. What \<open>float\<close> makes of a string is a
  parameter, \<open>None\<close> where it raises.
\<close>

datatype pyfloat = F_nan | F_ninf | F_num real | F_inf

fun bit_count :: "nat \<Rightarrow> nat" where
  "bit_count n = (if n = 0 then 0 else Suc (bit_count (n div 2)))"

declare bit_count.simps [simp del]

definition round53 :: "nat \<Rightarrow> nat" where
  "round53 n =
     (if bit_count n \<le> 53 then n
      else let u = 2 ^ (bit_count n - 53); q = n div u; r = n mod u
           in (if 2 * r > u \<or> 2 * r = u \<and> odd q then q + 1 else q) * u)"

definition float_of_int :: "int \<Rightarrow> pyfloat res" where
  "float_of_int i =
     (let a = round53 (nat \<bar>i\<bar>) in
      if bit_count a > 1024 then Inl (UserError ''OverflowError'')
      else Inr (F_num (if i < 0 then - real a else real a)))"

type_synonym float_parser = "string \<Rightarrow> pyfloat option"

fun py_float :: "float_parser \<Rightarrow> pyval \<Rightarrow> pyfloat res" where
  "py_float parse (VBool b) = Inr (F_num (if b then 1 else 0))"
| "py_float parse (VInt i) = float_of_int i"
| "py_float parse (VStr s) = (case parse s of Some f \<Rightarrow> Inr f | None \<Rightarrow> Inl (ValueError ''could not convert string to float''))"
| "py_float parse _ = Inl (TypeError ''float() argument'')"

fun float_less :: "pyfloat \<Rightarrow> pyfloat \<Rightarrow> bool" where
  "float_less F_nan b = False"
| "float_less a F_nan = False"
| "float_less F_ninf b = (b \<noteq> F_ninf)"
| "float_less (F_num x) b = (case b of F_num y \<Rightarrow> x < y | F_inf \<Rightarrow> True | _ \<Rightarrow> False)"
| "float_less F_inf b = False"

definition float_leq :: "pyfloat \<Rightarrow> pyfloat \<Rightarrow> bool" where
  "float_leq a b = (a \<noteq> F_nan \<and> (float_less a b \<or> a = b))"

definition compare_floats ::
  "float_parser \<Rightarrow> (pyfloat \<Rightarrow> pyfloat \<Rightarrow> bool) \<Rightarrow> pyval \<Rightarrow> pyval \<Rightarrow> bool res" where
  "compare_floats parse rel v w = rbind (py_float parse v) (\<lambda>x. rmap (\<lambda>y. rel x y) (py_float parse w))"

definition apply_operator :: "float_parser \<Rightarrow> pyval \<Rightarrow> string \<Rightarrow> pyval \<Rightarrow> bool res" where
  "apply_operator parse v operator w =
     (if operator = ''$eq'' then Inr (py_eq v w)
      else if operator = ''$gt'' then compare_floats parse (\<lambda>x y. float_less y x) v w
      else if operator = ''$gte'' then compare_floats parse (\<lambda>x y. float_leq y x) v w
      else if operator = ''$lt'' then compare_floats parse float_less v w
      else if operator = ''$lte'' then compare_floats parse float_leq v w
      else if operator = ''$ne'' then Inr (\<not> py_eq v w)
      else Inl (ValueError ''Unsupported operator''))"

text \<open>\<open>all(...)\<close>: stops at the first false one, or at the first exception.\<close>

fun rall :: "('a \<Rightarrow> bool res) \<Rightarrow> 'a list \<Rightarrow> bool res" where
  "rall f [] = Inr True"
| "rall f (x # xs) = rbind (f x) (\<lambda>b. if b then rall f xs else Inr False)"

definition seq_items :: "pyval \<Rightarrow> pyval list option" where
  "seq_items v = (case v of VList xs \<Rightarrow> Some xs | VTuple xs \<Rightarrow> Some xs | _ \<Rightarrow> None)"

fun compare_values :: "float_parser \<Rightarrow> pyval \<Rightarrow> pyval \<Rightarrow> bool res"
and compare_seq :: "float_parser \<Rightarrow> pyval list \<Rightarrow> pyval list \<Rightarrow> bool res"
and compare_fields :: "float_parser \<Rightarrow> (string, pyval) dict \<Rightarrow> (string \<times> pyval) list \<Rightarrow> bool res" where
  "compare_values parse v (VDict d) =
     (if \<exists>k \<in> set (map fst d). starts_with ''$'' k
      then rall (\<lambda>(k, w). apply_operator parse v k w) d
      else case v of VDict e \<Rightarrow> compare_fields parse e d | _ \<Rightarrow> Inr False)"
| "compare_values parse v (VList ws) =
     (case seq_items v of
       Some vs \<Rightarrow> if length vs = length ws then compare_seq parse vs ws else Inr False
     | None \<Rightarrow> Inr False)"
| "compare_values parse v (VTuple ws) =
     (case seq_items v of
       Some vs \<Rightarrow> if length vs = length ws then compare_seq parse vs ws else Inr False
     | None \<Rightarrow> Inr False)"
| "compare_values parse v w = Inr (py_eq v w)"
| "compare_seq parse vs [] = Inr True"
| "compare_seq parse vs (w # ws) =
     (case vs of
       [] \<Rightarrow> Inr True
     | v # vs \<Rightarrow> rbind (compare_values parse v w) (\<lambda>b. if b then compare_seq parse vs ws else Inr False))"
| "compare_fields parse e [] = Inr True"
| "compare_fields parse e ((k, w) # d) =
     rbind (compare_values parse (dgetd e k VNone) w) (\<lambda>b. if b then compare_fields parse e d else Inr False)"

subsection \<open>Slices\<close>

text \<open>\<open>xs[lo:hi]\<close>, negative bounds counted from the end.\<close>

definition slice_bound :: "nat \<Rightarrow> int \<Rightarrow> nat" where
  "slice_bound n i = (if i < 0 then nat (int n + i) else min (nat i) n)"

definition py_slice :: "int \<Rightarrow> int \<Rightarrow> 'a list \<Rightarrow> 'a list" where
  "py_slice lo hi xs =
     (let n = length xs; a = slice_bound n lo in take (slice_bound n hi - a) (drop a xs))"

lemma py_slice_nat: "py_slice (int a) (int b) xs = take (b - a) (drop a xs)"
  by (simp add: py_slice_def slice_bound_def Let_def min_def)

subsection \<open>The store\<close>

record embeddings =
  em_documents :: "string list \<Rightarrow> vec list res"
  em_query :: "string \<Rightarrow> vec res"

text \<open>An index configuration that is not empty, with the embeddings its \<open>embed\<close> stands for, if any.\<close>

record index_config =
  ix_embed :: "embeddings option"
  ix_fields :: "string list option"

type_synonym item_path = "namespace \<times> string \<times> string"

record memory_store =
  ms_data :: "(namespace, (string, item) dict) dict"
  ms_vectors :: "(namespace, (string, (string, vec) dict) dict) dict"
  ms_fields :: "(string \<times> text_path) list"
  ms_embeddings :: "embeddings option"

record store_env =
  se_parse :: float_parser
  se_clock :: "nat \<Rightarrow> int"

definition InMemoryStore_init :: "index_config option \<Rightarrow> memory_store res" where
  "InMemoryStore_init index =
     (case index of
       None \<Rightarrow> Inr \<lparr>ms_data = [], ms_vectors = [], ms_fields = [], ms_embeddings = None\<rparr>
     | Some cfg \<Rightarrow>
         (case ix_embed cfg of
           None \<Rightarrow> Inl (ValueError ''embed must be provided'')
         | Some em \<Rightarrow>
             let fields = (case ix_fields cfg of Some (f # fs) \<Rightarrow> f # fs | _ \<Rightarrow> [''$''])
             in Inr \<lparr>ms_data = [], ms_vectors = [],
                  ms_fields = map (\<lambda>p. if p \<noteq> ''$'' then (p, PathTokens (tokenize_path p)) else (p, PathStr p)) fields,
                  ms_embeddings = Some em\<rparr>))"

text \<open>\<open>d[ns]\<close> on a \<open>defaultdict\<close>: the entry, and the dictionary in which it now exists.\<close>

definition touch :: "'k \<Rightarrow> ('k, ('a, 'b) dict) dict \<Rightarrow> ('k, ('a, 'b) dict) dict" where
  "touch ns d = (if dmem ns d then d else dset ns [] d)"

definition entry :: "'k \<Rightarrow> ('k, ('a, 'b) dict) dict \<Rightarrow> ('a, 'b) dict" where
  "entry ns d = dgetd d ns []"

subsection \<open>Searching\<close>

definition has_query :: "search_op \<Rightarrow> bool" where
  "has_query op = (case so_query op of Some q \<Rightarrow> q \<noteq> [] | None \<Rightarrow> False)"

definition filter_func :: "float_parser \<Rightarrow> (string, pyval) dict option \<Rightarrow> item \<Rightarrow> bool res" where
  "filter_func parse filt item =
     (case filt of
       Some (f # fs) \<Rightarrow> rall (\<lambda>(key, w). compare_values parse (dgetd (it_value item) key VNone) w) (f # fs)
     | _ \<Rightarrow> Inr True)"

definition under_prefix :: "namespace \<Rightarrow> namespace \<Rightarrow> bool" where
  "under_prefix p ns = (length p \<le> length ns \<and> take (length p) ns = p)"

type_synonym candidates = "(item \<times> vec list) list"
type_synonym vectors = "(namespace, (string, (string, vec) dict) dict) dict"

definition filter_item ::
  "float_parser \<Rightarrow> search_op \<Rightarrow> namespace \<Rightarrow> candidates \<times> vectors \<Rightarrow> string \<times> item \<Rightarrow> (candidates \<times> vectors) res" where
  "filter_item parse op ns st kv =
     (let (found, vs) = st; (key, item) = kv in
      rmap (\<lambda>ok.
        if \<not> ok then (found, vs)
        else if has_query op then
          let vs = touch ns vs; emb = (case map_of (entry ns vs) key of Some e \<Rightarrow> e | None \<Rightarrow> [])
          in (found @ [(item, map snd emb)], vs)
        else (found @ [(item, [])], vs))
      (filter_func parse (so_filter op) item))"

definition filter_items ::
  "float_parser \<Rightarrow> search_op \<Rightarrow> memory_store \<Rightarrow> (candidates \<times> memory_store) res" where
  "filter_items parse op st =
     rmap (\<lambda>(found, vs). (found, st\<lparr>ms_vectors := vs\<rparr>))
       (rfold (\<lambda>acc (ns, items).
           if under_prefix (so_namespace_prefix op) ns then rfold (filter_item parse op ns) acc items else Inr acc)
         ([], ms_vectors st) (ms_data st))"

definition cosine_similarity :: "vec \<Rightarrow> vec list \<Rightarrow> real list" where
  "cosine_similarity X Y =
     map (\<lambda>y. let dot_product = sum_list (map2 (*) X y);
              norm1 = sqrt (sum_list (map (\<lambda>a. a * a) X));
              norm2 = sqrt (sum_list (map (\<lambda>a. a * a) y))
          in if norm1 > 0 \<and> norm2 > 0 then dot_product / (norm1 * norm2) else 0) Y"

text \<open>The queries are a set: the order in which they are embedded is arbitrary, here it is the sorted one.\<close>

definition embed_search_queries ::
  "memory_store \<Rightarrow> search_op list \<Rightarrow> (string, vec) dict res" where
  "embed_search_queries st ops =
     (case ms_embeddings st of
       None \<Rightarrow> Inr []
     | Some em \<Rightarrow>
         rfold (\<lambda>d q. rmap (\<lambda>v. dset q v d) (em_query em q)) []
           (sort (remdups (map (\<lambda>op. the (so_query op)) (filter has_query ops)))))"

text \<open>The best score of each item, for the items from \<open>offset\<close> on, \<open>limit\<close> at most.\<close>

fun max_pool ::
  "int \<Rightarrow> int \<Rightarrow> (namespace \<times> string) list \<Rightarrow> (real \<times> item) list \<Rightarrow> (real option \<times> item) list" where
  "max_pool offset limit seen [] = []"
| "max_pool offset limit seen ((score, item) # rest) =
     (let key = (it_namespace item, it_key item); ix = int (length seen) in
      if key \<in> set seen then max_pool offset limit seen rest
      else if ix \<ge> offset + limit then []
      else if ix < offset then max_pool offset limit (seen @ [key]) rest
      else (Some score, item) # max_pool offset limit (seen @ [key]) rest)"

definition search_result ::
  "search_op \<Rightarrow> candidates \<Rightarrow> (string, vec) dict \<Rightarrow> (item \<times> real option) list" where
  "search_result op cands queries =
     (if cands = [] then []
      else if has_query op \<and> queries \<noteq> [] then
        let query_embedding = dgetd queries (the (so_query op)) [];
            flat = concat (map (\<lambda>(item, vs). map (\<lambda>v. (item, v)) vs) cands);
            scoreless = map fst (filter (\<lambda>(item, vs). vs = []) cands);
            scores = cosine_similarity query_embedding (map snd flat);
            sorted_results = sort_key (\<lambda>(score, item). - score) (zip scores (map fst flat));
            kept = max_pool (so_offset op) (so_limit op) [] sorted_results;
            kept = (if scoreless \<noteq> [] \<and> int (length kept) < so_limit op
                    then kept @ map (\<lambda>item. (None, item)) (py_slice 0 (so_limit op - int (length kept)) scoreless)
                    else kept)
        in map (\<lambda>(score, item). SearchItem item score) kept
      else map (\<lambda>(item, vs). SearchItem item None) (py_slice (so_offset op) (so_offset op + so_limit op) cands))"

definition batch_search ::
  "(nat \<times> search_op \<times> candidates) list \<Rightarrow> (string, vec) dict \<Rightarrow> op_result list \<Rightarrow> op_result list" where
  "batch_search searches queries results =
     foldl (\<lambda>rs (i, op, cands). rs[i := ResSearch (search_result op cands queries)]) results searches"

subsection \<open>Listing namespaces\<close>

definition does_match :: "match_condition \<Rightarrow> namespace \<Rightarrow> bool res" where
  "does_match c key =
     (let path = mc_path c; elem = (\<lambda>(k, p). p = ''*'' \<or> k = p) in
      if length key < length path then Inr False
      else case mc_match_type c of
        MatchPrefix \<Rightarrow> Inr (list_all elem (zip key path))
      | MatchSuffix \<Rightarrow> Inr (list_all elem (zip (rev key) (rev path)))
      | MatchOther t \<Rightarrow> Inl (ValueError ''Unsupported match type''))"

definition handle_list_namespaces :: "list_op \<Rightarrow> memory_store \<Rightarrow> namespace list res" where
  "handle_list_namespaces op st =
     rmap (\<lambda>namespaces.
         py_slice (lo_offset op) (lo_offset op + lo_limit op)
           (case lo_max_depth op of
             Some d \<Rightarrow> sort (remdups (map (py_slice 0 d) namespaces))
           | None \<Rightarrow> sort namespaces))
       (case lo_match_conditions op of
         Some (c # cs) \<Rightarrow>
           rfold (\<lambda>acc ns. rmap (\<lambda>ok. if ok then acc @ [ns] else acc) (rall (\<lambda>c. does_match c ns) (c # cs)))
             [] (dkeys (ms_data st))
       | _ \<Rightarrow> Inr (dkeys (ms_data st)))"

subsection \<open>A batch of operations\<close>

record prepared =
  pr_results :: "op_result list"
  pr_puts :: "(namespace \<times> string, put_op) dict"
  pr_searches :: "(nat \<times> search_op \<times> candidates) list"
  pr_store :: memory_store

definition add_result :: "op_result \<Rightarrow> prepared \<Rightarrow> prepared" where
  "add_result r p = p\<lparr>pr_results := pr_results p @ [r]\<rparr>"

fun prepare_op :: "float_parser \<Rightarrow> prepared \<Rightarrow> op \<Rightarrow> prepared res" where
  "prepare_op parse p (GetOp op) =
     (let st = pr_store p; data = touch (go_namespace op) (ms_data st)
      in Inr (add_result (case map_of (entry (go_namespace op) data) (go_key op) of
                            Some item \<Rightarrow> ResItem item | None \<Rightarrow> ResNone)
           (p\<lparr>pr_store := st\<lparr>ms_data := data\<rparr>\<rparr>)))"
| "prepare_op parse p (SearchOp op) =
     rmap (\<lambda>(cands, st).
         add_result ResNone (p\<lparr>pr_searches := pr_searches p @ [(length (pr_results p), op, cands)], pr_store := st\<rparr>))
       (filter_items parse op (pr_store p))"
| "prepare_op parse p (ListNamespacesOp op) =
     rmap (\<lambda>nss. add_result (ResNamespaces nss) p) (handle_list_namespaces op (pr_store p))"
| "prepare_op parse p (PutOp op) =
     Inr (add_result ResNone (p\<lparr>pr_puts := dset (po_namespace op, po_key op) op (pr_puts p)\<rparr>))"

definition prepare_ops :: "float_parser \<Rightarrow> op list \<Rightarrow> memory_store \<Rightarrow> prepared res" where
  "prepare_ops parse ops st =
     rfold (prepare_op parse) \<lparr>pr_results = [], pr_puts = [], pr_searches = [], pr_store = st\<rparr> ops"

definition apply_put :: "int \<Rightarrow> int \<Rightarrow> namespace \<times> string \<Rightarrow> put_op \<Rightarrow> memory_store \<Rightarrow> memory_store" where
  "apply_put created updated nk op st =
     (let (ns, key) = nk in
      case po_value op of
        None \<Rightarrow>
          st\<lparr>ms_data := dset ns (ddel key (entry ns (ms_data st))) (ms_data st),
             ms_vectors := dset ns (ddel key (entry ns (ms_vectors st))) (ms_vectors st)\<rparr>
      | Some v \<Rightarrow>
          st\<lparr>ms_data := dset ns (dset key \<lparr>it_value = v, it_key = key, it_namespace = ns,
                                       it_created_at = created, it_updated_at = updated\<rparr>
                             (entry ns (ms_data st))) (ms_data st)\<rparr>)"

definition apply_put_ops ::
  "(nat \<Rightarrow> int) \<Rightarrow> (namespace \<times> string, put_op) dict \<Rightarrow> memory_store \<Rightarrow> memory_store" where
  "apply_put_ops clock puts st =
     foldl (\<lambda>st (i, nk, op). apply_put (clock (2 * i)) (clock (2 * i + 1)) nk op st) st
       (zip [0..<length puts] puts)"

definition index_texts ::
  "put_op \<Rightarrow> string \<Rightarrow> string list \<Rightarrow> (string, item_path list) dict \<Rightarrow> (string, item_path list) dict" where
  "index_texts op path texts to_embed =
     (let add = (\<lambda>d (text, p). dset text (dgetd d text [] @ [(po_namespace op, po_key op, p)]) d) in
      case texts of
        [] \<Rightarrow> to_embed
      | [t] \<Rightarrow> add to_embed (t, path)
      | _ \<Rightarrow> foldl add to_embed
               (map (\<lambda>(i, t). (t, path @ ''.'' @ str_of_int (int i))) (zip [0..<length texts] texts)))"

definition extract_put ::
  "(string \<times> text_path) list \<Rightarrow> put_op \<Rightarrow> (string, item_path list) dict \<Rightarrow> (string, item_path list) dict res" where
  "extract_put default_fields op to_embed =
     (case (po_value op, po_index op) of
       (None, _) \<Rightarrow> Inr to_embed
     | (_, IndexFalse) \<Rightarrow> Inr to_embed
     | (Some v, ix) \<Rightarrow>
         let paths = (case ix of IndexFields ps \<Rightarrow> map (\<lambda>p. (p, PathTokens (tokenize_path p))) ps | _ \<Rightarrow> default_fields)
         in rfold (\<lambda>d (path, field). rmap (\<lambda>texts. index_texts op path texts d) (get_text_at_path (VDict v) field))
              to_embed paths)"

definition extract_texts ::
  "(namespace \<times> string, put_op) dict \<Rightarrow> memory_store \<Rightarrow> (string, item_path list) dict res" where
  "extract_texts puts st =
     (if ms_embeddings st = None then Inr []
      else rfold (\<lambda>d (nk, op). extract_put (ms_fields st) op d) [] puts)"

definition set_vector :: "vectors \<Rightarrow> item_path \<times> vec \<Rightarrow> vectors" where
  "set_vector vs iv =
     (let ((ns, key, path), v) = iv; paths = entry key (entry ns vs)
      in dset ns (dset key (dset path v paths) (entry ns vs)) vs)"

definition insertinmem_store ::
  "(string, item_path list) dict \<Rightarrow> vec list \<Rightarrow> memory_store \<Rightarrow> memory_store res" where
  "insertinmem_store to_embed embeddings st =
     (let indices = concat (map snd to_embed) in
      if length indices \<noteq> length embeddings then Inl (ValueError ''Number of embeddings'')
      else Inr (st\<lparr>ms_vectors := foldl set_vector (ms_vectors st) (zip indices embeddings)\<rparr>))"

definition store_batch ::
  "store_env \<Rightarrow> op list \<Rightarrow> memory_store \<Rightarrow> (op_result list \<times> memory_store) res" where
  "store_batch env ops st =
     rbind (prepare_ops (se_parse env) ops st) (\<lambda>p.
     rbind (if pr_searches p = [] then Inr (pr_results p)
            else rmap (\<lambda>queries. batch_search (pr_searches p) queries (pr_results p))
                   (embed_search_queries (pr_store p) (map (\<lambda>(i, op, cands). op) (pr_searches p)))) (\<lambda>results.
     rbind (extract_texts (pr_puts p) (pr_store p)) (\<lambda>to_embed.
     rbind (case ms_embeddings (pr_store p) of
             Some em \<Rightarrow>
               if to_embed = [] then Inr (pr_store p)
               else rbind (em_documents em (dkeys to_embed)) (\<lambda>vs. insertinmem_store to_embed vs (pr_store p))
           | None \<Rightarrow> Inr (pr_store p)) (\<lambda>st.
     Inr (results, apply_put_ops (se_clock env) (pr_puts p) st)))))"

definition InMemoryStore :: "store_env \<Rightarrow> memory_store store_class" where
  "InMemoryStore env = \<lparr>sc_supports_ttl = False, sc_ttl_config = None, sc_batch = store_batch env\<rparr>"

end
