(* ===== verification/Store_Props.thy ===== *)
theory Store_Props
  imports Memory_Store
begin

section \<open>What the in-memory store guarantees\<close>

text \<open>
  A batch refines a map from namespaces and keys to values: reads see the map as it was before the batch,
  puts are applied in order. Then pages of a search, listing namespaces, and which batches of puts can be
  embedded.
\<close>

subsection \<open>The items of a store\<close>

text \<open>The abstract view: what is stored under a namespace and a key.\<close>

definition stored :: "memory_store \<Rightarrow> namespace \<times> string \<Rightarrow> item option" where
  "stored st nk = map_of (entry (fst nk) (ms_data st)) (snd nk)"

definition contents :: "memory_store \<Rightarrow> namespace \<times> string \<Rightarrow> (string, pyval) dict option" where
  "contents st nk = map_option it_value (stored st nk)"

definition put_key :: "put_op \<Rightarrow> namespace \<times> string" where
  "put_key op = (po_namespace op, po_key op)"

fun put_spec :: "(namespace \<times> string \<Rightarrow> (string, pyval) dict option) \<Rightarrow> op
    \<Rightarrow> (namespace \<times> string \<Rightarrow> (string, pyval) dict option)" where
  "put_spec m (PutOp op) = m(put_key op := po_value op)"
| "put_spec m _ = m"

fun is_search :: "op \<Rightarrow> bool" where
  "is_search (SearchOp op) = True"
| "is_search _ = False"

definition item_result :: "item option \<Rightarrow> op_result" where
  "item_result i = (case i of Some it \<Rightarrow> ResItem it | None \<Rightarrow> ResNone)"

lemma entry_touch [simp]: "entry ns (touch ns' d) = entry ns d"
  by (auto simp: entry_def touch_def dgetd_def dmem_def)

lemma entry_dset [simp]: "entry ns (dset ns' x d) = (if ns = ns' then x else entry ns d)"
  by (simp add: entry_def dgetd_def)

lemma stored_touch [simp]: "stored (st\<lparr>ms_data := touch ns (ms_data st)\<rparr>) = stored st"
  by (simp add: stored_def fun_eq_iff)

lemma lookup_stored: "map_of (entry ns (ms_data st)) k = stored st (ns, k)"
  by (simp add: stored_def)

lemma stored_vectors [simp]: "stored (st\<lparr>ms_vectors := v\<rparr>) = stored st"
  by (simp add: stored_def fun_eq_iff)

subsection \<open>Preparing a batch\<close>

fun last_puts :: "(namespace \<times> string \<Rightarrow> put_op option) \<Rightarrow> op \<Rightarrow> (namespace \<times> string \<Rightarrow> put_op option)" where
  "last_puts m (PutOp op) = m(put_key op \<mapsto> op)"
| "last_puts m _ = m"

lemma filter_items_store:
  assumes "filter_items parse op st = Inr (c, st')"
  shows "\<exists>v. st' = st\<lparr>ms_vectors := v\<rparr>"
  using assms by (auto simp: filter_items_def rmap_Inr_iff)

definition prepared_ok :: "memory_store \<Rightarrow> op list \<Rightarrow> prepared \<Rightarrow> bool" where
  "prepared_ok st ops p =
     (length (pr_results p) = length ops \<and> stored (pr_store p) = stored st
      \<and> ms_embeddings (pr_store p) = ms_embeddings st \<and> ms_fields (pr_store p) = ms_fields st
      \<and> dict_ok (pr_puts p) \<and> (\<forall>(nk, op) \<in> set (pr_puts p). nk = put_key op)
      \<and> map_of (pr_puts p) = foldl last_puts Map.empty ops
      \<and> (\<forall>i < length ops. \<forall>g. ops ! i = GetOp g \<longrightarrow>
           pr_results p ! i = item_result (stored st (go_namespace g, go_key g)))
      \<and> (\<forall>s \<in> set (pr_searches p). fst s < length ops \<and> is_search (ops ! fst s)))"

lemma prepared_ok_step:
  assumes "prepared_ok st ops p" and "prepare_op parse p op = Inr p'"
  shows "prepared_ok st (ops @ [op]) p'"
proof (cases op)
  case (GetOp g)
  with assms show ?thesis
    by (auto simp: prepared_ok_def add_result_def nth_append less_Suc_eq item_result_def lookup_stored Let_def)
next
  case (SearchOp s)
  with assms obtain c st' where f: "filter_items parse s (pr_store p) = Inr (c, st')"
    and p': "p' = add_result ResNone (p\<lparr>pr_searches := pr_searches p @ [(length (pr_results p), s, c)], pr_store := st'\<rparr>)"
    by (auto simp: rmap_Inr_iff)
  from filter_items_store [OF f] obtain v where "st' = (pr_store p)\<lparr>ms_vectors := v\<rparr>" by blast
  with assms(1) p' SearchOp show ?thesis
    by (auto simp: prepared_ok_def add_result_def nth_append less_Suc_eq)
next
  case (ListNamespacesOp l)
  with assms show ?thesis
    by (auto simp: prepared_ok_def add_result_def nth_append less_Suc_eq rmap_Inr_iff)
next
  case (PutOp o')
  have keys: "\<forall>(nk, x) \<in> set (dset k o' d). nk = put_key x"
    if "k = put_key o'" and "\<forall>(nk, x) \<in> set d. nk = put_key x" for k and d :: "(namespace \<times> string, put_op) dict"
    using that by (induction d) (auto split: if_splits)
  have "p' = add_result ResNone (p\<lparr>pr_puts := dset (put_key o') o' (pr_puts p)\<rparr>)"
    using PutOp assms(2) by (simp add: put_key_def)
  with PutOp assms(1) keys [OF refl, of "pr_puts p"] show ?thesis
    by (simp add: prepared_ok_def add_result_def nth_append less_Suc_eq update_conv')
qed

lemma prepared_ok: "prepare_ops parse ops st = Inr p \<Longrightarrow> prepared_ok st ops p"
proof (induction ops arbitrary: p rule: rev_induct)
  case Nil
  then show ?case by (auto simp: prepare_ops_def prepared_ok_def)
next
  case (snoc op ops)
  then obtain q where "prepare_ops parse ops st = Inr q" "prepare_op parse q op = Inr p"
    by (auto simp: prepare_ops_def rfold_append rbind_Inr_iff)
  with snoc.IH prepared_ok_step show ?case by blast
qed

subsection \<open>Applying the puts\<close>

lemma stored_apply_put:
  "contents (apply_put c u nk op st) = (contents st)(nk := po_value op)"
  by (cases nk; cases "po_value op")
    (auto simp: contents_def stored_def apply_put_def fun_eq_iff)

lemma apply_puts_contents:
  assumes "dict_ok (map snd xs)"
  shows "contents (foldl (\<lambda>st (i, nk, op). apply_put (clock (2 * i)) (clock (2 * i + 1)) nk op st) st xs) nk
    = (case map_of (map snd xs) nk of Some op \<Rightarrow> po_value op | None \<Rightarrow> contents st nk)"
  using assms
proof (induction xs arbitrary: st)
  case (Cons x xs)
  obtain i k op where x: "x = (i, k, op)" by (cases x)
  with Cons.prems have "dict_ok (map snd xs)" and "map_of (map snd xs) k = None"
    by (force simp: dict_ok_def map_of_eq_None_iff)+
  with Cons.IH x show ?case by (auto simp: stored_apply_put split: option.splits)
qed simp

lemma put_spec_fold: "foldl put_spec m ops nk = (case foldl last_puts Map.empty ops nk of Some op \<Rightarrow> po_value op | None \<Rightarrow> m nk)"
proof (induction ops rule: rev_induct)
  case (snoc op ops)
  then show ?case by (cases op) (auto split: option.splits)
qed simp

lemma contents_stored: "stored st' = stored st \<Longrightarrow> contents st' = contents st"
  by (simp add: contents_def fun_eq_iff)

lemma insertinmem_store_data:
  "insertinmem_store te vs st = Inr st' \<Longrightarrow> stored st' = stored st"
  by (auto simp: insertinmem_store_def Let_def split: if_splits)

lemma batch_search_length [simp]: "length (batch_search ss qs rs) = length rs"
  unfolding batch_search_def by (induction ss arbitrary: rs) auto

lemma batch_search_other: "\<forall>s \<in> set ss. fst s \<noteq> i \<Longrightarrow> batch_search ss qs rs ! i = rs ! i"
  unfolding batch_search_def by (induction ss arbitrary: rs) auto

lemma store_batchE:
  assumes "store_batch env ops st = Inr (rs, st')"
  obtains p qs st1 where "prepare_ops (se_parse env) ops st = Inr p"
    and "rs = (if pr_searches p = [] then pr_results p else batch_search (pr_searches p) qs (pr_results p))"
    and "st1 = pr_store p \<or> (\<exists>te vs. insertinmem_store te vs (pr_store p) = Inr st1)"
    and "st' = apply_put_ops (se_clock env) (pr_puts p) st1"
proof -
  from assms obtain p results te st1 where p: "prepare_ops (se_parse env) ops st = Inr p"
    and r: "(if pr_searches p = [] then Inr (pr_results p)
            else rmap (\<lambda>queries. batch_search (pr_searches p) queries (pr_results p))
                   (embed_search_queries (pr_store p) (map (\<lambda>(i, op, cands). op) (pr_searches p)))) = Inr results"
    and e: "(case ms_embeddings (pr_store p) of
             Some em \<Rightarrow> if te = [] then Inr (pr_store p)
               else rbind (em_documents em (dkeys te)) (\<lambda>vs. insertinmem_store te vs (pr_store p))
           | None \<Rightarrow> Inr (pr_store p)) = Inr st1"
    and o: "rs = results" "st' = apply_put_ops (se_clock env) (pr_puts p) st1"
    by (auto simp: store_batch_def rbind_Inr_iff)
  from r obtain qs where
    "results = (if pr_searches p = [] then pr_results p else batch_search (pr_searches p) qs (pr_results p))"
    by (auto simp: rmap_Inr_iff split: if_splits)
  moreover from e have "st1 = pr_store p \<or> (\<exists>te vs. insertinmem_store te vs (pr_store p) = Inr st1)"
    by (auto simp: rbind_Inr_iff split: if_splits option.splits)
  ultimately show thesis using p o that by blast
qed

lemma store_batch_refines:
  assumes "store_batch env ops st = Inr (rs, st')"
  shows "contents st' = foldl put_spec (contents st) ops" and "length rs = length ops"
    and "\<And>i g. i < length ops \<Longrightarrow> ops ! i = GetOp g \<Longrightarrow> rs ! i = item_result (stored st (go_namespace g, go_key g))"
proof -
  obtain p qs st1 where p: "prepare_ops (se_parse env) ops st = Inr p"
    and rs: "rs = (if pr_searches p = [] then pr_results p else batch_search (pr_searches p) qs (pr_results p))"
    and "st1 = pr_store p \<or> (\<exists>te vs. insertinmem_store te vs (pr_store p) = Inr st1)"
    and st': "st' = apply_put_ops (se_clock env) (pr_puts p) st1"
    by (rule store_batchE [OF assms])
  then have st1: "stored st1 = stored (pr_store p)" by (auto dest: insertinmem_store_data)
  from p have ok: "prepared_ok st ops p" by (rule prepared_ok)
  have snd_zip: "map snd (zip [0..<length (pr_puts p)] (pr_puts p)) = pr_puts p" by simp
  have "contents st1 = contents st"
    using ok st1 by (intro contents_stored) (simp add: prepared_ok_def)
  with ok show "contents st' = foldl put_spec (contents st) ops"
    unfolding st' apply_put_ops_def
    by (intro ext) (subst apply_puts_contents, simp_all add: snd_zip prepared_ok_def put_spec_fold split: option.split)
  from ok rs show "length rs = length ops" by (simp add: prepared_ok_def)
  fix i g assume i: "i < length ops" "ops ! i = GetOp g"
  then have "\<forall>s \<in> set (pr_searches p). fst s \<noteq> i" using ok by (force simp: prepared_ok_def)
  then show "rs ! i = item_result (stored st (go_namespace g, go_key g))"
    using ok rs i by (simp add: prepared_ok_def batch_search_other)
qed

text \<open>
  C18: A batch of operations on the in-memory store refines updates of a map: afterwards the store holds what
  the puts in their order say, every get sees the store as it was before the batch, and there is one result
  for each operation.
\<close>

theorem store_batch_refines_map:
  assumes "store_batch env ops st = Inr (rs, st')"
  shows "contents st' = foldl put_spec (contents st) ops \<and> length rs = length ops
    \<and> (\<forall>i < length ops. \<forall>g. ops ! i = GetOp g \<longrightarrow> rs ! i = item_result (stored st (go_namespace g, go_key g)))"
  using store_batch_refines [OF assms] by blast

definition example_store_env :: store_env where
  "example_store_env = \<lparr>se_parse = (\<lambda>s. None), se_clock = int\<rparr>"

definition plain_store :: memory_store where
  "plain_store = \<lparr>ms_data = [], ms_vectors = [], ms_fields = [], ms_embeddings = None\<rparr>"

definition example_put :: "string \<Rightarrow> int \<Rightarrow> op" where
  "example_put key n = PutOp \<lparr>po_namespace = [''ns''], po_key = key, po_value = Some [(''n'', VInt n)],
     po_index = IndexDefault, po_ttl = None\<rparr>"

definition example_get :: "string \<Rightarrow> op" where
  "example_get key = GetOp \<lparr>go_namespace = [''ns''], go_key = key, go_refresh_ttl = True\<rparr>"

lemmas example_store_defs = example_store_env_def plain_store_def example_put_def example_get_def

lemmas batch_simps = store_batch_def prepare_ops_def extract_texts_def apply_put_ops_def apply_put_def
  add_result_def touch_def entry_def dgetd_def dmem_def

lemma store_batch_refines_map_witness:
  "\<exists>rs st'. store_batch example_store_env [example_put ''a'' 1, example_get ''a'', example_put ''a'' 2] plain_store
      = Inr (rs, st') \<and> contents st' ([''ns''], ''a'') = Some [(''n'', VInt 2)] \<and> rs ! 1 = ResNone"
proof -
  have "\<exists>rs st'. store_batch example_store_env [example_put ''a'' 1, example_get ''a'', example_put ''a'' 2] plain_store
      = Inr (rs, st')"
    by (simp add: batch_simps example_store_defs)
  then obtain rs st' where b:
    "store_batch example_store_env [example_put ''a'' 1, example_get ''a'', example_put ''a'' 2] plain_store = Inr (rs, st')"
    by blast
  from store_batch_refines_map [OF b] have "contents st' ([''ns''], ''a'') = Some [(''n'', VInt 2)]" and "rs ! 1 = ResNone"
    by (simp_all add: example_store_defs put_key_def stored_def entry_def dgetd_def item_result_def nth_Cons')
  with b show ?thesis by blast
qed

subsection \<open>The invariant of the store\<close>

definition store_wf :: "memory_store \<Rightarrow> bool" where
  "store_wf st =
     (dict_ok (ms_data st)
      \<and> (\<forall>(ns, items) \<in> set (ms_data st). dict_ok items
           \<and> (\<forall>(key, it) \<in> set items. it_namespace it = ns \<and> it_key it = key)))"

lemma dset_mem: "(k', v') \<in> set (dset k v d) \<Longrightarrow> (k', v') = (k, v) \<or> (k', v') \<in> set d"
  by (induction d) (auto split: if_splits)

lemma set_ddel: "(k', v') \<in> set (ddel k d) \<Longrightarrow> (k', v') \<in> set d"
  by (auto simp: AList.delete_eq)

lemma store_wf_vectors [simp]: "store_wf (st\<lparr>ms_vectors := v\<rparr>) = store_wf st"
  by (simp add: store_wf_def)

lemma entry_mem: "entry ns d \<noteq> [] \<Longrightarrow> (ns, entry ns d) \<in> set d"
  by (cases "map_of d ns") (auto simp: entry_def dgetd_def dest: map_of_SomeD)

lemma store_wf_entry:
  assumes "store_wf st"
  shows "dict_ok (entry ns (ms_data st))"
    and "(key, it) \<in> set (entry ns (ms_data st)) \<Longrightarrow> it_namespace it = ns \<and> it_key it = key"
  using assms entry_mem [of ns "ms_data st"] by (cases "entry ns (ms_data st) = []"; fastforce simp: store_wf_def)+

lemma store_wf_set:
  assumes "store_wf st" and "dict_ok items" and "\<forall>(key, it) \<in> set items. it_namespace it = ns \<and> it_key it = key"
  shows "store_wf (st\<lparr>ms_data := dset ns items (ms_data st)\<rparr>)"
  using assms by (fastforce simp: store_wf_def dest!: dset_mem)

lemma store_wf_touch: "store_wf st \<Longrightarrow> store_wf (st\<lparr>ms_data := touch ns (ms_data st)\<rparr>)"
  by (auto simp: touch_def intro: store_wf_set)

lemma store_wf_apply_put:
  assumes "store_wf st"
  shows "store_wf (apply_put c u nk op st)"
proof -
  note e = store_wf_entry [OF assms]
  show ?thesis
  proof (cases "po_value op")
    case None
    have "store_wf (st\<lparr>ms_data := dset (fst nk) (ddel (snd nk) (entry (fst nk) (ms_data st))) (ms_data st)\<rparr>)"
      using assms e by (intro store_wf_set) (auto dest!: set_ddel)
    then have "store_wf ((st\<lparr>ms_data := dset (fst nk) (ddel (snd nk) (entry (fst nk) (ms_data st))) (ms_data st)\<rparr>)
        \<lparr>ms_vectors := dset (fst nk) (ddel (snd nk) (entry (fst nk) (ms_vectors st))) (ms_vectors st)\<rparr>)"
      by (simp only: store_wf_vectors)
    then show ?thesis using None by (simp add: apply_put_def case_prod_unfold)
  next
    case (Some v)
    then show ?thesis
      using assms e by (auto simp: apply_put_def case_prod_unfold intro!: store_wf_set dest!: dset_mem)
  qed
qed

lemma store_wf_prepare:
  assumes "prepare_ops parse ops st = Inr p" and "store_wf st"
  shows "store_wf (pr_store p)"
proof -
  have "store_wf (pr_store q')" if "store_wf (pr_store q)" and "prepare_op parse q op = Inr q'" for q q' op
  proof (cases op)
    case (SearchOp s)
    with that show ?thesis by (auto simp: add_result_def rmap_Inr_iff dest!: filter_items_store)
  qed (use that in \<open>auto simp: add_result_def rmap_Inr_iff Let_def intro: store_wf_touch\<close>)
  then show ?thesis
    using assms unfolding prepare_ops_def by (elim rfold_invariant) auto
qed

lemma store_batch_wf:
  assumes "store_batch env ops st = Inr (rs, st')" and "store_wf st"
  shows "store_wf st'"
proof -
  have put: "store_wf (foldl (\<lambda>st (i, nk, op). apply_put (clock (2 * i)) (clock (2 * i + 1)) nk op st) st xs)"
    if "store_wf st" for clock st xs
    using that by (induction xs arbitrary: st) (auto intro: store_wf_apply_put)
  have ins: "store_wf st1" if "insertinmem_store te vs st = Inr st1" "store_wf st" for te vs st st1
    using that by (auto simp: insertinmem_store_def Let_def split: if_splits)
  show ?thesis
    using assms(1)
  proof (rule store_batchE)
    fix p qs st1
    assume "prepare_ops (se_parse env) ops st = Inr p"
      and st1: "st1 = pr_store p \<or> (\<exists>te vs. insertinmem_store te vs (pr_store p) = Inr st1)"
      and st': "st' = apply_put_ops (se_clock env) (pr_puts p) st1"
    then have "store_wf (pr_store p)" using assms(2) by (blast intro: store_wf_prepare)
    with st1 ins have "store_wf st1" by blast
    then show "store_wf st'" unfolding st' apply_put_ops_def by (rule put)
  qed
qed

subsection \<open>Searching without a query\<close>

type_synonym data_entry = "namespace \<times> (string, item) dict"

definition entry_items :: "data_entry \<Rightarrow> item list" where
  "entry_items e = map snd (snd e)"

definition under_items :: "namespace \<Rightarrow> data_entry list \<Rightarrow> item list" where
  "under_items p d = concat (map entry_items (filter (\<lambda>e. under_prefix p (fst e)) d))"

lemma under_items_Cons:
  "under_items p (e # d) = (if under_prefix p (fst e) then entry_items e @ under_items p d else under_items p d)"
  by (simp add: under_items_def)

lemma filter_item_fold:
  assumes "\<not> has_query op" and "\<forall>it \<in> set (map snd items). filter_func parse (so_filter op) it = Inr (good it)"
  shows "rfold (filter_item parse op ns) (found, vs) items
    = Inr (found @ map (\<lambda>it. (it, [])) (filter good (map snd items)), vs)"
  using assms(2)
  by (induction items arbitrary: found) (auto simp: filter_item_def assms(1))

lemma filter_items_found:
  assumes q: "\<not> has_query op"
    and "\<forall>it \<in> set (under_items (so_namespace_prefix op) (ms_data st)). filter_func parse (so_filter op) it = Inr (good it)"
  shows "filter_items parse op st
    = Inr (map (\<lambda>it. (it, [])) (filter good (under_items (so_namespace_prefix op) (ms_data st))), st)"
proof -
  let ?p = "so_namespace_prefix op"
  have "rfold (\<lambda>acc (ns, items). if under_prefix ?p ns then rfold (filter_item parse op ns) acc items else Inr acc)
      (found, vs) d
    = Inr (found @ map (\<lambda>it. (it, [])) (filter good (under_items ?p d)), vs)"
    if "\<forall>it \<in> set (under_items ?p d). filter_func parse (so_filter op) it = Inr (good it)" for found vs d
    using that
  proof (induction d arbitrary: found)
    case (Cons e d)
    show ?case
    proof (cases "under_prefix ?p (fst e)")
      case True
      have "rfold (filter_item parse op (fst e)) (found, vs) (snd e)
          = Inr (found @ map (\<lambda>it. (it, [])) (filter good (entry_items e)), vs)"
        using Cons.prems True unfolding entry_items_def
        by (intro filter_item_fold [OF q]) (auto simp: under_items_Cons entry_items_def)
      with Cons True show ?thesis by (simp add: under_items_Cons case_prod_unfold)
    qed (use Cons in \<open>simp add: under_items_Cons case_prod_unfold\<close>)
  qed (simp add: under_items_def)
  from this [of "ms_data st"] assms(2) show ?thesis by (simp add: filter_items_def)
qed

lemma stored_mem:
  assumes "store_wf st"
  shows "stored st (ns, key) = Some it \<longleftrightarrow> (\<exists>items. (ns, items) \<in> set (ms_data st) \<and> (key, it) \<in> set items)"
proof
  assume s: "stored st (ns, key) = Some it"
  then have "entry ns (ms_data st) \<noteq> []" by (auto simp: stored_def)
  with s show "\<exists>items. (ns, items) \<in> set (ms_data st) \<and> (key, it) \<in> set items"
    by (metis entry_mem lookup_stored map_of_SomeD)
next
  assume "\<exists>items. (ns, items) \<in> set (ms_data st) \<and> (key, it) \<in> set items"
  then obtain items where i: "(ns, items) \<in> set (ms_data st)" "(key, it) \<in> set items" by blast
  from i assms have "entry ns (ms_data st) = items" by (simp add: entry_def dgetd_def store_wf_def dict_ok_def)
  moreover from i assms have "dict_ok items" by (auto simp: store_wf_def)
  ultimately show "stored st (ns, key) = Some it" using i by (simp add: stored_def dict_ok_def)
qed

lemma set_under_items:
  assumes "store_wf st"
  shows "it \<in> set (under_items p (ms_data st)) \<longleftrightarrow> (\<exists>nk. stored st nk = Some it \<and> under_prefix p (fst nk))"
proof -
  have "it \<in> set (under_items p (ms_data st)) \<longleftrightarrow>
      (\<exists>ns items key. (ns, items) \<in> set (ms_data st) \<and> (key, it) \<in> set items \<and> under_prefix p ns)"
    unfolding under_items_def entry_items_def by force
  then show ?thesis by (auto simp: stored_mem [OF assms])
qed

lemma distinct_under_items:
  assumes "store_wf st"
  shows "distinct (under_items p (ms_data st))"
proof -
  let ?name = "\<lambda>it. (it_namespace it, it_key it)"
  have "distinct (map ?name (under_items p d)) \<and> it_namespace ` set (under_items p d) \<subseteq> fst ` set d"
    if "dict_ok d" and "\<forall>(ns, items) \<in> set d. dict_ok items
           \<and> (\<forall>(key, it) \<in> set items. it_namespace it = ns \<and> it_key it = key)" for d
    using that
  proof (induction d)
    case (Cons e d)
    obtain ns items where e: "e = (ns, items)" by (cases e)
    have name: "?name (snd x) = (ns, fst x)" if "x \<in> set items" for x using Cons.prems e that by auto
    then have "map ?name (entry_items e) = map (\<lambda>x. (ns, fst x)) items" by (simp add: e entry_items_def)
    moreover have "distinct (map (\<lambda>x. (ns, fst x)) items)"
      using Cons.prems e by (auto simp: dict_ok_def distinct_map inj_on_def)
    ultimately have "distinct (map ?name (entry_items e))" by metis
    moreover have "it_namespace ` set (entry_items e) \<subseteq> {ns}" using name by (auto simp: e entry_items_def)
    ultimately show ?case
      using Cons e by (auto simp: under_items_Cons dict_ok_def image_subset_iff)
  qed (simp add: under_items_def)
  from this [of "ms_data st"] assms have "distinct (map ?name (under_items p (ms_data st)))" by (simp add: store_wf_def)
  then show ?thesis by (simp add: distinct_map)
qed

text \<open>
  What a search without a query finds: there is one list of the items stored under the prefix that match
  the filter, each once, and every search returns the page of it that its limit and offset say, without
  changing the store.
\<close>

theorem search_pages:
  assumes "store_wf st"
    and "\<forall>it. (\<exists>nk. stored st nk = Some it \<and> under_prefix prefix (fst nk)) \<longrightarrow> filter_func (se_parse env) filt it = Inr (good it)"
  shows "\<exists>found. distinct found
    \<and> set found = {it. good it \<and> (\<exists>nk. stored st nk = Some it \<and> under_prefix prefix (fst nk))}
    \<and> (\<forall>limit offset refresh. store_search (InMemoryStore env) prefix None filt (int limit) (int offset) refresh st
         = Inr (ResSearch (map (\<lambda>it. SearchItem it None) (take limit (drop offset found))), st))"
proof (intro exI conjI allI)
  let ?found = "filter good (under_items prefix (ms_data st))"
  show "distinct ?found" using assms(1) by (simp add: distinct_under_items)
  show "set ?found = {it. good it \<and> (\<exists>nk. stored st nk = Some it \<and> under_prefix prefix (fst nk))}"
    using assms(1) by (auto simp: set_under_items)
  fix limit offset refresh
  define op where "op = \<lparr>so_namespace_prefix = prefix, so_filter = filt, so_limit = int limit, so_offset = int offset,
                       so_query = None, so_refresh_ttl = ensure_refresh None refresh\<rparr>"
  have "\<forall>it \<in> set (under_items prefix (ms_data st)). filter_func (se_parse env) filt it = Inr (good it)"
    using assms by (simp add: set_under_items)
  then have f: "filter_items (se_parse env) op st = Inr (map (\<lambda>it. (it, [])) ?found, st)"
    using filter_items_found [of op st "se_parse env" good] by (simp add: op_def has_query_def)
  have r: "search_result op (map (\<lambda>it. (it, [])) ?found) qs = map (\<lambda>it. SearchItem it None) (take limit (drop offset ?found))" for qs
    using py_slice_nat [of offset "offset + limit" "map (\<lambda>it. (it, [] :: vec list)) ?found"]
    by (simp add: search_result_def op_def has_query_def drop_map take_map)
  have e: "embed_search_queries st [op] = Inr []"
    by (simp add: embed_search_queries_def has_query_def op_def split: option.split)
  show "store_search (InMemoryStore env) prefix None filt (int limit) (int offset) refresh st
         = Inr (ResSearch (map (\<lambda>it. SearchItem it None) (take limit (drop offset ?found))), st)"
    by (simp add: store_search_def batch_one_def InMemoryStore_def op_def [symmetric] store_batch_def prepare_ops_def f
        add_result_def e extract_texts_def apply_put_ops_def batch_search_def r split: option.split)
qed

definition example_store :: memory_store where
  "example_store = \<lparr>ms_data = [([''ns''], [(''a'', \<lparr>it_value = [(''n'', VInt 1)], it_key = ''a'', it_namespace = [''ns''],
     it_created_at = 0, it_updated_at = 0\<rparr>)])], ms_vectors = [], ms_fields = [], ms_embeddings = None\<rparr>"

lemma search_pages_witness:
  "\<exists>found. distinct found \<and> set found = {it. \<exists>nk. stored example_store nk = Some it \<and> under_prefix [''ns''] (fst nk)}
    \<and> store_search (InMemoryStore example_store_env) [''ns''] None None 10 0 None example_store
      = Inr (ResSearch (map (\<lambda>it. SearchItem it None) (take 10 (drop 0 found))), example_store)"
proof -
  have "store_wf example_store" by (simp add: store_wf_def example_store_def dict_ok_def)
  from search_pages [OF this, of "[''ns'']" example_store_env None "\<lambda>_. True"]
  obtain found where f: "distinct found"
      "set found = {it. \<exists>nk. stored example_store nk = Some it \<and> under_prefix [''ns''] (fst nk)}"
    and s: "\<And>limit offset refresh. store_search (InMemoryStore example_store_env) [''ns''] None None (int limit) (int offset)
        refresh example_store = Inr (ResSearch (map (\<lambda>it. SearchItem it None) (take limit (drop offset found))), example_store)"
    by (auto simp: filter_func_def)
  from s [of 10 0 None] f show ?thesis by (intro exI [of _ found]) simp
qed

end
