(* ===== verification/Store_Batched.thy ===== *)
theory Store_Batched
  imports Store_Props
begin

section \<open>Batching operations\<close>

text \<open>
  \<open>AsyncBatchedBaseStore\<close> (\<open>store/base/batch.py\<close>): operations scheduled in the same tick of the event loop
  are run as one batch, without duplicates (\<open>_dedupe_ops\<close>). The queue is the list of what is in it when
  the background task wakes up; futures are numbers. Whether a future was cancelled is an argument.
\<close>

subsection \<open>Removing duplicates\<close>

text \<open>\<open>==\<close> of operations, which are tuples; only a search's filter can hold values.\<close>

fun op_eq :: "op \<Rightarrow> op \<Rightarrow> bool" where
  "op_eq (SearchOp a) (SearchOp b) =
     (a\<lparr>so_filter := None\<rparr> = b\<lparr>so_filter := None\<rparr>
      \<and> (case (so_filter a, so_filter b) of
           (None, None) \<Rightarrow> True | (Some d, Some e) \<Rightarrow> py_eq (VDict d) (VDict e) | _ \<Rightarrow> False))"
| "op_eq a b = (a = b)"

text \<open>\<open>dedupped.index(op)\<close>, which takes an object that is the same before it compares.\<close>

fun index_of :: "op \<Rightarrow> op list \<Rightarrow> nat option" where
  "index_of op [] = None"
| "index_of op (x # xs) = (if x = op \<or> op_eq x op then Some 0 else map_option Suc (index_of op xs))"

type_synonym dedupe_state = "nat list \<times> op list \<times> (namespace \<times> string, nat) dict"

fun dedupe_op :: "dedupe_state \<Rightarrow> op \<Rightarrow> dedupe_state" where
  "dedupe_op (listen, dedupped, puts) (PutOp op) =
     (case map_of puts (put_key op) of
       Some ix \<Rightarrow> (listen @ [ix], dedupped[ix := PutOp op], puts)
     | None \<Rightarrow> (listen @ [length dedupped], dedupped @ [PutOp op], dset (put_key op) (length dedupped) puts))"
| "dedupe_op (listen, dedupped, puts) op =
     (case index_of op dedupped of
       Some ix \<Rightarrow> (listen @ [ix], dedupped, puts)
     | None \<Rightarrow> (listen @ [length dedupped], dedupped @ [op], puts))"

definition dedupe_ops :: "op list \<Rightarrow> nat list option \<times> op list" where
  "dedupe_ops ops =
     (if length ops \<le> 1 then (None, ops)
      else let (listen, dedupped, puts) = foldl dedupe_op ([], [], []) ops in (Some listen, dedupped))"

subsection \<open>One round of the background task\<close>

text \<open>
  \<open>_run\<close>: the operations whose future is not done, their results or the exception for each future. What a
  future that is done by then would have got is dropped.
\<close>

type_synonym future = nat

definition run_batch ::
  "'s store_class \<Rightarrow> (future \<Rightarrow> bool) \<Rightarrow> (future \<Rightarrow> bool) \<Rightarrow> (future \<times> op) list \<Rightarrow> 's
    \<Rightarrow> (future \<times> op_result res) list \<times> 's" where
  "run_batch cls done_before done_after queue s =
     (let items = filter (\<lambda>(fut, op). \<not> done_before fut) queue; futs = map fst items
      in if items = [] then ([], s)
      else let (listen, dedupped) = dedupe_ops (map snd items) in
        case sc_batch cls dedupped s of
          Inl e \<Rightarrow> (map (\<lambda>fut. (fut, Inl e)) (filter (\<lambda>fut. \<not> done_after fut) futs), s)
        | Inr (results, s') \<Rightarrow>
            let results = (case listen of Some ixs \<Rightarrow> map (\<lambda>ix. results ! ix) ixs | None \<Rightarrow> results)
            in (map (\<lambda>(fut, r). (fut, Inr r)) (filter (\<lambda>(fut, r). \<not> done_after fut) (zip futs results)), s'))"

subsection \<open>What a search finds, apart from the vectors\<close>

type_synonym hit = "namespace \<times> string \<times> item"

definition hits_in :: "float_parser \<Rightarrow> search_op \<Rightarrow> namespace \<Rightarrow> (string, item) dict \<Rightarrow> hit list res" where
  "hits_in parse op ns items =
     rconcat (\<lambda>(key, it). rmap (\<lambda>ok. if ok then [(ns, key, it)] else []) (filter_func parse (so_filter op) it)) items"

definition hits :: "float_parser \<Rightarrow> search_op \<Rightarrow> (namespace, (string, item) dict) dict \<Rightarrow> hit list res" where
  "hits parse op data =
     rconcat (\<lambda>(ns, items). if under_prefix (so_namespace_prefix op) ns then hits_in parse op ns items else Inr []) data"

definition hit_candidate :: "search_op \<Rightarrow> vectors \<Rightarrow> hit \<Rightarrow> item \<times> vec list" where
  "hit_candidate op vs h =
     (let (ns, key, it) = h
      in (it, if has_query op then map snd (case map_of (entry ns vs) key of Some e \<Rightarrow> e | None \<Rightarrow> []) else []))"

definition touch_all :: "namespace list \<Rightarrow> vectors \<Rightarrow> vectors" where
  "touch_all nss vs = foldl (\<lambda>vs ns. touch ns vs) vs nss"

definition hit_namespaces :: "search_op \<Rightarrow> hit list \<Rightarrow> namespace list" where
  "hit_namespaces op hs = (if has_query op then map fst hs else [])"

lemma touch_all_append: "touch_all (xs @ ys) vs = touch_all ys (touch_all xs vs)"
  by (simp add: touch_all_def)

lemma entry_touch_all [simp]: "entry ns (touch_all nss vs) = entry ns vs"
  unfolding touch_all_def by (induction nss arbitrary: vs) simp_all

lemma hit_candidate_touch_all [simp]: "hit_candidate op (touch_all nss vs) = hit_candidate op vs"
  by (simp add: hit_candidate_def fun_eq_iff)

lemma hit_namespaces_append: "hit_namespaces op (xs @ ys) = hit_namespaces op xs @ hit_namespaces op ys"
  by (simp add: hit_namespaces_def)

lemma filter_item_hits:
  "rfold (filter_item parse op ns) (found, vs) items
    = rmap (\<lambda>hs. (found @ map (hit_candidate op vs) hs, touch_all (hit_namespaces op hs) vs)) (hits_in parse op ns items)"
proof (induction items arbitrary: found vs)
  case Nil
  then show ?case by (simp add: hits_in_def touch_all_def hit_namespaces_def)
next
  case (Cons x items)
  obtain key it where x: "x = (key, it)" by (cases x)
  show ?case
  proof (cases "filter_func parse (so_filter op) it")
    case (Inl e)
    with x show ?thesis by (simp add: filter_item_def hits_in_def)
  next
    case (Inr ok)
    have c: "hit_candidate op (touch ns vs) = hit_candidate op vs"
      using hit_candidate_touch_all [of op "[ns]" vs] by (simp add: touch_all_def)
    have step: "filter_item parse op ns (found, vs) (key, it)
      = Inr (found @ map (hit_candidate op vs) (if ok then [(ns, key, it)] else []),
             touch_all (hit_namespaces op (if ok then [(ns, key, it)] else [])) vs)"
      by (simp add: filter_item_def Inr hit_candidate_def hit_namespaces_def touch_all_def Let_def)
    show ?thesis
      using Cons.IH [of "found @ map (hit_candidate op vs) (if ok then [(ns, key, it)] else [])"
          "touch_all (hit_namespaces op (if ok then [(ns, key, it)] else [])) vs"]
      by (cases "hits_in parse op ns items")
        (simp_all add: x step hits_in_def Inr touch_all_append [symmetric] hit_namespaces_append)
  qed
qed

lemma filter_items_hits:
  "filter_items parse op st
    = rmap (\<lambda>hs. (map (hit_candidate op (ms_vectors st)) hs,
                  st\<lparr>ms_vectors := touch_all (hit_namespaces op hs) (ms_vectors st)\<rparr>)) (hits parse op (ms_data st))"
proof -
  let ?p = "so_namespace_prefix op"
  have "rfold (\<lambda>acc (ns, items). if under_prefix ?p ns then rfold (filter_item parse op ns) acc items else Inr acc)
      (found, vs) d
    = rmap (\<lambda>hs. (found @ map (hit_candidate op vs) hs, touch_all (hit_namespaces op hs) vs)) (hits parse op d)" for found vs d
  proof (induction d arbitrary: found vs)
    case Nil
    then show ?case by (simp add: hits_def touch_all_def hit_namespaces_def)
  next
    case (Cons x d)
    obtain ns items where x: "x = (ns, items)" by (cases x)
    show ?case
    proof (cases "under_prefix ?p ns")
      case True
      show ?thesis
      proof (cases "hits_in parse op ns items")
        case (Inr hs)
        show ?thesis
          using Cons.IH [of "found @ map (hit_candidate op vs) hs" "touch_all (hit_namespaces op hs) vs"]
          by (cases "hits parse op d")
            (simp_all add: x True Inr hits_def filter_item_hits touch_all_append hit_namespaces_append)
      qed (simp add: x True hits_def filter_item_hits)
    next
      case False
      with Cons.IH show ?thesis by (cases "hits parse op d") (simp_all add: x hits_def)
    qed
  qed
  from this [of "[]" "ms_vectors st" "ms_data st"] show ?thesis
    by (cases "hits parse op (ms_data st)") (simp_all add: filter_items_def)
qed

subsection \<open>A batch whose gets create no namespace\<close>

definition hits_of :: "float_parser \<Rightarrow> memory_store \<Rightarrow> search_op \<Rightarrow> hit list" where
  "hits_of parse st op = (case hits parse op (ms_data st) of Inr hs \<Rightarrow> hs | Inl e \<Rightarrow> [])"

fun read_check :: "float_parser \<Rightarrow> memory_store \<Rightarrow> op \<Rightarrow> unit res" where
  "read_check parse st (SearchOp op) = rmap (\<lambda>hs. ()) (hits parse op (ms_data st))"
| "read_check parse st (ListNamespacesOp op) = rmap (\<lambda>nss. ()) (handle_list_namespaces op st)"
| "read_check parse st op = Inr ()"

fun first_result :: "float_parser \<Rightarrow> memory_store \<Rightarrow> op \<Rightarrow> op_result" where
  "first_result parse st (GetOp op) = item_result (stored st (go_namespace op, go_key op))"
| "first_result parse st (ListNamespacesOp op) =
     (case handle_list_namespaces op st of Inr nss \<Rightarrow> ResNamespaces nss | Inl e \<Rightarrow> ResNone)"
| "first_result parse st op = ResNone"

definition found_by :: "float_parser \<Rightarrow> memory_store \<Rightarrow> search_op \<Rightarrow> candidates" where
  "found_by parse st op = map (hit_candidate op (ms_vectors st)) (hits_of parse st op)"

fun op_touches :: "float_parser \<Rightarrow> memory_store \<Rightarrow> op \<Rightarrow> namespace list" where
  "op_touches parse st (SearchOp op) = hit_namespaces op (hits_of parse st op)"
| "op_touches parse st op = []"

fun op_search :: "float_parser \<Rightarrow> memory_store \<Rightarrow> nat \<times> op \<Rightarrow> (nat \<times> search_op \<times> candidates) list" where
  "op_search parse st (i, SearchOp op) = [(i, op, found_by parse st op)]"
| "op_search parse st (i, op) = []"

fun add_put :: "(namespace \<times> string, put_op) dict \<Rightarrow> op \<Rightarrow> (namespace \<times> string, put_op) dict" where
  "add_put puts (PutOp op) = dset (put_key op) op puts"
| "add_put puts op = puts"

definition touched_store :: "float_parser \<Rightarrow> memory_store \<Rightarrow> op list \<Rightarrow> memory_store" where
  "touched_store parse st ops =
     st\<lparr>ms_vectors := touch_all (concat (map (op_touches parse st) ops)) (ms_vectors st)\<rparr>"

definition prepared_of :: "float_parser \<Rightarrow> memory_store \<Rightarrow> op list \<Rightarrow> prepared" where
  "prepared_of parse st ops =
     \<lparr>pr_results = map (first_result parse st) ops, pr_puts = foldl add_put [] ops,
      pr_searches = concat (map (op_search parse st) (enumerate 0 ops)), pr_store = touched_store parse st ops\<rparr>"

definition gets_known :: "memory_store \<Rightarrow> op list \<Rightarrow> bool" where
  "gets_known st ops = (\<forall>g. GetOp g \<in> set ops \<longrightarrow> dmem (go_namespace g) (ms_data st))"

definition check_all :: "float_parser \<Rightarrow> memory_store \<Rightarrow> op list \<Rightarrow> unit res" where
  "check_all parse st ops = rfold (\<lambda>u op. read_check parse st op) () ops"

lemma handle_list_vectors [simp]:
  "handle_list_namespaces op (st\<lparr>ms_vectors := v\<rparr>) = handle_list_namespaces op st"
  by (simp add: handle_list_namespaces_def cong: option.case_cong list.case_cong)

lemma touched_store_data [simp]: "ms_data (touched_store parse st ops) = ms_data st"
  by (simp add: touched_store_def)

lemma prepare_op_of:
  assumes "gets_known st [op]"
  shows "prepare_op parse (prepared_of parse st ops) op
    = rmap (\<lambda>u. prepared_of parse st (ops @ [op])) (read_check parse st op)"
proof (cases op)
  case (GetOp g)
  with assms have t: "touch (go_namespace g) (ms_data st) = ms_data st" by (simp add: gets_known_def touch_def)
  have "touched_store parse st (ops @ [op]) = touched_store parse st ops"
    by (simp add: touched_store_def GetOp)
  with t show ?thesis
    by (simp add: GetOp prepared_of_def add_result_def lookup_stored item_result_def enumerate_append_eq)
      (simp add: touched_store_def)
next
  case (SearchOp s)
  show ?thesis
  proof (cases "hits parse s (ms_data st)")
    case (Inr hs)
    have "filter_items parse s (touched_store parse st ops)
      = Inr (found_by parse st s, touched_store parse st (ops @ [op]))"
      by (simp add: filter_items_hits Inr found_by_def hits_of_def SearchOp touched_store_def touch_all_append)
    then show ?thesis
      by (simp add: SearchOp prepared_of_def add_result_def Inr enumerate_append_eq)
  qed (simp add: SearchOp prepared_of_def filter_items_hits)
next
  case (ListNamespacesOp l)
  then show ?thesis
    by (cases "handle_list_namespaces l st")
      (simp_all add: prepared_of_def add_result_def enumerate_append_eq touched_store_def)
next
  case (PutOp p)
  then show ?thesis
    by (simp add: prepared_of_def add_result_def enumerate_append_eq touched_store_def put_key_def)
qed

lemma prepare_ops_of:
  "gets_known st ops \<Longrightarrow> prepare_ops parse ops st = rmap (\<lambda>u. prepared_of parse st ops) (check_all parse st ops)"
proof (induction ops rule: rev_induct)
  case Nil
  then show ?case
    by (simp add: prepare_ops_def prepared_of_def check_all_def touched_store_def touch_all_def)
next
  case (snoc op ops)
  then have k: "gets_known st ops" "gets_known st [op]" by (auto simp: gets_known_def)
  from snoc.IH [OF k(1)] prepare_op_of [OF k(2)] show ?case
    by (cases "check_all parse st ops"; cases "read_check parse st op")
      (simp_all add: prepare_ops_def check_all_def rfold_append)
qed

fun final_result :: "float_parser \<Rightarrow> memory_store \<Rightarrow> (string, vec) dict \<Rightarrow> op \<Rightarrow> op_result" where
  "final_result parse st queries (SearchOp op) = ResSearch (search_result op (found_by parse st op) queries)"
| "final_result parse st queries op = first_result parse st op"

lemma batch_search_append:
  "\<forall>s \<in> set ss. fst s < length rs \<Longrightarrow> batch_search ss qs (rs @ zs) = batch_search ss qs rs @ zs"
  unfolding batch_search_def by (induction ss arbitrary: rs) (auto simp: list_update_append)

lemma batch_search_map:
  "batch_search (concat (map (op_search parse st) (enumerate 0 ops))) qs (map (first_result parse st) ops)
    = map (final_result parse st qs) ops"
proof (induction ops rule: rev_induct)
  case Nil
  then show ?case by (simp add: batch_search_def)
next
  case (snoc op ops)
  let ?ss = "concat (map (op_search parse st) (enumerate 0 ops))"
  have lt: "\<forall>s \<in> set ?ss. fst s < length (map (first_result parse st) ops)"
  proof
    fix s assume "s \<in> set ?ss"
    then obtain i x where "(i, x) \<in> set (enumerate 0 ops)" "s \<in> set (op_search parse st (i, x))" by force
    then show "fst s < length (map (first_result parse st) ops)"
      by (cases x) (auto simp: in_set_enumerate_eq)
  qed
  have "batch_search (?ss @ xs) qs rs = batch_search xs qs (batch_search ?ss qs rs)" for xs rs
    by (simp add: batch_search_def)
  with snoc lt show ?case
    by (cases op) (simp_all add: enumerate_append_eq batch_search_append [OF lt], simp_all add: batch_search_def list_update_append)
qed

fun op_queries :: "op \<Rightarrow> search_op list" where
  "op_queries (SearchOp op) = [op]"
| "op_queries op = []"

definition finish_batch ::
  "store_env \<Rightarrow> (namespace \<times> string, put_op) dict \<Rightarrow> memory_store \<Rightarrow> op_result list \<Rightarrow> (op_result list \<times> memory_store) res" where
  "finish_batch env puts st results =
     rbind (extract_texts puts st) (\<lambda>to_embed.
     rbind (case ms_embeddings st of
             Some em \<Rightarrow>
               if to_embed = [] then Inr st
               else rbind (em_documents em (dkeys to_embed)) (\<lambda>vs. insertinmem_store to_embed vs st)
           | None \<Rightarrow> Inr st) (\<lambda>st.
     Inr (results, apply_put_ops (se_clock env) puts st)))"

lemma embed_no_queries [simp]: "embed_search_queries st [] = Inr []"
  by (simp add: embed_search_queries_def split: option.split)

lemma embed_touched [simp]: "embed_search_queries (touched_store parse st ops) qs = embed_search_queries st qs"
  by (simp add: embed_search_queries_def touched_store_def cong: option.case_cong)

lemma searches_of:
  "map (\<lambda>(i, op, cands). op) (concat (map (op_search parse st) (enumerate n ops))) = concat (map op_queries ops)"
  "concat (map (op_search parse st) (enumerate n ops)) = [] \<longleftrightarrow> concat (map op_queries ops) = []"
proof (induction ops arbitrary: n)
  case (Cons op ops)
  { case 1 from Cons show ?case by (cases op) simp_all }
  { case 2 from Cons show ?case by (cases op) simp_all }
qed simp_all

lemma store_batch_of:
  assumes "gets_known st ops"
  shows "store_batch env ops st
    = rbind (check_all (se_parse env) st ops) (\<lambda>u.
      rbind (embed_search_queries st (concat (map op_queries ops))) (\<lambda>qs.
      finish_batch env (foldl add_put [] ops) (touched_store (se_parse env) st ops)
        (map (final_result (se_parse env) st qs) ops)))"
proof (cases "check_all (se_parse env) st ops")
  case (Inr u)
  let ?ss = "concat (map (op_search (se_parse env) st) (enumerate 0 ops))"
  let ?p = "prepared_of (se_parse env) st ops"
  have p: "prepare_ops (se_parse env) ops st = Inr ?p" by (simp add: prepare_ops_of [OF assms] Inr)
  have "(if pr_searches ?p = [] then Inr (pr_results ?p)
         else rmap (\<lambda>queries. batch_search (pr_searches ?p) queries (pr_results ?p))
                (embed_search_queries (pr_store ?p) (map (\<lambda>(i, op, cands). op) (pr_searches ?p))))
      = rmap (\<lambda>qs. map (final_result (se_parse env) st qs) ops) (embed_search_queries st (concat (map op_queries ops)))"
  proof (cases "?ss = []")
    case True
    then have q: "concat (map op_queries ops) = []" by (simp only: searches_of)
    have "map (final_result (se_parse env) st []) ops = map (first_result (se_parse env) st) ops"
      using batch_search_map [of "se_parse env" st ops "[]"] True by (simp only: batch_search_def foldl_Nil)
    with True q show ?thesis by (simp only: prepared_of_def prepared.simps) (simp del: concat_eq_Nil_conv)
  next
    case False
    then show ?thesis
      by (simp only: prepared_of_def prepared.simps if_False searches_of batch_search_map embed_touched)
  qed
  then show ?thesis
    by (cases "embed_search_queries st (concat (map op_queries ops))")
      (simp_all add: store_batch_def p Inr finish_batch_def, simp_all add: prepared_of_def cong: option.case_cong if_cong)
qed (simp add: store_batch_def prepare_ops_of [OF assms])

subsection \<open>What removing duplicates keeps\<close>

definition keep_first :: "'a list \<Rightarrow> 'a list" where
  "keep_first xs = foldl (\<lambda>acc x. if x \<in> set acc then acc else acc @ [x]) [] xs"

fun is_put :: "op \<Rightarrow> bool" where
  "is_put (PutOp op) = True"
| "is_put op = False"

definition reads_in :: "op list \<Rightarrow> op list" where
  "reads_in ops = filter (\<lambda>op. \<not> is_put op) ops"

fun op_put :: "op \<Rightarrow> ((namespace \<times> string) \<times> put_op) list" where
  "op_put (PutOp op) = [(put_key op, op)]"
| "op_put op = []"

lemma keep_first_snoc: "keep_first (xs @ [x]) = (if x \<in> set (keep_first xs) then keep_first xs else keep_first xs @ [x])"
  by (simp add: keep_first_def)

lemma set_keep_first [simp]: "set (keep_first xs) = set xs"
  by (induction xs rule: rev_induct) (auto simp: keep_first_snoc, simp add: keep_first_def)

lemma index_of_Some:
  "index_of op xs = Some i \<Longrightarrow> i < length xs \<and> (xs ! i = op \<or> op_eq (xs ! i) op)"
  by (induction xs arbitrary: i) (auto split: if_splits)

lemma index_of_None: "index_of op xs = None \<Longrightarrow> op \<notin> set xs"
  by (induction xs) (auto split: if_splits)

lemma filter_update_other: "i < length xs \<Longrightarrow> \<not> P (xs ! i) \<Longrightarrow> \<not> P y \<Longrightarrow> filter P (xs[i := y]) = filter P xs"
proof (induction xs arbitrary: i)
  case (Cons x xs)
  then show ?case by (cases i) auto
qed simp

lemma put_update:
  assumes "i < length xs" and "xs ! i = PutOp q" and "put_key q = put_key p"
    and "dict_ok (concat (map op_put xs))"
  shows "concat (map op_put (xs[i := PutOp p])) = dset (put_key p) p (concat (map op_put xs))"
  using assms
proof (induction xs arbitrary: i)
  case (Cons x xs)
  show ?case
  proof (cases i)
    case 0
    with Cons.prems show ?thesis by simp
  next
    case (Suc j)
    with Cons.prems have q: "(put_key p, q) \<in> set (concat (map op_put xs))"
      using nth_mem [of j xs] by (force simp: image_iff)
    have ih: "concat (map op_put (xs[j := PutOp p])) = dset (put_key p) p (concat (map op_put xs))"
      using Cons Suc by (cases x) (auto simp: dict_ok_def)
    show ?thesis
    proof (cases x)
      case (PutOp r)
      with Cons.prems(4) have "put_key r \<notin> fst ` set (concat (map op_put xs))" by (simp add: dict_ok_def)
      with q have "put_key r \<noteq> put_key p" by (metis fst_conv image_eqI)
      with ih Suc PutOp show ?thesis by simp
    qed (use ih Suc in simp_all)
  qed
qed simp

lemma dict_ok_add_put: "dict_ok (foldl add_put [] ops)"
proof (induction ops rule: rev_induct)
  case (snoc op ops)
  then show ?case by (cases op) simp_all
qed simp

lemma add_puts_distinct: "dict_ok (concat (map op_put ops)) \<Longrightarrow> foldl add_put [] ops = concat (map op_put ops)"
proof (induction ops rule: rev_induct)
  case (snoc op ops)
  then show ?case by (cases op) (auto simp: dict_ok_def dset_new)
qed simp

definition deduped :: "op list \<Rightarrow> dedupe_state \<Rightarrow> bool" where
  "deduped ops s =
     (let (listen, dd, puts) = s in
      length listen = length ops \<and> set dd \<subseteq> set ops
      \<and> (\<forall>i < length ops. listen ! i < length dd \<and> is_put (dd ! (listen ! i)) = is_put (ops ! i)
            \<and> (\<not> is_put (ops ! i) \<longrightarrow> dd ! (listen ! i) = ops ! i))
      \<and> reads_in dd = keep_first (reads_in ops) \<and> concat (map op_put dd) = foldl add_put [] ops
      \<and> (\<forall>k ix. map_of puts k = Some ix \<longrightarrow> ix < length dd \<and> (\<exists>p. dd ! ix = PutOp p \<and> put_key p = k))
      \<and> (\<forall>p. PutOp p \<in> set dd \<longrightarrow> map_of puts (put_key p) \<noteq> None))"

lemma is_put_iff: "is_put op \<longleftrightarrow> (\<exists>p. op = PutOp p)"
  by (cases op) auto

lemma op_puts_mem: "kp \<in> set (concat (map op_put dd)) \<longleftrightarrow> (\<exists>p. PutOp p \<in> set dd \<and> kp = (put_key p, p))"
proof (induction dd)
  case (Cons op dd)
  then show ?case by (cases op) auto
qed simp

lemma deduped_put:
  assumes "deduped ops (listen, dd, puts)"
  shows "deduped (ops @ [PutOp op]) (dedupe_op (listen, dd, puts) (PutOp op))"
proof (cases "map_of puts (put_key op)")
  case None
  have "PutOp p \<in> set dd \<Longrightarrow> put_key p \<noteq> put_key op" for p
    using assms None by (auto simp: deduped_def)
  then have "put_key op \<notin> fst ` set (concat (map op_put dd))"
    unfolding image_iff Bex_def op_puts_mem by fastforce
  from dset_new [OF this, of op]
  have "dset (put_key op) op (foldl add_put [] ops) = foldl add_put [] ops @ [(put_key op, op)]"
    using assms by (simp add: deduped_def)
  with assms None show ?thesis by (auto simp: deduped_def reads_in_def nth_append less_Suc_eq)
next
  case (Some ix)
  have inv: "\<forall>k ix. map_of puts k = Some ix \<longrightarrow> ix < length dd \<and> (\<exists>p. dd ! ix = PutOp p \<and> put_key p = k)"
    using assms by (simp add: deduped_def)
  from inv Some obtain q where ix: "ix < length dd" "dd ! ix = PutOp q" "put_key q = put_key op" by blast
  have "concat (map op_put (dd[ix := PutOp op])) = dset (put_key op) op (concat (map op_put dd))"
    using assms dict_ok_add_put [of ops] by (intro put_update [OF ix]) (simp add: deduped_def)
  moreover have "reads_in (dd[ix := PutOp op]) = reads_in dd"
    using ix by (simp add: reads_in_def filter_update_other)
  moreover have "PutOp p \<in> set (dd[ix := PutOp op]) \<Longrightarrow> map_of puts (put_key p) \<noteq> None" for p
    using assms Some set_update_subset_insert [of dd ix "PutOp op"] by (auto simp: deduped_def)
  moreover have "ix' < length (dd[ix := PutOp op]) \<and> (\<exists>p. dd[ix := PutOp op] ! ix' = PutOp p \<and> put_key p = k)"
    if "map_of puts k = Some ix'" for k ix'
  proof -
    from inv that obtain p where "ix' < length dd" "dd ! ix' = PutOp p" "put_key p = k" by blast
    with ix show ?thesis by (cases "ix' = ix") auto
  qed
  moreover have "set (dd[ix := PutOp op]) \<subseteq> set (ops @ [PutOp op])"
    using assms set_update_subset_insert [of dd ix "PutOp op"] by (auto simp: deduped_def)
  moreover have "(listen @ [ix]) ! i < length (dd[ix := PutOp op])
      \<and> is_put (dd[ix := PutOp op] ! ((listen @ [ix]) ! i)) = is_put ((ops @ [PutOp op]) ! i)
      \<and> (\<not> is_put ((ops @ [PutOp op]) ! i) \<longrightarrow> dd[ix := PutOp op] ! ((listen @ [ix]) ! i) = (ops @ [PutOp op]) ! i)"
    if "i < length (ops @ [PutOp op])" for i
    using assms ix that by (cases "i < length ops"; cases "listen ! i = ix") (auto simp: deduped_def nth_append less_Suc_eq)
  ultimately show ?thesis
    using assms Some unfolding deduped_def by (simp add: reads_in_def)
qed
lemma deduped_read:
  assumes "deduped ops (listen, dd, puts)" and "\<not> is_put op"
    and eq: "\<forall>a \<in> set ops. op_eq a op \<longrightarrow> a = op"
  shows "deduped (ops @ [op]) (dedupe_op (listen, dd, puts) op)"
proof (cases "index_of op dd")
  case None
  have d: "dedupe_op (listen, dd, puts) op = (listen @ [length dd], dd @ [op], puts)"
    using assms(2) None by (cases op) simp_all
  have "set (reads_in dd) = set (reads_in ops)" using assms(1) by (simp add: deduped_def)
  then have "op \<notin> set ops" using index_of_None [OF None] assms(2) by (auto simp: reads_in_def)
  moreover have "op_put op = []" "add_put puts' op = puts'" for puts' using assms(2) by (cases op; simp)+
  ultimately show ?thesis
    using assms(1,2) unfolding d
    by (auto simp: deduped_def reads_in_def nth_append less_Suc_eq keep_first_snoc is_put_iff)
next
  case (Some ix)
  have d: "dedupe_op (listen, dd, puts) op = (listen @ [ix], dd, puts)"
    using assms(2) Some by (cases op) simp_all
  from index_of_Some [OF Some] eq assms(1) have ix: "ix < length dd" "dd ! ix = op"
    by (auto simp: deduped_def) (meson nth_mem subsetD)
  then have "op \<in> set (reads_in dd)" using assms(2) nth_mem [of ix dd] by (simp add: reads_in_def)
  moreover have "add_put puts' op = puts'" for puts' using assms(2) by (cases op; simp)
  ultimately show ?thesis
    using assms(1,2) ix unfolding d
    by (auto simp: deduped_def reads_in_def nth_append less_Suc_eq keep_first_snoc)
qed

lemma deduped_all:
  "\<forall>a \<in> set ops. \<forall>b \<in> set ops. op_eq a b \<longrightarrow> a = b \<Longrightarrow> deduped ops (foldl dedupe_op ([], [], []) ops)"
proof (induction ops rule: rev_induct)
  case Nil
  then show ?case by (simp add: deduped_def reads_in_def keep_first_def)
next
  case (snoc op ops)
  obtain listen dd puts where s: "foldl dedupe_op ([], [], []) ops = (listen, dd, puts)" by (metis prod_cases3)
  from snoc s have d: "deduped ops (listen, dd, puts)" by simp
  show ?case
  proof (cases "is_put op")
    case True
    with deduped_put [OF d] s show ?thesis by (auto simp: is_put_iff)
  next
    case False
    with deduped_read [OF d] snoc.prems s show ?thesis by simp
  qed
qed

subsection \<open>Reads without duplicates\<close>

lemma check_all_reads: "check_all parse st ops = check_all parse st (reads_in ops)"
proof (induction ops)
  case (Cons op ops)
  then show ?case by (cases op) (simp_all add: check_all_def reads_in_def)
qed (simp add: reads_in_def)

lemma check_all_Inr: "check_all parse st ops = Inr u \<Longrightarrow> op \<in> set ops \<Longrightarrow> read_check parse st op = Inr ()"
  unfolding check_all_def by (induction ops) (auto simp: rbind_Inr_iff)

lemma check_all_keep_first: "check_all parse st (keep_first ops) = check_all parse st ops"
proof (induction ops rule: rev_induct)
  case Nil
  then show ?case by (simp add: keep_first_def)
next
  case (snoc op ops)
  have app: "check_all parse st (xs @ [op]) = rbind (check_all parse st xs) (\<lambda>u. read_check parse st op)" for xs
    by (cases "read_check parse st op"; cases "check_all parse st xs") (simp_all add: check_all_def rfold_append)
  show ?case
  proof (cases "op \<in> set ops")
    case True
    with snoc show ?thesis
      by (cases "check_all parse st ops") (simp_all add: app keep_first_snoc check_all_Inr)
  next
    case False
    with snoc show ?thesis by (simp add: app keep_first_snoc)
  qed
qed

lemma dmem_touch: "dmem n (touch ns vs) \<longleftrightarrow> n = ns \<or> dmem n vs"
  by (auto simp: touch_def dmem_def)

lemma dmem_touch_all: "dmem n (touch_all nss vs) \<longleftrightarrow> n \<in> set nss \<or> dmem n vs"
  unfolding touch_all_def by (induction nss arbitrary: vs) (auto simp: dmem_touch)

lemma touch_all_known: "\<forall>n \<in> set nss. dmem n vs \<Longrightarrow> touch_all nss vs = vs"
  unfolding touch_all_def by (induction nss) (auto simp: touch_def)

lemma touches_reads: "concat (map (op_touches parse st) ops) = concat (map (op_touches parse st) (reads_in ops))"
proof (induction ops)
  case (Cons op ops)
  then show ?case by (cases op) (simp_all add: reads_in_def)
qed (simp add: reads_in_def)

lemma touches_keep_first: "touched_store parse st (keep_first ops) = touched_store parse st ops"
proof (induction ops rule: rev_induct)
  case Nil
  then show ?case by (simp add: keep_first_def)
next
  case (snoc op ops)
  have app: "touched_store parse st (xs @ [op])
      = st\<lparr>ms_vectors := touch_all (op_touches parse st op) (ms_vectors (touched_store parse st xs))\<rparr>" for xs
    by (simp add: touched_store_def touch_all_append)
  show ?case
  proof (cases "op \<in> set ops")
    case True
    then have "\<forall>n \<in> set (op_touches parse st op). dmem n (ms_vectors (touched_store parse st ops))"
      by (auto simp: touched_store_def dmem_touch_all)
    then have "touched_store parse st (ops @ [op]) = touched_store parse st ops"
      unfolding app by (simp add: touch_all_known) (simp add: touched_store_def)
    with True snoc show ?thesis by (simp add: keep_first_snoc)
  next
    case False
    with snoc show ?thesis by (simp add: keep_first_snoc app)
  qed
qed

lemma queries_reads: "concat (map op_queries ops) = concat (map op_queries (reads_in ops))"
proof (induction ops)
  case (Cons op ops)
  then show ?case by (cases op) (simp_all add: reads_in_def)
qed (simp add: reads_in_def)

lemma embed_search_queries_set: "set as = set bs \<Longrightarrow> embed_search_queries st as = embed_search_queries st bs"
proof -
  assume "set as = set bs"
  then have "set (map (\<lambda>op. the (so_query op)) (filter has_query as)) = set (map (\<lambda>op. the (so_query op)) (filter has_query bs))"
    by simp
  then have "sort (remdups (map (\<lambda>op. the (so_query op)) (filter has_query as)))
    = sort (remdups (map (\<lambda>op. the (so_query op)) (filter has_query bs)))"
    by (metis sorted_list_of_set_sort_remdups)
  then show ?thesis by (simp add: embed_search_queries_def cong: option.case_cong)
qed



subsection \<open>A read that creates a namespace\<close>

text \<open>
  Reading a key of a namespace in which nothing was ever stored creates the namespace: the store holds the
  same items, but \<open>list_namespaces\<close>, which did not list the namespace before, lists it from then on.
\<close>

theorem get_creates_namespace:
  assumes "ns \<notin> set (dkeys (ms_data st))"
  shows "\<exists>st' before after. store_get (InMemoryStore env) ns key None st = Inr (ResNone, st') \<and> contents st' = contents st
    \<and> store_list_namespaces (InMemoryStore env) None None None (int (length (ms_data st))) 0 st
        = Inr (ResNamespaces before, st) \<and> ns \<notin> set before
    \<and> store_list_namespaces (InMemoryStore env) None None None (int (length (ms_data st')) ) 0 st'
        = Inr (ResNamespaces after, st') \<and> ns \<in> set after"
proof -
  have new: "map_of (ms_data st) ns = None" using assms by (simp add: dkeys_def map_of_eq_None_iff)
  let ?st' = "st\<lparr>ms_data := touch ns (ms_data st)\<rparr>"
  have get: "store_get (InMemoryStore env) ns key None st = Inr (ResNone, ?st')"
    by (simp add: store_get_def batch_one_def InMemoryStore_def batch_simps new split: option.split)
  have slice: "py_slice 0 (int (length xs)) xs = xs" for xs :: "namespace list"
    using py_slice_nat [of 0 "length xs" xs] by simp
  have list: "store_list_namespaces (InMemoryStore env) None None None (int (length (ms_data s))) 0 s
      = Inr (ResNamespaces (sort (dkeys (ms_data s))), s)" for s
    using slice [of "sort (dkeys (ms_data s))"]
    by (simp add: store_list_namespaces_def batch_one_def InMemoryStore_def batch_simps handle_list_namespaces_def dkeys_def
        split: option.split)
  have "ns \<in> set (dkeys (ms_data ?st'))"
    using new by (simp add: touch_def dmem_def dkeys_def update_keys map_of_eq_None_iff)
  with get list [of st] list [of ?st'] assms show ?thesis
    by (intro exI [of _ ?st'] exI [of _ "sort (dkeys (ms_data st))"] exI [of _ "sort (dkeys (ms_data ?st'))"])
      (simp add: contents_def fun_eq_iff)
qed

lemma get_creates_namespace_witness:
  "\<exists>st' after. store_get (InMemoryStore example_store_env) [''x''] ''k'' None plain_store = Inr (ResNone, st')
    \<and> store_list_namespaces (InMemoryStore example_store_env) None None None (int (length (ms_data st')) ) 0 st'
        = Inr (ResNamespaces after, st') \<and> [''x''] \<in> set after"
  using get_creates_namespace [of "[''x'']" plain_store example_store_env "''k''"]
  by (fastforce simp: plain_store_def dkeys_def)

end
