(* ===== verification/Store_Index.thy ===== *)
theory Store_Index
  imports Store_Batched
begin

section \<open>Which puts can be embedded\<close>

text \<open>
  The texts that a batch of puts embeds, one after the other, as a specification of \<open>_extract_texts\<close>; and
  when the batch succeeds: \<open>_insertinmem_store\<close> expects one vector for each place, but texts are embedded
  once each.
\<close>

subsection \<open>The texts of a batch\<close>

definition path_texts :: "put_op \<Rightarrow> string \<Rightarrow> string list \<Rightarrow> (string \<times> item_path) list" where
  "path_texts op path texts =
     (case texts of
       [] \<Rightarrow> []
     | [t] \<Rightarrow> [(t, (po_namespace op, po_key op, path))]
     | _ \<Rightarrow> map (\<lambda>(i, t). (t, (po_namespace op, po_key op, path @ ''.'' @ str_of_int (int i)))) (enumerate 0 texts))"

definition put_texts :: "(string \<times> text_path) list \<Rightarrow> put_op \<Rightarrow> (string \<times> item_path) list res" where
  "put_texts default_fields op =
     (case (po_value op, po_index op) of
       (None, _) \<Rightarrow> Inr []
     | (_, IndexFalse) \<Rightarrow> Inr []
     | (Some v, ix) \<Rightarrow>
         rconcat (\<lambda>(path, field). rmap (path_texts op path) (get_text_at_path (VDict v) field))
           (case ix of IndexFields ps \<Rightarrow> map (\<lambda>p. (p, PathTokens (tokenize_path p))) ps | _ \<Rightarrow> default_fields))"

definition add_text :: "(string, item_path list) dict \<Rightarrow> string \<times> item_path \<Rightarrow> (string, item_path list) dict" where
  "add_text d tp = dset (fst tp) (dgetd d (fst tp) [] @ [snd tp]) d"

lemma index_texts_spec: "index_texts op path texts d = foldl add_text d (path_texts op path texts)"
proof -
  have F: "foldl (\<lambda>d (text, p). dset text (dgetd d text [] @ [(po_namespace op, po_key op, p)]) d) d
      (map (\<lambda>(i, t). (t, f i)) xs)
    = foldl add_text d (map (\<lambda>(i, t). (t, (po_namespace op, po_key op, f i))) xs)" for f and xs :: "(nat \<times> string) list" and d
    by (induction xs arbitrary: d) (auto simp: add_text_def)
  consider "texts = []" | t where "texts = [t]" | t u us where "texts = t # u # us" by (metis list.exhaust)
  then show ?thesis
  proof cases
    case 3
    then show ?thesis by (simp only: index_texts_def path_texts_def Let_def list.case enumerate_eq_zip add_0 F)
  qed (simp_all add: index_texts_def path_texts_def add_text_def)
qed

lemma rfold_rconcat:
  assumes "\<And>d x. f d x = rmap (\<lambda>ys. foldl g d ys) (h x)"
  shows "rfold f d xs = rmap (\<lambda>ys. foldl g d ys) (rconcat h xs)"
proof (induction xs arbitrary: d)
  case (Cons x xs)
  then show ?case by (cases "h x"; cases "rconcat h xs") (simp_all add: assms)
qed simp

lemma extract_put_spec:
  "extract_put default_fields op d = rmap (\<lambda>ts. foldl add_text d ts) (put_texts default_fields op)"
proof -
  have "rfold (\<lambda>d (path, field). rmap (\<lambda>texts. index_texts op path texts d) (get_text_at_path v field)) d paths
    = rmap (\<lambda>ts. foldl add_text d ts)
        (rconcat (\<lambda>(path, field). rmap (path_texts op path) (get_text_at_path v field)) paths)" for v d paths
  proof (rule rfold_rconcat)
    fix d x
    show "(\<lambda>(path, field). rmap (\<lambda>texts. index_texts op path texts d) (get_text_at_path v field)) x
      = rmap (\<lambda>ys. foldl add_text d ys) ((\<lambda>(path, field). rmap (path_texts op path) (get_text_at_path v field)) x)"
      by (cases x; cases "get_text_at_path v (snd x)") (simp_all add: index_texts_spec)
  qed
  then show ?thesis
    by (simp add: extract_put_def put_texts_def Let_def split: option.split put_index.split)
qed

lemma extract_texts_spec:
  assumes "ms_embeddings st = Some em"
  shows "extract_texts puts st
    = rmap (\<lambda>ts. foldl add_text [] ts) (rconcat (\<lambda>(nk, op). put_texts (ms_fields st) op) puts)"
  unfolding extract_texts_def
  by (simp add: assms, rule rfold_rconcat) (auto simp: extract_put_spec)

lemma add_texts_counts:
  "length (concat (map snd (foldl add_text [] ts))) = length ts
    \<and> set (dkeys (foldl add_text [] ts)) = fst ` set ts \<and> distinct (dkeys (foldl add_text [] ts))"
proof (induction ts rule: rev_induct)
  case Nil
  then show ?case by (simp add: dkeys_def)
next
  case (snoc tp ts)
  have len: "length (concat (map snd (dset t (dgetd d t [] @ [p]) d))) = Suc (length (concat (map snd d)))"
    for t p and d :: "(string, item_path list) dict"
    by (induction d) (auto simp: dgetd_def)
  from snoc show ?case
    by (auto simp: add_text_def len [of "fst tp" _ "snd tp"] dkeys_def update_keys)
qed

lemma mismatch_iff:
  "length (concat (map snd (foldl add_text [] ts))) = length (dkeys (foldl add_text [] ts)) \<longleftrightarrow> distinct (map fst ts)"
proof -
  have "length (dkeys (foldl add_text [] ts)) = card (set (map fst ts))"
    using add_texts_counts [of ts] distinct_card [of "dkeys (foldl add_text [] ts)"] by simp
  with add_texts_counts [of ts] show ?thesis
    by (metis card_distinct distinct_card length_map)
qed

lemma store_batch_puts:
  "store_batch env (map PutOp ps) st = finish_batch env (foldl add_put [] (map PutOp ps)) st (map (\<lambda>p. ResNone) ps)"
proof -
  have "gets_known st (map PutOp ps)" by (auto simp: gets_known_def)
  moreover have "check_all (se_parse env) st (map PutOp ps) = Inr ()" by (induction ps) (simp_all add: check_all_def)
  moreover have q: "concat (map op_queries (map PutOp ps)) = []" by (induction ps) simp_all
  moreover have "touched_store (se_parse env) st (map PutOp ps) = st"
    by (induction ps) (simp_all add: touched_store_def touch_all_def)
  moreover have "map (final_result (se_parse env) st qs) (map PutOp ps) = map (\<lambda>p. ResNone) ps" for qs
    by simp
  ultimately show ?thesis by (simp only: store_batch_of embed_no_queries rbind_simps)
qed

text \<open>
  A batch of puts whose texts can be extracted succeeds, with an embedding function that returns one
  vector for each text, exactly when no text occurs twice in it, be it in two items or in two fields of one;
  otherwise it raises a \<open>ValueError\<close> and stores nothing.
\<close>

theorem batch_embeds_distinct_texts:
  assumes em: "ms_embeddings st = Some em"
    and one_each: "\<And>texts. \<exists>vs. em_documents em texts = Inr vs \<and> length vs = length texts"
    and ts: "rconcat (\<lambda>(nk, op). put_texts (ms_fields st) op) (foldl add_put [] (map PutOp ps)) = Inr ts"
  shows "if distinct (map fst ts) then \<exists>rs st'. store_batch env (map PutOp ps) st = Inr (rs, st')
    else store_batch env (map PutOp ps) st = Inl (ValueError ''Number of embeddings'')"
proof -
  let ?te = "foldl add_text [] ts"
  have te: "extract_texts (foldl add_put [] (map PutOp ps)) st = Inr ?te"
    by (simp add: extract_texts_spec [OF em] ts)
  obtain vs where vs: "em_documents em (dkeys ?te) = Inr vs" "length vs = length (dkeys ?te)" using one_each by blast
  show ?thesis
  proof (cases "distinct (map fst ts)")
    case True
    then have "length (concat (map snd ?te)) = length vs" by (simp only: mismatch_iff [symmetric] vs)
    with True vs te em show ?thesis
      by (simp add: store_batch_puts finish_batch_def insertinmem_store_def)
  next
    case False
    then have "length (concat (map snd ?te)) \<noteq> length vs" by (simp only: mismatch_iff [symmetric] vs not_False_eq_True)
    moreover from this vs have "?te \<noteq> []" by (auto simp: dkeys_def)
    ultimately show ?thesis using False vs te em
      by (simp add: store_batch_puts finish_batch_def insertinmem_store_def)
  qed
qed

definition example_indexed :: memory_store where
  "example_indexed = \<lparr>ms_data = [], ms_vectors = [], ms_fields = [(''t'', PathTokens [''t''])],
     ms_embeddings = Some \<lparr>em_documents = (\<lambda>ts. Inr (map (\<lambda>t. [1]) ts)), em_query = (\<lambda>t. Inr [1])\<rparr>\<rparr>"

definition example_doc :: "string \<Rightarrow> string \<Rightarrow> put_op" where
  "example_doc key text = \<lparr>po_namespace = [''ns''], po_key = key, po_value = Some [(''t'', VStr text)],
     po_index = IndexDefault, po_ttl = None\<rparr>"

lemma batch_embeds_distinct_texts_witness:
  "store_batch example_store_env (map PutOp [example_doc ''a'' ''x'', example_doc ''b'' ''x'']) example_indexed
    = Inl (ValueError ''Number of embeddings'')"
proof -
  have "rconcat (\<lambda>(nk, op). put_texts (ms_fields example_indexed) op)
      (foldl add_put [] (map PutOp [example_doc ''a'' ''x'', example_doc ''b'' ''x'']))
    = Inr [(''x'', ([''ns''], ''a'', ''t'')), (''x'', ([''ns''], ''b'', ''t''))]"
    by (simp add: example_doc_def example_indexed_def put_key_def put_texts_def path_texts_def starts_with_def ends_with_def)
  from batch_embeds_distinct_texts [OF _ _ this, of _ example_store_env] show ?thesis
    by (simp add: example_indexed_def)
qed

end
