(* ===== verification/Cache_Memory.thy ===== *)
theory Cache_Memory
  imports Serde Complex_Main
begin

section \<open>The in-memory cache\<close>

text \<open>
  \<open>InMemoryCache\<close> (\<open>cache/memory/__init__.py\<close>), which keeps the writes of tasks by a key of their input:
  serialized values with the time at which they expire. The clock's reading is an argument (\<open>now\<close>), in
  seconds; the lock makes each operation atomic, and the async methods call these.
\<close>

type_synonym full_key = "string list \<times> string"
type_synonym cache_entry = "string \<times> string \<times> real option"
type_synonym memory_cache = "(string list, (string, cache_entry) dict) dict"

definition cache_lookup :: "memory_cache \<Rightarrow> full_key \<Rightarrow> cache_entry option" where
  "cache_lookup c fk = (case map_of c (fst fk) of Some d \<Rightarrow> map_of d (snd fk) | None \<Rightarrow> None)"

definition live :: "real \<Rightarrow> real option \<Rightarrow> bool" where
  "live now expiry = (case expiry of None \<Rightarrow> True | Some e \<Rightarrow> now < e)"

definition cache_get_key ::
  "loads \<Rightarrow> real \<Rightarrow> (full_key, pyval) dict \<times> memory_cache \<Rightarrow> full_key \<Rightarrow> ((full_key, pyval) dict \<times> memory_cache) res" where
  "cache_get_key loads now st fk =
     (let (vals, c) = st; (ns, key) = fk in
      case map_of c ns of
        None \<Rightarrow> Inr (vals, c)
      | Some d \<Rightarrow>
          (case map_of d key of
            None \<Rightarrow> Inr (vals, c)
          | Some (enc, val, expiry) \<Rightarrow>
              if live now expiry then rmap (\<lambda>v. (dset (ns, key) v vals, c)) (loads (enc, val))
              else Inr (vals, dset ns (ddel key d) c)))"

definition cache_get ::
  "loads \<Rightarrow> real \<Rightarrow> full_key list \<Rightarrow> memory_cache \<Rightarrow> ((full_key, pyval) dict \<times> memory_cache) res" where
  "cache_get loads now keys c = (if keys = [] then Inr ([], c) else rfold (cache_get_key loads now) ([], c) keys)"

definition cache_set_key ::
  "dumps \<Rightarrow> real \<Rightarrow> memory_cache \<Rightarrow> full_key \<times> (pyval \<times> int option) \<Rightarrow> memory_cache res" where
  "cache_set_key dumps now c kv =
     (let ((ns, key), (val, ttl)) = kv;
          expiry = (case ttl of Some s \<Rightarrow> Some (now + of_int s) | None \<Rightarrow> None);
          c = (if dmem ns c then c else dset ns [] c)
      in rmap (\<lambda>(enc, b). dset ns (dset key (enc, b, expiry) (dgetd c ns [])) c) (dumps val))"

definition cache_set ::
  "dumps \<Rightarrow> real \<Rightarrow> (full_key, pyval \<times> int option) dict \<Rightarrow> memory_cache \<Rightarrow> memory_cache res" where
  "cache_set dumps now keys c = rfold (cache_set_key dumps now) c keys"

definition cache_clear :: "string list list option \<Rightarrow> memory_cache \<Rightarrow> memory_cache" where
  "cache_clear namespaces c =
     (case namespaces of None \<Rightarrow> [] | Some nss \<Rightarrow> foldl (\<lambda>c ns. if dmem ns c then ddel ns c else c) c nss)"

subsection \<open>What a cache holds at a time\<close>

definition cached :: "loads \<Rightarrow> memory_cache \<Rightarrow> real \<Rightarrow> full_key \<Rightarrow> pyval option" where
  "cached loads c now fk =
     (case cache_lookup c fk of
       Some (enc, b, expiry) \<Rightarrow>
         if live now expiry then (case loads (enc, b) of Inr v \<Rightarrow> Some v | Inl e \<Rightarrow> None) else None
     | None \<Rightarrow> None)"

definition cache_ok :: "loads \<Rightarrow> memory_cache \<Rightarrow> bool" where
  "cache_ok loads c = (\<forall>fk enc b expiry. cache_lookup c fk = Some (enc, b, expiry) \<longrightarrow> (\<exists>v. loads (enc, b) = Inr v))"

lemma lookup_dset: "cache_lookup (dset ns d c) fk = (if fst fk = ns then map_of d (snd fk) else cache_lookup c fk)"
  by (simp add: cache_lookup_def)

lemma lookup_dset_del:
  "map_of c ns = Some d \<Longrightarrow>
    cache_lookup (dset ns (ddel key d) c) fk = (if fk = (ns, key) then None else cache_lookup c fk)"
  by (cases fk) (auto simp: cache_lookup_def delete_conv)

lemma lookup_set:
  "cache_lookup (dset ns (dset key e (dgetd c ns [])) c) fk = (if fk = (ns, key) then Some e else cache_lookup c fk)"
  by (cases fk) (auto simp: cache_lookup_def dgetd_def split: option.split)

context serializer
begin

lemma cache_get_key_ok:
  assumes "cache_ok loads c"
  shows "\<exists>vals' c'. cache_get_key loads now (vals, c) fk = Inr (vals', c') \<and> cache_ok loads c'
    \<and> (\<forall>t \<ge> now. cached loads c' t = cached loads c t)
    \<and> (\<forall>fk'. map_of vals' fk' = (if fk' = fk \<and> cached loads c now fk \<noteq> None then cached loads c now fk else map_of vals fk'))"
proof (cases "cache_lookup c fk")
  case None
  then have "cache_get_key loads now (vals, c) fk = Inr (vals, c)"
    by (cases fk) (auto simp: cache_get_key_def cache_lookup_def split: option.splits)
  with None assms show ?thesis by (simp add: cached_def)
next
  case (Some e)
  obtain enc b expiry where e: "e = (enc, b, expiry)" by (cases e)
  from Some obtain d where d: "map_of c (fst fk) = Some d" "map_of d (snd fk) = Some (enc, b, expiry)"
    by (auto simp: cache_lookup_def e split: option.splits)
  show ?thesis
  proof (cases "live now expiry")
    case True
    from Some e assms obtain v where v: "loads (enc, b) = Inr v" unfolding cache_ok_def by blast
    with d True have "cache_get_key loads now (vals, c) fk = Inr (dset fk v vals, c)"
      by (simp add: cache_get_key_def case_prod_unfold)
    with Some e v True assms show ?thesis by (simp add: cached_def)
  next
    case False
    let ?c = "dset (fst fk) (ddel (snd fk) d) c"
    have g: "cache_get_key loads now (vals, c) fk = Inr (vals, ?c)"
      using d False by (simp add: cache_get_key_def case_prod_unfold)
    have l: "cache_lookup ?c fk' = (if fk' = fk then None else cache_lookup c fk')" for fk'
      using lookup_dset_del [OF d(1), of "snd fk" fk'] by simp
    have "\<not> live t expiry" if "t \<ge> now" for t using False that by (auto simp: live_def split: option.splits)
    then have "cached loads ?c t = cached loads c t" if "t \<ge> now" for t
      using Some e that by (auto simp: cached_def l fun_eq_iff)
    with g assms False Some e show ?thesis by (auto simp: cached_def cache_ok_def l)
  qed
qed

lemma cache_get_ok:
  assumes "cache_ok loads c"
  shows "\<exists>vals c'. cache_get loads now keys c = Inr (vals, c') \<and> cache_ok loads c'
    \<and> (\<forall>t \<ge> now. cached loads c' t = cached loads c t)
    \<and> (\<forall>fk. map_of vals fk = (if fk \<in> set keys then cached loads c now fk else None))"
proof -
  have "\<exists>vals' c'. rfold (cache_get_key loads now) (vals, c) keys = Inr (vals', c') \<and> cache_ok loads c'
    \<and> (\<forall>t \<ge> now. cached loads c' t = cached loads c t)
    \<and> (\<forall>fk. map_of vals' fk = (if fk \<in> set keys \<and> cached loads c now fk \<noteq> None then cached loads c now fk else map_of vals fk))"
    for vals
    using assms
  proof (induction keys arbitrary: vals c)
    case (Cons k keys)
    from cache_get_key_ok [OF Cons.prems, of now vals k] obtain v1 c1 where
      1: "cache_get_key loads now (vals, c) k = Inr (v1, c1)" "cache_ok loads c1"
        "\<forall>t \<ge> now. cached loads c1 t = cached loads c t"
        "\<forall>fk'. map_of v1 fk' = (if fk' = k \<and> cached loads c now k \<noteq> None then cached loads c now k else map_of vals fk')"
      by blast
    from Cons.IH [OF 1(2), of v1] obtain v2 c2 where
      2: "rfold (cache_get_key loads now) (v1, c1) keys = Inr (v2, c2)" "cache_ok loads c2"
        "\<forall>t \<ge> now. cached loads c2 t = cached loads c1 t"
        "\<forall>fk. map_of v2 fk = (if fk \<in> set keys \<and> cached loads c1 now fk \<noteq> None then cached loads c1 now fk else map_of v1 fk)"
      by blast
    from 1(3) have "cached loads c1 now = cached loads c now" by simp
    with 1 2 show ?case by (intro exI [of _ v2] exI [of _ c2]) (auto simp del: split_paired_All)
  qed simp
  from this [of "[]"] show ?thesis
    by (cases "keys = []") (use assms in \<open>auto simp: cache_get_def simp del: split_paired_All\<close>)
qed

lemma cache_set_ok:
  assumes "cache_ok loads c" and "dict_ok keys" and "\<forall>(fk, v, ttl) \<in> set keys. ok v"
  shows "\<exists>c'. cache_set dumps now keys c = Inr c' \<and> cache_ok loads c'
    \<and> (\<forall>t fk. cached loads c' t fk = (case map_of keys fk of
          Some (v, ttl) \<Rightarrow> if live t (map_option (\<lambda>s. now + of_int s) ttl) then Some v else None
        | None \<Rightarrow> cached loads c t fk))"
  using assms
proof (induction keys arbitrary: c)
  case Nil
  then show ?case by (simp add: cache_set_def)
next
  case (Cons x keys)
  obtain fk v ttl where x: "x = (fk, v, ttl)" by (cases x)
  from Cons.prems x have "ok v" by simp
  with roundtrip obtain enc b where d: "dumps v = Inr (enc, b)" "loads (enc, b) = Inr v" by blast
  let ?e = "(enc, b, map_option (\<lambda>s. now + of_int s) ttl)"
  obtain c1 where 1: "cache_set_key dumps now c x = Inr c1"
      "\<And>fk'. cache_lookup c1 fk' = (if fk' = fk then Some ?e else cache_lookup c fk')"
  proof -
    let ?c = "if dmem (fst fk) c then c else dset (fst fk) [] c"
    have touch: "cache_lookup ?c = cache_lookup c" and g: "dgetd ?c (fst fk) [] = dgetd c (fst fk) []"
      by (auto simp: cache_lookup_def fun_eq_iff dmem_def dgetd_def split: option.splits)
    have ttl: "(case ttl of Some s \<Rightarrow> Some (now + of_int s) | None \<Rightarrow> None) = map_option (\<lambda>s. now + of_int s) ttl"
      by (cases ttl) simp_all
    have "cache_set_key dumps now c x = Inr (dset (fst fk) (dset (snd fk) ?e (dgetd ?c (fst fk) [])) ?c)"
      by (simp add: cache_set_key_def x d case_prod_unfold Let_def ttl)
    moreover have "cache_lookup (dset (fst fk) (dset (snd fk) ?e (dgetd ?c (fst fk) [])) ?c) fk'
      = (if fk' = fk then Some ?e else cache_lookup c fk')" for fk'
      using lookup_set [of "fst fk" "snd fk" ?e ?c fk'] touch by simp
    ultimately show thesis using that by blast
  qed
  have ok1: "cache_ok loads c1" using Cons.prems(1) d by (auto simp: cache_ok_def 1(2))
  from Cons.IH [OF ok1] Cons.prems x obtain c2 where
    2: "cache_set dumps now keys c1 = Inr c2" "cache_ok loads c2"
      "\<forall>t fk. cached loads c2 t fk = (case map_of keys fk of
          Some (v, ttl) \<Rightarrow> if live t (map_option (\<lambda>s. now + of_int s) ttl) then Some v else None
        | None \<Rightarrow> cached loads c1 t fk)"
    by (auto simp: dict_ok_def)
  have "map_of keys fk = None" using Cons.prems(2) x by (auto simp: dict_ok_def map_of_eq_None_iff)
  moreover have "cached loads c1 t fk' = (if fk' = fk then
      (if live t (map_option (\<lambda>s. now + of_int s) ttl) then Some v else None) else cached loads c t fk')" for t fk'
    by (simp add: cached_def 1(2) d(2))
  ultimately have "cached loads c2 t fk' = (case map_of (x # keys) fk' of
          Some (v, ttl) \<Rightarrow> if live t (map_option (\<lambda>s. now + of_int s) ttl) then Some v else None
        | None \<Rightarrow> cached loads c t fk')" for t fk'
    by (cases "fk' = fk") (simp_all add: 2(3) [rule_format] x cong: option.case_cong)
  moreover have "cache_set dumps now (x # keys) c = Inr c2" using 1(1) 2(1) by (simp add: cache_set_def)
  ultimately show ?case using 2(2) by blast
qed

end

text \<open>
  A value put into the cache is found under its key until its time to live is over, and not from then on;
  a value without one is always found; putting and reading leave what is found under other keys alone, although
  reading drops what has expired.
\<close>

theorem cache_until_expiry:
  assumes "cache_ok (JsonPlus_loads_typed k) c" and "dict_ok pairs" and "\<forall>(fk, v, ttl) \<in> set pairs. packable k v"
  shows "\<exists>c'. cache_set (JsonPlus_dumps_typed k) now pairs c = Inr c'
    \<and> (\<forall>t keys. \<exists>vals c''. cache_get (JsonPlus_loads_typed k) t keys c' = Inr (vals, c'')
         \<and> (\<forall>fk. map_of vals fk = (if fk \<in> set keys then
               (case map_of pairs fk of
                 Some (v, ttl) \<Rightarrow> if live t (map_option (\<lambda>s. now + of_int s) ttl) then Some v else None
               | None \<Rightarrow> cached (JsonPlus_loads_typed k) c t fk) else None))
         \<and> (\<forall>t' \<ge> t. cached (JsonPlus_loads_typed k) c'' t' = cached (JsonPlus_loads_typed k) c' t'))"
proof -
  from json.cache_set_ok [OF assms] obtain c' where
    c': "cache_set (JsonPlus_dumps_typed k) now pairs c = Inr c'" "cache_ok (JsonPlus_loads_typed k) c'"
    "\<forall>t fk. cached (JsonPlus_loads_typed k) c' t fk = (case map_of pairs fk of
          Some (v, ttl) \<Rightarrow> if live t (map_option (\<lambda>s. now + of_int s) ttl) then Some v else None
        | None \<Rightarrow> cached (JsonPlus_loads_typed k) c t fk)"
    by blast
  show ?thesis
  proof (intro exI [of _ c'] conjI allI)
    fix t keys
    from json.cache_get_ok [OF c'(2), of t keys] obtain vals c'' where
      g: "cache_get (JsonPlus_loads_typed k) t keys c' = Inr (vals, c'')"
      and v: "\<forall>fk. map_of vals fk = (if fk \<in> set keys then cached (JsonPlus_loads_typed k) c' t fk else None)"
      and l: "\<forall>t' \<ge> t. cached (JsonPlus_loads_typed k) c'' t' = cached (JsonPlus_loads_typed k) c' t'"
      by blast
    from g v [unfolded c'(3) [rule_format]] l
    show "\<exists>vals c''. cache_get (JsonPlus_loads_typed k) t keys c' = Inr (vals, c'')
         \<and> (\<forall>fk. map_of vals fk = (if fk \<in> set keys then
               (case map_of pairs fk of
                 Some (v, ttl) \<Rightarrow> if live t (map_option (\<lambda>s. now + of_int s) ttl) then Some v else None
               | None \<Rightarrow> cached (JsonPlus_loads_typed k) c t fk) else None))
         \<and> (\<forall>t' \<ge> t. cached (JsonPlus_loads_typed k) c'' t' = cached (JsonPlus_loads_typed k) c' t')"
      by blast
  qed (rule c'(1))
qed


lemma cache_until_expiry_witness:
  "\<exists>c' vals c''. cache_set (JsonPlus_dumps_typed example_codec) 0 [(([''ns''], ''k''), VStr ''v'', Some 5)] [] = Inr c'
    \<and> cache_get (JsonPlus_loads_typed example_codec) 3 [([''ns''], ''k'')] c' = Inr (vals, c'')
    \<and> map_of vals ([''ns''], ''k'') = Some (VStr ''v'')"
proof -
  let ?pairs = "[(([''ns''], ''k''), VStr ''v'', Some (5 :: int))]" and ?k = "([''ns''], ''k'')"
  have "cache_ok (JsonPlus_loads_typed example_codec) []" by (simp add: cache_ok_def cache_lookup_def)
  moreover have "dict_ok ?pairs" by (simp add: dict_ok_def)
  moreover have "\<forall>(fk, v, ttl) \<in> set ?pairs. packable example_codec v"
    by (simp add: packable_def example_codec_def)
  ultimately have "\<exists>c'. cache_set (JsonPlus_dumps_typed example_codec) 0 ?pairs [] = Inr c'
    \<and> (\<forall>t keys. \<exists>vals c''. cache_get (JsonPlus_loads_typed example_codec) t keys c' = Inr (vals, c'')
         \<and> (\<forall>fk. map_of vals fk = (if fk \<in> set keys then
               (case map_of ?pairs fk of
                 Some (v, ttl) \<Rightarrow> if live t (map_option (\<lambda>s. 0 + of_int s) ttl) then Some v else None
               | None \<Rightarrow> cached (JsonPlus_loads_typed example_codec) [] t fk) else None))
         \<and> (\<forall>t' \<ge> t. cached (JsonPlus_loads_typed example_codec) c'' t' = cached (JsonPlus_loads_typed example_codec) c' t'))"
    by (rule cache_until_expiry)
  then obtain c' where c': "cache_set (JsonPlus_dumps_typed example_codec) 0 ?pairs [] = Inr c'"
    and "\<exists>vals c''. cache_get (JsonPlus_loads_typed example_codec) 3 [?k] c' = Inr (vals, c'')
         \<and> (\<forall>fk. map_of vals fk = (if fk \<in> set [?k] then
               (case map_of ?pairs fk of
                 Some (v, ttl) \<Rightarrow> if live 3 (map_option (\<lambda>s. 0 + of_int s) ttl) then Some v else None
               | None \<Rightarrow> cached (JsonPlus_loads_typed example_codec) [] 3 fk) else None))"
    by blast
  then obtain vals c'' where "cache_get (JsonPlus_loads_typed example_codec) 3 [?k] c' = Inr (vals, c'')"
    and "map_of vals ?k = Some (VStr ''v'')"
    by (auto simp: live_def)
  with c' show ?thesis by blast
qed

end
