(* ===== verification/SDK_SSE.thy ===== *)
theory SDK_SSE
  imports Store_Text "HOL-Library.Word"
begin

section \<open>Server-sent events\<close>

text \<open>
  \<open>sdk-py/langgraph_sdk/sse.py\<close>: the incremental line decoder and the decoder of events. Bytes are
  \<open>8 word\<close>; a decoded \<open>str\<close> is the bytes of its UTF-8 form. JSON is parsed by \<open>orjson\<close>, a parameter
  that returns \<open>None\<close> where it raises.
\<close>

type_synonym byte = "8 word"
type_synonym bytes = "byte list"

definition LF :: byte where "LF = 10"
definition CR :: byte where "CR = 13"

lemma LF_CR [simp]: "LF \<noteq> CR" "CR \<noteq> LF"
  by (simp_all add: LF_def CR_def)

definition newline :: "byte \<Rightarrow> bool" where
  "newline b = (b = LF \<or> b = CR)"

lemma newline_simps [simp]: "newline LF" "newline CR"
  by (simp_all add: newline_def)

definition str_bytes :: "string \<Rightarrow> bytes" where
  "str_bytes s = map (\<lambda>c. word_of_nat (of_char c)) s"

text \<open>\<open>bytes.splitlines()\<close>: lines end with LF, CR or CR LF; \<open>cur\<close> is the line being read.\<close>

fun split_from :: "bytes \<Rightarrow> bytes \<Rightarrow> bytes list" where
  "split_from cur [] = (if cur = [] then [] else [cur])"
| "split_from cur [b] = (if newline b then [cur] else [cur @ [b]])"
| "split_from cur (b # c # bs) =
     (if b = CR \<and> c = LF then cur # split_from [] bs
      else if newline b then cur # split_from [] (c # bs)
      else split_from (cur @ [b]) (c # bs))"

definition splitlines :: "bytes \<Rightarrow> bytes list" where
  "splitlines s = split_from [] s"

subsection \<open>Lines, incrementally\<close>

record line_decoder =
  ld_buffer :: bytes
  ld_trailing_cr :: bool

definition BytesLineDecoder_init :: line_decoder where
  "BytesLineDecoder_init = \<lparr>ld_buffer = [], ld_trailing_cr = False\<rparr>"

definition line_decode :: "bytes \<Rightarrow> line_decoder \<Rightarrow> bytes list \<times> line_decoder" where
  "line_decode text d =
     (let text = (if ld_trailing_cr d then CR # text else text);
          cr = (text \<noteq> [] \<and> last text = CR);
          text = (if cr then butlast text else text);
          d = d\<lparr>ld_trailing_cr := cr\<rparr>
      in if text = [] then ([], d)
      else let trailing_newline = newline (last text); lines = splitlines text in
        if length lines = 1 \<and> \<not> trailing_newline then ([], d\<lparr>ld_buffer := ld_buffer d @ hd lines\<rparr>)
        else let (lines, d) = (if ld_buffer d \<noteq> []
                               then ((ld_buffer d @ hd lines) # tl lines, d\<lparr>ld_buffer := []\<rparr>)
                               else (lines, d))
          in if \<not> trailing_newline then (butlast lines, d\<lparr>ld_buffer := ld_buffer d @ last lines\<rparr>)
          else (lines, d))"

definition line_flush :: "line_decoder \<Rightarrow> bytes list \<times> line_decoder" where
  "line_flush d =
     (if ld_buffer d = [] \<and> \<not> ld_trailing_cr d then ([], d)
      else ([ld_buffer d], \<lparr>ld_buffer = [], ld_trailing_cr = False\<rparr>))"

fun decode_chunks :: "bytes list \<Rightarrow> line_decoder \<Rightarrow> bytes list \<times> line_decoder" where
  "decode_chunks [] d = ([], d)"
| "decode_chunks (c # cs) d =
     (let (ls, d) = line_decode c d; (ls', d) = decode_chunks cs d in (ls @ ls', d))"

definition iter_lines_raw :: "bytes list \<Rightarrow> bytes list" where
  "iter_lines_raw chunks =
     (let (ls, d) = decode_chunks chunks BytesLineDecoder_init in ls @ fst (line_flush d))"

subsection \<open>Splitting in the middle\<close>

lemma split_from_append_newline:
  assumes "newline (last s)" and "s \<noteq> []" and "last s = CR \<longrightarrow> t = [] \<or> hd t \<noteq> LF"
  shows "split_from cur (s @ t) = split_from cur s @ split_from [] t"
  using assms
proof (induction cur s rule: split_from.induct)
  case (2 cur b)
  then show ?case by (cases t) (auto simp: newline_def)
next
  case (3 cur b c bs)
  then show ?case by (cases bs) (auto simp: newline_def)
qed simp

lemma split_from_not_Nil: "s \<noteq> [] \<Longrightarrow> split_from cur s \<noteq> []"
  by (induction cur s rule: split_from.induct) auto

lemma split_from_cur: "s \<noteq> [] \<Longrightarrow> split_from cur s = (cur @ hd (split_from [] s)) # tl (split_from [] s)"
proof (induction s arbitrary: cur)
  case (Cons b s)
  show ?case
  proof (cases s)
    case Nil
    then show ?thesis by simp
  next
    case (Cons c bs)
    then show ?thesis
      using Cons.IH [of "cur @ [b]"] Cons.IH [of "[b]"] by (auto simp: newline_def)
  qed
qed simp

lemma split_from_no_newline: "\<forall>b \<in> set c. \<not> newline b \<Longrightarrow> split_from cur (c @ t) = split_from (cur @ c) t"
proof (induction c arbitrary: cur)
  case (Cons b c)
  then show ?case by (cases "c @ t") (auto simp: newline_def)
qed simp

lemma splitlines_no_newline: "\<forall>b \<in> set c. \<not> newline b \<Longrightarrow> splitlines c = (if c = [] then [] else [c])"
  using split_from_no_newline [of c "[]" "[]"] by (simp add: splitlines_def)

lemma split_from_append_partial:
  assumes "s \<noteq> []" and "\<not> newline (last s)"
  shows "split_from cur (s @ t) = butlast (split_from cur s) @ split_from (last (split_from cur s)) t"
  using assms
proof (induction cur s rule: split_from.induct)
  case (2 cur b)
  then show ?case using split_from_no_newline [of "[b]" cur t] by simp
next
  case (3 cur b c bs)
  consider "b = CR" "c = LF" | "\<not> (b = CR \<and> c = LF)" "newline b" | "\<not> newline b" by blast
  then show ?case
  proof cases
    case 1
    with "3.prems" have "bs \<noteq> []" "\<not> newline (last bs)" by (auto split: if_splits)
    with "3.IH"(1) 1 show ?thesis by (simp add: split_from_not_Nil)
  next
    case 2
    with 3 show ?thesis by (auto simp: split_from_not_Nil)
  next
    case 3
    then have "b \<noteq> CR" by auto
    with 3 "3.IH"(3) "3.prems" show ?thesis by simp
  qed
qed simp

lemma split_from_last:
  assumes "s \<noteq> []" and "\<not> newline (last s)" and "\<forall>b \<in> set cur. \<not> newline b"
  shows "\<forall>b \<in> set (last (split_from cur s)). \<not> newline b"
  using assms
proof (induction cur s rule: split_from.induct)
  case (3 cur b c bs)
  consider "b = CR" "c = LF" | "\<not> (b = CR \<and> c = LF)" "newline b" | "\<not> newline b" by blast
  then show ?case
  proof cases
    case 1
    with "3.prems" have "bs \<noteq> []" "\<not> newline (last bs)" by (auto split: if_splits)
    then have "\<forall>b \<in> set (last (split_from [] bs)). \<not> newline b"
      by (intro "3.IH"(1)) (use 1 in simp_all)
    with \<open>bs \<noteq> []\<close> 1 show ?thesis by (simp add: split_from_not_Nil)
  next
    case 2
    have "\<forall>b \<in> set (last (split_from [] (c # bs))). \<not> newline b"
      by (rule "3.IH"(2)) (use 2 "3.prems" in simp_all)
    with 2 show ?thesis by (auto simp: split_from_not_Nil)
  next
    case 3
    then have "b \<noteq> CR" by auto
    have "\<forall>b \<in> set (last (split_from (cur @ [b]) (c # bs))). \<not> newline b"
      by (rule "3.IH"(3)) (use 3 \<open>b \<noteq> CR\<close> "3.prems" in auto)
    with 3 \<open>b \<noteq> CR\<close> show ?thesis by simp
  qed
qed auto

subsection \<open>Chunks do not matter\<close>

text \<open>What the decoder has read and not returned yet.\<close>

definition unread :: "line_decoder \<Rightarrow> bytes" where
  "unread d = ld_buffer d @ (if ld_trailing_cr d then [CR] else [])"

definition decoder_ok :: "line_decoder \<Rightarrow> bool" where
  "decoder_ok d = (\<forall>b \<in> set (ld_buffer d). \<not> newline b)"

lemma splitlines_buffer: "\<forall>b \<in> set c. \<not> newline b \<Longrightarrow> splitlines (c @ s) = split_from c s"
  using split_from_no_newline [of c "[]" s] by (simp add: splitlines_def)

definition feed :: "bytes \<Rightarrow> line_decoder \<Rightarrow> bytes list \<times> line_decoder" where
  "feed s d =
     (if s = [] then ([], d)
      else if length (splitlines s) = 1 \<and> \<not> newline (last s) then ([], d\<lparr>ld_buffer := ld_buffer d @ hd (splitlines s)\<rparr>)
        else let (lines, d) = (if ld_buffer d \<noteq> []
                               then ((ld_buffer d @ hd (splitlines s)) # tl (splitlines s), d\<lparr>ld_buffer := []\<rparr>)
                               else (splitlines s, d))
          in if \<not> newline (last s) then (butlast lines, d\<lparr>ld_buffer := ld_buffer d @ last lines\<rparr>)
          else (lines, d))"

lemma line_decode_feed:
  "line_decode text d =
     (let full = (if ld_trailing_cr d then CR # text else text); cr = (full \<noteq> [] \<and> last full = CR)
      in feed (if cr then butlast full else full) (d\<lparr>ld_trailing_cr := cr\<rparr>))"
  by (simp add: line_decode_def feed_def Let_def cong: if_cong)

lemma split_buffer:
  assumes "s \<noteq> []"
  obtains x xs where "splitlines s = x # xs" and "\<And>cur. split_from cur s = (cur @ x) # xs"
proof -
  obtain x xs where "splitlines s = x # xs"
    using split_from_not_Nil [OF assms, of "[]"] by (cases "splitlines s") (simp_all add: splitlines_def)
  moreover from this have "split_from cur s = (cur @ x) # xs" for cur
    using split_from_cur [OF assms, of cur] unfolding splitlines_def by (metis list.sel(1) list.sel(3))
  ultimately show thesis by (rule that)
qed

lemma buffer_update_id: "ld_buffer d = [] \<Longrightarrow> d\<lparr>ld_buffer := []\<rparr> = d"
  by (cases d) simp

lemma feed_lines:
  assumes "s \<noteq> []" and "newline (last s)"
  shows "feed s d = (split_from (ld_buffer d) s, d\<lparr>ld_buffer := []\<rparr>)"
proof -
  obtain x xs where x: "splitlines s = x # xs" "\<And>cur. split_from cur s = (cur @ x) # xs"
    using split_buffer [OF assms(1)] by metis
  show ?thesis
  proof (cases "ld_buffer d = []")
    case True
    with x assms buffer_update_id [OF True] show ?thesis by (simp only: feed_def) simp
  next
    case False
    with x assms show ?thesis by (simp only: feed_def) simp
  qed
qed

lemma feed_partial:
  assumes "s \<noteq> []" and "\<not> newline (last s)"
  shows "feed s d = (butlast (split_from (ld_buffer d) s), d\<lparr>ld_buffer := last (split_from (ld_buffer d) s)\<rparr>)"
proof -
  obtain x xs where x: "splitlines s = x # xs" "\<And>cur. split_from cur s = (cur @ x) # xs"
    using split_buffer [OF assms(1)] by metis
  show ?thesis
  proof (cases "xs = []")
    case True
    with x assms show ?thesis by (simp only: feed_def) simp
  next
    case False
    with x assms show ?thesis by (cases "ld_buffer d = []") (simp only: feed_def, simp)+
  qed
qed

lemma line_decode_ok:
  assumes "decoder_ok d" and "line_decode text d = (ls, d')"
  shows "decoder_ok d' \<and> splitlines (unread d @ text @ rest) = ls @ splitlines (unread d' @ rest)"
proof -
  define full where "full = (if ld_trailing_cr d then CR # text else text)"
  define cr where "cr = (full \<noteq> [] \<and> last full = CR)"
  define s where "s = (if cr then butlast full else full)"
  define t where "t = (if cr then CR # rest else rest)"
  have buf: "\<forall>b \<in> set (ld_buffer d). \<not> newline b" using assms(1) by (simp add: decoder_ok_def)
  have f: "feed s (d\<lparr>ld_trailing_cr := cr\<rparr>) = (ls, d')"
    using assms(2) by (simp only: line_decode_feed Let_def full_def cr_def s_def)
  have "full = s @ (if cr then [CR] else [])"
    by (simp add: s_def cr_def) (metis append_butlast_last_id)
  then have all: "unread d @ text @ rest = ld_buffer d @ s @ t"
    by (auto simp: unread_def full_def t_def split: if_splits)
  then have e: "splitlines (unread d @ text @ rest) = split_from (ld_buffer d) (s @ t)"
    by (simp only: splitlines_buffer [OF buf])
  show ?thesis
  proof (cases "s = []")
    case True
    with f have "ls = []" "d' = d\<lparr>ld_trailing_cr := cr\<rparr>" by (simp_all add: feed_def)
    with True assms(1) all show ?thesis by (simp add: decoder_ok_def unread_def t_def)
  next
    case False
    show ?thesis
    proof (cases "newline (last s)")
      case True
      have "last s = CR \<longrightarrow> t = [] \<or> hd t \<noteq> LF"
        using False by (auto simp: s_def t_def cr_def split: if_splits)
      with split_from_append_newline [OF True False]
      have sp: "split_from (ld_buffer d) (s @ t) = split_from (ld_buffer d) s @ split_from [] t" .
      from f feed_lines [OF False True, of "d\<lparr>ld_trailing_cr := cr\<rparr>"]
      have d': "d' = d\<lparr>ld_trailing_cr := cr, ld_buffer := []\<rparr>" and ls: "ls = split_from (ld_buffer d) s" by simp_all
      have "unread d' @ rest = t" by (simp add: d' unread_def t_def)
      then have "splitlines (unread d' @ rest) = split_from [] t" by (simp only: splitlines_def)
      with e sp ls show ?thesis by (simp add: d' decoder_ok_def)
    next
      case part: False
      have last: "\<forall>b \<in> set (last (split_from (ld_buffer d) s)). \<not> newline b"
        by (rule split_from_last [OF False part buf])
      from f feed_partial [OF False part, of "d\<lparr>ld_trailing_cr := cr\<rparr>"]
      have d': "d' = d\<lparr>ld_trailing_cr := cr, ld_buffer := last (split_from (ld_buffer d) s)\<rparr>"
        and ls: "ls = butlast (split_from (ld_buffer d) s)" by simp_all
      have "unread d' @ rest = last (split_from (ld_buffer d) s) @ t" by (simp add: d' unread_def t_def)
      then have "splitlines (unread d' @ rest) = split_from (last (split_from (ld_buffer d) s)) t"
        by (simp only: splitlines_buffer [OF last])
      with e ls last split_from_append_partial [OF False part, of "ld_buffer d" t] show ?thesis
        by (simp add: d' decoder_ok_def)
    qed
  qed
qed

lemma decode_chunks_ok:
  "decoder_ok d \<Longrightarrow> decode_chunks cs d = (ls, d') \<Longrightarrow>
    decoder_ok d' \<and> splitlines (unread d @ concat cs @ rest) = ls @ splitlines (unread d' @ rest)"
proof (induction cs arbitrary: d ls)
  case (Cons c cs)
  obtain l1 d1 l2 where 1: "line_decode c d = (l1, d1)" "decode_chunks cs d1 = (l2, d')" "ls = l1 @ l2"
    using Cons.prems(2) by (auto simp: Let_def split: prod.splits)
  from line_decode_ok [OF Cons.prems(1) 1(1), of "concat cs @ rest"] Cons.IH [OF _ 1(2)] 1(3) show ?case by simp
qed simp

lemma line_flush_ok: "decoder_ok d \<Longrightarrow> fst (line_flush d) = splitlines (unread d)"
  by (auto simp: line_flush_def unread_def decoder_ok_def splitlines_no_newline splitlines_buffer)

text \<open>
  C35: The lines of a response do not depend on how the network cut it into chunks: the incremental decoder
  returns what \<open>splitlines\<close> makes of the whole response, also when a chunk ends inside CR LF.
\<close>

theorem lines_any_chunks: "iter_lines_raw chunks = splitlines (concat chunks)"
proof -
  obtain ls d where d: "decode_chunks chunks BytesLineDecoder_init = (ls, d)" by fastforce
  have "decoder_ok BytesLineDecoder_init" by (simp add: decoder_ok_def BytesLineDecoder_init_def)
  from decode_chunks_ok [OF this d, of "[]"] have "decoder_ok d" "splitlines (concat chunks) = ls @ splitlines (unread d)"
    by (simp_all add: unread_def BytesLineDecoder_init_def)
  with d line_flush_ok show ?thesis by (simp add: iter_lines_raw_def)
qed

subsection \<open>UTF-8\<close>

definition in_range :: "nat \<Rightarrow> nat \<Rightarrow> byte \<Rightarrow> bool" where
  "in_range lo hi b = (lo \<le> unat b \<and> unat b \<le> hi)"

text \<open>The second byte a lead byte allows, and how many plain continuation bytes follow it.\<close>

definition utf8_second :: "byte \<Rightarrow> ((nat \<times> nat) \<times> nat) option" where
  "utf8_second b =
     (if in_range 0xC2 0xDF b then Some ((0x80, 0xBF), 0)
      else if b = 0xE0 then Some ((0xA0, 0xBF), 1)
      else if in_range 0xE1 0xEC b \<or> in_range 0xEE 0xEF b then Some ((0x80, 0xBF), 1)
      else if b = 0xED then Some ((0x80, 0x9F), 1)
      else if b = 0xF0 then Some ((0x90, 0xBF), 2)
      else if in_range 0xF1 0xF3 b then Some ((0x80, 0xBF), 2)
      else if b = 0xF4 then Some ((0x80, 0x8F), 2)
      else None)"

fun utf8_from :: "((nat \<times> nat) \<times> nat) option \<Rightarrow> bytes \<Rightarrow> bool" where
  "utf8_from None [] = True"
| "utf8_from (Some x) [] = False"
| "utf8_from None (b # bs) =
     (if unat b < 0x80 then utf8_from None bs
      else case utf8_second b of None \<Rightarrow> False | Some x \<Rightarrow> utf8_from (Some x) bs)"
| "utf8_from (Some ((lo, hi), n)) (b # bs) =
     (in_range lo hi b \<and> utf8_from (if n = 0 then None else Some ((0x80, 0xBF), n - 1)) bs)"

definition utf8_decode :: "bytes \<Rightarrow> bytes res" where
  "utf8_decode bs = (if utf8_from None bs then Inr bs else Inl (UserError ''UnicodeDecodeError''))"

text \<open>\<open>int(b)\<close> for bytes, with ASCII blanks around.\<close>

definition byte_space :: "byte \<Rightarrow> bool" where
  "byte_space b = (in_range 9 13 b \<or> b = 32)"

definition bytes_int :: "bytes \<Rightarrow> int option" where
  "bytes_int bs =
     int_literal (map (\<lambda>b. char_of (unat b)) (rev (dropWhile byte_space (rev (dropWhile byte_space bs)))))"

subsection \<open>Events\<close>

type_synonym json_loads = "bytes \<Rightarrow> pyval option"

record stream_part =
  sp_event :: bytes
  sp_data :: pyval
  sp_id :: "bytes option"

record sse_decoder =
  sd_event :: bytes
  sd_data :: bytes
  sd_last_event_id :: bytes
  sd_retry :: "int option"

definition SSEDecoder_init :: sse_decoder where
  "SSEDecoder_init = \<lparr>sd_event = [], sd_data = [], sd_last_event_id = [], sd_retry = None\<rparr>"

definition last_event_id :: "sse_decoder \<Rightarrow> bytes option" where
  "last_event_id d = (if sd_last_event_id d = [] then None else Some (sd_last_event_id d))"

definition COLON :: byte where "COLON = 58"
definition SPACE :: byte where "SPACE = 32"

text \<open>\<open>line.partition(b":")\<close> without the separator, and without one blank after it.\<close>

definition field_of :: "bytes \<Rightarrow> bytes \<times> bytes" where
  "field_of line =
     (let val = tl (dropWhile (\<lambda>b. b \<noteq> COLON) line)
      in (takeWhile (\<lambda>b. b \<noteq> COLON) line, if val \<noteq> [] \<and> hd val = SPACE then tl val else val))"

definition dispatch_event :: "json_loads \<Rightarrow> sse_decoder \<Rightarrow> (stream_part option \<times> sse_decoder) res" where
  "dispatch_event loads d =
     (if sd_event d = [] \<and> sd_data d = [] \<and> sd_last_event_id d = [] \<and> sd_retry d = None then Inr (None, d)
      else rmap (\<lambda>data. (Some \<lparr>sp_event = sd_event d, sp_data = data, sp_id = last_event_id d\<rparr>,
                       d\<lparr>sd_event := [], sd_data := [], sd_retry := None\<rparr>))
             (if sd_data d = [] then Inr VNone
              else case loads (sd_data d) of Some v \<Rightarrow> Inr v | None \<Rightarrow> Inl (ValueError ''JSONDecodeError'')))"

definition sse_decode :: "json_loads \<Rightarrow> bytes \<Rightarrow> sse_decoder \<Rightarrow> (stream_part option \<times> sse_decoder) res" where
  "sse_decode loads line d =
     (if line = [] then dispatch_event loads d
      else if hd line = COLON then Inr (None, d)
      else let (fieldname, val) = field_of line in
        if fieldname = str_bytes ''event'' then rmap (\<lambda>s. (None, d\<lparr>sd_event := s\<rparr>)) (utf8_decode val)
        else if fieldname = str_bytes ''data'' then Inr (None, d\<lparr>sd_data := sd_data d @ val\<rparr>)
        else if fieldname = str_bytes ''id'' then
          (if 0 \<in> set val then Inr (None, d)
           else rmap (\<lambda>s. (None, d\<lparr>sd_last_event_id := s\<rparr>)) (utf8_decode val))
        else if fieldname = str_bytes ''retry'' then
          (case bytes_int val of Some i \<Rightarrow> Inr (None, d\<lparr>sd_retry := Some i\<rparr>) | None \<Rightarrow> Inr (None, d))
        else Inr (None, d))"

end
