(* ===== verification/SDK_Http.thy ===== *)
theory SDK_Http
  imports SDK_SSE
begin

section \<open>Streaming over HTTP, with reconnects\<close>

text \<open>
  \<open>SyncHttpClient.stream\<close> (\<open>sdk-py/langgraph_sdk/_sync/http.py\<close>; the async client has the same body) and
  \<open>_validate_reconnect_location\<close>. The \<open>httpx\<close> client is the function \<open>send\<close> from the number of the
  attempt and the request to the response, or to the exception that opening the stream raises; a response
  that is broken raises an \<open>HTTPError\<close> after its chunks. \<open>urlparse\<close> is a parameter.
\<close>

subsection \<open>Requests and responses\<close>

record http_request =
  rq_method :: string
  rq_path :: string
  rq_headers :: "(string, bytes) dict"
  rq_content :: "bytes option"
  rq_params :: "(string, string) dict option"

record http_response =
  rs_status :: "unit res"
  rs_content_type :: string
  rs_location :: "string option"
  rs_chunks :: "bytes list"
  rs_broken :: bool

record url =
  u_scheme :: string
  u_netloc :: string
  u_hostname :: "string option"
  u_port :: "nat option"

record http_client =
  hc_send :: "nat \<Rightarrow> http_request \<Rightarrow> http_response res"
  hc_base_url :: url
  hc_urlparse :: "string \<Rightarrow> url"
  hc_loads :: json_loads

definition default_port :: "string \<Rightarrow> nat" where
  "default_port scheme = (if scheme = ''https'' then 443 else 80)"

text \<open>\<open>port or default\<close>: no port and port 0 both give the default.\<close>

definition url_port :: "url \<Rightarrow> nat" where
  "url_port u = (case u_port u of Some p \<Rightarrow> if p = 0 then default_port (u_scheme u) else p | None \<Rightarrow> default_port (u_scheme u))"

definition url_origin :: "url \<Rightarrow> string \<times> string \<times> nat" where
  "url_origin u = (u_scheme u, case u_hostname u of Some h \<Rightarrow> h | None \<Rightarrow> [], url_port u)"

definition validate_reconnect_location :: "(string \<Rightarrow> url) \<Rightarrow> url \<Rightarrow> string \<Rightarrow> string res" where
  "validate_reconnect_location urlparse base location =
     (let parsed = urlparse location in
      if u_scheme parsed = [] \<and> u_netloc parsed = [] then Inr location
      else if url_origin base \<noteq> url_origin parsed then Inl (ValueError ''cross-origin reconnect Location'')
      else Inr location)"

definition ascii_lower :: "string \<Rightarrow> string" where
  "ascii_lower s = map (\<lambda>c. let n = of_char c :: nat in if 65 \<le> n \<and> n \<le> 90 then char_of (n + 32) else c) s"

fun contains :: "string \<Rightarrow> string \<Rightarrow> bool" where
  "contains p [] = (p = [])"
| "contains p (c # cs) = (starts_with p (c # cs) \<or> contains p cs)"

subsection \<open>Reading one response\<close>

definition rstrip_lf :: "bytes \<Rightarrow> bytes" where
  "rstrip_lf line = rev (dropWhile (\<lambda>b. b = LF) (rev line))"

definition shown :: "stream_part \<Rightarrow> bool" where
  "shown sse = (sp_event sse \<noteq> [] \<or> sp_data sse \<noteq> VNone)"

definition note_id :: "sse_decoder \<Rightarrow> bytes option \<Rightarrow> bytes option" where
  "note_id d last_id = (case last_event_id d of Some i \<Rightarrow> Some i | None \<Rightarrow> last_id)"

text \<open>What is yielded, the exception or the decoder at the end, and the last event id.\<close>

fun read_lines ::
  "json_loads \<Rightarrow> bytes list \<Rightarrow> sse_decoder \<Rightarrow> bytes option \<Rightarrow> stream_part list \<times> sse_decoder res \<times> bytes option" where
  "read_lines loads [] d last_id = ([], Inr d, last_id)"
| "read_lines loads (line # ls) d last_id =
     (case sse_decode loads (rstrip_lf line) d of
       Inl e \<Rightarrow> ([], Inl e, last_id)
     | Inr (None, d) \<Rightarrow> read_lines loads ls d last_id
     | Inr (Some sse, d) \<Rightarrow>
         let (parts, r, i) = read_lines loads ls d (note_id d last_id)
         in (if shown sse then sse # parts else parts, r, i))"

text \<open>The lines of a response: those left in the line decoder come only when it ends well.\<close>

definition response_lines :: "http_response \<Rightarrow> bytes list" where
  "response_lines res =
     (if rs_broken res then fst (decode_chunks (rs_chunks res) BytesLineDecoder_init)
      else iter_lines_raw (rs_chunks res))"

datatype read_end = Ended | Broken | Failed py_exc

definition read_response :: "json_loads \<Rightarrow> http_response \<Rightarrow> bytes option \<Rightarrow> stream_part list \<times> read_end \<times> bytes option" where
  "read_response loads res last_id =
     (let (parts, r, i) = read_lines loads (response_lines res) SSEDecoder_init last_id in
      case r of
        Inl e \<Rightarrow> (parts, Failed e, i)
      | Inr d \<Rightarrow>
          if rs_broken res then (parts, Broken, i)
          else (case sse_decode loads [] d of
                 Inl e \<Rightarrow> (parts, Failed e, i)
               | Inr (None, d) \<Rightarrow> (parts, Ended, i)
               | Inr (Some sse, d) \<Rightarrow> (if shown sse then parts @ [sse] else parts, Ended, note_id d i)))"

subsection \<open>The stream\<close>

record stream_args =
  sa_path :: string
  sa_method :: string
  sa_content :: "(bytes \<times> (string, bytes) dict) option"
  sa_params :: "(string, string) dict option"
  sa_headers :: "(string, bytes) dict"

definition request_headers :: "stream_args \<Rightarrow> (string, bytes) dict" where
  "request_headers a =
     (let h = (case sa_content a of Some (body, h) \<Rightarrow> h | None \<Rightarrow> []);
          h = dset ''Cache-Control'' (str_bytes ''no-store'') (dset ''Accept'' (str_bytes ''text/event-stream'') h)
      in dupd h (sa_headers a))"

definition reconnect_headers :: "stream_args \<Rightarrow> (string, bytes) dict" where
  "reconnect_headers a =
     filter (\<lambda>(k, v). ascii_lower k \<notin> {''content-length'', ''content-type''}) (request_headers a)"

definition current_request :: "stream_args \<Rightarrow> bytes option \<Rightarrow> string option \<Rightarrow> http_request" where
  "current_request a last_id reconnect_path =
     (let h = (if reconnect_path = None then request_headers a else reconnect_headers a);
          h = (case last_id of Some i \<Rightarrow> dset ''Last-Event-ID'' i h | None \<Rightarrow> h)
      in case reconnect_path of
           None \<Rightarrow> \<lparr>rq_method = sa_method a, rq_path = sa_path a, rq_headers = h,
                    rq_content = map_option fst (sa_content a), rq_params = sa_params a\<rparr>
         | Some p \<Rightarrow> \<lparr>rq_method = ''GET'', rq_path = p, rq_headers = h, rq_content = None, rq_params = None\<rparr>)"

definition check_response :: "http_client \<Rightarrow> http_response \<Rightarrow> string option \<Rightarrow> string option res" where
  "check_response c res reconnect_path =
     rbind (rs_status res) (\<lambda>_.
       if \<not> contains ''text/event-stream'' (takeWhile (\<lambda>x. x \<noteq> CHR '';'') (rs_content_type res))
       then Inl (UserError ''TransportError'')
       else case rs_location res of
              None \<Rightarrow> Inr reconnect_path
            | Some loc \<Rightarrow>
                if loc = [] then Inr reconnect_path
                else rmap Some (validate_reconnect_location (hc_urlparse c) (hc_base_url c) loc))"

text \<open>\<open>retries\<close> is how many reconnects are left; the attempt number is what the server sees of time.\<close>

fun stream_from ::
  "http_client \<Rightarrow> stream_args \<Rightarrow> nat \<Rightarrow> nat \<Rightarrow> bytes option \<Rightarrow> string option \<Rightarrow> stream_part list \<times> unit res" where
  "stream_from c a retries attempt last_id reconnect_path =
     (case rbind (hc_send c attempt (current_request a last_id reconnect_path)) (\<lambda>res.
             rmap (\<lambda>p. (res, p)) (check_response c res reconnect_path)) of
       Inl e \<Rightarrow> ([], Inl e)
     | Inr (res, reconnect_path) \<Rightarrow>
         (case read_response (hc_loads c) res last_id of
           (parts, Failed e, i) \<Rightarrow> (parts, Inl e)
         | (parts, Ended, i) \<Rightarrow> (parts, Inr ())
         | (parts, Broken, i) \<Rightarrow>
             if reconnect_path = None then (parts, Inl (UserError ''HTTPError''))
             else (case retries of
                     0 \<Rightarrow> (parts, Inl (UserError ''TransportError''))
                   | Suc retries \<Rightarrow>
                       let (more, r) = stream_from c a retries (Suc attempt) i reconnect_path
                       in (parts @ more, r))))"

declare stream_from.simps [simp del]

definition MAX_RECONNECT_ATTEMPTS :: nat where "MAX_RECONNECT_ATTEMPTS = 5"

definition http_stream :: "http_client \<Rightarrow> stream_args \<Rightarrow> stream_part list \<times> unit res" where
  "http_stream c a = stream_from c a MAX_RECONNECT_ATTEMPTS 0 None None"

subsection \<open>A server that keeps its events\<close>

text \<open>
  A server with a log of events, which answers a request with the events after the last one the client has
  seen, as server-sent events, and may break off anywhere.
\<close>

record log_event =
  le_id :: bytes
  le_name :: bytes
  le_data :: bytes
  le_value :: pyval

definition event_lines :: "log_event \<Rightarrow> bytes list" where
  "event_lines ev =
     [str_bytes ''event: '' @ le_name ev, str_bytes ''data: '' @ le_data ev, str_bytes ''id: '' @ le_id ev, []]"

definition wire :: "log_event list \<Rightarrow> bytes" where
  "wire evs = concat (map (\<lambda>l. l @ [LF]) (concat (map event_lines evs)))"

definition one_line :: "bytes \<Rightarrow> bool" where
  "one_line s = (\<forall>b \<in> set s. \<not> newline b)"

definition log_event_ok :: "json_loads \<Rightarrow> log_event \<Rightarrow> bool" where
  "log_event_ok loads ev =
     (one_line (le_name ev) \<and> one_line (le_data ev) \<and> one_line (le_id ev)
      \<and> utf8_from None (le_name ev) \<and> utf8_from None (le_id ev) \<and> 0 \<notin> set (le_id ev) \<and> le_id ev \<noteq> []
      \<and> le_data ev \<noteq> [] \<and> loads (le_data ev) = Some (le_value ev) \<and> (le_name ev \<noteq> [] \<or> le_value ev \<noteq> VNone))"

definition part_of :: "log_event \<Rightarrow> stream_part" where
  "part_of ev = \<lparr>sp_event = le_name ev, sp_data = le_value ev, sp_id = Some (le_id ev)\<rparr>"

fun after_id :: "bytes option \<Rightarrow> log_event list \<Rightarrow> log_event list" where
  "after_id None evs = evs"
| "after_id (Some i) evs = tl (dropWhile (\<lambda>ev. le_id ev \<noteq> i) evs)"

definition serves :: "http_client \<Rightarrow> log_event list \<Rightarrow> bool" where
  "serves c log =
     (\<forall>k req. \<exists>res loc rest. hc_send c k req = Inr res \<and> rs_status res = Inr ()
        \<and> rs_content_type res = ''text/event-stream'' \<and> rs_location res = Some loc \<and> loc \<noteq> []
        \<and> validate_reconnect_location (hc_urlparse c) (hc_base_url c) loc = Inr loc
        \<and> wire (after_id (map_of (rq_headers req) ''Last-Event-ID'') log) = concat (rs_chunks res) @ rest
        \<and> (\<not> rs_broken res \<longrightarrow> rest = []))"

definition between_events :: "sse_decoder \<Rightarrow> bool" where
  "between_events d = (sd_event d = [] \<and> sd_data d = [] \<and> sd_retry d = None)"

lemma str_bytes_append [simp]: "str_bytes (s @ t) = str_bytes s @ str_bytes t"
  by (simp add: str_bytes_def)

lemma event_prefixes:
  "str_bytes ''event: '' = [101, 118, 101, 110, 116, COLON, SPACE]"
  "str_bytes ''data: '' = [100, 97, 116, 97, COLON, SPACE]" "str_bytes ''id: '' = [105, 100, COLON, SPACE]"
  "str_bytes ''event'' = [101, 118, 101, 110, 116]" "str_bytes ''data'' = [100, 97, 116, 97]" "str_bytes ''id'' = [105, 100]"
  by (simp_all add: str_bytes_def COLON_def SPACE_def)

lemma field_of_prefixes:
  "field_of (str_bytes ''event: '' @ v) = (str_bytes ''event'', v)"
  "field_of (str_bytes ''data: '' @ v) = (str_bytes ''data'', v)"
  "field_of (str_bytes ''id: '' @ v) = (str_bytes ''id'', v)"
  unfolding event_prefixes by (simp_all add: field_of_def COLON_def SPACE_def)

lemma rstrip_one_line: "one_line s \<Longrightarrow> rstrip_lf s = s"
  by (cases s rule: rev_cases) (auto simp: rstrip_lf_def one_line_def)

lemma one_line_append [simp]: "one_line (s @ t) \<longleftrightarrow> one_line s \<and> one_line t"
  by (auto simp: one_line_def)

lemma one_line_prefixes: "one_line (str_bytes ''event: '')" "one_line (str_bytes ''data: '')" "one_line (str_bytes ''id: '')" "one_line []"
  unfolding event_prefixes by (simp_all add: one_line_def newline_def LF_def CR_def COLON_def SPACE_def)

lemma event_lines_one_line: "log_event_ok loads ev \<Longrightarrow> l \<in> set (event_lines ev) \<Longrightarrow> one_line l"
  using one_line_prefixes by (auto simp: log_event_ok_def event_lines_def)

lemma sse_decode_event:
  assumes "log_event_ok loads ev"
  shows "sse_decode loads (str_bytes ''event: '' @ le_name ev) d = Inr (None, d\<lparr>sd_event := le_name ev\<rparr>)"
    and "sse_decode loads (str_bytes ''data: '' @ le_data ev) d = Inr (None, d\<lparr>sd_data := sd_data d @ le_data ev\<rparr>)"
    and "sse_decode loads (str_bytes ''id: '' @ le_id ev) d = Inr (None, d\<lparr>sd_last_event_id := le_id ev\<rparr>)"
proof -
  have "hd (str_bytes ''event: '' @ v) \<noteq> COLON" "hd (str_bytes ''data: '' @ v) \<noteq> COLON" "hd (str_bytes ''id: '' @ v) \<noteq> COLON"
    "str_bytes ''event: '' @ v \<noteq> []" "str_bytes ''data: '' @ v \<noteq> []" "str_bytes ''id: '' @ v \<noteq> []" for v
    unfolding event_prefixes by (simp_all add: COLON_def)
  moreover have "str_bytes ''data'' \<noteq> str_bytes ''event''" "str_bytes ''id'' \<noteq> str_bytes ''event''"
    "str_bytes ''id'' \<noteq> str_bytes ''data''"
    unfolding event_prefixes by simp_all
  moreover have "utf8_decode (le_name ev) = Inr (le_name ev)" "utf8_decode (le_id ev) = Inr (le_id ev)" "0 \<notin> set (le_id ev)"
    using assms by (simp_all add: utf8_decode_def log_event_ok_def)
  ultimately show "sse_decode loads (str_bytes ''event: '' @ le_name ev) d = Inr (None, d\<lparr>sd_event := le_name ev\<rparr>)"
    and "sse_decode loads (str_bytes ''data: '' @ le_data ev) d = Inr (None, d\<lparr>sd_data := sd_data d @ le_data ev\<rparr>)"
    and "sse_decode loads (str_bytes ''id: '' @ le_id ev) d = Inr (None, d\<lparr>sd_last_event_id := le_id ev\<rparr>)"
    unfolding sse_decode_def field_of_prefixes Let_def prod.case by (simp_all only: if_False if_True rmap_simps refl simp_thms)
qed

definition after_event :: "log_event \<Rightarrow> sse_decoder" where
  "after_event ev = \<lparr>sd_event = [], sd_data = [], sd_last_event_id = le_id ev, sd_retry = None\<rparr>"

lemma read_event:
  assumes ok: "log_event_ok loads ev" and "between_events d"
  shows "read_lines loads (event_lines ev @ ls) d i
    = (case read_lines loads ls (after_event ev) (Some (le_id ev)) of (parts, r, j) \<Rightarrow> (part_of ev # parts, r, j))"
proof -
  have strip: "rstrip_lf l = l" if "l \<in> set (event_lines ev)" for l
    using event_lines_one_line [OF ok that] by (rule rstrip_one_line)
  have s: "rstrip_lf (str_bytes ''event: '' @ le_name ev) = str_bytes ''event: '' @ le_name ev"
    "rstrip_lf (str_bytes ''data: '' @ le_data ev) = str_bytes ''data: '' @ le_data ev"
    "rstrip_lf (str_bytes ''id: '' @ le_id ev) = str_bytes ''id: '' @ le_id ev" "rstrip_lf [] = []"
    by (intro strip; simp add: event_lines_def)+
  have d: "sse_decode loads [] (d\<lparr>sd_event := le_name ev, sd_data := le_data ev, sd_last_event_id := le_id ev\<rparr>)
      = Inr (Some (part_of ev), after_event ev)"
    using assms by (cases d)
      (simp add: sse_decode_def dispatch_event_def log_event_ok_def part_of_def after_event_def last_event_id_def between_events_def)
  have "shown (part_of ev)" using ok by (simp add: shown_def part_of_def log_event_ok_def)
  moreover have "note_id (after_event ev) j = Some (le_id ev)" for j
    using ok by (simp add: note_id_def last_event_id_def after_event_def log_event_ok_def)
  ultimately show ?thesis
    using assms(2) by (simp add: event_lines_def s sse_decode_event [OF ok] d between_events_def split: prod.split)
qed

lemma read_partial:
  assumes ok: "log_event_ok loads ev" and "n < 4"
  shows "\<exists>d'. read_lines loads (take n (event_lines ev)) d i = ([], Inr d', i)"
proof -
  have strip: "rstrip_lf l = l" if "l \<in> set (event_lines ev)" for l
    using event_lines_one_line [OF ok that] by (rule rstrip_one_line)
  have s: "rstrip_lf (str_bytes ''event: '' @ le_name ev) = str_bytes ''event: '' @ le_name ev"
    "rstrip_lf (str_bytes ''data: '' @ le_data ev) = str_bytes ''data: '' @ le_data ev"
    "rstrip_lf (str_bytes ''id: '' @ le_id ev) = str_bytes ''id: '' @ le_id ev"
    by (intro strip; simp add: event_lines_def)+
  from assms(2) consider "n = 0" | "n = 1" | "n = 2" | "n = 3" by linarith
  then show ?thesis
    by cases (simp_all add: event_lines_def s sse_decode_event [OF ok] numeral_2_eq_2 numeral_3_eq_3)
qed
text \<open>Reading the first lines of a response: the events whose lines are all there, and no more.\<close>

definition seen_after :: "log_event list \<Rightarrow> bytes option \<Rightarrow> bytes option" where
  "seen_after evs i = (if evs = [] then i else Some (le_id (last evs)))"

lemma read_prefix:
  assumes "\<forall>ev \<in> set evs. log_event_ok loads ev" and "between_events d"
  shows "\<exists>k d'. k \<le> length evs \<and> (4 * length evs \<le> n \<longrightarrow> k = length evs \<and> between_events d')
    \<and> read_lines loads (take n (concat (map event_lines evs))) d i
      = (map part_of (take k evs), Inr d', seen_after (take k evs) i)"
  using assms
proof (induction evs arbitrary: n d i)
  case Nil
  then show ?case by (simp add: seen_after_def)
next
  case (Cons ev evs)
  have len: "length (event_lines ev) = 4" by (simp add: event_lines_def)
  show ?case
  proof (cases "n < 4")
    case True
    with len have t: "take n (concat (map event_lines (ev # evs))) = take n (event_lines ev)" by simp
    from True read_partial [of loads ev n d i] Cons.prems(1) obtain d' where
      "read_lines loads (take n (event_lines ev)) d i = ([], Inr d', i)" by auto
    then show ?thesis unfolding t using True by (intro exI [of _ 0] exI [of _ d']) (simp add: seen_after_def)
  next
    case False
    have t: "take n (concat (map event_lines (ev # evs))) = event_lines ev @ take (n - 4) (concat (map event_lines evs))"
      using False len by simp
    have "between_events (after_event ev)" by (simp add: between_events_def after_event_def)
    from Cons.IH [OF _ this, of "n - 4" "Some (le_id ev)"] Cons.prems(1) obtain k d' where
      k: "k \<le> length evs" "4 * length evs \<le> n - 4 \<longrightarrow> k = length evs \<and> between_events d'"
      "read_lines loads (take (n - 4) (concat (map event_lines evs))) (after_event ev) (Some (le_id ev))
        = (map part_of (take k evs), Inr d', seen_after (take k evs) (Some (le_id ev)))" by auto
    then show ?thesis
      unfolding t using read_event [of loads ev d] Cons.prems False
      by (intro exI [of _ "Suc k"] exI [of _ d']) (auto simp: seen_after_def)
  qed
qed

lemma splitlines_terminated:
  "\<forall>l \<in> set ls. one_line l \<Longrightarrow> splitlines (concat (map (\<lambda>l. l @ [LF]) ls)) = ls"
proof (induction ls)
  case (Cons l ls)
  then have "splitlines (l @ LF # concat (map (\<lambda>l. l @ [LF]) ls)) = split_from l (LF # concat (map (\<lambda>l. l @ [LF]) ls))"
    by (intro splitlines_buffer) (simp add: one_line_def)
  also have "\<dots> = l # splitlines (concat (map (\<lambda>l. l @ [LF]) ls))"
    by (cases "concat (map (\<lambda>l. l @ [LF]) ls)") (simp_all add: splitlines_def)
  finally show ?case using Cons by simp
qed (simp add: splitlines_def)

lemma response_lines_of:
  assumes ok: "\<forall>ev \<in> set evs. log_event_ok loads ev"
    and w: "wire evs = concat (rs_chunks res) @ rest" and "\<not> rs_broken res \<longrightarrow> rest = []"
  shows "\<exists>n. response_lines res = take n (concat (map event_lines evs)) \<and> (\<not> rs_broken res \<longrightarrow> n = 4 * length evs)"
proof -
  let ?L = "concat (map event_lines evs)"
  have len: "length ?L = 4 * length evs" by (induction evs) (simp_all add: event_lines_def)
  have "\<forall>l \<in> set ?L. one_line l" using event_lines_one_line ok by fastforce
  then have L: "splitlines (wire evs) = ?L" unfolding wire_def by (rule splitlines_terminated)
  show ?thesis
  proof (cases "rs_broken res")
    case False
    with w assms(3) L have "response_lines res = ?L" by (simp add: response_lines_def lines_any_chunks)
    with len show ?thesis by (intro exI [of _ "4 * length evs"]) simp
  next
    case True
    obtain ls d where d: "decode_chunks (rs_chunks res) BytesLineDecoder_init = (ls, d)" by fastforce
    have "decoder_ok BytesLineDecoder_init" by (simp add: decoder_ok_def BytesLineDecoder_init_def)
    from decode_chunks_ok [OF this d, of rest] w L have "?L = ls @ splitlines (unread d @ rest)"
      by (simp add: unread_def BytesLineDecoder_init_def)
    then have "take (length ls) ?L = ls" by simp
    with d True show ?thesis by (intro exI [of _ "length ls"]) (simp add: response_lines_def)
  qed
qed

lemma after_id_seen:
  assumes "distinct (map le_id (xs @ evs))"
  shows "after_id (seen_after xs None) (xs @ evs) = evs"
proof (cases xs rule: rev_cases)
  case Nil
  then show ?thesis by (simp add: seen_after_def)
next
  case (snoc ys y)
  with assms have "\<forall>ev \<in> set ys. le_id ev \<noteq> le_id y" by (auto simp: image_iff)
  then have "dropWhile (\<lambda>ev. le_id ev \<noteq> le_id y) (ys @ y # evs) = y # evs" by simp
  with snoc show ?thesis by (simp add: seen_after_def)
qed

lemma seen_after_append: "seen_after ys (seen_after xs i) = seen_after (xs @ ys) i"
  by (simp add: seen_after_def)

lemma read_response_log:
  assumes ok: "\<forall>ev \<in> set evs. log_event_ok loads ev"
    and w: "wire evs = concat (rs_chunks res) @ rest" and b: "\<not> rs_broken res \<longrightarrow> rest = []"
  shows "\<exists>k \<le> length evs. (\<not> rs_broken res \<longrightarrow> k = length evs)
    \<and> (\<exists>j. read_response loads res i = (map part_of (take k evs), if rs_broken res then Broken else Ended, j)
        \<and> (rs_broken res \<longrightarrow> j = seen_after (take k evs) i))"
proof -
  obtain n where n: "response_lines res = take n (concat (map event_lines evs))" "\<not> rs_broken res \<longrightarrow> n = 4 * length evs"
    using response_lines_of [OF ok w b] by blast
  have "between_events SSEDecoder_init" by (simp add: between_events_def SSEDecoder_init_def)
  from read_prefix [OF ok this, of n i] obtain k d' where k: "k \<le> length evs"
      "4 * length evs \<le> n \<longrightarrow> k = length evs \<and> between_events d'"
    and r: "read_lines loads (response_lines res) SSEDecoder_init i = (map part_of (take k evs), Inr d', seen_after (take k evs) i)"
    unfolding n(1) by blast
  show ?thesis
  proof (cases "rs_broken res")
    case True
    with r k show ?thesis by (intro exI [of _ k]) (simp add: read_response_def)
  next
    case False
    with n k have d': "k = length evs" "between_events d'" by simp_all
    obtain r' d'' where f: "sse_decode loads [] d' = Inr (r', d'')" and hidden: "\<forall>sse. r' = Some sse \<longrightarrow> \<not> shown sse"
      using d'(2) by (cases "sd_last_event_id d' = []")
        (auto simp: sse_decode_def dispatch_event_def between_events_def shown_def)
    with False r d' show ?thesis
      by (intro exI [of _ k]) (auto simp: read_response_def split: option.split)
  qed
qed

lemma stream_from_log:
  assumes s: "serves c log" and ok: "\<forall>ev \<in> set log. log_event_ok (hc_loads c) ev" and dist: "distinct (map le_id log)"
    and h: "map_of (request_headers a) ''Last-Event-ID'' = None"
    and "log = xs @ evs" and "\<exists>k \<le> retries. \<forall>req res. hc_send c (attempt + k) req = Inr res \<longrightarrow> \<not> rs_broken res"
  shows "stream_from c a retries attempt (seen_after xs None) path = (map part_of evs, Inr ())"
  using assms(5,6)
proof (induction retries arbitrary: attempt xs evs path)
  fix attempt xs evs path retries
  have "map_of (reconnect_headers a) ''Last-Event-ID'' = None"
    using h by (simp add: reconnect_headers_def map_of_filter_key)
  with h have hdr: "map_of (rq_headers (current_request a i path)) ''Last-Event-ID'' = i" for i path
    by (auto simp: current_request_def Let_def split: option.split)
  have step: "\<exists>res loc k j. rbind (hc_send c attempt (current_request a (seen_after xs None) path)) (\<lambda>res.
             rmap (\<lambda>p. (res, p)) (check_response c res path)) = Inr (res, Some loc)
      \<and> hc_send c attempt (current_request a (seen_after xs None) path) = Inr res \<and> k \<le> length evs
      \<and> (\<not> rs_broken res \<longrightarrow> k = length evs)
      \<and> read_response (hc_loads c) res (seen_after xs None) = (map part_of (take k evs), if rs_broken res then Broken else Ended, j)
      \<and> (rs_broken res \<longrightarrow> j = seen_after (xs @ take k evs) None)"
    if log: "log = xs @ evs" for attempt xs evs path
  proof -
    let ?req = "current_request a (seen_after xs None) path"
    from s obtain res loc rest where r: "hc_send c attempt ?req = Inr res" "rs_status res = Inr ()"
        "rs_content_type res = ''text/event-stream''" "rs_location res = Some loc" "loc \<noteq> []"
        "validate_reconnect_location (hc_urlparse c) (hc_base_url c) loc = Inr loc"
        "wire (after_id (map_of (rq_headers ?req) ''Last-Event-ID'') log) = concat (rs_chunks res) @ rest"
        "\<not> rs_broken res \<longrightarrow> rest = []"
      unfolding serves_def by blast
    have "after_id (seen_after xs None) log = evs" using dist log by (simp add: after_id_seen)
    with r(7) hdr have w: "wire evs = concat (rs_chunks res) @ rest" by simp
    have "\<forall>ev \<in> set evs. log_event_ok (hc_loads c) ev" using ok log by simp
    from read_response_log [OF this w r(8), of "seen_after xs None"] r show ?thesis
      by (auto simp: check_response_def starts_with_def seen_after_append)
  qed
  show "stream_from c a 0 attempt (seen_after xs None) path = (map part_of evs, Inr ())"
    if log: "log = xs @ evs" and k: "\<exists>k \<le> 0. \<forall>req res. hc_send c (attempt + k) req = Inr res \<longrightarrow> \<not> rs_broken res"
    using step [OF log, of attempt path] k by (auto simp: stream_from.simps)
  assume IH: "\<And>attempt xs evs path. log = xs @ evs \<Longrightarrow>
      \<exists>k \<le> retries. \<forall>req res. hc_send c (attempt + k) req = Inr res \<longrightarrow> \<not> rs_broken res \<Longrightarrow>
      stream_from c a retries attempt (seen_after xs None) path = (map part_of evs, Inr ())"
    and log: "log = xs @ evs" and k: "\<exists>k \<le> Suc retries. \<forall>req res. hc_send c (attempt + k) req = Inr res \<longrightarrow> \<not> rs_broken res"
  from step [OF log, of attempt path] obtain res loc n j where st:
    "rbind (hc_send c attempt (current_request a (seen_after xs None) path)) (\<lambda>res.
             rmap (\<lambda>p. (res, p)) (check_response c res path)) = Inr (res, Some loc)"
    "hc_send c attempt (current_request a (seen_after xs None) path) = Inr res" "n \<le> length evs"
    "\<not> rs_broken res \<longrightarrow> n = length evs"
    "read_response (hc_loads c) res (seen_after xs None) = (map part_of (take n evs), if rs_broken res then Broken else Ended, j)"
    "rs_broken res \<longrightarrow> j = seen_after (xs @ take n evs) None" by blast
  show "stream_from c a (Suc retries) attempt (seen_after xs None) path = (map part_of evs, Inr ())"
  proof (cases "rs_broken res")
    case False
    with st show ?thesis by (simp add: stream_from.simps)
  next
    case True
    from k obtain m where m: "m \<le> Suc retries" "\<forall>req res. hc_send c (attempt + m) req = Inr res \<longrightarrow> \<not> rs_broken res" by blast
    with True st(2) have "m \<noteq> 0" by (cases m) auto
    then obtain m' where "m = Suc m'" by (cases m) auto
    with m have "\<exists>k \<le> retries. \<forall>req res. hc_send c (Suc attempt + k) req = Inr res \<longrightarrow> \<not> rs_broken res"
      by (intro exI [of _ m']) auto
    from IH [of "xs @ take n evs" "drop n evs", OF _ this] log
    have "stream_from c a retries (Suc attempt) (seen_after (xs @ take n evs) None) (Some loc) = (map part_of (drop n evs), Inr ())"
      by simp
    with True st show ?thesis by (simp add: stream_from.simps map_append [symmetric] del: map_append)
  qed
qed

text \<open>
  C17: A stream that is interrupted and resumed gives every event of the server's log once and in order, wherever
  the responses break off, as long as one of the first six attempts does not break off.
\<close>

theorem stream_exactly_once:
  assumes "serves c log" and "\<forall>ev \<in> set log. log_event_ok (hc_loads c) ev" and "distinct (map le_id log)"
    and "map_of (request_headers a) ''Last-Event-ID'' = None"
    and "\<exists>k \<le> 5. \<forall>req res. hc_send c k req = Inr res \<longrightarrow> \<not> rs_broken res"
  shows "http_stream c a = (map part_of log, Inr ())"
  using stream_from_log [OF assms(1-4), of "[]" log 5 0 None] assms(5)
  by (simp add: http_stream_def MAX_RECONNECT_ATTEMPTS_def seen_after_def)

definition example_log :: "log_event list" where
  "example_log = [\<lparr>le_id = [49], le_name = [97], le_data = [48], le_value = VInt 0\<rparr>,
                  \<lparr>le_id = [50], le_name = [98], le_data = [48], le_value = VInt 0\<rparr>]"

text \<open>A server that breaks off in the middle of the second event at first.\<close>

definition example_client :: http_client where
  "example_client =
     \<lparr>hc_send = (\<lambda>k req. let w = wire (after_id (map_of (rq_headers req) ''Last-Event-ID'') example_log)
         in Inr \<lparr>rs_status = Inr (), rs_content_type = ''text/event-stream'', rs_location = Some ''/r'',
              rs_chunks = (if k = 0 then [take 30 w] else [w]), rs_broken = (k = 0)\<rparr>),
      hc_base_url = \<lparr>u_scheme = ''http'', u_netloc = ''h'', u_hostname = Some ''h'', u_port = None\<rparr>,
      hc_urlparse = (\<lambda>s. \<lparr>u_scheme = [], u_netloc = [], u_hostname = None, u_port = None\<rparr>),
      hc_loads = (\<lambda>b. Some (VInt 0))\<rparr>"

definition example_args :: stream_args where
  "example_args = \<lparr>sa_path = ''/s'', sa_method = ''GET'', sa_content = None, sa_params = None, sa_headers = []\<rparr>"

lemma stream_exactly_once_witness:
  "http_stream example_client example_args = (map part_of example_log, Inr ())"
proof (rule stream_exactly_once)
  show "serves example_client example_log"
    unfolding serves_def
  proof (intro allI)
    fix k and req :: http_request
    let ?w = "wire (after_id (map_of (rq_headers req) ''Last-Event-ID'') example_log)"
    show "\<exists>res loc rest. hc_send example_client k req = Inr res \<and> rs_status res = Inr ()
        \<and> rs_content_type res = ''text/event-stream'' \<and> rs_location res = Some loc \<and> loc \<noteq> []
        \<and> validate_reconnect_location (hc_urlparse example_client) (hc_base_url example_client) loc = Inr loc
        \<and> ?w = concat (rs_chunks res) @ rest \<and> (\<not> rs_broken res \<longrightarrow> rest = [])"
      by (cases "k = 0") (auto simp: example_client_def validate_reconnect_location_def Let_def, metis append_take_drop_id)
  qed
  show "\<forall>ev \<in> set example_log. log_event_ok (hc_loads example_client) ev"
    by (simp add: example_log_def example_client_def log_event_ok_def one_line_def newline_def LF_def CR_def)
  show "distinct (map le_id example_log)" by (simp add: example_log_def)
  show "map_of (request_headers example_args) ''Last-Event-ID'' = None"
    by (simp add: request_headers_def example_args_def dupd_def)
  show "\<exists>k \<le> 5. \<forall>req res. hc_send example_client k req = Inr res \<longrightarrow> \<not> rs_broken res"
    by (intro exI [of _ 1]) (auto simp: example_client_def Let_def)
qed

end
