(* ===== verification/SDK_Subscription.thy ===== *)
theory SDK_Subscription
  imports LG_Prelude
begin

section \<open>Subscriptions of a shared event stream\<close>

text \<open>
  \<open>sdk-py/langgraph_sdk/stream/subscription.py\<close>: which events a subscription wants, the filter that
  covers a set of subscriptions, and when one filter covers another. Events and filters are typed as in
  the protocol: \<open>params\<close> is a dictionary, a namespace a list of strings; \<open>None\<close> is an absent key.
\<close>

type_synonym ev_namespace = "string list"

record event =
  ev_method :: string
  ev_namespace :: "ev_namespace option"
  ev_data :: pyval
  ev_seq :: "int option"
  ev_event_id :: "string option"

record subscribe_params =
  su_channels :: "string list"
  su_namespaces :: "ev_namespace list option"
  su_depth :: "int option"

subsection \<open>Matching\<close>

definition normalize_segment :: "string \<Rightarrow> string" where
  "normalize_segment segment = takeWhile (\<lambda>c. c \<noteq> CHR '':'') segment"

definition segment_matches :: "string \<Rightarrow> string \<Rightarrow> bool" where
  "segment_matches seg candidate =
     (if candidate = seg then True
      else if CHR '':'' \<in> set seg then False
      else normalize_segment candidate = seg)"

definition is_prefix_match :: "ev_namespace \<Rightarrow> ev_namespace \<Rightarrow> bool" where
  "is_prefix_match event_namespace prefix =
     (if length prefix > length event_namespace then False
      else list_all (\<lambda>(seg, candidate). segment_matches seg candidate) (zip prefix event_namespace))"

fun any_prefix :: "ev_namespace \<Rightarrow> int option \<Rightarrow> ev_namespace list \<Rightarrow> bool" where
  "any_prefix ns depth [] = False"
| "any_prefix ns depth (prefix # ps) =
     (if \<not> is_prefix_match ns prefix then any_prefix ns depth ps
      else case depth of
        None \<Rightarrow> True
      | Some d \<Rightarrow> if int (length ns) - int (length prefix) \<le> d then True else any_prefix ns depth ps)"

definition namespace_matches :: "ev_namespace \<Rightarrow> ev_namespace list option \<Rightarrow> int option \<Rightarrow> bool" where
  "namespace_matches ns prefixes depth =
     (case prefixes of Some (p # ps) \<Rightarrow> any_prefix ns depth (p # ps) | _ \<Rightarrow> True)"

definition DIRECT_METHODS :: "string list" where
  "DIRECT_METHODS = [''values'', ''checkpoints'', ''updates'', ''messages'', ''tools'', ''lifecycle'', ''tasks'']"

text \<open>The name of a custom event: the \<open>name\<close> of its data, formatted into the channel when it is true.\<close>

definition custom_name :: "pyval \<Rightarrow> string option" where
  "custom_name data =
     (case data of VDict d \<Rightarrow> (case map_of d ''name'' of Some (VStr s) \<Rightarrow> if s = [] then None else Some s | _ \<Rightarrow> None)
      | _ \<Rightarrow> None)"

definition infer_channel :: "event \<Rightarrow> string option" where
  "infer_channel event =
     (if ev_method event \<in> set DIRECT_METHODS then Some (ev_method event)
      else if ev_method event = ''custom'' then
        (case custom_name (ev_data event) of Some n \<Rightarrow> Some (''custom:'' @ n) | None \<Rightarrow> Some ''custom'')
      else if ev_method event = ''input.requested'' then Some ''input''
      else None)"

definition channel_matches :: "string \<Rightarrow> string list \<Rightarrow> bool" where
  "channel_matches channel channels =
     (channel \<in> set channels \<or> take 7 channel = ''custom:'' \<and> ''custom'' \<in> set channels)"

definition matches_subscription :: "event \<Rightarrow> subscribe_params \<Rightarrow> bool" where
  "matches_subscription event p =
     (case infer_channel event of
       None \<Rightarrow> False
     | Some channel \<Rightarrow>
         if \<not> channel_matches channel (su_channels p) then False
         else namespace_matches (case ev_namespace event of Some ns \<Rightarrow> ns | None \<Rightarrow> []) (su_namespaces p) (su_depth p))"

subsection \<open>The union of filters\<close>

record union_state =
  un_channels :: "string list"
  un_wildcard :: bool
  un_namespaces :: "(ev_namespace, ev_namespace) dict"
  un_unbounded :: bool
  un_max_depth :: int

definition union_step :: "union_state \<Rightarrow> subscribe_params \<Rightarrow> union_state" where
  "union_step u p =
     (let u = u\<lparr>un_channels := un_channels u @ su_channels p\<rparr>;
          u = (case su_namespaces p of
                 None \<Rightarrow> u\<lparr>un_wildcard := True\<rparr>
               | Some nss \<Rightarrow>
                   if \<not> un_wildcard u then u\<lparr>un_namespaces := foldl (\<lambda>d ns. dset ns ns d) (un_namespaces u) nss\<rparr> else u)
      in case su_depth p of
           None \<Rightarrow> u\<lparr>un_unbounded := True\<rparr>
         | Some d \<Rightarrow> if \<not> un_unbounded u \<and> d > un_max_depth u then u\<lparr>un_max_depth := d\<rparr> else u)"

definition compute_union_filter :: "subscribe_params list \<Rightarrow> subscribe_params" where
  "compute_union_filter subs =
     (if subs = [] then \<lparr>su_channels = [], su_namespaces = None, su_depth = None\<rparr>
      else let u = foldl union_step
                     \<lparr>un_channels = [], un_wildcard = False, un_namespaces = [], un_unbounded = False, un_max_depth = 0\<rparr> subs
        in \<lparr>su_channels = sort (remdups (un_channels u)),
            su_namespaces = (if \<not> un_wildcard u \<and> un_namespaces u \<noteq> [] then Some (map snd (un_namespaces u)) else None),
            su_depth = (if \<not> un_unbounded u then Some (un_max_depth u) else None)\<rparr>)"

subsection \<open>Covering\<close>

definition covers_namespace :: "ev_namespace list \<Rightarrow> int option \<Rightarrow> int option \<Rightarrow> ev_namespace \<Rightarrow> bool" where
  "covers_namespace coverer_namespaces coverer_depth target_depth tp =
     list_ex (\<lambda>cp. is_prefix_match tp cp \<and>
         (case coverer_depth of
           None \<Rightarrow> True
         | Some cd \<Rightarrow> (case target_depth of
             None \<Rightarrow> False
           | Some td \<Rightarrow> int (length tp) - int (length cp) + td \<le> cd))) coverer_namespaces"

definition filter_covers :: "subscribe_params \<Rightarrow> subscribe_params \<Rightarrow> bool" where
  "filter_covers coverer target =
     (if \<not> set (su_channels target) \<subseteq> set (su_channels coverer) then False
      else case su_namespaces coverer of
        None \<Rightarrow> (case su_depth coverer of
                  None \<Rightarrow> True
                | Some cd \<Rightarrow> (case su_depth target of None \<Rightarrow> False | Some td \<Rightarrow> td \<le> cd))
      | Some cns \<Rightarrow> (case su_namespaces target of
                       None \<Rightarrow> False
                     | Some tns \<Rightarrow> list_all (covers_namespace cns (su_depth coverer) (su_depth target)) tns))"

subsection \<open>Prefix matching is a preorder\<close>

lemma normalize_segment_plain [simp]: "CHR '':'' \<notin> set s \<Longrightarrow> normalize_segment s = s"
  by (auto simp: normalize_segment_def takeWhile_eq_all_conv)

lemma segment_matches_trans: "segment_matches c t \<Longrightarrow> segment_matches t x \<Longrightarrow> segment_matches c x"
  by (auto simp: segment_matches_def split: if_splits)

lemma is_prefix_match_nth:
  "is_prefix_match ns p \<longleftrightarrow> length p \<le> length ns \<and> (\<forall>i < length p. segment_matches (p ! i) (ns ! i))"
  by (auto simp: is_prefix_match_def list_all_length)

lemma is_prefix_match_refl [simp]: "is_prefix_match ns ns"
  by (simp add: is_prefix_match_nth segment_matches_def)

lemma is_prefix_match_trans: "is_prefix_match t c \<Longrightarrow> is_prefix_match x t \<Longrightarrow> is_prefix_match x c"
  unfolding is_prefix_match_nth by (meson le_trans less_le_trans segment_matches_trans)

lemma any_prefix_iff:
  "any_prefix ns depth ps \<longleftrightarrow>
    (\<exists>p \<in> set ps. is_prefix_match ns p \<and> (case depth of None \<Rightarrow> True | Some d \<Rightarrow> int (length ns) - int (length p) \<le> d))"
  by (induction ps) (auto split: option.splits)

subsection \<open>A covering filter lets everything through\<close>

text \<open>
  A filter that covers another one lets through every event that the other one wants, except for a filter
  with an empty list of namespaces, which matches every namespace but counts as covered by any.
\<close>

theorem filter_covers_sound:
  assumes "filter_covers coverer target" and "su_namespaces target \<noteq> Some []" and "matches_subscription event target"
  shows "matches_subscription event coverer"
proof -
  let ?ns = "case ev_namespace event of Some ns \<Rightarrow> ns | None \<Rightarrow> []"
  from assms(3) obtain ch where ch: "infer_channel event = Some ch" "channel_matches ch (su_channels target)"
    and ns: "namespace_matches ?ns (su_namespaces target) (su_depth target)"
    by (auto simp: matches_subscription_def split: option.splits if_splits)
  from assms(1) have "set (su_channels target) \<subseteq> set (su_channels coverer)"
    by (auto simp: filter_covers_def split: if_splits)
  with ch have c: "channel_matches ch (su_channels coverer)" by (auto simp: channel_matches_def)
  have "namespace_matches ?ns (su_namespaces coverer) (su_depth coverer)"
  proof (cases "su_namespaces coverer")
    case None
    then show ?thesis by (simp add: namespace_matches_def)
  next
    case (Some cns)
    show ?thesis
    proof (cases "cns = []")
      case True
      with Some show ?thesis by (simp add: namespace_matches_def)
    next
      case False
      from assms(1) Some obtain tns where t: "su_namespaces target = Some tns"
        "\<forall>tp \<in> set tns. covers_namespace cns (su_depth coverer) (su_depth target) tp"
        by (auto simp: filter_covers_def list_all_iff split: if_splits option.splits)
      with assms(2) ns obtain tp where tp: "tp \<in> set tns" "is_prefix_match ?ns tp"
        "case su_depth target of None \<Rightarrow> True | Some d \<Rightarrow> int (length ?ns) - int (length tp) \<le> d"
        by (cases tns) (auto simp: namespace_matches_def any_prefix_iff simp del: any_prefix.simps)
      from t tp(1) obtain cp where cp: "cp \<in> set cns" "is_prefix_match tp cp"
        "case su_depth coverer of None \<Rightarrow> True
         | Some cd \<Rightarrow> (case su_depth target of None \<Rightarrow> False | Some td \<Rightarrow> int (length tp) - int (length cp) + td \<le> cd)"
        by (auto simp: covers_namespace_def list_ex_iff)
      have "any_prefix ?ns (su_depth coverer) cns"
        unfolding any_prefix_iff using cp tp is_prefix_match_trans [OF cp(2) tp(2)]
        by (intro bexI [of _ cp]) (auto split: option.splits)
      with Some False show ?thesis by (cases cns) (simp_all add: namespace_matches_def del: any_prefix.simps)
    qed
  qed
  with ch c show ?thesis by (simp add: matches_subscription_def)
qed

definition example_coverer :: subscribe_params where
  "example_coverer = \<lparr>su_channels = [''values''], su_namespaces = Some [[''a'']], su_depth = Some 2\<rparr>"

definition example_target :: subscribe_params where
  "example_target = \<lparr>su_channels = [''values''], su_namespaces = Some [[''a:1'', ''b'']], su_depth = Some 1\<rparr>"

definition example_event :: event where
  "example_event = \<lparr>ev_method = ''values'', ev_namespace = Some [''a:1'', ''b:2'', ''c''], ev_data = VNone,
     ev_seq = None, ev_event_id = None\<rparr>"

subsection \<open>The shared stream serves every subscription\<close>

definition union_ok :: "subscribe_params list \<Rightarrow> union_state \<Rightarrow> bool" where
  "union_ok subs u =
     (set (un_channels u) = (\<Union>p \<in> set subs. set (su_channels p))
      \<and> un_wildcard u = (\<exists>p \<in> set subs. su_namespaces p = None)
      \<and> (\<not> un_wildcard u \<longrightarrow> (\<forall>p \<in> set subs. \<forall>nss. su_namespaces p = Some nss \<longrightarrow> (\<forall>ns \<in> set nss. ns \<in> fst ` set (un_namespaces u))))
      \<and> (\<forall>(k, v) \<in> set (un_namespaces u). k = v)
      \<and> un_unbounded u = (\<exists>p \<in> set subs. su_depth p = None)
      \<and> (\<not> un_unbounded u \<longrightarrow> (\<forall>p \<in> set subs. \<forall>d. su_depth p = Some d \<longrightarrow> d \<le> un_max_depth u)))"

lemma add_namespaces:
  fixes nss :: "ev_namespace list"
  shows "fst ` set (foldl (\<lambda>d ns. dset ns ns d) d nss) = fst ` set d \<union> set nss"
    and "\<forall>(k, v) \<in> set d. k = v \<Longrightarrow> \<forall>(k, v) \<in> set (foldl (\<lambda>d ns. dset ns ns d) d nss). k = v"
proof -
  show "fst ` set (foldl (\<lambda>d ns. dset ns ns d) d nss) = fst ` set d \<union> set nss"
    by (induction nss arbitrary: d) (auto simp: dom_update)
  have step: "\<forall>(k, v) \<in> set d. k = v \<Longrightarrow> \<forall>(k, v) \<in> set (dset ns ns d). k = v" for ns and d :: "(ev_namespace, ev_namespace) dict"
    by (induction d) auto
  show "\<forall>(k, v) \<in> set d. k = v \<Longrightarrow> \<forall>(k, v) \<in> set (foldl (\<lambda>d ns. dset ns ns d) d nss). k = v"
  proof (induction nss arbitrary: d)
    case (Cons a nss)
    from Cons.IH [OF step [OF Cons.prems]] show ?case by simp
  qed simp
qed

lemma union_ok_step: "union_ok subs u \<Longrightarrow> union_ok (subs @ [p]) (union_step u p)"
proof -
  assume u: "union_ok subs u"
  show ?thesis
  proof (cases "su_namespaces p")
    case None
    with u show ?thesis by (cases "su_depth p") (auto simp: union_ok_def union_step_def Let_def)
  next
    case (Some nss)
    with u add_namespaces(2) [of "un_namespaces u" nss] show ?thesis
      by (cases "su_depth p"; cases "un_wildcard u")
        (auto simp: union_ok_def union_step_def Let_def add_namespaces(1) intro: order_trans)
  qed
qed

lemma union_ok_all:
  "union_ok subs (foldl union_step
     \<lparr>un_channels = [], un_wildcard = False, un_namespaces = [], un_unbounded = False, un_max_depth = 0\<rparr> subs)"
proof (induction subs rule: rev_induct)
  case (snoc p subs)
  then show ?case by (simp add: union_ok_step)
qed (simp add: union_ok_def)

text \<open>
  C36: The filter of the shared stream covers every subscription, so that it is not opened again for them, and lets
  through every event that one of them wants, unless that one has an empty list of namespaces.
\<close>

theorem union_serves_all:
  assumes "p \<in> set subs"
  shows "filter_covers (compute_union_filter subs) p
    \<and> (su_namespaces p = Some [] \<or> (\<forall>event. matches_subscription event p \<longrightarrow> matches_subscription event (compute_union_filter subs)))"
proof -
  define u where "u = foldl union_step
     \<lparr>un_channels = [], un_wildcard = False, un_namespaces = [], un_unbounded = False, un_max_depth = 0\<rparr> subs"
  have ok: "union_ok subs u" unfolding u_def by (rule union_ok_all)
  have f: "compute_union_filter subs = \<lparr>su_channels = sort (remdups (un_channels u)),
            su_namespaces = (if \<not> un_wildcard u \<and> un_namespaces u \<noteq> [] then Some (map snd (un_namespaces u)) else None),
            su_depth = (if \<not> un_unbounded u then Some (un_max_depth u) else None)\<rparr>"
    using assms by (auto simp: compute_union_filter_def u_def Let_def)
  have ch: "set (su_channels p) \<subseteq> set (su_channels (compute_union_filter subs))"
    using ok assms by (auto simp: f union_ok_def)
  have depth: "\<not> un_unbounded u \<Longrightarrow> \<exists>d. su_depth p = Some d \<and> d \<le> un_max_depth u"
    using ok assms by (cases "su_depth p") (auto simp: union_ok_def)
  have "filter_covers (compute_union_filter subs) p"
  proof (cases "un_wildcard u \<or> un_namespaces u = []")
    case True
    then have "su_namespaces (compute_union_filter subs) = None" by (auto simp: f)
    with ch depth show ?thesis by (auto simp: filter_covers_def f)
  next
    case False
    then have ns: "su_namespaces (compute_union_filter subs) = Some (map snd (un_namespaces u))" by (simp add: f)
    from False ok assms have "su_namespaces p \<noteq> None" by (auto simp: union_ok_def)
    then obtain nss where p: "su_namespaces p = Some nss" by blast
    moreover from False have "\<not> un_wildcard u" by blast
    ultimately have "\<forall>ns \<in> set nss. ns \<in> fst ` set (un_namespaces u)"
      using ok assms unfolding union_ok_def by blast
    with p have nss: "su_namespaces p = Some nss" "set nss \<subseteq> fst ` set (un_namespaces u)" by auto
    have "covers_namespace (map snd (un_namespaces u)) (su_depth (compute_union_filter subs)) (su_depth p) tp"
      if "tp \<in> set nss" for tp
    proof -
      from that nss(2) obtain v where "(tp, v) \<in> set (un_namespaces u)" by auto
      with ok have "(tp, tp) \<in> set (un_namespaces u)" by (auto simp: union_ok_def)
      then have "tp \<in> set (map snd (un_namespaces u))" by force
      with depth show ?thesis
        unfolding covers_namespace_def list_ex_iff by (intro bexI [of _ tp]) (auto simp: f)
    qed
    with ch ns nss show ?thesis by (simp add: filter_covers_def list_all_iff)
  qed
  then show ?thesis using filter_covers_sound by blast
qed

lemma union_serves_all_witness:
  "matches_subscription example_event (compute_union_filter [example_target, example_coverer])"
proof -
  have "example_target \<in> set [example_target, example_coverer]" by simp
  from union_serves_all [OF this] have "su_namespaces example_target = Some []
    \<or> (matches_subscription example_event example_target \<longrightarrow>
        matches_subscription example_event (compute_union_filter [example_target, example_coverer]))" by blast
  moreover have "su_namespaces example_target \<noteq> Some []" by (simp add: example_target_def)
  moreover have "matches_subscription example_event example_target" by code_simp
  ultimately show ?thesis by blast
qed

text \<open>
  An empty list of namespaces: it matches events of every namespace, but beside another subscription the
  filter of the shared stream does not, although it counts as covering, so that the events are lost.
\<close>

theorem empty_namespaces_lost:
  "\<exists>p q event. su_namespaces p = Some [] \<and> matches_subscription event p
    \<and> filter_covers (compute_union_filter [p, q]) p \<and> \<not> matches_subscription event (compute_union_filter [p, q])"
proof (intro exI conjI)
  let ?p = "\<lparr>su_channels = [''values''], su_namespaces = Some [], su_depth = None\<rparr>"
  let ?q = "\<lparr>su_channels = [''values''], su_namespaces = Some [[''x'']], su_depth = None\<rparr>"
  show "su_namespaces ?p = Some []" by simp
  show "matches_subscription example_event ?p" by code_simp
  show "filter_covers (compute_union_filter [?p, ?q]) ?p" by code_simp
  show "\<not> matches_subscription example_event (compute_union_filter [?p, ?q])" by code_simp
qed

end
