(* ===== verification/Pregel_State.thy ===== *)
theory Pregel_State
  imports Pregel_Retry Memory_Saver Store_Text
begin

section \<open>Reading the state of a graph\<close>

text \<open>
  \<open>get_subgraphs\<close>, \<open>get_state\<close>, \<open>get_state_history\<close> and \<open>_prepare_state_snapshot\<close> of \<open>pregel/main.py\<close>,
  \<open>tasks_w_writes\<close> of \<open>pregel/debug.py\<close>, \<open>ensure_config\<close> and \<open>patch_checkpoint_map\<close> of
  \<open>_internal/_config.py\<close>. A graph is a tree: its own attributes and, for the nodes that contain a graph, these
  graphs. The saver is any object with the methods of \<open>BaseCheckpointSaver\<close> (\<open>saver_class\<close>); there is one,
  whether it comes with the graph or with the configuration. After an exception the state of the saver is not
  modelled. Calls are made from outside of any node: \<open>ensure_config\<close> finds no ambient configuration.
\<close>

subsection \<open>Configurations\<close>

definition set_unless_none :: "'a option \<Rightarrow> 'a option \<Rightarrow> 'a option" where
  "set_unless_none new old = (if new \<noteq> None then new else old)"

definition ensure_one :: "run_config \<Rightarrow> run_config \<Rightarrow> run_config" where
  "ensure_one e c =
     \<lparr>rc_tags = (if truthy_list (rc_tags c)
                 then Some ((if truthy_list (rc_tags e) then the (rc_tags e) else []) @ the (rc_tags c)) else rc_tags e),
      rc_metadata = (if truthy_list (rc_metadata c) then Some (merge_metadata (rc_metadata e) (rc_metadata c))
                     else rc_metadata e),
      rc_callbacks = set_unless_none (rc_callbacks c) (rc_callbacks e),
      rc_run_name = set_unless_none (rc_run_name c) (rc_run_name e),
      rc_run_id = set_unless_none (rc_run_id c) (rc_run_id e),
      rc_recursion_limit = set_unless_none (rc_recursion_limit c) (rc_recursion_limit e),
      rc_max_concurrency = set_unless_none (rc_max_concurrency c) (rc_max_concurrency e),
      rc_conf = (if truthy_list (rc_conf c) then Some (dupd (conf_of e) (the (rc_conf c))) else rc_conf e)\<rparr>"

definition PROPAGATE_TO_METADATA :: "string list" where
  "PROPAGATE_TO_METADATA =
     [''thread_id'', ''checkpoint_id'', ''checkpoint_ns'', ''task_id'', ''run_id'', ''assistant_id'', ''graph_id'']"

text \<open>
  The values under these keys are strings, or plain values; the set of keys is iterated in an arbitrary order,
  here that of the list.
\<close>

definition conf_plain :: "confval \<Rightarrow> pyval option" where
  "conf_plain v =
     (case v of
       CStr s \<Rightarrow> if s \<noteq> [] then Some (VStr s) else None
     | CBool b \<Rightarrow> if b then Some (VBool b) else None
     | CVal x \<Rightarrow> if py_bool x then Some x else None
     | _ \<Rightarrow> None)"

definition propagate :: "configurable \<Rightarrow> (string, pyval) dict \<Rightarrow> (string, pyval) dict" where
  "propagate conf metadata =
     foldl (\<lambda>m key. if dmem key m then m
                    else case Option.bind (map_of conf key) conf_plain of None \<Rightarrow> m | Some v \<Rightarrow> dset key v m)
       metadata PROPAGATE_TO_METADATA"

definition ensure_config :: "run_config option list \<Rightarrow> run_config" where
  "ensure_config configs =
     (let e = foldl (\<lambda>e c. case c of None \<Rightarrow> e | Some c \<Rightarrow> ensure_one e c)
                (empty_config\<lparr>rc_tags := Some [], rc_metadata := Some [],
                              rc_recursion_limit := Some DEFAULT_RECURSION_LIMIT, rc_conf := Some []\<rparr>) configs
      in case rc_metadata e of
           None \<Rightarrow> e
         | Some m \<Rightarrow> if conf_of e = [] then e else e\<lparr>rc_metadata := Some (propagate (conf_of e) m)\<rparr>)"

definition conf_get :: "run_config \<Rightarrow> configurable res" where
  "conf_get c = (case rc_conf c of None \<Rightarrow> Inl (KeyError CONF) | Some d \<Rightarrow> Inr d)"

definition patch_checkpoint_map :: "run_config option \<Rightarrow> ckpt_meta option \<Rightarrow> run_config option res" where
  "patch_checkpoint_map config metadata =
     (case config of
       None \<Rightarrow> Inr None
     | Some c \<Rightarrow>
         let parents = (case metadata of None \<Rightarrow> [] | Some m \<Rightarrow> cm_parents m) in
         if parents = [] then Inr (Some c)
         else rbind (conf_key c CONFIG_KEY_CHECKPOINT_NS) (\<lambda>ns.
              rmap (\<lambda>cid. Some (patch_configurable (Some c) [(CONFIG_KEY_CHECKPOINT_MAP, CMap (dset ns cid parents))]))
                (conf_key c CONFIG_KEY_CHECKPOINT_ID)))"

text \<open>\<open>str(config[CONF]["thread_id"])\<close>: thread ids are strings or plain values.\<close>

definition thread_str :: "confval \<Rightarrow> string" where
  "thread_str v = (case v of CStr s \<Rightarrow> s | CVal x \<Rightarrow> value_text x | CBool b \<Rightarrow> value_text (VBool b) | _ \<Rightarrow> value_text VNone)"

definition str_thread_id :: "run_config \<Rightarrow> run_config res" where
  "str_thread_id c =
     rbind (conf_get c) (\<lambda>d.
       case map_of d CONFIG_KEY_THREAD_ID of
         None \<Rightarrow> Inl (KeyError CONFIG_KEY_THREAD_ID)
       | Some v \<Rightarrow> Inr (patch_configurable (Some c) [(CONFIG_KEY_THREAD_ID, CStr (thread_str v))]))"

subsection \<open>Graphs and savers\<close>

record 's saver_class =
  bs_get_tuple :: "run_config \<Rightarrow> 's \<Rightarrow> saved_tuple option res"
  bs_list :: "run_config \<Rightarrow> (string, pyval) dict option \<Rightarrow> run_config option \<Rightarrow> int option \<Rightarrow> 's \<Rightarrow> saved_tuple list res"
  bs_put :: "run_config \<Rightarrow> checkpoint \<Rightarrow> ckpt_meta \<Rightarrow> versions \<Rightarrow> 's \<Rightarrow> ('s \<times> run_config) res"
  bs_put_writes :: "run_config \<Rightarrow> writes \<Rightarrow> string \<Rightarrow> 's \<Rightarrow> 's res"
  bs_history :: "run_config \<Rightarrow> string list \<Rightarrow> 's \<Rightarrow> (string, delta_history) dict res"
  bs_next_version :: "version option \<Rightarrow> version"

text \<open>The attribute \<open>checkpointer\<close>: false, \<open>True\<close> (that of the parent graph is used), or a saver.\<close>

datatype own_saver = No_saver | Inherit_saver | Own_saver

record pregel_env =
  pg_hashes :: hashes
  pg_uuid5 :: "string \<Rightarrow> string \<Rightarrow> string"
  pg_identifier :: "pregel_node \<Rightarrow> string option"
  pg_new_id :: "nat \<Rightarrow> string"
  pg_now :: "nat \<Rightarrow> string"
  pg_store :: "string option"
  pg_nodes :: "(string, pregel_node) dict"
  pg_specs :: "(string, chan_or_managed) dict"
  pg_trigger_to_nodes :: "(string, string list) dict"
  pg_input_channels :: ch_keys
  pg_stream_channels :: "ch_keys option"
  pg_config :: "run_config option"
  pg_checkpointer :: own_saver
  pg_saver_name :: string
  pg_migrate :: "checkpoint \<Rightarrow> checkpoint"
  pg_run :: "channels \<Rightarrow> managed \<Rightarrow> string \<Rightarrow> pyval \<Rightarrow> runnable \<Rightarrow> pyval \<Rightarrow> (pyval \<times> writes) res"

datatype pregel = Pregel (pregel_self: pregel_env) (pregel_subs: "(string \<times> pregel) list")

definition stream_channels_asis :: "pregel_env \<Rightarrow> ch_keys" where
  "stream_channels_asis env =
     (let all = ManyKeys (dkeys (channel_specs (pg_specs env))) in
      case pg_stream_channels env of
        None \<Rightarrow> all
      | Some (OneKey k) \<Rightarrow> if k \<noteq> [] then OneKey k else all
      | Some (ManyKeys ks) \<Rightarrow> if ks \<noteq> [] then ManyKeys ks else all)"

text \<open>
  The loop over the nodes that contain a graph; the others are passed over without effect. What is searched
  for (\<open>namespace\<close>) is a variable that the loop overwrites.
\<close>

lemma size_subs: "size_list (size_prod (\<lambda>x. 0) size) (pregel_subs g) < size g"
  by (cases g) simp

function subgraph_loop :: "bool \<Rightarrow> string option \<Rightarrow> (string \<times> pregel) list \<Rightarrow> (string \<times> pregel) list" where
  "subgraph_loop recurse namespace [] = []"
| "subgraph_loop recurse namespace ((name, graph) # rest) =
     (case namespace of
        None \<Rightarrow>
          (name, graph)
            # (if recurse then map (\<lambda>(n, s). (name @ NS_SEP @ n, s)) (subgraph_loop recurse None (pregel_subs graph)) else [])
            @ subgraph_loop recurse None rest
      | Some ns \<Rightarrow>
          if \<not> starts_with name ns then subgraph_loop recurse namespace rest
          else if name = ns then [(name, graph)]
          else if recurse then
            let namespace' = Some (drop (length name + 1) ns)
            in map (\<lambda>(n, s). (name @ NS_SEP @ n, s)) (subgraph_loop recurse namespace' (pregel_subs graph))
               @ subgraph_loop recurse namespace' rest
          else subgraph_loop recurse namespace rest)"
  by pat_completeness auto

termination
  by (relation "measure (\<lambda>(recurse, namespace, gs). size_list (size_prod (\<lambda>x. 0) size) gs)")
    (auto intro: less_trans [OF size_subs])

definition get_subgraphs :: "pregel \<Rightarrow> string option \<Rightarrow> bool \<Rightarrow> (string \<times> pregel) list" where
  "get_subgraphs self namespace recurse = subgraph_loop recurse namespace (pregel_subs self)"

subsection \<open>Snapshots\<close>

datatype snapshot = StateSnapshot
  (sn_values: pyval) (sn_next: "string list") (sn_config: run_config) (sn_metadata: "ckpt_meta option")
  (sn_created_at: "string option") (sn_parent_config: "run_config option") (sn_tasks: "snapshot_task list")
  (sn_interrupts: "pyval list")
and snapshot_task = SnapshotTask
  (tk_id: string) (tk_name: string) (tk_path: "path_part list") (tk_error: "pyval option")
  (tk_interrupts: "pyval list") (tk_state: "task_state option") (tk_result: pyval)
and task_state = StateConfig run_config | StateOf snapshot

fun multiple_writes :: "pyval \<Rightarrow> pyval list option" where
  "multiple_writes (VDict d) = (case map_of d ''$writes'' of Some (VList vs) \<Rightarrow> Some vs | _ \<Rightarrow> None)"
| "multiple_writes _ = None"

definition map_task_result_writes :: "writes \<Rightarrow> (string, pyval) dict" where
  "map_task_result_writes ws =
     foldl (\<lambda>result (channel, value).
       let existing = dgetd result channel VNone in
       if existing \<noteq> VNone then
         dset channel (VDict [(''$writes'', VList ((case multiple_writes existing of Some vs \<Rightarrow> vs | None \<Rightarrow> [existing]) @ [value]))])
           result
       else dset channel value result) [] ws"

text \<open>The values of an interrupt write: a sequence is taken apart, also a string.\<close>

definition interrupt_values :: "pyval \<Rightarrow> pyval list" where
  "interrupt_values v =
     (case v of VList vs \<Rightarrow> vs | VTuple vs \<Rightarrow> vs | VStr s \<Rightarrow> map (\<lambda>c. VStr [c]) s | _ \<Rightarrow> [v])"

definition task_result :: "writes \<Rightarrow> ch_keys \<Rightarrow> pyval" where
  "task_result ws output_keys =
     (case output_keys of
       OneKey k \<Rightarrow>
         dgetd (map_task_result_writes (filter (\<lambda>(c, v). c \<notin> {ERROR, INTERRUPT, RETURN} \<and> c = k) ws)) k VNone
     | ManyKeys ks \<Rightarrow>
         VDict (map_task_result_writes (filter (\<lambda>(c, v). c \<notin> {ERROR, INTERRUPT, RETURN} \<and> c \<in> set ks) ws)))"

definition task_w_writes ::
  "pending_write list \<Rightarrow> (string, task_state) dict \<Rightarrow> ch_keys \<Rightarrow> pregel_task \<Rightarrow> snapshot_task" where
  "task_w_writes pending states output_keys t =
     (let ws = writes_of (pt_id t) pending;
          rtn = map_of ws RETURN;
          has_writes = (rtn \<noteq> None \<or> (\<exists>w \<in> set ws. fst w \<noteq> ERROR \<and> fst w \<noteq> INTERRUPT))
      in SnapshotTask (pt_id t) (pt_name t) (pt_path t) (map_of ws ERROR)
           (concat (map (\<lambda>(c, v). if c = INTERRUPT then interrupt_values v else []) ws))
           (map_of states (pt_id t))
           (if has_writes then (case rtn of Some v \<Rightarrow> v | None \<Rightarrow> task_result ws output_keys) else VNone))"

definition tasks_w_writes ::
  "pregel_task list \<Rightarrow> pending_write list option \<Rightarrow> (string, task_state) dict \<Rightarrow> ch_keys \<Rightarrow> snapshot_task list" where
  "tasks_w_writes tasks pending states output_keys =
     map (task_w_writes (case pending of None \<Rightarrow> [] | Some ws \<Rightarrow> ws) states output_keys) tasks"

subsection \<open>The tasks of a checkpoint\<close>

text \<open>What both reading and updating the state pass to \<open>prepare_next_tasks\<close>: no policies, no manager.\<close>

definition state_prep_env :: "pregel_env \<Rightarrow> string option \<Rightarrow> managed \<Rightarrow> run_config \<Rightarrow> int \<Rightarrow> prep_env" where
  "state_prep_env env checkpointer managed config step =
     \<lparr>pe_hashes = pg_hashes env, pe_processes = pg_nodes env, pe_identifier = pg_identifier env, pe_managed = managed,
      pe_config = config, pe_step = step, pe_stop = step + 2, pe_store = pg_store env, pe_checkpointer = checkpointer,
      pe_manager = None, pe_cache_policy = None, pe_retry_policy = []\<rparr>"

fun prepared_exec :: "prepared \<Rightarrow> exec_task list" where
  "prepared_exec (PreparedExec t) = [t]"
| "prepared_exec (PreparedTask t) = []"

text \<open>The tasks by id, all executable, and the pending writes, which preparing a task may change.\<close>

definition state_tasks ::
  "pregel_env \<Rightarrow> string option \<Rightarrow> managed \<Rightarrow> run_config \<Rightarrow> int \<Rightarrow> checkpoint \<Rightarrow> channels \<Rightarrow> pending_write list option
    \<Rightarrow> ((string, exec_task) dict \<times> pending_write list option) res" where
  "state_tasks env checkpointer managed config step cp channels pending =
     rmap (\<lambda>(ts, ws). (concat (map (\<lambda>(tid, p). map (Pair tid) (prepared_exec p)) ts), map_option (\<lambda>_. ws) pending))
       (prepare_next_tasks (state_prep_env env checkpointer managed config step) cp
          (case pending of None \<Rightarrow> [] | Some ws \<Rightarrow> ws) channels True None None)"

definition own_saver_name :: "pregel_env \<Rightarrow> string option" where
  "own_saver_name env = (if pg_checkpointer env = Own_saver then Some (pg_saver_name env) else None)"

definition input_task :: "writes \<Rightarrow> task_writes" where
  "input_task ws = \<lparr>tw_path = [], tw_name = INPUT, tw_writes = ws, tw_triggers = []\<rparr>"

text \<open>The writes of tasks that already ran are handed to the tasks.\<close>

definition give_writes :: "pending_write list \<Rightarrow> (string, exec_task) dict \<Rightarrow> (string, exec_task) dict" where
  "give_writes pending tasks =
     map (\<lambda>(tid, t).
       (tid, t\<lparr>et_writes := et_writes t @ filter (\<lambda>(c, v). c \<noteq> ERROR \<and> c \<noteq> INTERRUPT) (writes_of tid pending)\<rparr>)) tasks"

subsection \<open>Preparing a snapshot\<close>

text \<open>\<open>substates\<close> are the \<open>get_state\<close>s of the subgraphs, by the name of their node.\<close>

definition subgraph_state ::
  "(string \<times> (run_config \<Rightarrow> snapshot res)) list \<Rightarrow> string option \<Rightarrow> saved_tuple \<Rightarrow> exec_task
    \<Rightarrow> (string \<times> task_state) list res" where
  "subgraph_state substates recurse saved t =
     (case map_of substates (et_name t) of
        None \<Rightarrow> Inr []
      | Some substate \<Rightarrow>
          let ns = child_ns (conf_ns_or_root (sv_config saved)) (et_name t @ NS_END @ et_id t) in
          rbind (conf_key (sv_config saved) CONFIG_KEY_THREAD_ID) (\<lambda>thread.
          case recurse of
            None \<Rightarrow> Inr [(et_id t, StateConfig (empty_config\<lparr>rc_conf :=
                      Some [(CONFIG_KEY_THREAD_ID, CStr thread), (CONFIG_KEY_CHECKPOINT_NS, CStr ns)]\<rparr>))]
          | Some saver \<Rightarrow>
              rmap (\<lambda>sn. [(et_id t, StateOf sn)])
                (substate (empty_config\<lparr>rc_conf := Some [(CONFIG_KEY_CHECKPOINTER, CSaver saver),
                   (CONFIG_KEY_THREAD_ID, CStr thread), (CONFIG_KEY_CHECKPOINT_NS, CStr ns)]\<rparr>))))"

definition task_summary :: "exec_task \<Rightarrow> pregel_task" where
  "task_summary t = \<lparr>pt_id = et_id t, pt_name = et_name t, pt_path = et_path t\<rparr>"

definition own_history ::
  "pregel_env \<Rightarrow> 's saver_class \<Rightarrow> 's \<Rightarrow> saved_tuple \<Rightarrow> (string list \<Rightarrow> (string, delta_history) dict res) option" where
  "own_history env cls s saved =
     (if pg_checkpointer env = Own_saver then Some (\<lambda>ks. bs_history cls (sv_config saved) ks s) else None)"

definition prepare_state_snapshot ::
  "'s saver_class \<Rightarrow> 's \<Rightarrow> pregel_env \<Rightarrow> (string \<times> (run_config \<Rightarrow> snapshot res)) list \<Rightarrow> run_config
    \<Rightarrow> saved_tuple option \<Rightarrow> string option \<Rightarrow> bool \<Rightarrow> snapshot res" where
  "prepare_state_snapshot cls s env substates config found recurse apply_pending_writes =
     (case found of
        None \<Rightarrow> Inr (StateSnapshot (VDict []) [] config None None None [] [])
      | Some saved \<Rightarrow>
          let cp = pg_migrate env (sv_checkpoint saved); step = cm_step (sv_metadata saved) + 1 in
          rbind (channels_from_checkpoint (pg_specs env) cp (own_history env cls s saved)) (\<lambda>(channels, managed).
          rbind (state_tasks env (own_saver_name env) managed (sv_config saved) step cp channels (sv_pending saved)) (\<lambda>(tasks, pending).
          rbind (rmapM (subgraph_state substates recurse saved) (map snd tasks)) (\<lambda>states.
          let ws = (case pending of None \<Rightarrow> [] | Some ws \<Rightarrow> ws); null_writes = writes_of NULL_TASK_ID ws in
          rbind (if null_writes = [] then Inr (cp, channels)
                 else rmap (\<lambda>(cp, chs, u). (cp, chs))
                        (apply_writes cp channels [input_task null_writes] None (pg_trigger_to_nodes env))) (\<lambda>(cp, channels).
          let tasks = (if apply_pending_writes then give_writes ws tasks else tasks);
              written = filter (\<lambda>t. et_writes t \<noteq> []) (map snd tasks) in
          rbind (if apply_pending_writes \<and> written \<noteq> [] then
                   rmap (\<lambda>(cp, chs, u). chs)
                     (apply_writes cp channels (map writes_of_task written) None (pg_trigger_to_nodes env))
                 else Inr channels) (\<lambda>channels.
          rbind (read_channels channels (stream_channels_asis env) True) (\<lambda>vals.
          rbind (patch_checkpoint_map (Some (sv_config saved)) (Some (sv_metadata saved))) (\<lambda>cfg.
          rmap (\<lambda>parent_cfg.
             let tasks_out = tasks_w_writes (map (\<lambda>p. task_summary (snd p)) tasks) pending (concat states) (stream_channels_asis env)
             in StateSnapshot vals (map (\<lambda>p. et_name (snd p)) (filter (\<lambda>p. et_writes (snd p) = []) tasks))
                  (the cfg) (Some (sv_metadata saved)) (Some (cp_ts cp)) parent_cfg tasks_out
                  (concat (map tk_interrupts tasks_out)))
            (patch_checkpoint_map (sv_parent_config saved) (Some (sv_metadata saved)))))))))))"

subsection \<open>The operations\<close>

definition resolve_checkpointer :: "pregel_env \<Rightarrow> run_config \<Rightarrow> own_saver \<times> string" where
  "resolve_checkpointer env config =
     (case map_of (conf_of config) CONFIG_KEY_CHECKPOINTER of
        None \<Rightarrow> (pg_checkpointer env, pg_saver_name env)
      | Some (CSaver name) \<Rightarrow> (Own_saver, name)
      | Some (CBool True) \<Rightarrow> (Inherit_saver, [])
      | Some _ \<Rightarrow> (No_saver, []))"

fun saver_conf :: "own_saver \<times> string \<Rightarrow> confval" where
  "saver_conf (Own_saver, name) = CSaver name"
| "saver_conf (Inherit_saver, name) = CBool True"
| "saver_conf (No_saver, name) = CNone"

text \<open>
  The subgraph a call is delegated to, with the configuration it gets: when a namespace is given and no
  checkpointer. \<open>None\<close> if the call is for the graph itself.
\<close>

definition delegate :: "pregel \<Rightarrow> run_config \<Rightarrow> (pregel \<times> run_config) option res" where
  "delegate self config =
     (let saver = resolve_checkpointer (pregel_self self) config in
      if fst saver = No_saver then Inl (ValueError ''No checkpointer set'')
      else rbind (conf_get config) (\<lambda>d.
        let ns = conf_ns_or_root config in
        if ns \<noteq> [] \<and> \<not> dmem CONFIG_KEY_CHECKPOINTER d then
          (case get_subgraphs self (Some (recast_checkpoint_ns ns)) True of
             [] \<Rightarrow> Inl (ValueError ''Subgraph not found'')
           | (_, graph) # _ \<Rightarrow>
               Inr (Some (graph, patch_configurable (Some config) [(CONFIG_KEY_CHECKPOINTER, saver_conf saver)])))
        else Inr None))"

text \<open>A checkpointer that is only \<open>True\<close> has no methods.\<close>

definition saver_of :: "pregel_env \<Rightarrow> run_config \<Rightarrow> string res" where
  "saver_of env config =
     (case resolve_checkpointer env config of
        (Own_saver, name) \<Rightarrow> Inr name
      | (Inherit_saver, _) \<Rightarrow> Inl (UserError ''AttributeError'')
      | (No_saver, _) \<Rightarrow> Inl (ValueError ''No checkpointer set''))"

definition with_own_config :: "pregel_env \<Rightarrow> run_config \<Rightarrow> run_config" where
  "with_own_config env config =
     (case pg_config env of None \<Rightarrow> config | Some c \<Rightarrow> merge_configs [Some c, Some config])"

definition own_namespace :: "pregel_env \<Rightarrow> run_config \<Rightarrow> run_config res" where
  "own_namespace env config =
     (if pg_checkpointer env \<noteq> Inherit_saver then Inr config
      else rmap (\<lambda>ns. merge_configs [Some config, Some (empty_config\<lparr>rc_conf :=
                  Some [(CONFIG_KEY_CHECKPOINT_NS, CStr (recast_checkpoint_ns ns))]\<rparr>)])
             (conf_key config CONFIG_KEY_CHECKPOINT_NS))"

definition state_body ::
  "pregel_env \<Rightarrow> 's saver_class \<Rightarrow> 's \<Rightarrow> (string \<times> (run_config \<Rightarrow> snapshot res)) list \<Rightarrow> run_config \<Rightarrow> bool
    \<Rightarrow> snapshot res" where
  "state_body env cls s substates config subgraphs =
     rbind (own_namespace env (with_own_config env config)) (\<lambda>config'.
     rbind (str_thread_id config') (\<lambda>config'.
     rbind (saver_of env config) (\<lambda>saver.
     rbind (bs_get_tuple cls config' s) (\<lambda>saved.
       prepare_state_snapshot cls s env substates config' saved (if subgraphs then Some saver else None)
         (\<not> dmem CONFIG_KEY_CHECKPOINT_ID (conf_of config'))))))"

primrec state_here :: "pregel \<Rightarrow> 's saver_class \<Rightarrow> 's \<Rightarrow> run_config \<Rightarrow> bool \<Rightarrow> snapshot res" where
  "state_here (Pregel env subs) =
     (\<lambda>cls s. state_body env cls s (map (\<lambda>(n, f). (n, \<lambda>c. f cls s c True)) (map (map_prod id state_here) subs)))"

definition get_state :: "'s saver_class \<Rightarrow> pregel \<Rightarrow> run_config \<Rightarrow> bool \<Rightarrow> 's \<Rightarrow> snapshot res" where
  "get_state cls self config subgraphs s =
     rbind (delegate self config) (\<lambda>sub.
       case sub of
         None \<Rightarrow> state_here self cls s config subgraphs
       | Some (graph, config) \<Rightarrow> state_here graph cls s config subgraphs)"

definition history_here ::
  "'s saver_class \<Rightarrow> pregel \<Rightarrow> run_config \<Rightarrow> (string, pyval) dict option \<Rightarrow> run_config option \<Rightarrow> int option \<Rightarrow> 's
    \<Rightarrow> snapshot list res" where
  "history_here cls self config flt earlier limit s =
     (let env = pregel_self self in
      rbind (str_thread_id config) (\<lambda>c.
      let config' = merge_configs [pg_config env, Some config, Some (empty_config\<lparr>rc_conf :=
            Some [(CONFIG_KEY_CHECKPOINT_NS, CStr (conf_ns_or_root config)),
                  (CONFIG_KEY_THREAD_ID, dgetd (conf_of c) CONFIG_KEY_THREAD_ID CNone)]\<rparr>)] in
      rbind (saver_of env config) (\<lambda>saver.
      rbind (bs_list cls config' flt earlier limit s)
        (rmapM (\<lambda>t. prepare_state_snapshot cls s env (map (\<lambda>(n, g). (n, \<lambda>c. state_here g cls s c True)) (pregel_subs self))
                      (sv_config t) (Some t) None False)))))"

definition get_state_history ::
  "'s saver_class \<Rightarrow> pregel \<Rightarrow> run_config \<Rightarrow> (string, pyval) dict option \<Rightarrow> run_config option \<Rightarrow> int option \<Rightarrow> 's
    \<Rightarrow> snapshot list res" where
  "get_state_history cls self config flt earlier limit s =
     (let config = ensure_config [Some config] in
      rbind (delegate self config) (\<lambda>sub.
        case sub of
          None \<Rightarrow> history_here cls self config flt earlier limit s
        | Some (graph, config) \<Rightarrow> history_here cls graph (ensure_config [Some config]) flt earlier limit s))"

subsection \<open>The in-memory saver as a saver\<close>

text \<open>
  \<open>random\<close> is what \<open>get_next_version\<close> draws. The walk to the ancestors always ends for checkpoints that were put;
  the case where it would not is an error here.
\<close>

definition InMemorySaver :: "dumps \<Rightarrow> loads \<Rightarrow> string \<Rightarrow> memory_saver saver_class" where
  "InMemorySaver dumps loads random =
     \<lparr>bs_get_tuple = (\<lambda>config s. saver_get_tuple loads s config),
      bs_list = (\<lambda>config flt earlier limit s. saver_list loads s (Some config) flt earlier limit),
      bs_put = saver_put dumps,
      bs_put_writes = (\<lambda>config ws task_id. saver_put_writes dumps config ws task_id []),
      bs_history = (\<lambda>config ks s. case saver_delta_history loads s config ks of
                      Some r \<Rightarrow> r | None \<Rightarrow> Inl (RuntimeError ''cycle of parents'')),
      bs_next_version = (\<lambda>v. case saver_get_next_version random v of Some w \<Rightarrow> w | None \<Rightarrow> StrV [])\<rparr>"

subsection \<open>Finding a subgraph\<close>

end
