(* ===== verification/Pregel_Update.thy ===== *)
theory Pregel_Update
  imports Pregel_State
begin

section \<open>Updating the state of a graph\<close>

text \<open>
  \<open>bulk_update_state\<close> and \<open>update_state\<close> of \<open>pregel/main.py\<close>. The state that is threaded through is that of
  the saver and the number of ids drawn so far. What runnables other than \<open>ChannelWrite\<close> do as writers of a node is
  the parameter \<open>pg_run\<close>: it may depend on all that they can read, the channels, the managed values, and what the
  node writes, which its name and the values determine.
\<close>

record state_update =
  up_values :: pyval
  up_as_node :: "string option"
  up_task_id :: "string option"

subsection \<open>The checkpoint a superstep starts from\<close>

record superstep =
  ss_config :: run_config
  ss_saved :: "saved_tuple option"
  ss_checkpoint :: checkpoint
  ss_previous :: versions
  ss_step :: int
  ss_ckpt_config :: run_config
  ss_channels :: channels
  ss_managed :: managed

definition load_superstep ::
  "'s saver_class \<Rightarrow> pregel_env \<Rightarrow> run_config \<Rightarrow> 's \<Rightarrow> nat \<Rightarrow> (superstep \<times> nat) res" where
  "load_superstep cls env input_config s n =
     (let config = ensure_config [pg_config env, Some input_config] in
      rbind (bs_get_tuple cls config s) (\<lambda>found.
      let saved = map_option (\<lambda>t. t\<lparr>sv_checkpoint := pg_migrate env (sv_checkpoint t)\<rparr>) found;
          cp = (case saved of Some t \<Rightarrow> copy_checkpoint (sv_checkpoint t) | None \<Rightarrow> empty_checkpoint (pg_new_id env n) (pg_now env n));
          ckpt_config = (case saved of
              Some t \<Rightarrow> patch_configurable (Some config) (conf_of (sv_config t))
            | None \<Rightarrow> patch_configurable (Some config) [(CONFIG_KEY_CHECKPOINT_NS, conf_ns config)])
      in rmap (\<lambda>(channels, managed).
           (\<lparr>ss_config = config, ss_saved = saved, ss_checkpoint = cp,
             ss_previous = (case saved of Some t \<Rightarrow> channel_versions (sv_checkpoint t) | None \<Rightarrow> []),
             ss_step = (case saved of Some t \<Rightarrow> cm_step (sv_metadata t) | None \<Rightarrow> -1),
             ss_ckpt_config = ckpt_config, ss_channels = channels, ss_managed = managed\<rparr>,
            if saved = None then Suc n else n))
         (channels_from_checkpoint (pg_specs env) cp
            (case saved of Some t \<Rightarrow> own_history env cls s t | None \<Rightarrow> None))))"

definition ss_pending :: "superstep \<Rightarrow> pending_write list option" where
  "ss_pending ss = (case ss_saved ss of Some t \<Rightarrow> sv_pending t | None \<Rightarrow> None)"

definition ss_parents :: "superstep \<Rightarrow> (string, string) dict" where
  "ss_parents ss = (case ss_saved ss of Some t \<Rightarrow> cm_parents (sv_metadata t) | None \<Rightarrow> [])"

definition ss_metadata :: "superstep \<Rightarrow> ckpt_meta option" where
  "ss_metadata ss = map_option sv_metadata (ss_saved ss)"

definition new_meta :: "string \<Rightarrow> int \<Rightarrow> (string, string) dict \<Rightarrow> ckpt_meta" where
  "new_meta source step parents =
     \<lparr>cm_source = Some source, cm_step = step, cm_parents = parents, cm_run_id = None, cm_counters = []\<rparr>"

text \<open>The configuration a superstep returns, with the saver and the counter.\<close>

type_synonym 's updated = "run_config \<times> 's \<times> nat"

definition return_config :: "ckpt_meta option \<Rightarrow> run_config \<Rightarrow> 's \<Rightarrow> nat \<Rightarrow> 's updated res" where
  "return_config metadata config s n = rmap (\<lambda>c. (the c, s, n)) (patch_checkpoint_map (Some config) metadata)"

text \<open>Saving the channels as a new checkpoint.\<close>

definition save_channels ::
  "'s saver_class \<Rightarrow> pregel_env \<Rightarrow> superstep \<Rightarrow> run_config \<Rightarrow> checkpoint \<Rightarrow> channels \<Rightarrow> string \<Rightarrow> int \<Rightarrow> 's \<Rightarrow> nat
    \<Rightarrow> ('s \<times> run_config \<times> nat) res" where
  "save_channels cls env ss config cp channels source step s n =
     rbind (create_checkpoint (pg_new_id env n) (pg_now env n) cp (Some channels) None None None {}) (\<lambda>cp'.
     rmap (\<lambda>(s, next_config). (s, next_config, Suc n))
       (bs_put cls config cp' (new_meta source step (ss_parents ss))
          (get_new_channel_versions (ss_previous ss) (channel_versions cp')) s))"

subsection \<open>Clearing the tasks\<close>

definition clear_tasks :: "'s saver_class \<Rightarrow> pregel_env \<Rightarrow> string \<Rightarrow> superstep \<Rightarrow> (checkpoint \<times> channels) res" where
  "clear_tasks cls env saver ss =
     (case ss_saved ss of
        None \<Rightarrow> Inr (ss_checkpoint ss, ss_channels ss)
      | Some saved \<Rightarrow>
          rbind (state_tasks env (Some saver) (ss_managed ss) (sv_config saved) (ss_step ss + 1) (ss_checkpoint ss)
                   (ss_channels ss) (sv_pending saved)) (\<lambda>(tasks, pending).
          let ws = (case pending of None \<Rightarrow> [] | Some ws \<Rightarrow> ws); null_writes = writes_of NULL_TASK_ID ws in
          rbind (if null_writes = [] then Inr (ss_checkpoint ss, ss_channels ss)
                 else rmap (\<lambda>(cp, chs, u). (cp, chs))
                        (apply_writes (ss_checkpoint ss) (ss_channels ss) [input_task null_writes] (Some (bs_next_version cls))
                           (pg_trigger_to_nodes env))) (\<lambda>(cp, channels).
          rmap (\<lambda>(cp, chs, u). (cp, chs))
            (apply_writes cp channels (map (\<lambda>p. writes_of_task (snd p)) (give_writes ws tasks)) (Some (bs_next_version cls))
               (pg_trigger_to_nodes env)))))"

definition update_clear ::
  "'s saver_class \<Rightarrow> pregel_env \<Rightarrow> string \<Rightarrow> superstep \<Rightarrow> nat \<Rightarrow> 's \<Rightarrow> nat \<Rightarrow> 's updated res" where
  "update_clear cls env saver ss n_updates s n =
     (if n_updates > 1 then Inl (InvalidUpdateError ''Cannot apply multiple updates when clearing state'')
      else rbind (clear_tasks cls env saver ss) (\<lambda>(cp, channels).
           rbind (save_channels cls env ss (ss_ckpt_config ss) cp channels ''update'' (ss_step ss + 1) s n)
             (\<lambda>(s, c, n). return_config (ss_metadata ss) c s n)))"

subsection \<open>Updating as the input\<close>

definition update_input ::
  "'s saver_class \<Rightarrow> pregel_env \<Rightarrow> superstep \<Rightarrow> nat \<Rightarrow> pyval \<Rightarrow> 's \<Rightarrow> nat \<Rightarrow> 's updated res" where
  "update_input cls env ss n_updates vals s n =
     (if n_updates > 1 then Inl (InvalidUpdateError ''Cannot apply multiple updates when updating as input'')
      else rbind (map_input (pg_input_channels env) vals) (\<lambda>ws.
        if ws = [] then Inl (InvalidUpdateError ''Received no input writes'')
        else rbind (apply_writes (ss_checkpoint ss) (ss_channels ss) [input_task ws] (Some (bs_next_version cls))
                      (pg_trigger_to_nodes env)) (\<lambda>(cp, channels, u).
             let next_step = (if ss_saved ss \<noteq> None then ss_step ss + 1 else -1) in
             rbind (save_channels cls env ss (ss_ckpt_config ss) cp channels ''input'' next_step s n) (\<lambda>(s, c, n).
             rbind (bs_put_writes cls c ws (pg_uuid5 env (cp_id (ss_checkpoint ss)) INPUT) s) (\<lambda>s.
               return_config (ss_metadata ss) c s n)))))"

subsection \<open>Copying a checkpoint\<close>

text \<open>
  An item of the list is unpacked into values and a node; the name of the node is a string or \<open>None\<close>, anything
  else that can be a key is no node and refused at once.
\<close>

definition item_node :: "pyval \<Rightarrow> string option res" where
  "item_node a =
     (case a of
        VNone \<Rightarrow> Inr None
      | VStr s \<Rightarrow> Inr (Some s)
      | VList xs \<Rightarrow> Inl (TypeError ''unhashable type'')
      | VDict d \<Rightarrow> Inl (TypeError ''unhashable type'')
      | _ \<Rightarrow> Inl (InvalidUpdateError ''does not exist''))"

definition copy_item :: "pyval \<Rightarrow> (pyval \<times> string option) res" where
  "copy_item item =
     (case (case item of VList xs \<Rightarrow> Some xs | VTuple xs \<Rightarrow> Some xs | VStr s \<Rightarrow> Some (map (\<lambda>c. VStr [c]) s) | _ \<Rightarrow> None) of
        None \<Rightarrow> Inl (InvalidUpdateError ''Invalid update item'')
      | Some (v # a # _) \<Rightarrow> rmap (Pair v) (item_node a)
      | Some _ \<Rightarrow> Inl (ValueError ''not enough values to unpack''))"

text \<open>Grouped by node, each update takes the id of the task of its node that has its place.\<close>

definition group_item ::
  "(string, string list) dict \<Rightarrow> (string option, state_update list) dict \<Rightarrow> pyval \<times> string option
    \<Rightarrow> (string option, state_update list) dict" where
  "group_item task_ids groups item =
     (let (v, a) = item; group = dgetd groups a [];
          ids = (case a of Some n \<Rightarrow> dgetd task_ids n [] | None \<Rightarrow> [])
      in dset a (group @ [\<lparr>up_values = v, up_as_node = a,
                           up_task_id = (if length group < length ids then Some (ids ! length group) else None)\<rparr>]) groups)"

definition ids_by_node :: "(string, exec_task) dict \<Rightarrow> (string, string list) dict" where
  "ids_by_node tasks =
     foldl (\<lambda>d p. dset (et_name (snd p)) (dgetd d (et_name (snd p)) [] @ [et_id (snd p)]) d) [] tasks"

datatype 's outcome = Finished "'s updated" | Again run_config "state_update list" 's nat

fun list_items :: "pyval \<Rightarrow> pyval list" where
  "list_items (VList xs) = xs"
| "list_items v = []"

text \<open>Cloning a checkpoint and updating the clone in one go.\<close>

definition copy_updates ::
  "pregel_env \<Rightarrow> string \<Rightarrow> superstep \<Rightarrow> saved_tuple \<Rightarrow> checkpoint \<Rightarrow> run_config \<Rightarrow> pyval list \<Rightarrow> state_update list res" where
  "copy_updates env saver ss saved cp next_config items =
     rbind (state_tasks env (Some saver) (ss_managed ss) next_config (ss_step ss + 2) cp (ss_channels ss)
              (sv_pending saved)) (\<lambda>(tasks, pending).
       rmap (\<lambda>us. concat (map snd (foldl (group_item (ids_by_node tasks)) [] us))) (rmapM copy_item items))"

definition update_copy ::
  "'s saver_class \<Rightarrow> pregel_env \<Rightarrow> string \<Rightarrow> superstep \<Rightarrow> nat \<Rightarrow> pyval \<Rightarrow> 's \<Rightarrow> nat \<Rightarrow> 's outcome res" where
  "update_copy cls env saver ss n_updates vals s n =
     (if n_updates > 1 then Inl (InvalidUpdateError ''Cannot copy checkpoint with multiple updates'')
      else case ss_saved ss of
        None \<Rightarrow> Inl (InvalidUpdateError ''Cannot copy a non-existent checkpoint'')
      | Some saved \<Rightarrow>
          let config = (case sv_parent_config saved of Some c \<Rightarrow> c
                        | None \<Rightarrow> patch_configurable (Some (sv_config saved)) [(CONFIG_KEY_CHECKPOINT_ID, CNone)]) in
          rbind (create_checkpoint (pg_new_id env n) (pg_now env n) (ss_checkpoint ss) None None None None {}) (\<lambda>cp.
          rbind (bs_put cls config cp (new_meta ''fork'' (ss_step ss + 1) (ss_parents ss)) [] s) (\<lambda>(s, next_config).
          if list_items vals = [] then rmap Finished (return_config (ss_metadata ss) next_config s (Suc n))
          else rbind (copy_updates env saver ss saved cp next_config (list_items vals)) (\<lambda>us.
               rmap (\<lambda>c. Again (the c) us s (Suc n)) (patch_checkpoint_map (Some next_config) (ss_metadata ss))))))"

subsection \<open>Updating as a node\<close>

definition version_true :: "version \<Rightarrow> bool" where
  "version_true v = (case v of IntV i \<Rightarrow> i \<noteq> 0 | StrV s \<Rightarrow> s \<noteq> [])"

definition last_seen_by_node :: "pregel_env \<Rightarrow> checkpoint \<Rightarrow> (version \<times> string) list" where
  "last_seen_by_node env cp =
     sort (concat (map (\<lambda>(n, seen). if dmem n (pg_nodes env) then map (\<lambda>(c, v). (v, n)) seen else []) (versions_seen cp)))"

definition guess_node :: "pregel_env \<Rightarrow> checkpoint \<Rightarrow> string option" where
  "guess_node env cp =
     (case pg_nodes env of
        [(n, p)] \<Rightarrow> Some n
      | _ \<Rightarrow>
          if \<not> (\<exists>(n, seen) \<in> set (versions_seen cp). \<exists>(c, v) \<in> set seen. version_true v) then
            (case pg_input_channels env of OneKey k \<Rightarrow> if dmem k (pg_nodes env) then Some k else None | _ \<Rightarrow> None)
          else (case rev (last_seen_by_node env cp) of
                  [] \<Rightarrow> None
                | [(v, n)] \<Rightarrow> Some n
                | (v, n) # (w, m) # _ \<Rightarrow> if v \<noteq> w then Some n else None))"

definition known_node :: "pregel_env \<Rightarrow> string \<Rightarrow> string res" where
  "known_node env n = (if dmem n (pg_nodes env) then Inr n else Inl (InvalidUpdateError n))"

text \<open>The updates with the nodes they are made as; with several of them the nodes must be given.\<close>

definition valid_updates ::
  "pregel_env \<Rightarrow> checkpoint \<Rightarrow> state_update list \<Rightarrow> (string \<times> pyval \<times> string option) list res" where
  "valid_updates env cp updates =
     (case updates of
        [u] \<Rightarrow>
          (case (case up_as_node u of Some n \<Rightarrow> Some n | None \<Rightarrow> guess_node env cp) of
             None \<Rightarrow> Inl (InvalidUpdateError ''Ambiguous update, specify as_node'')
           | Some n \<Rightarrow> rmap (\<lambda>n. [(n, up_values u, up_task_id u)]) (known_node env n))
      | _ \<Rightarrow> rmapM (\<lambda>u. case up_as_node u of
               None \<Rightarrow> Inl (InvalidUpdateError ''as_node is required when applying multiple updates'')
             | Some n \<Rightarrow> rmap (\<lambda>n. (n, up_values u, up_task_id u)) (known_node env n)) updates)"

text \<open>The id of an update's task: the given one, else the next of those prepared for the node, else a fixed one.\<close>

definition take_task_id ::
  "pregel_env \<Rightarrow> checkpoint \<Rightarrow> string \<Rightarrow> string option \<Rightarrow> (string, string list) dict \<Rightarrow> string \<times> (string, string list) dict" where
  "take_task_id env cp node given ids =
     (case given of
        Some (c # cs) \<Rightarrow> (c # cs, ids)
      | _ \<Rightarrow> (case dgetd ids node [] of
               i # is \<Rightarrow> (i, dset node is ids)
             | [] \<Rightarrow> (pg_uuid5 env (cp_id cp) INTERRUPT, ids)))"

definition writer_conf :: "run_config \<Rightarrow> string \<Rightarrow> string \<Rightarrow> configurable" where
  "writer_conf config node task_id =
     dupd (conf_of config) [(CONFIG_KEY_SEND, CSend task_id), (CONFIG_KEY_TASK_ID, CStr task_id),
                            (CONFIG_KEY_READ, CRead node [] [INTERRUPT])]"

definition update_task :: "string \<Rightarrow> writes \<Rightarrow> task_writes" where
  "update_task node ws = \<lparr>tw_path = [], tw_name = node, tw_writes = ws, tw_triggers = [INTERRUPT]\<rparr>"

definition run_update ::
  "pregel_env \<Rightarrow> superstep \<Rightarrow> (string \<times> task_writes) list \<times> (string, string list) dict \<Rightarrow> string \<times> pyval \<times> string option
    \<Rightarrow> ((string \<times> task_writes) list \<times> (string, string list) dict) res" where
  "run_update env ss acc update =
     (let (runs, ids) = acc; (node, vals, given) = update in
      case map_of (pg_nodes env) node of
        None \<Rightarrow> Inl (KeyError node)
      | Some p \<Rightarrow>
          let writers = flat_writers (pn_writers p) in
          if writers = [] then Inl (InvalidUpdateError ''has no writers'')
          else let (task_id, ids) = take_task_id env (ss_checkpoint ss) node given ids in
            rmap (\<lambda>(out, ws). (runs @ [(task_id, update_task node ws)], ids))
              (run_seq (pg_run env (ss_channels ss) (ss_managed ss) node vals)
                 (writer_conf (ss_config ss) node task_id) writers vals))"

definition run_updates ::
  "pregel_env \<Rightarrow> string \<Rightarrow> superstep \<Rightarrow> state_update list \<Rightarrow> (string \<times> task_writes) list res" where
  "run_updates env saver ss updates =
     rbind (case ss_saved ss of
              None \<Rightarrow> Inr []
            | Some saved \<Rightarrow>
                (case sv_pending saved of
                   None \<Rightarrow> Inr []
                 | Some ws \<Rightarrow> rmap (\<lambda>(tasks, pending). ids_by_node tasks)
                     (state_tasks env (Some saver) (ss_managed ss) (sv_config saved) (ss_step ss + 1) (ss_checkpoint ss)
                        (ss_channels ss) (Some ws)))) (\<lambda>ids.
     rbind (valid_updates env (ss_checkpoint ss) updates) (\<lambda>us.
       rmap fst (rfold (run_update env ss) ([], ids) us)))"

definition has_delta_writes :: "channels \<Rightarrow> task_writes list \<Rightarrow> bool" where
  "has_delta_writes channels ts =
     (\<exists>t \<in> set ts. \<exists>(c, v) \<in> set (tw_writes t). case map_of channels c of Some ch \<Rightarrow> is_delta ch | None \<Rightarrow> False)"

text \<open>Without a checkpoint, the writes to delta channels are saved with an empty one.\<close>

definition put_stub ::
  "'s saver_class \<Rightarrow> pregel_env \<Rightarrow> run_config \<Rightarrow> 's \<Rightarrow> nat \<Rightarrow> (run_config \<times> 's \<times> nat) res" where
  "put_stub cls env config s n =
     rmap (\<lambda>(s, c). (c, s, Suc n))
       (bs_put cls (patch_configurable (Some config) [(CONFIG_KEY_CHECKPOINT_ID, CNone)])
          (empty_checkpoint (pg_new_id env n) (pg_now env n)) (new_meta ''update'' (-1) []) [] s)"

definition put_runs ::
  "'s saver_class \<Rightarrow> run_config \<Rightarrow> (string \<Rightarrow> bool) \<Rightarrow> (string \<times> task_writes) list \<Rightarrow> 's \<Rightarrow> 's res" where
  "put_runs cls config wanted runs s =
     rfold (\<lambda>s (task_id, t).
       let ws = filter (\<lambda>w. wanted (fst w)) (tw_writes t)
       in if ws = [] then Inr s else bs_put_writes cls config ws task_id s) s runs"

definition update_nodes ::
  "'s saver_class \<Rightarrow> pregel_env \<Rightarrow> string \<Rightarrow> superstep \<Rightarrow> state_update list \<Rightarrow> 's \<Rightarrow> nat \<Rightarrow> 's updated res" where
  "update_nodes cls env saver ss updates s n =
     rbind (run_updates env saver ss updates) (\<lambda>runs.
     let delta = has_delta_writes (ss_channels ss) (map snd runs) in
     rbind (if ss_saved ss = None \<and> delta then put_stub cls env (ss_ckpt_config ss) s n
            else Inr (ss_ckpt_config ss, s, n)) (\<lambda>(config, s, n).
     rbind (if ss_saved ss \<noteq> None \<or> delta then put_runs cls config (\<lambda>c. c \<noteq> PUSH) runs s else Inr s) (\<lambda>s.
     rbind (apply_writes (ss_checkpoint ss) (ss_channels ss) (map snd runs) (Some (bs_next_version cls))
              (pg_trigger_to_nodes env)) (\<lambda>(cp, channels, u).
     rbind (save_channels cls env ss config cp channels ''update'' (ss_step ss + 1) s n) (\<lambda>(s, next_config, n).
     rbind (put_runs cls next_config (\<lambda>c. c = PUSH) runs s) (\<lambda>s.
       return_config (ss_metadata ss) next_config s n))))))"

subsection \<open>Supersteps\<close>

definition COPY :: string where "COPY = ''__copy__''"

definition perform_once ::
  "'s saver_class \<Rightarrow> pregel_env \<Rightarrow> string \<Rightarrow> run_config \<Rightarrow> state_update list \<Rightarrow> 's \<Rightarrow> nat \<Rightarrow> 's outcome res" where
  "perform_once cls env saver input_config updates s n =
     rbind (load_superstep cls env input_config s n) (\<lambda>(ss, n).
     case updates of
       [] \<Rightarrow> Inl IndexError
     | u # us \<Rightarrow>
         if up_values u = VNone \<and> up_as_node u = Some END_NODE then
           rmap Finished (update_clear cls env saver ss (length updates) s n)
         else if up_as_node u = Some INPUT then
           rmap Finished (update_input cls env ss (length updates) (up_values u) s n)
         else if up_as_node u = Some COPY then
           update_copy cls env saver ss (length updates) (up_values u) s n
         else rmap Finished (update_nodes cls env saver ss updates s n))"

text \<open>A copy with updates goes on with updates that are parts of those it was given.\<close>

definition updates_size :: "state_update list \<Rightarrow> nat" where
  "updates_size us = sum_list (map (\<lambda>u. size (up_values u)) us)"

lemma copy_item_size: "copy_item item = Inr (v, a) \<Longrightarrow> size v \<le> size item"
  by (auto simp: copy_item_def rmap_Inr_iff split: pyval.splits list.splits option.splits)

lemma updates_size_dset:
  "updates_size (concat (map snd (dset k (dgetd d k [] @ [u]) d)))
    = updates_size (concat (map snd d)) + size (up_values u)"
  by (induction d) (auto simp: updates_size_def dgetd_def)

lemma group_items_size:
  "updates_size (concat (map snd (foldl (group_item ids) d us)))
    = updates_size (concat (map snd d)) + sum_list (map (\<lambda>u. size (fst u)) us)"
  by (induction us arbitrary: d) (auto simp: group_item_def Let_def case_prod_unfold updates_size_dset)

lemma copy_items_size:
  "rmapM copy_item items = Inr us \<Longrightarrow> sum_list (map (\<lambda>u. size (fst u)) us) \<le> size_list size items"
proof (induction items arbitrary: us)
  case (Cons item items)
  then obtain u us' where u: "copy_item item = Inr u" and us: "rmapM copy_item items = Inr us'" "us = u # us'"
    by (auto simp: rbind_Inr_iff rmap_Inr_iff)
  have "size (fst u) \<le> size item" using copy_item_size u by (cases u) auto
  with Cons.IH [OF us(1)] us(2) show ?case by simp
qed simp

lemma list_items_size: "list_items v \<noteq> [] \<Longrightarrow> size_list size (list_items v) < size v"
  by (cases v) auto

lemma update_copy_smaller:
  assumes "update_copy cls env saver ss k vals s n = Inr (Again c us s' n')"
  shows "updates_size us < size vals \<and> k \<le> 1"
proof -
  from assms obtain saved cp next_config where "list_items vals \<noteq> []" "k \<le> 1"
    and "copy_updates env saver ss saved cp next_config (list_items vals) = Inr us"
    by (auto simp: update_copy_def rbind_Inr_iff rmap_Inr_iff Let_def split: if_splits option.splits)
  moreover from this(3) have "updates_size us \<le> size_list size (list_items vals)"
    by (auto simp: copy_updates_def rbind_Inr_iff rmap_Inr_iff group_items_size updates_size_def [of "[]"]
        dest: copy_items_size)
  ultimately show ?thesis using list_items_size [of vals] by simp
qed

lemma perform_once_smaller:
  assumes "perform_once cls env saver config updates s n = Inr (Again c us s' n')"
  shows "updates_size us < updates_size updates"
proof (cases updates)
  case Nil
  with assms show ?thesis by (auto simp: perform_once_def rbind_Inr_iff)
next
  case (Cons u us1)
  from assms obtain ss n1
    where "update_copy cls env saver ss (length updates) (up_values u) s n1 = Inr (Again c us s' n')"
    unfolding perform_once_def Cons
    by (auto simp: rbind_Inr_iff rmap_Inr_iff split: if_splits)
  from update_copy_smaller [OF this] Cons show ?thesis by (simp add: updates_size_def)
qed

function perform_superstep ::
  "'s saver_class \<Rightarrow> pregel_env \<Rightarrow> string \<Rightarrow> run_config \<Rightarrow> state_update list \<Rightarrow> 's \<Rightarrow> nat \<Rightarrow> 's updated res" where
  "perform_superstep cls env saver config updates s n =
     (case perform_once cls env saver config updates s n of
        Inl e \<Rightarrow> Inl e
      | Inr (Finished r) \<Rightarrow> Inr r
      | Inr (Again config updates s n) \<Rightarrow> perform_superstep cls env saver config updates s n)"
  by pat_completeness auto
termination
  by (relation "measure (\<lambda>(cls, env, saver, config, updates, s, n). updates_size updates)")
    (auto dest: perform_once_smaller)

declare perform_superstep.simps [simp del]

definition supersteps_here ::
  "'s saver_class \<Rightarrow> pregel_env \<Rightarrow> run_config \<Rightarrow> state_update list list \<Rightarrow> 's \<Rightarrow> nat \<Rightarrow> 's updated res" where
  "supersteps_here cls env config supersteps s n =
     rbind (str_thread_id config) (\<lambda>current.
     rbind (saver_of env config) (\<lambda>saver.
       rfold (\<lambda>(config, s, n) updates. perform_superstep cls env saver config updates s n) (current, s, n) supersteps))"

definition bulk_update_state ::
  "'s saver_class \<Rightarrow> pregel \<Rightarrow> run_config \<Rightarrow> state_update list list \<Rightarrow> 's \<Rightarrow> nat \<Rightarrow> 's updated res" where
  "bulk_update_state cls self config supersteps s n =
     (if fst (resolve_checkpointer (pregel_self self) config) = No_saver then Inl (ValueError ''No checkpointer set'')
      else if supersteps = [] then Inl (ValueError ''No supersteps provided'')
      else if [] \<in> set supersteps then Inl (ValueError ''No updates provided'')
      else rbind (delegate self config) (\<lambda>sub.
        case sub of
          None \<Rightarrow> supersteps_here cls (pregel_self self) config supersteps s n
        | Some (graph, config) \<Rightarrow> supersteps_here cls (pregel_self graph) config supersteps s n))"

definition update_state ::
  "'s saver_class \<Rightarrow> pregel \<Rightarrow> run_config \<Rightarrow> pyval \<Rightarrow> string option \<Rightarrow> string option \<Rightarrow> 's \<Rightarrow> nat \<Rightarrow> 's updated res" where
  "update_state cls self config vals as_node task_id s n =
     bulk_update_state cls self config [[\<lparr>up_values = vals, up_as_node = as_node, up_task_id = task_id\<rparr>]] s n"

end
