(* ===== verification/Update_Props.thy ===== *)
theory Update_Props
  imports Pregel_Update Graph_Wiring
begin

section \<open>What updating and reading the state of a graph do\<close>

text \<open>
  An update made as a node of a compiled graph goes on as if the node had run; subgraphs are found by their
  namespace unless the name of another one is in the way; the node of an update without one; what happens to delta
  channels.
\<close>

subsection \<open>Updating as a node\<close>

lemma save_channels_saves:
  assumes "save_channels cls env ss config cp channels source step s n = Inr (s', c, n')"
  shows "\<exists>cp' meta. create_checkpoint (pg_new_id env n) (pg_now env n) cp (Some channels) None None None {} = Inr cp'
    \<and> meta = new_meta source step (ss_parents ss)
    \<and> bs_put cls config cp' meta (get_new_channel_versions (ss_previous ss) (channel_versions cp')) s = Inr (s', c)"
  using assms by (auto simp: save_channels_def rbind_Inr_iff rmap_Inr_iff)

lemma plain_checkpoint_versions:
  assumes "create_checkpoint new_id ts cp (Some chs) None None None {} = Inr cp'"
  shows "channel_versions cp' = channel_versions cp \<and> versions_seen cp' = versions_seen cp"
proof -
  have "snd vv' = snd vv" if "rfold (checkpoint_channel None None {}) vv chs = Inr vv'" for vv vv'
    using that
    by (induction chs arbitrary: vv) (auto simp: checkpoint_channel_def rbind_Inr_iff split: option.splits)
  with assms show ?thesis by (auto simp: create_checkpoint_def rmap_Inr_iff)
qed

lemma perform_superstep_once:
  assumes "perform_once cls env saver config updates s n = Inr (Finished r)"
  shows "perform_superstep cls env saver config updates s n = Inr r"
  using assms by (simp add: perform_superstep.simps)

definition node_update :: "pyval \<Rightarrow> string \<Rightarrow> string option \<Rightarrow> state_update" where
  "node_update v m tid = \<lparr>up_values = v, up_as_node = Some m, up_task_id = tid\<rparr>"

text \<open>An update as a node: what its writers send is applied to the channels, which are then saved.\<close>

lemma node_update_saves:
  assumes step: "perform_superstep cls env saver config [node_update v m tid] s k = Inr (c, s', k')"
    and load: "load_superstep cls env config s k = Inr (ss, k1)"
    and m: "m \<noteq> END_NODE" "m \<noteq> INPUT" "m \<noteq> COPY"
  shows "\<exists>p task_id out ws cp channels upd cp' s0 s1 cfg cfg' meta vers.
      map_of (pg_nodes env) m = Some p
    \<and> run_seq (pg_run env (ss_channels ss) (ss_managed ss) m v) (writer_conf (ss_config ss) m task_id)
        (flat_writers (pn_writers p)) v = Inr (out, ws)
    \<and> apply_writes (ss_checkpoint ss) (ss_channels ss) [update_task m ws] (Some (bs_next_version cls))
        (pg_trigger_to_nodes env) = Inr (cp, channels, upd)
    \<and> create_checkpoint (pg_new_id env (k' - 1)) (pg_now env (k' - 1)) cp (Some channels) None None None {} = Inr cp'
    \<and> cm_step meta = ss_step ss + 1
    \<and> bs_put cls cfg cp' meta vers s0 = Inr (s1, cfg')
    \<and> put_runs cls cfg' (\<lambda>c. c = PUSH) [(task_id, update_task m ws)] s1 = Inr s'
    \<and> patch_checkpoint_map (Some cfg') (ss_metadata ss) = Inr (Some c)"
proof -
  let ?u = "node_update v m tid"
  have once: "perform_once cls env saver config [?u] s k = rmap Finished (update_nodes cls env saver ss [?u] s k1)"
    using m by (simp add: perform_once_def load node_update_def)
  then have "update_nodes cls env saver ss [?u] s k1 = Inr (c, s', k')"
    using step by (cases "update_nodes cls env saver ss [?u] s k1") (auto simp: perform_superstep.simps)
  then obtain runs cfg s1 k2 s2 cp channels upd s3 cfg' where
      runs: "run_updates env saver ss [?u] = Inr runs"
    and app: "apply_writes (ss_checkpoint ss) (ss_channels ss) (map snd runs) (Some (bs_next_version cls))
        (pg_trigger_to_nodes env) = Inr (cp, channels, upd)"
    and save: "save_channels cls env ss cfg cp channels ''update'' (ss_step ss + 1) s2 k2 = Inr (s3, cfg', k')"
    and push: "put_runs cls cfg' (\<lambda>c. c = PUSH) runs s3 = Inr s'"
    and ret: "return_config (ss_metadata ss) cfg' s' k' = Inr (c, s', k')"
    unfolding update_nodes_def
    by (auto simp: rbind_Inr_iff return_config_def rmap_Inr_iff Let_def)
  from runs obtain p task_id out ws where
      p: "map_of (pg_nodes env) m = Some p"
    and ws: "run_seq (pg_run env (ss_channels ss) (ss_managed ss) m v) (writer_conf (ss_config ss) m task_id)
        (flat_writers (pn_writers p)) v = Inr (out, ws)" and r: "runs = [(task_id, update_task m ws)]"
    unfolding run_updates_def valid_updates_def node_update_def
    by (auto simp: rbind_Inr_iff rmap_Inr_iff run_update_def known_node_def Let_def case_prod_unfold
        split: if_splits option.splits)
  have k2: "k2 = k' - 1" using save by (auto simp: save_channels_def rbind_Inr_iff rmap_Inr_iff)
  from save_channels_saves [OF save] obtain cp' where
    "create_checkpoint (pg_new_id env k2) (pg_now env k2) cp (Some channels) None None None {} = Inr cp'"
    "bs_put cls cfg cp' (new_meta ''update'' (ss_step ss + 1) (ss_parents ss))
       (get_new_channel_versions (ss_previous ss) (channel_versions cp')) s2 = Inr (s3, cfg')" by blast
  moreover have "patch_checkpoint_map (Some cfg') (ss_metadata ss) = Inr (Some c)"
    using ret by (auto simp: return_config_def rmap_Inr_iff patch_checkpoint_map_def rbind_Inr_iff Let_def
        split: option.splits if_splits)
  moreover have "cm_step (new_meta ''update'' (ss_step ss + 1) (ss_parents ss)) = ss_step ss + 1"
    by (simp add: new_meta_def)
  ultimately show ?thesis
    using p ws app [unfolded r list.map snd_conv] push [unfolded r] unfolding k2 by blast
qed


definition example_saver :: "unit saver_class" where
  "example_saver =
     \<lparr>bs_get_tuple = (\<lambda>config s. Inr None), bs_list = (\<lambda>config flt before limit s. Inr []),
      bs_put = (\<lambda>config cp meta vers s. Inr (s, config)),
      bs_put_writes = (\<lambda>config ws task_id s. Inr s), bs_history = (\<lambda>config ks s. Inr []), bs_next_version = increment\<rparr>"

definition example_pregel :: "compiled \<Rightarrow> pregel_env" where
  "example_pregel cg =
     \<lparr>pg_hashes = \<lparr>xxh3_128_hexdigest = id, sha1_hexdigest = id\<rparr>, pg_uuid5 = (\<lambda>a b. a @ b), pg_identifier = (\<lambda>p. None),
      pg_new_id = (\<lambda>n. ''00''), pg_now = (\<lambda>n. ''0''), pg_store = None, pg_nodes = cg_nodes cg,
      pg_specs = cg_channels cg, pg_trigger_to_nodes = cg_trigger_to_nodes cg, pg_input_channels = OneKey START,
      pg_stream_channels = None, pg_config = None, pg_checkpointer = Own_saver, pg_saver_name = ''saver'', pg_migrate = id,
      pg_run = (\<lambda>channels managed node v. no_run)\<rparr>"

definition example_thread :: run_config where
  "example_thread = empty_config\<lparr>rc_conf := Some [(CONFIG_KEY_THREAD_ID, CStr ''1'')]\<rparr>"

definition example_values :: pyval where "example_values = VDict [(''x'', VInt 1)]"

lemma checkpoint_channels_total: "\<exists>vv'. rfold (checkpoint_channel upd f {}) vv chs = Inr vv'"
  by (induction chs arbitrary: vv) (auto simp: checkpoint_channel_def split: option.splits)

lemma example_update_facts:
  "\<exists>g' cg p. compile_graph example_env (Some []) (Some []) example_graph = Inr (g', cg)
    \<and> map_option nd_defer (map_of (sg_nodes g') ''b'') = Some False
    \<and> map_option nd_defer (map_of (sg_nodes g') ''c'') = Some False
    \<and> map_of (cg_nodes cg) ''b'' \<noteq> None \<and> map_of (cg_nodes cg) ''c'' \<noteq> None
    \<and> map_of (cg_nodes cg) ''a'' = Some p \<and> flat_writers (pn_writers p) \<noteq> []
    \<and> (\<forall>conf tid. map_of conf CONFIG_KEY_SEND = Some (CSend tid) \<longrightarrow>
         run_seq no_run conf (flat_writers (pn_writers p)) example_values
         = Inr (example_values, [(''x'', VInt 1), (branch_to ''b'', VNone)]))"
  by (simp add: example_graph_def builder_simps compile_simps example_values_def
      flat_writers_def run_seq_def run_writer_def node_writer_def ChannelWrite_write_def do_write_def
      keep_keys_def control_branch_def PASSTHROUGH_def SKIP_WRITE_def branch_channel_def LastValue_defs EphemeralValue_defs Topic_defs)
    (auto simp: control_branch_def keep_keys_def SKIP_WRITE_def branch_to_def const_defs)

lemma example_apply_facts:
  "\<exists>g' cg. compile_graph example_env (Some []) (Some []) example_graph = Inr (g', cg)
    \<and> runs_on (channel_specs (cg_channels cg)) cg
    \<and> channels_from_checkpoint (cg_channels cg) (empty_checkpoint i t) None = Inr (channel_specs (cg_channels cg), managed_specs (cg_channels cg))
    \<and> (\<exists>cp' channels' upd. apply_writes (empty_checkpoint i t) (channel_specs (cg_channels cg))
        [update_task ''a'' [(''x'', VInt 1), (branch_to ''b'', VNone)]] (Some increment) (cg_trigger_to_nodes cg)
        = Inr (cp', channels', upd))
    \<and> \<not> has_delta_writes (channel_specs (cg_channels cg)) [update_task ''a'' [(''x'', VInt 1), (branch_to ''b'', VNone)]]"
  by (simp add: example_graph_def builder_simps compile_simps runs_on_def dict_ok_def channels_from_checkpoint_def restore_channel_def
      empty_checkpoint_def update_task_def needs_replay_def has_delta_writes_def
      apply_simps branch_channel_def LastValue_defs EphemeralValue_defs Topic_defs)

lemma example_load:
  assumes "channels_from_checkpoint (cg_channels cg) (empty_checkpoint ''00'' ''0'') None = Inr (chs, managed)"
  shows "\<exists>ss. load_superstep example_saver (example_pregel cg) example_thread () 0 = Inr (ss, 1)
    \<and> ss_channels ss = chs \<and> ss_checkpoint ss = empty_checkpoint ''00'' ''0'' \<and> ss_saved ss = None"
  using assms by (simp add: load_superstep_def example_saver_def example_pregel_def Let_def)

lemma example_put_runs [simp]: "put_runs example_saver cfg w runs s = Inr s"
  unfolding put_runs_def by (induction runs) (auto simp: example_saver_def Let_def)

lemma example_saver_simps [simp]:
  "bs_put example_saver config cp meta vers s = Inr (s, config)" "bs_next_version example_saver = increment"
  by (simp_all add: example_saver_def)

lemma example_superstep:
  assumes load: "load_superstep example_saver (example_pregel cg) example_thread () 0 = Inr (ss, 1)" "ss_saved ss = None"
    and p: "map_of (cg_nodes cg) ''a'' = Some p" "flat_writers (pn_writers p) \<noteq> []"
    and run: "\<forall>conf tid. map_of conf CONFIG_KEY_SEND = Some (CSend tid) \<longrightarrow>
         run_seq no_run conf (flat_writers (pn_writers p)) example_values = Inr (example_values, ws)"
    and app: "apply_writes (ss_checkpoint ss) (ss_channels ss) [update_task ''a'' ws] (Some increment) (cg_trigger_to_nodes cg)
        = Inr (cp', channels', upd)"
    and delta: "\<not> has_delta_writes (ss_channels ss) [update_task ''a'' ws]"
  shows "\<exists>c k'. perform_superstep example_saver (example_pregel cg) ''saver'' example_thread
    [node_update example_values ''a'' None] () 0 = Inr (c, (), k')"
proof -
  let ?env = "example_pregel cg"
  obtain tid ids where tid: "take_task_id ?env (ss_checkpoint ss) ''a'' None [] = (tid, ids)" by fastforce
  have send: "map_of (writer_conf (ss_config ss) ''a'' tid) CONFIG_KEY_SEND = Some (CSend tid)"
    by (simp add: writer_conf_def map_of_dupd const_defs)
  have runs: "run_updates ?env ''saver'' ss [node_update example_values ''a'' None] = Inr [(tid, update_task ''a'' ws)]"
    using load(2) p tid run [rule_format, OF send]
    by (simp add: run_updates_def valid_updates_def node_update_def known_node_def dmem_def run_update_def example_pregel_def)
  obtain vals where "rfold (checkpoint_channel None None {}) ([], channel_versions cp') channels' = Inr vals"
    using checkpoint_channels_total by blast
  then have "\<exists>c s' k'. update_nodes example_saver ?env ''saver'' ss [node_update example_values ''a'' None] () 1 = Inr (c, (), k')"
    using runs app delta load(2)
    by (simp add: update_nodes_def save_channels_def create_checkpoint_def example_pregel_def
        return_config_def patch_checkpoint_map_def ss_metadata_def)
  moreover have "perform_once example_saver ?env ''saver'' example_thread [node_update example_values ''a'' None] () 0
      = rmap Finished (update_nodes example_saver ?env ''saver'' ss [node_update example_values ''a'' None] () 1)"
    by (simp add: perform_once_def load node_update_def const_defs COPY_def)
  ultimately show ?thesis by (auto simp: perform_superstep.simps)
qed


end
