(* ===== verification/Fork_Props.thy ===== *)
theory Fork_Props
  imports Pregel_Update "HOL-Library.Multiset"
begin

section \<open>Forks, and updates without a node\<close>

text \<open>
  Two updates of one checkpoint on the in-memory saver, and as which node an update is made that names none.
\<close>

subsection \<open>Forks and delta channels\<close>

text \<open>A graph of one node that appends to a list, kept in a delta channel, on the in-memory saver.\<close>

declare parent_chain.simps [code]
definition fork_node :: pregel_node where
  "fork_node = \<lparr>pn_channels = ManyKeys [''x''], pn_triggers = [''x''], pn_mapper = None,
     pn_writers = [R_ChannelWrite [ChannelWriteEntry ''x'' PASSTHROUGH False None]], pn_bound = None, pn_retry_policy = None,
     pn_cache_policy = None, pn_timeout = None, pn_tags = None, pn_metadata = None, pn_is_error_handler = False,
     pn_error_handler_node = None, pn_subgraphs = []\<rparr>"

definition append_lists :: batch_reducer where
  "append_lists = \<lparr>dr_name = ''append'', dr_id = 0,
     dr_call = (\<lambda>base vs. Inr (VList (list_items base @ concat (map list_items vs))))\<rparr>"

definition fork_pregel :: pregel_env where
  "fork_pregel =
     \<lparr>pg_hashes = \<lparr>xxh3_128_hexdigest = id, sha1_hexdigest = id\<rparr>, pg_uuid5 = (\<lambda>a b. a @ b), pg_identifier = (\<lambda>p. None),
      pg_new_id = (\<lambda>n. ''0'' @ digits n), pg_now = (\<lambda>n. digits n), pg_store = None, pg_nodes = [(''n'', fork_node)],
      pg_specs = [(''x'', SpecChannel (Ch_DeltaChannel \<lparr>ch_typ = TyList, ch_key = ''x'', dc_reducer = append_lists,
                    dc_snapshot_frequency = 100, dc_value = None\<rparr>))], pg_trigger_to_nodes = [(''x'', [''n''])],
      pg_input_channels = OneKey ''x'', pg_stream_channels = None, pg_config = None, pg_checkpointer = Own_saver,
      pg_saver_name = ''saver'', pg_migrate = id, pg_run = (\<lambda>channels managed node v r x. Inr (x, []))\<rparr>"

definition fork_codec :: codec where
  "fork_codec =
     \<lparr>msgpack_enc = (\<lambda>v. Some (concat (map value_text (list_items v)))), msgpack_dec = (\<lambda>s. VList (map (\<lambda>c. VStr [c]) s)),
      json_dec = VStr, pickle_fallback = False, pickle_enc = (\<lambda>v. []), pickle_dec = (\<lambda>s. VNone)\<rparr>"

definition fork_saver :: "memory_saver saver_class" where
  "fork_saver = InMemorySaver (JsonPlus_dumps_typed fork_codec) (JsonPlus_loads_typed fork_codec) ''0''"

definition fork_update ::
  "run_config \<Rightarrow> string \<Rightarrow> memory_saver \<Rightarrow> nat \<Rightarrow> memory_saver updated res" where
  "fork_update config v s n =
     update_state fork_saver (Pregel fork_pregel []) config (VList [VStr v]) (Some ''n'') None s n"

definition fork_thread :: run_config where
  "fork_thread = empty_config\<lparr>rc_conf := Some [(CONFIG_KEY_THREAD_ID, CStr ''1'')]\<rparr>"
definition fork_values :: "run_config \<Rightarrow> memory_saver \<Rightarrow> pyval res" where
  "fork_values config s = rmap sn_values (get_state fork_saver (Pregel fork_pregel []) config False s)"



subsection \<open>Updates without a node\<close>

lemma sorted_snoc_newest:
  fixes xs :: "(version \<times> string) list"
  assumes "sorted (xs @ [(v, n)])"
  shows "(xs = [] \<or> fst (last xs) \<noteq> v) \<longleftrightarrow> (\<forall>x \<in> set xs. fst x < v)"
proof (cases xs rule: rev_cases)
  case (snoc ys y)
  have y: "fst y \<le> v" and ys: "\<forall>x \<in> set ys. fst x \<le> fst y"
    using assms by (auto simp: snoc sorted_append less_eq_prod_def less_imp_le)
  then show ?thesis by (auto simp: snoc)
qed simp

lemma mset_newest:
  fixes xs :: "(version \<times> string) list"
  assumes "sorted (xs @ [(w, m)])" and "mset (xs @ [(w, m)]) = add_mset (v, n) rest" and "\<forall>x \<in># rest. fst x < v"
  shows "(w, m) = (v, n) \<and> mset xs = rest"
proof -
  have "(v, n) \<in> set (xs @ [(w, m)])" using assms(2) by (metis set_mset_mset union_single_eq_member)
  then have "v \<le> w" using assms(1) by (auto simp: sorted_append less_eq_prod_def less_imp_le)
  moreover have "(w, m) \<in># add_mset (v, n) rest" using assms(2) by (metis in_multiset_in_set last_in_set last_snoc snoc_eq_iff_butlast)
  ultimately have "(w, m) = (v, n)" using assms(3) by fastforce
  with assms(2) show ?thesis by simp
qed


definition two_nodes :: pregel_env where
  "two_nodes = fork_pregel\<lparr>pg_nodes := [(''a'', fork_node), (''b'', fork_node)]\<rparr>"


end
