(* ===== verification/Subgraph_Props.thy ===== *)
theory Subgraph_Props
  imports Pregel_State
begin

section \<open>Finding subgraphs\<close>

text \<open>
  When \<open>get_subgraphs\<close> finds the subgraph of a namespace, when it does not, and what the state of a subgraph
  without a saver of its own leaves out.
\<close>

fun subgraph_at :: "pregel \<Rightarrow> string list \<Rightarrow> pregel option" where
  "subgraph_at g [] = Some g"
| "subgraph_at g (n # ns) = (case map_of (pregel_subs g) n of None \<Rightarrow> None | Some h \<Rightarrow> subgraph_at h ns)"

text \<open>Names of nodes that can be told apart: no separator in them, none a prefix of another.\<close>

definition clear_names :: "(string \<times> pregel) list \<Rightarrow> bool" where
  "clear_names gs \<longleftrightarrow>
     (\<forall>n \<in> fst ` set gs. n \<noteq> [] \<and> hd NS_SEP \<notin> set n \<and> (\<forall>m \<in> fst ` set gs. starts_with m n \<longrightarrow> m = n))"

fun clear_path :: "pregel \<Rightarrow> string list \<Rightarrow> bool" where
  "clear_path g [] = True"
| "clear_path g (n # ns) =
     (clear_names (pregel_subs g) \<and> (case map_of (pregel_subs g) n of None \<Rightarrow> True | Some h \<Rightarrow> clear_path h ns))"

lemma starts_with_self [simp]: "starts_with n n" "starts_with n (n @ r)"
  by (simp_all add: starts_with_def)

lemma starts_with_sep:
  assumes "starts_with m (n @ s # r)" and "s \<notin> set m"
  shows "starts_with m n"
proof (cases "length m \<le> length n")
  case True
  with assms(1) show ?thesis by (simp add: starts_with_def)
next
  case False
  then obtain k where "length m - length n = Suc k" by (cases "length m - length n") auto
  with assms False have "s \<in> set m" by (auto simp: starts_with_def)
  with assms(2) show ?thesis by simp
qed

lemma loop_last:
  assumes "map_of gs n = Some h" and "clear_names gs'" and "set gs \<subseteq> set gs'"
  shows "subgraph_loop True (Some n) gs = [(n, h)]"
  using assms
proof (induction gs)
  case (Cons x gs)
  obtain m g where x: "x = (m, g)" by (cases x)
  have "n \<in> fst ` set gs'" using Cons.prems by (metis map_of_SomeD subsetD image_eqI fst_conv)
  with Cons show ?case by (cases "m = n") (force simp: x clear_names_def)+
qed simp

lemma loop_inner:
  assumes "map_of gs n = Some h" and "clear_names gs'" and "set gs \<subseteq> set gs'" and "r \<noteq> []"
  shows "\<exists>more. subgraph_loop True (Some (n @ NS_SEP @ r)) gs
    = map (\<lambda>(x, s). (n @ NS_SEP @ x, s)) (subgraph_loop True (Some r) (pregel_subs h)) @ more"
  using assms(1,3)
proof (induction gs)
  case (Cons x gs)
  obtain m g where x: "x = (m, g)" by (cases x)
  have sep: "NS_SEP = [hd NS_SEP]" by (simp add: const_defs)
  show ?case
  proof (cases "m = n")
    case True
    then have "h = g" using Cons.prems x by simp
    moreover have "drop (Suc (length n)) (n @ NS_SEP @ r) = r" by (simp add: const_defs)
    ultimately show ?thesis using True by (auto simp: x const_defs Let_def)
  next
    case False
    have n: "n \<in> fst ` set gs'" using Cons.prems by (metis map_of_SomeD subsetD image_eqI fst_conv)
    have "m \<in> fst ` set gs'" using Cons.prems(2) by (force simp: x)
    with n False assms(2) have "\<not> starts_with m n" "hd NS_SEP \<notin> set m" by (auto simp: clear_names_def)
    then have "\<not> starts_with m (n @ NS_SEP @ r)" using starts_with_sep [of m n "hd NS_SEP" r]
      by (auto simp: const_defs)
    with Cons False show ?thesis by (simp add: x)
  qed
qed simp

text \<open>
  C33: The first subgraph that is found for a namespace is the one at that path of node names, when along the path no
  name of a node with a subgraph is a prefix of another.
\<close>

theorem get_subgraphs_finds:
  assumes "subgraph_at self (n # ns) = Some g" and "clear_path self (n # ns)"
  shows "\<exists>more. get_subgraphs self (Some (str_join NS_SEP (n # ns))) True = (str_join NS_SEP (n # ns), g) # more"
  using assms
proof (induction ns arbitrary: self n)
  case Nil
  then show ?case using loop_last [of "pregel_subs self" n g "pregel_subs self"]
    by (auto simp: get_subgraphs_def split: option.splits)
next
  case (Cons m ns)
  then obtain h where h: "map_of (pregel_subs self) n = Some h" "subgraph_at h (m # ns) = Some g" "clear_path h (m # ns)"
    by (auto split: option.splits)
  from Cons.IH [OF h(2,3)] obtain more where
    "subgraph_loop True (Some (str_join NS_SEP (m # ns))) (pregel_subs h) = (str_join NS_SEP (m # ns), g) # more"
    by (auto simp: get_subgraphs_def)
  moreover obtain k where "map_of (pregel_subs h) m = Some k" using h(2) by (auto split: option.splits)
  then have "m \<noteq> []" using h(3) by (force simp: clear_names_def dest: map_of_SomeD)
  then have "str_join NS_SEP (m # ns) \<noteq> []" by (cases ns) auto
  ultimately show ?case
    using loop_inner [OF h(1), of "pregel_subs self" "str_join NS_SEP (m # ns)"] Cons.prems(2)
    by (auto simp: get_subgraphs_def)
qed

text \<open>\<open>a|b\<close> in a graph with the subgraphs \<open>a\<close>, which contains \<open>b\<close>, and \<open>c\<close>.\<close>

definition bare_env :: pregel_env where
  "bare_env =
     \<lparr>pg_hashes = \<lparr>xxh3_128_hexdigest = id, sha1_hexdigest = id\<rparr>, pg_uuid5 = (\<lambda>a b. a @ b), pg_identifier = (\<lambda>p. None),
      pg_new_id = (\<lambda>n. digits n), pg_now = (\<lambda>n. digits n), pg_store = None, pg_nodes = [], pg_specs = [],
      pg_trigger_to_nodes = [], pg_input_channels = ManyKeys [], pg_stream_channels = None, pg_config = None,
      pg_checkpointer = Own_saver, pg_saver_name = [], pg_migrate = id,
      pg_run = (\<lambda>channels managed node v r x. Inr (x, []))\<rparr>"

definition leaf_graph :: pregel where "leaf_graph = Pregel bare_env []"

lemma get_subgraphs_finds_witness:
  "\<exists>more. get_subgraphs (Pregel bare_env [(''c'', leaf_graph), (''a'', Pregel bare_env [(''b'', leaf_graph)])]) (Some ''a|b'') True
    = (''a|b'', leaf_graph) # more"
  using get_subgraphs_finds [of "Pregel bare_env [(''c'', leaf_graph), (''a'', Pregel bare_env [(''b'', leaf_graph)])]"
      "''a''" "[''b'']" "leaf_graph"]
  by (simp add: clear_names_def starts_with_def const_defs)



subsection \<open>Delta channels of subgraphs\<close>


definition kept_list :: delta_channel where
  "kept_list = \<lparr>ch_typ = TyList, ch_key = ''x'', dc_reducer = \<lparr>dr_name = ''add'', dr_id = 0, dr_call = (\<lambda>v vs. Inr v)\<rparr>,
     dc_snapshot_frequency = 100, dc_value = None\<rparr>"

definition inheriting_env :: pregel_env where
  "inheriting_env = bare_env\<lparr>pg_checkpointer := Inherit_saver, pg_specs := [(''x'', SpecChannel (Ch_DeltaChannel kept_list))]\<rparr>"

definition bare_saver :: "unit saver_class" where
  "bare_saver =
     \<lparr>bs_get_tuple = (\<lambda>c s. Inr None), bs_list = (\<lambda>c f b l s. Inr []), bs_put = (\<lambda>c p m v s. Inr (s, c)),
      bs_put_writes = (\<lambda>c w t s. Inr s), bs_history = (\<lambda>c ks s. Inl IndexError), bs_next_version = (\<lambda>v. IntV 1)\<rparr>"


end
