(* ===== verification/Checkpoint_Id.thy ===== *)
theory Checkpoint_Id
  imports LG_Prelude "HOL-Library.Word"
begin

section \<open>Ids of checkpoints\<close>

text \<open>
  \<open>checkpoint/base/id.py\<close>: UUIDs of version 6, which are the ids of checkpoints. The 128 bits of a UUID are
  Python's unbounded integers, here \<open>int\<close> with the bit operations the code applies to them; the clock and the random
  bits are arguments. \<open>uuid6\<close> keeps the last timestamp in a global variable, which is passed along.
\<close>

unbundle bit_operations_syntax

text \<open>\<open>uuid.UUID(int=i)\<close>, and with a version, which sets the variant of RFC 4122 as well.\<close>

definition UUID_int :: "int \<Rightarrow> int option \<Rightarrow> int res" where
  "UUID_int i version =
     (if \<not> (0 \<le> i \<and> i < push_bit 128 1) then Inl (ValueError ''int is out of range (need a 128-bit value)'')
      else case version of
             None \<Rightarrow> Inr i
           | Some v \<Rightarrow>
               if \<not> (6 \<le> v \<and> v \<le> 8) then Inl (ValueError ''illegal version number'')
               else Inr ((((i AND NOT (push_bit 48 0xC000)) OR push_bit 48 0x8000)
                          AND NOT (push_bit 64 0xF000)) OR push_bit 76 v))"

definition next_timestamp :: "int option \<Rightarrow> int \<Rightarrow> int" where
  "next_timestamp last_v6 nanoseconds =
     (let timestamp = nanoseconds div 100 + 0x01B21DD213814000 in
      case last_v6 of None \<Rightarrow> timestamp | Some l \<Rightarrow> if timestamp \<le> l then l + 1 else timestamp)"

definition uuid6_fields :: "int \<Rightarrow> int \<Rightarrow> int \<Rightarrow> int" where
  "uuid6_fields timestamp clock_seq node =
     (let time_high_and_time_mid = drop_bit 12 timestamp AND 0xFFFFFFFFFFFF;
          time_low_and_version = timestamp AND 0x0FFF
      in push_bit 80 time_high_and_time_mid OR push_bit 64 time_low_and_version
         OR push_bit 48 (clock_seq AND 0x3FFF) OR (node AND 0xFFFFFFFFFFFF))"

record uuid6_call =
  uc_now :: int
  uc_node :: "int option"
  uc_clock_seq :: "int option"
  uc_random14 :: int
  uc_random48 :: int

definition uuid6 :: "int option \<Rightarrow> uuid6_call \<Rightarrow> int option \<times> int res" where
  "uuid6 last_v6 c =
     (let timestamp = next_timestamp last_v6 (uc_now c);
          clock_seq = (case uc_clock_seq c of None \<Rightarrow> uc_random14 c | Some s \<Rightarrow> s);
          node = (case uc_node c of None \<Rightarrow> uc_random48 c | Some n \<Rightarrow> n)
      in (Some timestamp, UUID_int (uuid6_fields timestamp clock_seq node) (Some 6)))"

definition uuid_version :: "int \<Rightarrow> int option" where
  "uuid_version i =
     (if i AND push_bit 48 0x8000 \<noteq> 0 \<and> i AND push_bit 48 0x4000 = 0 then Some (drop_bit 76 i AND 0xF) else None)"

definition subsec :: "int \<Rightarrow> int" where
  "subsec i = push_bit 8 (drop_bit 64 i AND 0x0FFF) OR (drop_bit 54 i AND 0xFF)"

definition subsec_decode :: "int \<Rightarrow> int" where
  "subsec_decode v = - ((- v * 10 ^ 6) div 2 ^ 20)"

definition uuid_time :: "int \<Rightarrow> int" where
  "uuid_time i =
     (let time_low = drop_bit 96 i; time_mid = drop_bit 80 i AND 0xFFFF; time_hi_version = drop_bit 64 i AND 0xFFFF in
      if uuid_version i = Some 6 then push_bit 28 time_low OR push_bit 12 time_mid OR (time_hi_version AND 0x0FFF)
      else if uuid_version i = Some 7 then drop_bit 80 i
      else if uuid_version i = Some 8 then drop_bit 80 i * 10 ^ 6 + subsec_decode (subsec i)
      else push_bit 48 (time_hi_version AND 0x0FFF) OR push_bit 32 time_mid OR time_low)"

lemma bits6: "bit (6 :: int) k \<longleftrightarrow> k = 1 \<or> k = 2"
proof -
  have "(6 :: int) = push_bit 1 (mask 2)" by (simp add: mask_eq_exp_minus_1)
  then show ?thesis by (auto simp only: bit_simps) auto
qed

lemma uuid_masks:
  "(0x3FFF :: int) = mask 14" "(0x0FFF :: int) = mask 12" "(0xFFFFFFFFFFFF :: int) = mask 48"
  "(0xFFFF :: int) = mask 16" "(0xF :: int) = mask 4" "(0xC000 :: int) = push_bit 14 (mask 2)"
  "(0xF000 :: int) = push_bit 12 (mask 4)" "(0x8000 :: int) = push_bit 15 1" "(0x4000 :: int) = push_bit 14 1"
  by (simp_all add: mask_eq_exp_minus_1)

lemma push_or_add: "0 \<le> b \<Longrightarrow> b < 2 ^ n \<Longrightarrow> push_bit n a OR b = a * 2 ^ n + (b :: int)"
proof -
  assume "0 \<le> b" "b < 2 ^ n"
  then have b: "b = take_bit n b" by (simp add: take_bit_int_eq_self)
  have "push_bit n a + b = push_bit n a OR b"
    by (rule disjunctive_add_eq_or, subst b, rule bit_eqI) (auto simp: bit_simps)
  then show ?thesis by (simp add: push_bit_eq_mult)
qed

definition uuid6_value :: "int \<Rightarrow> int \<Rightarrow> int \<Rightarrow> int" where
  "uuid6_value ts cs n =
     push_bit 80 (take_bit 48 (drop_bit 12 ts)) OR (push_bit 76 6 OR (push_bit 64 (take_bit 12 ts)
     OR (push_bit 63 1 OR (push_bit 48 (take_bit 14 cs) OR take_bit 48 n))))"

lemma or_below: "0 \<le> a \<Longrightarrow> a < 2 ^ n \<Longrightarrow> 0 \<le> b \<Longrightarrow> b < 2 ^ n \<Longrightarrow> 0 \<le> a OR b \<and> (a OR b :: int) < 2 ^ n"
  by (simp add: OR_upper)

lemma take_less: "0 \<le> take_bit n (a :: int)" "take_bit n a < 2 ^ n"
  by simp_all

lemma uuid6_value_sum:
  "uuid6_value ts cs n = take_bit 48 (drop_bit 12 ts) * 2 ^ 80 + 6 * 2 ^ 76 + take_bit 12 ts * 2 ^ 64
     + (2 ^ 63 + take_bit 14 cs * 2 ^ 48 + take_bit 48 n)"
proof -
  have c: "push_bit 48 (take_bit 14 cs) OR take_bit 48 n = take_bit 14 cs * 2 ^ 48 + take_bit 48 n"
    by (rule push_or_add) (rule take_less)+
  have b: "take_bit 14 cs < 16384" "take_bit 48 n < 281474976710656" "take_bit 12 ts < 4096"
    "0 \<le> take_bit 14 cs" "0 \<le> take_bit 48 n" "0 \<le> take_bit 12 ts"
    using take_less(2) [of 14 cs] take_less(2) [of 48 n] take_less(2) [of 12 ts] by simp_all
  have d: "push_bit 63 1 OR (take_bit 14 cs * 2 ^ 48 + take_bit 48 n) = 1 * 2 ^ 63 + (take_bit 14 cs * 2 ^ 48 + take_bit 48 n)"
    by (rule push_or_add) (use b in simp_all)
  have e: "push_bit 64 (take_bit 12 ts) OR (1 * 2 ^ 63 + (take_bit 14 cs * 2 ^ 48 + take_bit 48 n))
      = take_bit 12 ts * 2 ^ 64 + (1 * 2 ^ 63 + (take_bit 14 cs * 2 ^ 48 + take_bit 48 n))"
    by (rule push_or_add) (use b in simp_all)
  have f: "push_bit 76 6 OR (take_bit 12 ts * 2 ^ 64 + (1 * 2 ^ 63 + (take_bit 14 cs * 2 ^ 48 + take_bit 48 n)))
      = 6 * 2 ^ 76 + (take_bit 12 ts * 2 ^ 64 + (1 * 2 ^ 63 + (take_bit 14 cs * 2 ^ 48 + take_bit 48 n)))"
    by (rule push_or_add) (use b in simp_all)
  have g: "push_bit 80 (take_bit 48 (drop_bit 12 ts)) OR (6 * 2 ^ 76 + (take_bit 12 ts * 2 ^ 64 + (1 * 2 ^ 63 + (take_bit 14 cs * 2 ^ 48 + take_bit 48 n))))
      = take_bit 48 (drop_bit 12 ts) * 2 ^ 80 + (6 * 2 ^ 76 + (take_bit 12 ts * 2 ^ 64 + (1 * 2 ^ 63 + (take_bit 14 cs * 2 ^ 48 + take_bit 48 n))))"
    by (rule push_or_add) (use b in simp_all)
  show ?thesis unfolding uuid6_value_def c d e f g by simp
qed

lemma uuid6_fields_range: "0 \<le> uuid6_fields ts cs n \<and> uuid6_fields ts cs n < 2 ^ 128"
proof -
  have "uuid6_fields ts cs n = take_bit 128 (uuid6_fields ts cs n)"
    unfolding uuid6_fields_def Let_def uuid_masks
    by (rule bit_eqI, simp only: bit_simps bits6 o_apply) auto
  then show ?thesis by (metis take_less)
qed

lemma uuid6_is_value: "UUID_int (uuid6_fields ts cs n) (Some 6) = Inr (uuid6_value ts cs n)"
proof -
  have "((((uuid6_fields ts cs n AND NOT (push_bit 48 0xC000)) OR push_bit 48 0x8000) AND NOT (push_bit 64 0xF000)) OR push_bit 76 6)
      = uuid6_value ts cs n"
    unfolding uuid6_fields_def Let_def uuid_masks uuid6_value_def
    by (rule bit_eqI, simp only: bit_simps bits6 o_apply) auto
  then show ?thesis using uuid6_fields_range [of ts cs n] by (simp add: UUID_int_def)
qed

lemma uuid6_value_range: "0 \<le> uuid6_value ts cs n \<and> uuid6_value ts cs n < 2 ^ 128"
proof -
  have "uuid6_value ts cs n = take_bit 128 (uuid6_value ts cs n)"
    unfolding uuid6_value_def by (rule bit_eqI, simp only: bit_simps bits6 o_apply) auto
  then show ?thesis by (metis take_less)
qed

lemma fields_less:
  fixes t l c n :: int
  assumes "t < t' \<or> t = t' \<and> l < l'" and "0 \<le> l" "l < 4096" "0 \<le> l'" "l' < 4096"
    and "c < 16384" "n < 281474976710656" "0 \<le> c'" "0 \<le> n'"
  shows "t * 2 ^ 80 + 6 * 2 ^ 76 + l * 2 ^ 64 + (2 ^ 63 + c * 2 ^ 48 + n)
       < t' * 2 ^ 80 + 6 * 2 ^ 76 + l' * 2 ^ 64 + (2 ^ 63 + c' * 2 ^ 48 + n')"
  using assms by (elim disjE) simp_all

lemma uuid6_value_less:
  assumes "0 \<le> a" "a < b" "b < 2 ^ 60"
  shows "uuid6_value a cs n < uuid6_value b cs' n'"
proof -
  have hi: "take_bit 48 (drop_bit 12 t) = t div 4096" if "0 \<le> t" "t < 2 ^ 60" for t :: int
    using that by (simp add: drop_bit_eq_div take_bit_int_eq_self)
  have lo: "take_bit 12 t = t mod 4096" for t :: int by (simp add: take_bit_eq_mod)
  have "a div 4096 < b div 4096 \<or> a div 4096 = b div 4096 \<and> a mod 4096 < b mod 4096" 
  proof (cases "a div 4096 = b div 4096")
    case True
    moreover have "a = 4096 * (a div 4096) + a mod 4096" "b = 4096 * (b div 4096) + b mod 4096" by simp_all
    ultimately show ?thesis using assms(2) by linarith
  next
    case False
    moreover have "a div 4096 \<le> b div 4096" using assms(2) by (intro zdiv_mono1) simp_all
    ultimately show ?thesis by linarith
  qed
  moreover have "0 \<le> a mod 4096" "a mod 4096 < 4096" "0 \<le> b mod 4096" "b mod 4096 < 4096" by simp_all
  moreover have "take_bit 14 cs < 16384" "take_bit 48 n < 281474976710656" "0 \<le> take_bit 14 cs'" "0 \<le> take_bit 48 n'"
    using take_less(2) [of 14 cs] take_less(2) [of 48 n] by simp_all
  ultimately have "a div 4096 * 2 ^ 80 + 6 * 2 ^ 76 + a mod 4096 * 2 ^ 64 + (2 ^ 63 + take_bit 14 cs * 2 ^ 48 + take_bit 48 n)
      < b div 4096 * 2 ^ 80 + 6 * 2 ^ 76 + b mod 4096 * 2 ^ 64 + (2 ^ 63 + take_bit 14 cs' * 2 ^ 48 + take_bit 48 n')"
    by (rule fields_less)
  then show ?thesis unfolding uuid6_value_sum using assms by (simp only: hi lo)
qed

lemma uuid_time_value:
  assumes "0 \<le> ts" "ts < 2 ^ 60"
  shows "uuid_time (uuid6_value ts cs n) = ts"
proof -
  let ?u = "uuid6_value ts cs n"
  have b: "bit ?u 63" "\<not> bit ?u 62"
    unfolding uuid6_value_def by (simp_all only: bit_simps bits6) auto
  have "bit (?u AND push_bit 48 0x8000) 63" using b unfolding uuid_masks by (simp add: bit_simps)
  then have a: "?u AND push_bit 48 0x8000 \<noteq> 0" by auto
  have c: "?u AND push_bit 48 0x4000 = 0"
  proof (rule bit_eqI)
    fix m
    have e: "push_bit 48 0x4000 = push_bit 62 (1 :: int)" by simp
    show "bit (?u AND push_bit 48 0x4000) m = bit 0 m"
      unfolding e using b(2) by (cases "m = 62") (auto simp only: bit_simps bit_0_eq bot_apply bot_bool_def)
  qed
  have d: "drop_bit 76 ?u AND 0xF = 6"
    unfolding uuid_masks uuid6_value_def
    by (rule bit_eqI, simp only: bit_simps bits6 o_apply) auto
  have v: "uuid_version ?u = Some 6" using a c d by (simp add: uuid_version_def)
  have "push_bit 28 (drop_bit 96 ?u) OR push_bit 12 (drop_bit 80 ?u AND 0xFFFF) OR ((drop_bit 64 ?u AND 0xFFFF) AND 0x0FFF) = take_bit 60 ts"
  proof (rule bit_eqI)
    fix m :: nat
    consider "m < 12" | "12 \<le> m" "m < 28" | "28 \<le> m" by linarith
    then show "bit (push_bit 28 (drop_bit 96 ?u) OR push_bit 12 (drop_bit 80 ?u AND 0xFFFF) OR ((drop_bit 64 ?u AND 0xFFFF) AND 0x0FFF)) m
        = bit (take_bit 60 ts) m"
      unfolding uuid_masks uuid6_value_def
      by cases (simp_all only: bit_simps bits6 o_apply, auto)
  qed
  moreover have "take_bit 60 ts = ts" using assms by (simp add: take_bit_int_eq_self)
  ultimately show ?thesis unfolding uuid_time_def Let_def by (simp only: v if_True refl)
qed

subsection \<open>Strings of ids\<close>

definition hex_char :: "nat \<Rightarrow> char" where
  "hex_char n = char_of (if n < 10 then 48 + n else 87 + n)"

text \<open>\<open>'%0wx' % n\<close> for a number below \<open>16 ^ w\<close>.\<close>

fun to_hex :: "nat \<Rightarrow> nat \<Rightarrow> string" where
  "to_hex 0 n = []"
| "to_hex (Suc w) n = hex_char (n div 16 ^ w) # to_hex w (n mod 16 ^ w)"

text \<open>\<open>str(uuid)\<close>.\<close>

definition uuid_str :: "int \<Rightarrow> string" where
  "uuid_str i =
     (let h = to_hex 32 (nat i) in
      take 8 h @ ''-'' @ take 4 (drop 8 h) @ ''-'' @ take 4 (drop 12 h) @ ''-'' @ take 4 (drop 16 h) @ ''-'' @ drop 20 h)"

lemma hex_char_less: "a < b \<Longrightarrow> b < 16 \<Longrightarrow> hex_char a < hex_char b"
  by (auto simp: hex_char_def less_char_def)

lemma length_to_hex [simp]: "length (to_hex w n) = w"
  by (induction w arbitrary: n) simp_all

lemma to_hex_less: "m < n \<Longrightarrow> n < 16 ^ w \<Longrightarrow> to_hex w m < to_hex w n"
proof (induction w arbitrary: m n)
  case (Suc w)
  have n: "n div 16 ^ w < 16" using Suc.prems(2) by (simp add: less_mult_imp_div_less mult.commute)
  have le: "m div 16 ^ w \<le> n div 16 ^ w" using Suc.prems(1) by (simp add: div_le_mono)
  show ?case
  proof (cases "m div 16 ^ w = n div 16 ^ w")
    case True
    then have "m mod 16 ^ w < n mod 16 ^ w"
      using Suc.prems(1) by (metis div_mult_mod_eq nat_add_left_cancel_less)
    with True show ?thesis using Suc.IH by simp
  next
    case False
    with le n show ?thesis by (simp add: hex_char_less)
  qed
qed simp

lemma append_less_same_length:
  "length xs = length ys \<Longrightarrow> xs @ us < ys @ vs \<longleftrightarrow> xs < ys \<or> xs = ys \<and> us < (vs :: 'a::linorder list)"
  by (induction xs ys rule: list_induct2) auto

lemma uuid_str_less:
  assumes "0 \<le> i" "i < j" "j < 2 ^ 128"
  shows "uuid_str i < uuid_str j"
proof -
  have split: "\<exists>a b c d e. h = a @ b @ c @ d @ e \<and> length a = 8 \<and> length b = 4 \<and> length c = 4 \<and> length d = 4
      \<and> take 8 h @ ''-'' @ take 4 (drop 8 h) @ ''-'' @ take 4 (drop 12 h) @ ''-'' @ take 4 (drop 16 h) @ ''-'' @ drop 20 h
         = a @ ''-'' @ b @ ''-'' @ c @ ''-'' @ d @ ''-'' @ e" if "length h = 32" for h :: string
  proof (intro exI conjI)
    show "h = take 8 h @ take 4 (drop 8 h) @ take 4 (drop 12 h) @ take 4 (drop 16 h) @ drop 20 h"
      using append_take_drop_id [of 8 h] append_take_drop_id [of 4 "drop 8 h"] append_take_drop_id [of 4 "drop 12 h"]
        append_take_drop_id [of 4 "drop 16 h"] by (metis add_numeral_special(1) drop_drop numeral_plus_numeral semiring_norm(1-10))
  qed (use that in simp_all)
  have less: "to_hex 32 (nat i) < to_hex 32 (nat j)"
    by (rule to_hex_less) (use assms in \<open>simp_all add: nat_less_iff\<close>)
  obtain a b c d e a' b' c' d' e' where
    "to_hex 32 (nat i) = a @ b @ c @ d @ e" "length a = 8" "length b = 4" "length c = 4" "length d = 4"
    "uuid_str i = a @ ''-'' @ b @ ''-'' @ c @ ''-'' @ d @ ''-'' @ e"
    "to_hex 32 (nat j) = a' @ b' @ c' @ d' @ e'" "length a' = 8" "length b' = 4" "length c' = 4" "length d' = 4"
    "uuid_str j = a' @ ''-'' @ b' @ ''-'' @ c' @ ''-'' @ d' @ ''-'' @ e'"
    using split [of "to_hex 32 (nat i)"] split [of "to_hex 32 (nat j)"] unfolding uuid_str_def Let_def by fastforce
  with less show ?thesis by (auto simp: append_less_same_length)
qed

subsection \<open>Sequences of ids\<close>

text \<open>The ids of consecutive calls; \<open>uuid6\<close> keeps the last timestamp in a global variable.\<close>

fun uuid6_calls :: "int option \<Rightarrow> uuid6_call list \<Rightarrow> int res list" where
  "uuid6_calls last_v6 [] = []"
| "uuid6_calls last_v6 (c # cs) = (let (last_v6', i) = uuid6 last_v6 c in i # uuid6_calls last_v6' cs)"

definition clock_fits :: "int option \<Rightarrow> uuid6_call list \<Rightarrow> bool" where
  "clock_fits last_v6 cs \<longleftrightarrow>
     (case last_v6 of None \<Rightarrow> True | Some l \<Rightarrow> 0 \<le> l \<and> l + int (length cs) < 2 ^ 60)
     \<and> (\<forall>c \<in> set cs. 0 \<le> uc_now c \<and> uc_now c div 100 + 0x01B21DD213814000 + int (length cs) < 2 ^ 60)"

lemma clock_fits_Cons:
  assumes "clock_fits last_v6 (c # cs)" and "ts = next_timestamp last_v6 (uc_now c)"
  shows "clock_fits (Some ts) cs \<and> 0 \<le> ts \<and> ts < 2 ^ 60 \<and> (\<forall>l. last_v6 = Some l \<longrightarrow> l < ts)"
proof -
  have "0 \<le> uc_now c" using assms(1) by (simp add: clock_fits_def)
  then have "0 \<le> uc_now c div 100" by (simp add: pos_imp_zdiv_nonneg_iff)
  with assms show ?thesis
    by (fastforce simp: clock_fits_def next_timestamp_def Let_def split: option.splits if_splits)
qed

lemma uuid6_calls_sorted:
  assumes "clock_fits last_v6 cs"
  shows "\<exists>ids. uuid6_calls last_v6 cs = map Inr ids \<and> length ids = length cs \<and> sorted_wrt (<) (map uuid_str ids)
    \<and> sorted_wrt (<) (map uuid_time ids)
    \<and> list_all2 (\<lambda>c i. uc_now c div 100 + 0x01B21DD213814000 \<le> uuid_time i) cs ids
    \<and> (\<forall>i \<in> set ids. \<exists>t a b. i = uuid6_value t a b \<and> 0 \<le> t \<and> t < 2 ^ 60 \<and> (\<forall>l. last_v6 = Some l \<longrightarrow> l < t))"
  using assms
proof (induction cs arbitrary: last_v6)
  case (Cons c cs)
  define t where "t = next_timestamp last_v6 (uc_now c)"
  note t = clock_fits_Cons [OF Cons.prems t_def]
  obtain ids where ids: "uuid6_calls (Some t) cs = map Inr ids" "length ids = length cs"
    "sorted_wrt (<) (map uuid_str ids)" "sorted_wrt (<) (map uuid_time ids)"
    "list_all2 (\<lambda>c i. uc_now c div 100 + 0x01B21DD213814000 \<le> uuid_time i) cs ids"
    and all: "\<And>i. i \<in> set ids \<Longrightarrow> \<exists>t' a b. i = uuid6_value t' a b \<and> 0 \<le> t' \<and> t' < 2 ^ 60 \<and> t < t'"
    using Cons.IH [of "Some t"] t by auto
  obtain a b where i: "uuid6 last_v6 c = (Some t, Inr (uuid6_value t a b))"
    by (simp add: uuid6_def Let_def uuid6_is_value t_def)
  have "uuid_str (uuid6_value t a b) < uuid_str j \<and> uuid_time (uuid6_value t a b) < uuid_time j" if mem: "j \<in> set ids" for j
  proof -
    obtain t' a' b' where j: "j = uuid6_value t' a' b'" "0 \<le> t'" "t' < 2 ^ 60" "t < t'" using all [OF mem] by blast
    have "0 \<le> uuid6_value t a b" "uuid6_value t' a' b' < 2 ^ 128"
      using uuid6_value_range by blast+
    then show ?thesis using t j by (simp add: uuid_str_less uuid6_value_less uuid_time_value)
  qed
  moreover have "uc_now c div 100 + 0x01B21DD213814000 \<le> uuid_time (uuid6_value t a b)"
    using t by (auto simp: uuid_time_value t_def next_timestamp_def Let_def split: option.splits)
  ultimately show ?case using ids i t all
    by (intro exI [of _ "uuid6_value t a b # ids"]) fastforce
qed simp


text \<open>
  C16: Consecutive ids increase as strings, and so do the timestamps read back from them, which are never before the
  clock's, whatever the clock does: it may stand still or go back.
\<close>

theorem uuid6_ids_increase:
  assumes "clock_fits last_v6 cs"
  shows "\<exists>ids. uuid6_calls last_v6 cs = map Inr ids \<and> length ids = length cs
    \<and> sorted_wrt (<) (map uuid_str ids) \<and> sorted_wrt (<) (map uuid_time ids)
    \<and> list_all2 (\<lambda>c i. uc_now c div 100 + 0x01B21DD213814000 \<le> uuid_time i) cs ids"
  using uuid6_calls_sorted [OF assms] by blast

lemma uuid6_ids_increase_witness:
  "\<exists>i j. uuid6_calls (Some 5) [\<lparr>uc_now = 7, uc_node = None, uc_clock_seq = Some (-1), uc_random14 = 5, uc_random48 = 77\<rparr>,
      \<lparr>uc_now = 3, uc_node = None, uc_clock_seq = Some 0, uc_random14 = 5, uc_random48 = 7\<rparr>] = [Inr i, Inr j]
    \<and> uuid_str i < uuid_str j \<and> uuid_time i < uuid_time j"
  using uuid6_ids_increase [of "Some 5" "[\<lparr>uc_now = 7, uc_node = None, uc_clock_seq = Some (-1), uc_random14 = 5, uc_random48 = 77\<rparr>,
      \<lparr>uc_now = 3, uc_node = None, uc_clock_seq = Some 0, uc_random14 = 5, uc_random48 = 7\<rparr>]"]
  by (auto simp: clock_fits_def length_Suc_conv)

end
