(* ===== verification/Id_Props.thy ===== *)
theory Id_Props
  imports Saver_Props Checkpoint_Id
begin

section \<open>The newest checkpoint\<close>

text \<open>
  The saver takes the greatest id of a thread for its newest checkpoint, and walks from children to parents. With
  the ids that \<open>uuid6\<close> makes both are right: they increase as strings, whatever the clock does.
\<close>

lemma save_run_order:
  assumes "save_run dumps t ns p cps s = Inr s'"
    and "sorted_wrt (<) (map (cp_id \<circ> fst) cps)"
    and "\<forall>k \<in> set (dkeys (ns_storage s t ns)). \<forall>c \<in> set cps. k < cp_id (fst c)"
    and "\<forall>q. p = Some q \<longrightarrow> (\<forall>c \<in> set cps. cp_id q < cp_id (fst c))"
    and "\<forall>i e q. map_of (ns_storage s t ns) i = Some e \<longrightarrow> st_parent e = Some q \<longrightarrow> q < i"
  shows "set (dkeys (ns_storage s' t ns)) = set (dkeys (ns_storage s t ns)) \<union> set (map (cp_id \<circ> fst) cps)
    \<and> (\<forall>i e q. map_of (ns_storage s' t ns) i = Some e \<longrightarrow> st_parent e = Some q \<longrightarrow> q < i)"
  using assms
proof (induction cps arbitrary: p s)
  case (Cons cm cps)
  obtain c m where cm: "cm = (c, m)" by fastforce
  note prems = Cons.prems [unfolded cm]
  from prems(1) obtain s1 c1 where put: "saver_put dumps (put_config t ns p) c m (get_new_channel_versions (versions_of p) (channel_versions c)) s = Inr (s1, c1)"
    and rest: "save_run dumps t ns (Some c) cps s1 = Inr s'"
    by (auto simp: rbind_Inr_iff)
  have st: "ns_storage s1 t ns = dset (cp_id c) (new_entry (put_config t ns p) c m) (ns_storage s t ns)"
    using saver_put_result [OF put put_config_simps(1,2)] by simp
  have "set (dkeys (ns_storage s' t ns)) = set (dkeys (ns_storage s1 t ns)) \<union> set (map (cp_id \<circ> fst) cps)
    \<and> (\<forall>i e q. map_of (ns_storage s' t ns) i = Some e \<longrightarrow> st_parent e = Some q \<longrightarrow> q < i)"
    by (rule Cons.IH [OF rest]) (use prems(2-) in \<open>auto simp: st dkeys_dset split: option.splits if_splits\<close>)
  then show ?case by (auto simp: st cm dkeys_dset)
qed simp

text \<open>
  C10: The newest checkpoint is found: when the checkpoints of a run are saved with ids that consecutive calls of
  \<open>uuid6\<close> made, whatever the clock does between them, reading the thread without an id reads the one saved last, and
  every checkpoint's parent has a smaller id, so that walking along the parents ends.
\<close>

theorem newest_checkpoint_found:
  assumes "clock_fits last_v6 calls" and "uuid6_calls last_v6 calls = map Inr ids"
    and "map (cp_id \<circ> fst) cps = map uuid_str ids" and "cps \<noteq> []"
    and "save_run dumps t ns None cps s = Inr s'" and "ns_storage s t ns = []"
  shows "saver_get_tuple loads s' (put_config t ns None) = saver_get_tuple loads s' (saver_config t ns (cp_id (fst (last cps))))
    \<and> (\<forall>i e p. map_of (ns_storage s' t ns) i = Some e \<longrightarrow> st_parent e = Some p \<longrightarrow> p < i)"
proof -
  have sorted: "sorted_wrt (<) (map (cp_id \<circ> fst) cps)"
    using uuid6_calls_sorted [OF assms(1)] assms(2,3) by (auto simp: inj_map_eq_map)
  have "set (dkeys (ns_storage s' t ns)) = set (dkeys (ns_storage s t ns)) \<union> set (map (cp_id \<circ> fst) cps)
    \<and> (\<forall>i e q. map_of (ns_storage s' t ns) i = Some e \<longrightarrow> st_parent e = Some q \<longrightarrow> q < i)"
    by (rule save_run_order [OF assms(5) sorted]) (simp_all add: assms(6) dkeys_def)
  then have k: "set (dkeys (ns_storage s' t ns)) = set (map (cp_id \<circ> fst) cps)"
    and p: "\<forall>i e p. map_of (ns_storage s' t ns) i = Some e \<longrightarrow> st_parent e = Some p \<longrightarrow> p < i"
    by (simp_all add: assms(6) dkeys_def)
  have "Max (set (map (cp_id \<circ> fst) cps)) = cp_id (fst (last cps))"
    using sorted assms(4) by (cases cps rule: rev_cases) (auto intro!: Max_eqI simp: sorted_wrt_append less_imp_le)
  then have l: "latest_id (ns_storage s' t ns) = cp_id (fst (last cps))" by (simp add: latest_id_def k)
  have id_in: "cp_id (fst (last cps)) \<in> set (map (cp_id \<circ> fst) cps)" using assms(4) by simp
  then have "cp_id (fst (last cps)) \<in> uuid_str ` set ids" unfolding assms(3) by simp
  then have "cp_id (fst (last cps)) \<noteq> []" by (auto simp: uuid_str_def Let_def)
  moreover obtain e where "map_of (ns_storage s' t ns) (cp_id (fst (last cps))) = Some e"
    using id_in k by (metis dkeys_def image_set map_of_eq_None_iff not_None_eq)
  ultimately show ?thesis
    using p l by (auto simp: saver_get_tuple_def conf_key_def get_checkpoint_id_def conf_ns_or_root_def Let_def)
qed

definition example_calls :: "uuid6_call list" where
  "example_calls =
     [\<lparr>uc_now = 1700000000000000000, uc_node = None, uc_clock_seq = Some (-1), uc_random14 = 5, uc_random48 = 77\<rparr>,
      \<lparr>uc_now = 1600000000000000000, uc_node = None, uc_clock_seq = Some 0, uc_random14 = 5, uc_random48 = 7\<rparr>]"

lemma example_clock: "clock_fits None example_calls"
  by (simp add: clock_fits_def example_calls_def)

lemma newest_checkpoint_found_witness:
  "\<exists>i j s'. uuid6_calls None example_calls = [Inr i, Inr j]
     \<and> save_run (JsonPlus_dumps_typed example_codec) ''t'' [] None
         [(example_cp (uuid_str i) 1 ''x'', example_meta), (example_cp (uuid_str j) 2 ''y'', example_meta)] empty_saver = Inr s'
     \<and> saver_get_tuple (JsonPlus_loads_typed example_codec) s' (put_config ''t'' [] None)
       = saver_get_tuple (JsonPlus_loads_typed example_codec) s' (saver_config ''t'' [] (uuid_str j))"
proof -
  obtain ids where ids: "uuid6_calls None example_calls = map Inr ids" "length ids = length example_calls"
    using uuid6_calls_sorted [OF example_clock] by blast
  then obtain i j where ij: "ids = [i, j]" by (auto simp: example_calls_def length_Suc_conv)
  let ?cps = "[(example_cp (uuid_str i) 1 ''x'', example_meta), (example_cp (uuid_str j) 2 ''y'', example_meta)]"
  have "\<exists>s'. save_run (JsonPlus_dumps_typed example_codec) ''t'' [] None ?cps empty_saver = Inr s'"
    by (simp add: saver_put_def conf_key_def put_blobs_def blob_of_def get_new_channel_versions_def versions_of_def
        example_cp_def JsonPlus_dumps_typed_def example_codec_def dgetd_def null_version_def Let_def)
  then obtain s' where s': "save_run (JsonPlus_dumps_typed example_codec) ''t'' [] None ?cps empty_saver = Inr s'" by blast
  have "map (cp_id \<circ> fst) ?cps = map uuid_str ids" by (simp add: ij example_cp_def)
  from newest_checkpoint_found [OF example_clock ids(1) this _ s', of "JsonPlus_loads_typed example_codec"] ids ij s'
  show ?thesis by (auto simp: ns_storage_def empty_saver_def dgetd_def example_cp_def)
qed

end
