(* ===== verification/Saver_Default.thy ===== *)
theory Saver_Default
  imports Saver_Props Pregel_State
begin

section \<open>What every saver does\<close>

text \<open>
  The methods that \<open>BaseCheckpointSaver\<close> (\<open>checkpoint/base\<close>) implements with the others, for any saver
  (\<open>saver_class\<close>): the history of delta channels; and \<open>_internal/_replay.py\<close> with the part of the loop's
  \<open>__enter__\<close> that finds the checkpoint to start from.
\<close>

subsection \<open>The default history of delta channels\<close>

definition collect_pending :: "string set \<Rightarrow> (string, pending_write list) dict \<Rightarrow> pending_write \<Rightarrow> (string, pending_write list) dict" where
  "collect_pending remaining collected w =
     (let ch = fst (snd w) in if ch \<in> remaining then dset ch (dgetd collected ch [] @ [w]) collected else collected)"

text \<open>What one ancestor adds: its pending writes, newest first, and its values, which end the search.\<close>

definition default_step :: "string list \<Rightarrow> walk_state \<Rightarrow> saved_tuple \<Rightarrow> walk_state" where
  "default_step channels w tup =
     (let pending = (case sv_pending tup of None \<Rightarrow> [] | Some ws \<Rightarrow> ws); vals = channel_values (sv_checkpoint tup) in
      \<lparr>wk_remaining = {ch \<in> wk_remaining w. \<not> dmem ch vals},
       wk_collected = foldl (collect_pending (wk_remaining w)) (wk_collected w) (rev pending),
       wk_seeds = wk_seeds w @ new_seeds (map (\<lambda>ch. (ch, map_of vals ch)) (filter (\<lambda>ch. ch \<in> wk_remaining w) channels))\<rparr>)"

partial_function (option) default_walk ::
  "'s saver_class \<Rightarrow> 's \<Rightarrow> string list \<Rightarrow> walk_state \<Rightarrow> run_config option \<Rightarrow> walk_state res option" where
  "default_walk cls s channels w cursor =
     (case cursor of
        None \<Rightarrow> Some (Inr w)
      | Some c \<Rightarrow>
          if wk_remaining w = {} then Some (Inr w)
          else (case bs_get_tuple cls c s of
                  Inl e \<Rightarrow> Some (Inl e)
                | Inr None \<Rightarrow> Some (Inr w)
                | Inr (Some tup) \<Rightarrow> default_walk cls s channels (default_step channels w tup) (sv_parent_config tup)))"

definition default_delta_history ::
  "'s saver_class \<Rightarrow> 's \<Rightarrow> run_config \<Rightarrow> string list \<Rightarrow> (string, delta_history) dict res option" where
  "default_delta_history cls s config channels =
     (if channels = [] then Some (Inr [])
      else case bs_get_tuple cls config s of
             Inl e \<Rightarrow> Some (Inl e)
           | Inr target \<Rightarrow>
               map_option (rmap (\<lambda>w. map (\<lambda>ch. (ch,
                    \<lparr>dh_writes = rev (dgetd (wk_collected w) ch []), dh_seed = map_of (wk_seeds w) ch\<rparr>)) channels))
                 (default_walk cls s channels
                    \<lparr>wk_remaining = set channels, wk_collected = map (\<lambda>c. (c, [])) channels, wk_seeds = []\<rparr>
                    (case target of None \<Rightarrow> None | Some t \<Rightarrow> sv_parent_config t)))"

text \<open>The default \<open>get_next_version\<close>; a string raises \<open>NotImplementedError\<close>.\<close>

definition default_next_version :: "version option \<Rightarrow> version option" where
  "default_next_version current =
     (case current of None \<Rightarrow> Some (IntV 1) | Some (IntV i) \<Rightarrow> Some (IntV (i + 1)) | Some (StrV s) \<Rightarrow> None)"

subsection \<open>The start of a loop: replays\<close>

record replay_state =
  rs_checkpoint_id :: string
  rs_visited :: "string set"

definition stable_ns :: "string \<Rightarrow> string" where
  "stable_ns ns = (if CHR '':'' \<in> set ns then rev (tl (dropWhile (\<lambda>c. c \<noteq> CHR '':'') (rev ns))) else ns)"

definition is_first_visit :: "replay_state \<Rightarrow> string \<Rightarrow> bool \<times> replay_state" where
  "is_first_visit rs ns =
     (if stable_ns ns \<in> rs_visited rs then (False, rs)
      else (True, rs\<lparr>rs_visited := insert (stable_ns ns) (rs_visited rs)\<rparr>))"

definition before_config :: "string \<Rightarrow> run_config" where
  "before_config i = empty_config\<lparr>rc_conf := Some [(CONFIG_KEY_CHECKPOINT_ID, CStr i)]\<rparr>"

definition replay_get_checkpoint ::
  "'s saver_class \<Rightarrow> 's \<Rightarrow> replay_state \<Rightarrow> string \<Rightarrow> run_config \<Rightarrow> saved_tuple option res \<times> replay_state" where
  "replay_get_checkpoint cls s rs ns config =
     (case is_first_visit rs ns of
        (True, rs') \<Rightarrow>
          (rmap (\<lambda>found. case found of [] \<Rightarrow> None | saved # _ \<Rightarrow> Some saved)
             (bs_list cls config None (Some (before_config (rs_checkpoint_id rs'))) (Some 1) s), rs')
      | (False, rs') \<Rightarrow> (bs_get_tuple cls config s, rs'))"

text \<open>
  The first lines of \<open>__enter__\<close>: the saved checkpoint, the replay state after it, and the configuration, without
  \<open>__pregel_resuming\<close> when the checkpoint came from the replay.
\<close>

definition find_checkpoint ::
  "'s saver_class option \<Rightarrow> 's \<Rightarrow> replay_state option \<Rightarrow> loop \<Rightarrow> saved_tuple option res \<times> replay_state option \<times> loop" where
  "find_checkpoint saver s replay l =
     (case saver of
        None \<Rightarrow> (Inr None, replay, l)
      | Some cls \<Rightarrow>
          if confval_true (dgetd (conf_of (lp_checkpoint_config l)) CONFIG_KEY_CHECKPOINT_ID CNone)
          then (bs_get_tuple cls (lp_checkpoint_config l) s, replay, l)
          else case replay of
                 Some rs \<Rightarrow>
                   (let (found, rs') = replay_get_checkpoint cls s rs (conf_ns_or_root (lp_config l)) (lp_checkpoint_config l)
                    in (found, Some rs',
                        l\<lparr>lp_config := pop_resuming (lp_config l)\<rparr>))
               | None \<Rightarrow> (bs_get_tuple cls (lp_checkpoint_config l) s, replay, l))"

end
