(* ===== verification/Default_Props.thy ===== *)
theory Default_Props
  imports Saver_Default
begin

section \<open>The defaults of savers, and replays\<close>

text \<open>
  The default walk along \<open>get_tuple\<close> gives what the walk of \<open>InMemorySaver\<close> over its own tables gives; on a replay
  subgraphs start from where they were before the point of the replay.
\<close>

subsection \<open>Saved data that can be read\<close>

definition readable :: "loads \<Rightarrow> memory_saver \<Rightarrow> bool" where
  "readable loads s \<longleftrightarrow>
     (\<forall>k b. map_of (ms_blobs s) k = Some b \<longrightarrow> fst b \<noteq> ''empty'' \<longrightarrow> (\<exists>v. loads b = Inr v))
     \<and> (\<forall>k d key tid c b path. map_of (ms_writes s) k = Some d \<longrightarrow> (key, tid, c, b, path) \<in> set d \<longrightarrow> (\<exists>v. loads b = Inr v))
     \<and> (\<forall>t ns i e. map_of (ns_storage s t ns) i = Some e \<longrightarrow> dict_ok (channel_versions (st_checkpoint e)))"

lemma readable_blob: "readable loads s \<Longrightarrow> \<exists>v. blob_value loads s t ns vs ch = Inr v"
  unfolding readable_def blob_value_def by (auto split: option.split) (metis rmap_simps(2))

lemma rmapM_total: "(\<And>x. x \<in> set xs \<Longrightarrow> f x = Inr (g x)) \<Longrightarrow> rmapM f xs = Inr (map g xs)"
  by (induction xs) auto

lemma readable_writes:
  assumes "readable loads s"
  shows "load_writes loads s t ns cid = Inr (map (\<lambda>(key, tid, c, b, path). (tid, c, loaded loads b)) (dgetd (ms_writes s) (t, ns, cid) []))"
proof -
  have "\<exists>v. loads b = Inr v" if "(key, tid, c, b, path) \<in> set (dgetd (ms_writes s) (t, ns, cid) [])" for key tid c b path
  proof -
    from that obtain d where "map_of (ms_writes s) (t, ns, cid) = Some d" "(key, tid, c, b, path) \<in> set d"
      by (cases "map_of (ms_writes s) (t, ns, cid)") (simp_all add: dgetd_def)
    with assms show ?thesis unfolding readable_def by blast
  qed
  then have one: "(case w of (key, tid, c, b, path) \<Rightarrow> rmap (\<lambda>v. (tid, c, v)) (loads b))
      = Inr (case w of (key, tid, c, b, path) \<Rightarrow> (tid, c, loaded loads b))"
    if "w \<in> set (dgetd (ms_writes s) (t, ns, cid) [])" for w
    using that by (cases w) (force simp: loaded_def)
  show ?thesis
    unfolding load_writes_def by (rule rmapM_total) (rule one)
qed

lemma readable_tuple:
  assumes "readable loads s" and "map_of (ns_storage s t ns) cid = Some e"
  shows "\<exists>tup. checkpoint_tuple loads s t ns config cid e = Inr tup
    \<and> sv_pending tup = Some (map (\<lambda>(key, tid, c, b, path). (tid, c, loaded loads b)) (dgetd (ms_writes s) (t, ns, cid) []))
    \<and> (\<forall>ch. blob_value loads s t ns (entry_versions s t ns cid) ch = Inr (map_of (channel_values (sv_checkpoint tup)) ch))
    \<and> sv_parent_config tup = (case st_parent e of None \<Rightarrow> None | Some p \<Rightarrow> if p \<noteq> [] then Some (saver_config t ns p) else None)"
proof -
  let ?vs = "channel_versions (st_checkpoint e)"
  have "dict_ok ?vs"
    using assms unfolding readable_def by blast
  moreover have f: "blob_value loads s t ns ?vs ch = Inr (projr (blob_value loads s t ns ?vs ch))" for ch
    using readable_blob [OF assms(1), of t ns ?vs ch] by auto
  ultimately obtain d where d: "load_blobs loads s t ns ?vs = Inr d" "\<forall>k. map_of d k = projr (blob_value loads s t ns ?vs k)"
    using load_blobs_lookup [OF _ f] by blast
  have "entry_versions s t ns cid = ?vs" using assms(2) by (simp add: entry_versions_def)
  then show ?thesis using d f by (simp add: checkpoint_tuple_def readable_writes [OF assms(1)] split: option.split)
qed

definition default_holds :: "saved_tuple \<Rightarrow> string \<Rightarrow> pending_write list \<times> pyval option" where
  "default_holds tup ch =
     (filter (\<lambda>w. fst (snd w) = ch) (case sv_pending tup of None \<Rightarrow> [] | Some ws \<Rightarrow> ws),
      map_of (channel_values (sv_checkpoint tup)) ch)"

lemma collect_pending_view:
  "dgetd (foldl (collect_pending R) col ws) ch [] = dgetd col ch [] @ (if ch \<in> R then filter (\<lambda>w. fst (snd w) = ch) ws else [])"
  by (induction ws arbitrary: col) (auto simp: collect_pending_def Let_def dgetd_def)

lemma default_step_done: "ch \<notin> wk_remaining w \<Longrightarrow> wk_view (default_step channels w tup) ch = wk_view w ch"
proof -
  assume "ch \<notin> wk_remaining w"
  moreover from this have "map_of (new_seeds (map (\<lambda>ch. (ch, map_of vals ch)) (filter (\<lambda>ch. ch \<in> wk_remaining w) channels))) ch = None" for vals :: "(string, pyval) dict"
    by (intro new_seeds_lookup) auto
  ultimately show ?thesis by (simp add: wk_view_def default_step_def Let_def collect_pending_view map_add_def split: option.split)
qed

lemma default_step_open:
  assumes "ch \<in> wk_remaining w" and "ch \<in> set channels" and "map_of (wk_seeds w) ch = None"
  shows "wk_view (default_step channels w tup) ch = (snd (default_holds tup ch) = None,
     dgetd (wk_collected w) ch [] @ rev (fst (default_holds tup ch)), snd (default_holds tup ch))"
proof -
  let ?vals = "channel_values (sv_checkpoint tup)"
  have "map_of (map (\<lambda>ch. (ch, map_of ?vals ch)) (filter (\<lambda>ch. ch \<in> wk_remaining w) channels)) ch = Some (map_of ?vals ch)"
    using assms(1,2) by (intro map_of_tabulate) simp
  then have "map_of (new_seeds (map (\<lambda>ch. (ch, map_of ?vals ch)) (filter (\<lambda>ch. ch \<in> wk_remaining w) channels))) ch = map_of ?vals ch"
    by (intro new_seeds_lookup) auto
  with assms show ?thesis
    by (auto simp: wk_view_def default_step_def Let_def collect_pending_view default_holds_def dmem_def rev_filter map_add_def
        split: option.split)
qed

lemma saver_tuple_by_id:
  assumes "cid \<noteq> []"
  shows "saver_get_tuple loads s (saver_config t ns cid) =
    (case map_of (ns_storage s t ns) cid of None \<Rightarrow> Inr None
     | Some e \<Rightarrow> rmap Some (checkpoint_tuple loads s t ns (saver_config t ns cid) cid e))"
  using assms by (simp add: saver_get_tuple_def conf_key_def get_checkpoint_id_def conf_ns_or_root_def Let_def)

lemma default_walk_chain:
  fixes dumps loads random
  defines "cls \<equiv> InMemorySaver dumps loads random"
  assumes "parent_chain (ns_storage s t ns) cur = Some chain" and "readable loads s"
    and "\<forall>i e. map_of (ns_storage s t ns) i = Some e \<longrightarrow> st_parent e \<noteq> Some []" and "cur \<noteq> Some []"
    and "\<forall>ch \<in> set channels. \<forall>i. (\<forall>v. snd (ancestor_holds loads s t ns ch i) = Some v \<longrightarrow> \<not> subsumes_writes v)"
    and "\<forall>i. sorted (map fst (dgetd (ms_writes s) (t, ns, i) []))"
    and "\<forall>ch \<in> wk_remaining w. map_of (wk_seeds w) ch = None" and "wk_remaining w \<subseteq> set channels"
  shows "\<exists>w'. default_walk cls s channels w (map_option (saver_config t ns) cur) = Some (Inr w')
    \<and> (\<forall>ch \<in> set channels. snd (wk_view w' ch) =
         (if ch \<in> wk_remaining w
          then (dgetd (wk_collected w) ch [] @ rev (fst (history_of (ancestor_holds loads s t ns ch) chain)),
                snd (history_of (ancestor_holds loads s t ns ch) chain))
          else snd (wk_view w ch)))"
  using assms(2,5,8,9)
proof (induction chain arbitrary: cur w)
  case Nil
  then show ?case
  proof (cases cur)
    case None
    then show ?thesis using Nil.prems(3) by (simp add: default_walk.simps wk_view_def)
  next
    case (Some c)
    with Nil.prems(1,2) have "map_of (ns_storage s t ns) c = None" "c \<noteq> []"
      by (auto simp: parent_chain.simps [of _ "Some c"] split: option.splits bind_splits)
    then show ?thesis using Nil.prems(3)
      by (simp add: Some default_walk.simps [of _ _ _ _ "Some x" for x] wk_view_def cls_def InMemorySaver_def saver_tuple_by_id)
  qed
next
  case (Cons c chain)
  then obtain e where cur: "cur = Some c" and e: "map_of (ns_storage s t ns) c = Some e"
    and chain: "parent_chain (ns_storage s t ns) (st_parent e) = Some chain"
    by (cases cur) (auto simp: parent_chain.simps [of _ "Some x" for x] parent_chain.simps [of _ None] split: option.splits bind_splits)
  show ?case
  proof (cases "wk_remaining w = {}")
    case True
    then show ?thesis by (simp add: cur default_walk.simps wk_view_def)
  next
    case False
    obtain tup where tup: "checkpoint_tuple loads s t ns (saver_config t ns c) c e = Inr tup"
      and pend: "sv_pending tup = Some (map (\<lambda>(key, tid, c, b, path). (tid, c, loaded loads b)) (dgetd (ms_writes s) (t, ns, c) []))"
      and vals: "\<And>ch. blob_value loads s t ns (entry_versions s t ns c) ch = Inr (map_of (channel_values (sv_checkpoint tup)) ch)"
      and par: "sv_parent_config tup = (case st_parent e of None \<Rightarrow> None | Some p \<Rightarrow> if p \<noteq> [] then Some (saver_config t ns p) else None)"
      using readable_tuple [OF assms(3) e] by blast
    have np: "st_parent e \<noteq> Some []" using assms(4) e by blast
    have holds: "default_holds tup ch = ancestor_holds loads s t ns ch c" for ch
      using assms(7) vals by (simp add: default_holds_def ancestor_holds_def pend filter_map o_def case_prod_unfold sort_key_id_if_sorted)
    let ?w = "default_step channels w tup"
    have step: "default_walk cls s channels w (map_option (saver_config t ns) cur)
        = default_walk cls s channels ?w (map_option (saver_config t ns) (st_parent e))"
      using Cons.prems(2) False np tup e
      by (auto simp: cur default_walk.simps [of _ _ _ _ "Some x" for x] cls_def InMemorySaver_def saver_tuple_by_id par split: option.split)
    have open': "wk_view ?w ch = (snd (ancestor_holds loads s t ns ch c) = None,
        dgetd (wk_collected w) ch [] @ rev (fst (ancestor_holds loads s t ns ch c)), snd (ancestor_holds loads s t ns ch c))"
      if "ch \<in> wk_remaining w" for ch
      using default_step_open [of ch w channels tup] that Cons.prems(3,4) by (auto simp: holds)
    have "\<forall>ch \<in> wk_remaining ?w. map_of (wk_seeds ?w) ch = None"
    proof
      fix ch assume "ch \<in> wk_remaining ?w"
      moreover from this have "ch \<in> wk_remaining w" by (simp add: default_step_def Let_def)
      ultimately show "map_of (wk_seeds ?w) ch = None" using open' [of ch] by (auto simp: wk_view_def)
    qed
    moreover have "wk_remaining ?w \<subseteq> set channels" using Cons.prems(4) by (auto simp: default_step_def Let_def)
    ultimately obtain w' where w': "default_walk cls s channels ?w (map_option (saver_config t ns) (st_parent e)) = Some (Inr w')"
      and view: "\<And>ch. ch \<in> set channels \<Longrightarrow> snd (wk_view w' ch) =
         (if ch \<in> wk_remaining ?w
          then (dgetd (wk_collected ?w) ch [] @ rev (fst (history_of (ancestor_holds loads s t ns ch) chain)),
                snd (history_of (ancestor_holds loads s t ns ch) chain))
          else snd (wk_view ?w ch))"
      using Cons.IH [OF chain np, of ?w] by blast
    have "snd (wk_view w' ch) =
         (if ch \<in> wk_remaining w
          then (dgetd (wk_collected w) ch [] @ rev (fst (history_of (ancestor_holds loads s t ns ch) (c # chain))),
                snd (history_of (ancestor_holds loads s t ns ch) (c # chain)))
          else snd (wk_view w ch))" if ch: "ch \<in> set channels" for ch
    proof (cases "ch \<in> wk_remaining w")
      case False
      from default_step_done [OF this] have "wk_view ?w ch = wk_view w ch" .
      with view [OF ch] False show ?thesis by (simp add: wk_view_def)
    next
      case True
      obtain ws v where a: "ancestor_holds loads s t ns ch c = (ws, v)" by fastforce
      have "v = Some x \<Longrightarrow> \<not> subsumes_writes x" for x using assms(6) ch a by (metis snd_conv)
      with view [OF ch] open' [OF True] True a show ?thesis
        by (cases v) (auto simp: wk_view_def split: prod.split)
    qed
    with w' step show ?thesis by auto
  qed
qed

text \<open>
  C31: what the saver in memory answers for the history of delta channels, with its own walk over its tables, is
  what the default of \<open>BaseCheckpointSaver\<close> computes with \<open>get_tuple\<close> alone, when everything stored can be read,
  the writes of each step are stored by task id, and no ancestor holds a plain value for a channel asked for.
\<close>

theorem default_history_agrees:
  assumes "conf_str config CONFIG_KEY_THREAD_ID = Some t" and "get_checkpoint_id config = Some cid" "cid \<noteq> []"
    and "readable loads s"
    and "\<forall>i e. map_of (ns_storage s t (conf_ns_or_root config)) i = Some e \<longrightarrow> st_parent e \<noteq> Some []"
    and "\<forall>ch \<in> set channels. \<forall>i v. blob_value loads s t (conf_ns_or_root config)
           (entry_versions s t (conf_ns_or_root config) i) ch = Inr (Some v) \<longrightarrow> \<not> subsumes_writes v"
    and "\<forall>i. sorted (map fst (dgetd (ms_writes s) (t, conf_ns_or_root config, i) []))"
    and "saver_delta_history loads s config channels = Some (Inr h)"
  shows "default_delta_history (InMemorySaver dumps loads random) s config channels = Some (Inr h)"
proof (cases "channels = []")
  case True
  then show ?thesis using assms(8) by (simp add: saver_delta_history_def default_delta_history_def)
next
  case False
  define ns where "ns = conf_ns_or_root config"
  let ?w0 = "\<lparr>wk_remaining = set channels, wk_collected = map (\<lambda>c. (c, [])) channels, wk_seeds = []\<rparr>"
  let ?start = "case map_of (ns_storage s t ns) cid of None \<Rightarrow> None | Some e \<Rightarrow> st_parent e"
  obtain chain w where chain: "parent_chain (ns_storage s t ns) ?start = Some chain"
    and w: "rfold (walk_step loads s t ns channels) ?w0 chain = Inr w"
    and h: "h = map (\<lambda>ch. (ch, \<lparr>dh_writes = rev (dgetd (wk_collected w) ch []), dh_seed = map_of (wk_seeds w) ch\<rparr>)) channels"
    using assms(1,2,8) False by (auto simp: saver_delta_history_def conf_key_def Let_def ns_def rmap_Inr_iff)
  have start: "?start \<noteq> Some []" using assms(5) by (auto simp: ns_def split: option.split)
  have plain: "\<forall>ch \<in> set channels. \<forall>i. (\<forall>v. snd (ancestor_holds loads s t ns ch i) = Some v \<longrightarrow> \<not> subsumes_writes v)"
    using assms(6) by (auto simp: ancestor_holds_def ns_def split: sum.splits)
  obtain w' where w': "default_walk (InMemorySaver dumps loads random) s channels ?w0 (map_option (saver_config t ns) ?start) = Some (Inr w')"
    and v': "\<forall>ch \<in> set channels. snd (wk_view w' ch) =
       (dgetd (map (\<lambda>c. (c, [])) channels) ch [] @ rev (fst (history_of (ancestor_holds loads s t ns ch) chain)),
        snd (history_of (ancestor_holds loads s t ns ch) chain))"
    using default_walk_chain [OF chain assms(4) _ start plain, where w = ?w0 and dumps = dumps and random = random] assms(5,7) by (auto simp: ns_def)
  have target: "\<exists>found. bs_get_tuple (InMemorySaver dumps loads random) config s = Inr found
    \<and> (case found of None \<Rightarrow> None | Some tup \<Rightarrow> sv_parent_config tup) = map_option (saver_config t ns) ?start"
  proof (cases "map_of (ns_storage s t ns) cid")
    case None
    then show ?thesis using assms(1-3) by (simp add: InMemorySaver_def saver_get_tuple_def conf_key_def Let_def ns_def)
  next
    case (Some e)
    from readable_tuple [OF assms(4) Some, of config] start Some
    show ?thesis using assms(1-3)
      by (auto simp: InMemorySaver_def saver_get_tuple_def conf_key_def Let_def ns_def [symmetric] split: option.split)
  qed
  have "dgetd (wk_collected w') ch [] = dgetd (wk_collected w) ch [] \<and> map_of (wk_seeds w') ch = map_of (wk_seeds w) ch"
    if ch: "ch \<in> set channels" for ch
    using walk_view [OF w ch] v' ch by (simp add: wk_view_def)
  then show ?thesis using target w' False h by (auto simp: default_delta_history_def)
qed

definition ordered_saver :: memory_saver where
  "ordered_saver = example_saver\<lparr>ms_writes := [((''t'', [], ''1''),
      [((''a'', 0), (''a'', ''d'', (''msgpack'', ''y''), [])), ((''z'', 0), (''z'', ''d'', (''msgpack'', ''x''), []))])]\<rparr>"

lemma default_history_agrees_witness:
  "default_delta_history (InMemorySaver (JsonPlus_dumps_typed example_codec) (JsonPlus_loads_typed example_codec) []) ordered_saver
     (saver_config ''t'' [] ''2'') [''d'']
   = Some (Inr [(''d'', \<lparr>dh_writes = [(''a'', ''d'', VStr ''y''), (''z'', ''d'', VStr ''x'')], dh_seed = None\<rparr>)])"
proof (rule default_history_agrees [where t = "''t''" and cid = "''2''"])
  let ?s = ordered_saver
  have ns: "ns_storage ?s ''t'' [] = ns_storage example_saver ''t'' []"
    by (simp add: ns_storage_def ordered_saver_def)
  have root: "conf_ns_or_root (saver_config ''t'' [] ''2'') = []" by (simp add: conf_ns_or_root_def)
  show "readable (JsonPlus_loads_typed example_codec) ?s"
    by (auto simp: readable_def ordered_saver_def example_saver_def ns_storage_def dgetd_def JsonPlus_loads_typed_def
        example_codec_def example_cp_def dict_ok_def split: if_splits)
  show "\<forall>i e. map_of (ns_storage ?s ''t'' (conf_ns_or_root (saver_config ''t'' [] ''2''))) i = Some e \<longrightarrow> st_parent e \<noteq> Some []"
    unfolding root ns by (auto simp: example_saver_def ns_storage_def dgetd_def example_cp_def split: if_splits)
  show "\<forall>i. sorted (map fst (dgetd (ms_writes ?s) (''t'', conf_ns_or_root (saver_config ''t'' [] ''2''), i) []))"
    unfolding root by (auto simp: ordered_saver_def dgetd_def less_eq_prod_def less_char_def)
  show "\<forall>ch \<in> set [''d'']. \<forall>i v. blob_value (JsonPlus_loads_typed example_codec) ?s ''t'' (conf_ns_or_root (saver_config ''t'' [] ''2''))
      (entry_versions ?s ''t'' (conf_ns_or_root (saver_config ''t'' [] ''2'')) i) ch = Inr (Some v) \<longrightarrow> \<not> subsumes_writes v"
    by (simp add: blob_value_def ordered_saver_def example_saver_def split: option.split)
  show "saver_delta_history (JsonPlus_loads_typed example_codec) ?s (saver_config ''t'' [] ''2'') [''d'']
     = Some (Inr [(''d'', \<lparr>dh_writes = [(''a'', ''d'', VStr ''y''), (''z'', ''d'', VStr ''x'')], dh_seed = None\<rparr>)])"
  proof -
    have c: "parent_chain (ns_storage ?s ''t'' []) (Some ''1'') = Some [''1'']"
      unfolding ns by (simp add: parent_chain.simps ns_storage_def example_saver_def example_cp_def dgetd_def)
    have e: "map_of (ns_storage ?s ''t'' []) ''2'' = Some (new_entry (put_config ''t'' [] (Some (example_cp ''1'' 1 ''x''))) (example_cp ''2'' 1 ''x'') example_meta)"
      unfolding ns by (simp add: ns_storage_def example_saver_def dgetd_def)
    have w: "rmap (\<lambda>w. map (\<lambda>ch. (ch, \<lparr>dh_writes = rev (dgetd (wk_collected w) ch []), dh_seed = map_of (wk_seeds w) ch\<rparr>)) [''d''])
        (rfold (walk_step (JsonPlus_loads_typed example_codec) ?s ''t'' [] [''d''])
          \<lparr>wk_remaining = set [''d''], wk_collected = map (\<lambda>c. (c, [])) [''d''], wk_seeds = []\<rparr> [''1''])
      = Inr [(''d'', \<lparr>dh_writes = [(''a'', ''d'', VStr ''y''), (''z'', ''d'', VStr ''x'')], dh_seed = None\<rparr>)]"
      by code_simp
    show ?thesis
      unfolding saver_delta_history_def conf_key_def saver_config_simps root get_checkpoint_id_def Let_def
      using w by (simp add: e c example_cp_def)
  qed
qed (simp_all add: get_checkpoint_id_def)
subsection \<open>Replays\<close>

lemma concat_one:
  "dict_ok nss \<Longrightarrow> f ns [] = [] \<Longrightarrow>
   concat (map (\<lambda>(n, c). if ns \<noteq> n then [] else f n c) nss) = f ns (dgetd nss ns [])"
proof (induction nss)
  case (Cons x nss)
  obtain n c where x: "x = (n, c)" by fastforce
  have d: "dict_ok nss" using Cons.prems(1) by (simp add: dict_ok_def)
  show ?case
  proof (cases "n = ns")
    case True
    then have "map_of nss ns = None" using Cons.prems(1) x by (simp add: dict_ok_def map_of_eq_None_iff)
    with True x Cons.IH [OF d Cons.prems(2)] show ?thesis by (simp add: dgetd_def Cons.prems(2))
  next
    case False
    with x Cons.IH [OF d Cons.prems(2)] show ?thesis by (simp add: dgetd_def)
  qed
qed (simp add: dgetd_def)

lemma newest_below:
  fixes d :: "(string, 'e) dict"
  assumes "dict_ok d" and "filter (\<lambda>e. fst e < i) (rev (sort_key fst d)) = xs"
  shows "(xs = [] \<longleftrightarrow> {k \<in> fst ` set d. k < i} = {})
    \<and> (\<forall>x ys. xs = x # ys \<longrightarrow> fst x = Max {k \<in> fst ` set d. k < i} \<and> map_of d (fst x) = Some (snd x))"
proof -
  have "set xs = {e \<in> set d. fst e < i}" using assms(2) by auto
  then have keys: "{k \<in> fst ` set d. k < i} = fst ` set xs" by auto
  have "sorted (map fst (rev xs))"
    using assms(2) by (auto simp: rev_filter [symmetric] sorted_filter)
  then have "x' \<in> set ys \<Longrightarrow> fst x' \<le> fst x" if "xs = x # ys" for x ys x'
    using that by (auto simp: sorted_append)
  moreover have "map_of d (fst x) = Some (snd x)" if "xs = x # ys" for x ys
  proof -
    have "x \<in> set (filter (\<lambda>e. fst e < i) (rev (sort_key fst d)))" using that assms(2) by simp
    then have "x \<in> set d" by simp
    then show ?thesis using assms(1) by (metis dict_ok_def map_of_is_SomeI prod.collapse)
  qed
  ultimately show ?thesis unfolding keys by (auto intro!: Max_eqI [symmetric])
qed

text \<open>
  C32: on a replay, a subgraph is first restored from its newest checkpoint from before the point of the replay, or
  starts afresh when it has none; when it is entered again, by whatever task, from its latest one.
\<close>

theorem replay_reads_before:
  fixes dumps loads random s t ns rs
  defines "cls \<equiv> InMemorySaver dumps loads random"
    and "cps \<equiv> ns_storage s t ns"
    and "earlier \<equiv> {i \<in> fst ` set (ns_storage s t ns). i < rs_checkpoint_id rs}"
  assumes "conf_str config CONFIG_KEY_THREAD_ID = Some t" "conf_str config CONFIG_KEY_CHECKPOINT_NS = Some ns"
    and "get_checkpoint_id config = None" and "rs_checkpoint_id rs \<noteq> []" and "stable_ns v \<notin> rs_visited rs"
    and "dict_ok (dgetd (ms_storage s) t [])" "dict_ok cps"
    and "replay_get_checkpoint cls s rs v config = (found, rs')"
  shows "found = (if earlier = {} then Inr None
      else rmap Some (checkpoint_tuple loads s t ns (saver_config t ns (Max earlier)) (Max earlier) (the (map_of cps (Max earlier)))))
    \<and> (stable_ns w = stable_ns v \<longrightarrow> replay_get_checkpoint cls s' rs' w config = (saver_get_tuple loads s' config, rs'))"
proof -
  let ?i = "rs_checkpoint_id rs"
  have rs': "rs' = rs\<lparr>rs_visited := insert (stable_ns v) (rs_visited rs)\<rparr>"
    using assms(8,11) by (simp add: replay_get_checkpoint_def is_first_visit_def)
  have "list_matches None None (Some (before_config ?i)) = (\<lambda>e. fst e < ?i)"
    using assms(7) by (auto simp: list_matches_def before_config_def get_checkpoint_id_def conf_str_def conf_of_def empty_config_def)
  then have entries: "list_entries s (Some config) None (Some (before_config ?i)) (Some 1)
      = Inr (take 1 (map (\<lambda>(cid, e). (t, ns, cid, e)) (filter (\<lambda>e. fst e < ?i) (rev (sort_key fst cps)))))"
    using concat_one [OF assms(9), of "\<lambda>n c. map (\<lambda>(cid, e). (t, n, cid, e)) (filter (\<lambda>e. fst e < ?i) (rev (sort_key fst c)))" ns]
      assms(4-6)
    by (simp add: list_entries_def conf_key_def Let_def cps_def ns_storage_def cong: if_cong)
  obtain xs where xs: "filter (\<lambda>e. fst e < ?i) (rev (sort_key fst cps)) = xs" by blast
  note nb = newest_below [OF assms(10) xs]
  have "found = (if earlier = {} then Inr None
      else rmap Some (checkpoint_tuple loads s t ns (saver_config t ns (Max earlier)) (Max earlier) (the (map_of cps (Max earlier)))))"
  proof (cases xs)
    case Nil
    then show ?thesis using assms(8,11) nb entries xs
      by (auto simp: replay_get_checkpoint_def is_first_visit_def cls_def InMemorySaver_def saver_list_def earlier_def cps_def)
  next
    case (Cons x ys)
    then have "earlier \<noteq> {}" "fst x = Max earlier" "map_of cps (Max earlier) = Some (snd x)"
      using nb by (auto simp: earlier_def cps_def)
    with Cons assms(8,11) entries xs show ?thesis
      by (cases x) (auto simp: replay_get_checkpoint_def is_first_visit_def cls_def InMemorySaver_def saver_list_def rmap_def rbind_def
          split: sum.splits)
  qed
  moreover have "replay_get_checkpoint cls s' rs' w config = (saver_get_tuple loads s' config, rs')" if "stable_ns w = stable_ns v"
    using that by (simp add: replay_get_checkpoint_def is_first_visit_def rs' cls_def InMemorySaver_def)
  ultimately show ?thesis by blast
qed

lemma replay_reads_before_witness:
  "replay_get_checkpoint (InMemorySaver (JsonPlus_dumps_typed example_codec) (JsonPlus_loads_typed example_codec) []) example_saver
     \<lparr>rs_checkpoint_id = ''2'', rs_visited = {}\<rparr> ''sub:1'' (put_config ''t'' [] None)
   = (rmap Some (checkpoint_tuple (JsonPlus_loads_typed example_codec) example_saver ''t'' [] (saver_config ''t'' [] ''1'') ''1''
        (new_entry (put_config ''t'' [] None) (example_cp ''1'' 1 ''x'') example_meta)),
      \<lparr>rs_checkpoint_id = ''2'', rs_visited = {''sub''}\<rparr>)"
proof -
  let ?rs = "\<lparr>rs_checkpoint_id = ''2'', rs_visited = {}\<rparr>"
  let ?cls = "InMemorySaver (JsonPlus_dumps_typed example_codec) (JsonPlus_loads_typed example_codec) []"
  have cps: "ns_storage example_saver ''t'' [] = [(''1'', new_entry (put_config ''t'' [] None) (example_cp ''1'' 1 ''x'') example_meta),
         (''2'', new_entry (put_config ''t'' [] (Some (example_cp ''1'' 1 ''x''))) (example_cp ''2'' 1 ''x'') example_meta)]"
    by (simp add: ns_storage_def example_saver_def dgetd_def)
  have sub: "stable_ns ''sub:1'' = ''sub''" by (simp add: stable_ns_def)
  obtain found rs' where r: "replay_get_checkpoint ?cls example_saver ?rs ''sub:1'' (put_config ''t'' [] None) = (found, rs')" by fastforce
  then have "rs' = \<lparr>rs_checkpoint_id = ''2'', rs_visited = {''sub''}\<rparr>"
    by (simp add: replay_get_checkpoint_def is_first_visit_def sub)
  moreover have e: "{i \<in> fst ` set (ns_storage example_saver ''t'' []). i < rs_checkpoint_id ?rs} = {''1''}"
    unfolding cps by (auto simp: less_char_def)
  have "found = rmap Some (checkpoint_tuple (JsonPlus_loads_typed example_codec) example_saver ''t'' [] (saver_config ''t'' [] ''1'') ''1''
        (new_entry (put_config ''t'' [] None) (example_cp ''1'' 1 ''x'') example_meta))"
    using replay_reads_before [where ns = "[]" and t = "''t''" and config = "put_config ''t'' [] None" and rs = ?rs and v = "''sub:1''", OF _ _ _ _ _ _ _ r]
    unfolding e by (simp add: cps get_checkpoint_id_def dict_ok_def) (simp add: example_saver_def dgetd_def)
  ultimately show ?thesis using r by simp
qed

end
