(* ===== verification/Graph_Migrate.thy ===== *)
theory Graph_Migrate
  imports Graph_Compile Pregel_Prepare Pregel_State
begin

section \<open>Migrating checkpoints\<close>

text \<open>
  \<open>_migrate_checkpoint\<close> of \<open>Pregel\<close> and of \<open>CompiledStateGraph\<close> (\<open>graph/state.py\<close>): checkpoints that
  older versions saved, with other channels for the edges, are brought to the channels \<open>branch:to:<node>\<close> of
  today. The field \<open>pending_sends\<close>, which only old checkpoints have, is passed beside the checkpoint. The order
  in which the set of edges is iterated is that of the list of edges.
\<close>

subsection \<open>Operations\<close>

definition Pregel_migrate :: "pyval list option \<Rightarrow> checkpoint \<Rightarrow> checkpoint res" where
  "Pregel_migrate old_sends cp =
     (case old_sends of
        Some (s # sends) \<Rightarrow>
          if cp_v cp < 4 then
            (case max_version (channel_versions cp) of
               None \<Rightarrow> Inl (ValueError ''max() arg is an empty sequence'')
             | Some v \<Rightarrow> Inr (cp\<lparr>channel_values := dset TASKS (VList (s # sends)) (channel_values cp),
                                 channel_versions := dset TASKS v (channel_versions cp)\<rparr>))
          else Inr cp
      | _ \<Rightarrow> Inr cp)"

record migration =
  mg_values :: "(string, pyval) dict"
  mg_versions :: versions
  mg_seen :: "(string, versions) dict"

text \<open>An entry moved to another key, where the greater of two is kept.\<close>

definition move_version :: "string \<Rightarrow> string \<Rightarrow> versions \<Rightarrow> versions" where
  "move_version k new_k ss =
     (case map_of ss k of
        None \<Rightarrow> ss
      | Some s \<Rightarrow>
          let ss = ddel k ss in
          dset new_k (case map_of ss new_k of None \<Rightarrow> s | Some v \<Rightarrow> max s v) ss)"

definition alter_seen :: "string \<Rightarrow> (versions \<Rightarrow> versions) \<Rightarrow> (string, versions) dict \<Rightarrow> (string, versions) dict" where
  "alter_seen n f seen = (case map_of seen n of None \<Rightarrow> seen | Some ss \<Rightarrow> dset n (f ss) seen)"

definition move_key :: "string \<Rightarrow> string \<Rightarrow> migration \<Rightarrow> migration" where
  "move_key node k m =
     (let new_k = branch_to node; vals = mg_values m in
      m\<lparr>mg_seen := alter_seen INTERRUPT (move_version k new_k) (alter_seen node (move_version k new_k) (mg_seen m)),
        mg_values := (case map_of vals k of
                        Some c \<Rightarrow> if dmem new_k vals then vals else dset new_k c (ddel k vals)
                      | None \<Rightarrow> vals),
        mg_versions := move_version k new_k (mg_versions m)\<rparr>)"

text \<open>The old keys: \<open>start:<node>\<close>, and \<open>branch:<source>:<condition>:<node>\<close>.\<close>

definition start_key_node :: "string \<Rightarrow> string option" where
  "start_key_node k = (if starts_with ''start:'' k then Some (split_on (CHR '':'') k ! 1) else None)"

definition branch_key_node :: "string \<Rightarrow> string option" where
  "branch_key_node k =
     (if starts_with ''branch:'' k \<and> length (filter (\<lambda>c. c = CHR '':'') k) = 3
      then Some (last (split_on (CHR '':'') k)) else None)"

definition move_keys :: "string list \<Rightarrow> (string \<Rightarrow> string option) \<Rightarrow> migration \<Rightarrow> migration" where
  "move_keys nodes node_of m =
     foldl (\<lambda>m k. case node_of k of
                    None \<Rightarrow> m
                  | Some node \<Rightarrow> if node \<in> set nodes then move_key node k m else m)
       m (dkeys (mg_versions m))"

text \<open>A channel named like a node: its version, and its value if there was one, go to every successor.\<close>

definition move_to :: "string \<Rightarrow> version \<Rightarrow> pyval option \<Rightarrow> migration \<Rightarrow> string \<Rightarrow> migration" where
  "move_to k v c m target =
     (let new_k = branch_to target; vs = mg_versions m; vals = mg_values m in
      m\<lparr>mg_seen := alter_seen INTERRUPT (move_version k new_k) (alter_seen target (move_version k new_k) (mg_seen m)),
        mg_values := (case c of Some x \<Rightarrow> if dmem new_k vals then vals else dset new_k x vals | None \<Rightarrow> vals),
        mg_versions := dset new_k (case map_of vs new_k of None \<Rightarrow> v | Some w \<Rightarrow> max w v) vs\<rparr>)"

definition move_node :: "string list \<Rightarrow> (string \<times> string) list \<Rightarrow> migration \<Rightarrow> string \<Rightarrow> migration" where
  "move_node nodes edges m k =
     (if k = START \<or> k \<notin> set nodes then m
      else case map_of (mg_versions m) k of
             None \<Rightarrow> m
           | Some v \<Rightarrow>
               let m' = m\<lparr>mg_versions := ddel k (mg_versions m), mg_values := ddel k (mg_values m)\<rparr>;
                   targets = map snd (filter (\<lambda>(s, t). s = k \<and> s \<noteq> START \<and> t \<noteq> END_NODE) edges);
                   m' = foldl (move_to k v (map_of (mg_values m) k)) m' targets
               in m'\<lparr>mg_seen := alter_seen INTERRUPT (ddel k) (mg_seen m')\<rparr>)"

definition migrate_checkpoint :: "string list \<Rightarrow> (string \<times> string) list \<Rightarrow> pyval list option \<Rightarrow> checkpoint \<Rightarrow> checkpoint res" where
  "migrate_checkpoint nodes edges old_sends cp =
     rmap (\<lambda>cp.
        if channel_versions cp = [] \<or> cp_v cp \<ge> 3 then cp
        else
          let m = \<lparr>mg_values = channel_values cp, mg_versions = channel_versions cp, mg_seen = versions_seen cp\<rparr>;
              m = move_keys nodes branch_key_node (move_keys nodes start_key_node m);
              m = (if \<exists>n \<in> set nodes. dmem n (mg_versions m) then foldl (move_node nodes edges) m (dkeys (mg_versions m)) else m)
          in cp\<lparr>channel_values := mg_values m, channel_versions := mg_versions m, versions_seen := mg_seen m\<rparr>)
       (Pregel_migrate old_sends cp)"

subsection \<open>The triggers of a node\<close>

definition trigger_of :: "string \<Rightarrow> string \<Rightarrow> bool" where
  "trigger_of n k \<longleftrightarrow> k = branch_to n \<or> start_key_node k = Some n \<or> branch_key_node k = Some n"

text \<open>The greatest version among the triggers of a node.\<close>

definition newest :: "string \<Rightarrow> versions \<Rightarrow> version option \<Rightarrow> bool" where
  "newest n vs v \<longleftrightarrow>
     (case v of
        None \<Rightarrow> \<forall>k. trigger_of n k \<longrightarrow> map_of vs k = None
      | Some w \<Rightarrow> (\<exists>k. trigger_of n k \<and> map_of vs k = Some w) \<and> (\<forall>k u. trigger_of n k \<longrightarrow> map_of vs k = Some u \<longrightarrow> u \<le> w))"

lemma newest_exists: "\<exists>v. newest n vs v"
proof (cases "\<exists>k. trigger_of n k \<and> map_of vs k \<noteq> None")
  case True
  let ?S = "{v. \<exists>k. trigger_of n k \<and> map_of vs k = Some v}"
  have "?S \<subseteq> snd ` set vs" by (force dest: map_of_SomeD)
  then have f: "finite ?S" by (rule finite_subset) simp
  moreover have "?S \<noteq> {}" using True by auto
  ultimately have "newest n vs (Some (Max ?S))"
  proof -
    have "u \<le> Max ?S" if "trigger_of n k" "map_of vs k = Some u" for k u
      using that by (intro Max_ge [OF f]) blast
    moreover have "Max ?S \<in> ?S" using f \<open>?S \<noteq> {}\<close> by (rule Max_in)
    ultimately show ?thesis by (auto simp: newest_def)
  qed
  then show ?thesis by blast
qed (auto simp: newest_def intro: exI [of _ None])

lemma move_version_newest:
  assumes "newest n vs v" and "trigger_of n k" and "k \<noteq> branch_to n"
  shows "newest n (move_version k (branch_to n) vs) v"
proof (cases "map_of vs k")
  case None
  with assms show ?thesis by (simp add: move_version_def)
next
  case (Some s)
  have t: "trigger_of n (branch_to n)" by (simp add: trigger_of_def)
  obtain w where v: "v = Some w" using assms(1,2) Some by (cases v) (auto simp: newest_def)
  have le: "u \<le> w" if "trigger_of n j" "map_of vs j = Some u" for j u
    using assms(1) that by (auto simp: newest_def v)
  obtain j where j: "trigger_of n j" "map_of vs j = Some w" using assms(1) by (auto simp: newest_def v)
  define x where "x = (case map_of vs (branch_to n) of None \<Rightarrow> s | Some u \<Rightarrow> max s u)"
  have m: "map_of (move_version k (branch_to n) vs) i = (if i = branch_to n then Some x else if i = k then None else map_of vs i)" for i
    using assms(3) Some by (simp add: move_version_def Let_def x_def)
  have x: "x \<le> w" using le [OF assms(2) Some] le [OF t] by (auto simp: x_def split: option.split)
  have "j = branch_to n \<or> j = k \<Longrightarrow> x = w" using j(2) Some x by (auto simp: x_def split: option.splits)
  then have "\<exists>i. trigger_of n i \<and> map_of (move_version k (branch_to n) vs) i = Some w"
    using t j by (cases "j = branch_to n \<or> j = k") (auto simp: m)
  moreover have "u \<le> w" if "trigger_of n i" "map_of (move_version k (branch_to n) vs) i = Some u" for i u
    using that x le by (auto simp: m split: if_splits)
  ultimately show ?thesis by (auto simp: newest_def v)
qed

lemma move_version_other:
  assumes "\<not> trigger_of n k" and "\<not> trigger_of n new_k"
  shows "newest n (move_version k new_k vs) v = newest n vs v"
proof -
  have "trigger_of n j \<Longrightarrow> map_of (move_version k new_k vs) j = map_of vs j" for j
    using assms by (auto simp: move_version_def Let_def split: option.split)
  then show ?thesis by (auto simp: newest_def split: option.split)
qed

lemma trigger_unique:
  assumes "CHR '':'' \<notin> set n" and "start_key_node k = Some m \<or> branch_key_node k = Some m" and "trigger_of n k"
  shows "m = n \<and> k \<noteq> branch_to n"
proof -
  have "length (filter (\<lambda>c. c = CHR '':'') (branch_to n)) = 2"
  proof -
    have "filter (\<lambda>c. c = CHR '':'') n = []" using assms(1) by (auto simp: filter_empty_conv)
    then show ?thesis by (simp add: branch_to_def)
  qed
  then have b: "branch_key_node (branch_to n) = None" by (simp add: branch_key_node_def)
  have s: "start_key_node (branch_to n) = None" by (simp add: start_key_node_def branch_to_def starts_with_def)
  have excl: "start_key_node k = None \<or> branch_key_node k = None"
    by (cases k) (auto simp: start_key_node_def branch_key_node_def starts_with_def)
  show ?thesis using assms(2,3) b s excl by (auto simp: trigger_of_def)
qed

lemma branch_to_unique: "trigger_of n (branch_to m) \<Longrightarrow> CHR '':'' \<notin> set m \<Longrightarrow> m = n"
proof -
  assume t: "trigger_of n (branch_to m)" and m: "CHR '':'' \<notin> set m"
  have "filter (\<lambda>c. c = CHR '':'') m = []" using m by (auto simp: filter_empty_conv)
  then have "branch_key_node (branch_to m) = None" by (simp add: branch_key_node_def branch_to_def)
  moreover have "start_key_node (branch_to m) = None" by (simp add: start_key_node_def branch_to_def starts_with_def)
  ultimately show ?thesis using t by (simp add: trigger_of_def) (simp add: branch_to_def)
qed

text \<open>What a node sees of a migration: the newest of its triggers stays, and moved keys are gone.\<close>

definition kept :: "string \<Rightarrow> versions \<Rightarrow> versions \<Rightarrow> bool" where
  "kept n vs vs' \<longleftrightarrow> (\<forall>v. newest n vs v \<longrightarrow> newest n vs' v)"

lemma kept_refl [simp]: "kept n vs vs"
  by (simp add: kept_def)

lemma kept_trans: "kept n a b \<Longrightarrow> kept n b c \<Longrightarrow> kept n a c"
  by (simp add: kept_def)

lemma map_of_move: "trigger_of n j \<Longrightarrow> j \<noteq> branch_to m \<Longrightarrow> map_of (move_version k (branch_to m) vs) j = (if j = k then None else map_of vs j)"
  by (auto simp: move_version_def Let_def split: option.split)

lemma map_of_alter: "map_of (alter_seen m f seen) n = (if n = m then map_option f (map_of seen m) else map_of seen n)"
  by (auto simp: alter_seen_def split: option.split)

definition move_step :: "string list \<Rightarrow> (string \<Rightarrow> string option) \<Rightarrow> migration \<Rightarrow> string \<Rightarrow> migration" where
  "move_step nodes node_of m k =
     (case node_of k of None \<Rightarrow> m | Some node \<Rightarrow> if node \<in> set nodes then move_key node k m else m)"

lemma move_step_view:
  fixes m k
  assumes nodes: "\<forall>x \<in> set nodes. CHR '':'' \<notin> set x" "n \<in> set nodes" "n \<noteq> INTERRUPT"
    and of: "node_of = start_key_node \<or> node_of = branch_key_node"
  defines "m' \<equiv> move_step nodes node_of m k"
  shows "kept n (mg_versions m) (mg_versions m')
    \<and> (\<forall>j. trigger_of n j \<longrightarrow> j \<noteq> branch_to n \<longrightarrow>
         map_of (mg_versions m') j = (if j = k \<and> node_of k = Some n then None else map_of (mg_versions m) j))
    \<and> (map_of (mg_seen m) n = None \<longleftrightarrow> map_of (mg_seen m') n = None)
    \<and> (\<forall>ss. map_of (mg_seen m) n = Some ss \<longrightarrow> (\<exists>ss'. map_of (mg_seen m') n = Some ss' \<and> kept n ss ss'
        \<and> (\<forall>j. trigger_of n j \<longrightarrow> j \<noteq> branch_to n \<longrightarrow>
             map_of ss' j = (if j = k \<and> node_of k = Some n then None else map_of ss j))))"
proof (cases "node_of k = Some n")
  case True
  then have t: "trigger_of n k" using of by (auto simp: trigger_of_def)
  have ne: "k \<noteq> branch_to n" using trigger_unique [of n k n] nodes t True of by blast
  have m': "m' = move_key n k m" using True nodes(2) by (simp add: m'_def move_step_def)
  have kv: "kept n vs (move_version k (branch_to n) vs)" for vs
    using move_version_newest [OF _ t ne] by (simp add: kept_def)
  show ?thesis
    using kv nodes(3) True by (auto simp: m' move_key_def Let_def map_of_alter map_of_move)
next
  case False
  show ?thesis
  proof (cases "\<exists>x. node_of k = Some x \<and> x \<in> set nodes")
    case False
    then have "m' = m" by (auto simp: m'_def move_step_def split: option.split)
    then show ?thesis using \<open>node_of k \<noteq> Some n\<close> by simp
  next
    case True
    then obtain x where x: "node_of k = Some x" "x \<in> set nodes" by blast
    then have m': "m' = move_key x k m" by (simp add: m'_def move_step_def)
    have xn: "x \<noteq> n" using x(1) False by auto
    have k: "\<not> trigger_of n k" using trigger_unique [of n k x] nodes x(1) of xn by blast
    have b: "\<not> trigger_of n (branch_to x)" using branch_to_unique nodes(1) x(2) xn by blast
    have "map_of (move_version k (branch_to x) vs) j = map_of vs j" if "trigger_of n j" for j vs
    proof -
      have "j \<noteq> k" "j \<noteq> branch_to x" using that k b by metis+
      then show ?thesis using that by (simp add: map_of_move)
    qed
    moreover have "kept n vs (move_version k (branch_to x) vs)" for vs
      using move_version_other [OF k b] by (simp add: kept_def)
    ultimately show ?thesis using nodes(3) xn False by (auto simp: m' move_key_def Let_def map_of_alter)
  qed
qed

lemma move_steps_view:
  fixes m ks
  assumes nodes: "\<forall>x \<in> set nodes. CHR '':'' \<notin> set x" "n \<in> set nodes" "n \<noteq> INTERRUPT"
    and of: "node_of = start_key_node \<or> node_of = branch_key_node"
  defines "m' \<equiv> foldl (move_step nodes node_of) m ks"
  shows "kept n (mg_versions m) (mg_versions m')
    \<and> (\<forall>j. trigger_of n j \<longrightarrow> j \<noteq> branch_to n \<longrightarrow>
         map_of (mg_versions m') j = (if j \<in> set ks \<and> node_of j = Some n then None else map_of (mg_versions m) j))
    \<and> (map_of (mg_seen m) n = None \<longleftrightarrow> map_of (mg_seen m') n = None)
    \<and> (\<forall>ss. map_of (mg_seen m) n = Some ss \<longrightarrow> (\<exists>ss'. map_of (mg_seen m') n = Some ss' \<and> kept n ss ss'
        \<and> (\<forall>j. trigger_of n j \<longrightarrow> j \<noteq> branch_to n \<longrightarrow>
             map_of ss' j = (if j \<in> set ks \<and> node_of j = Some n then None else map_of ss j))))"
  unfolding m'_def
proof (induction ks arbitrary: m)
  case (Cons k ks)
  let ?m = "move_step nodes node_of m k"
  note one = move_step_view [OF nodes of, of m k]
  note ih = Cons.IH [of ?m]
  show ?case
  proof (intro conjI allI impI)
    show "kept n (mg_versions m) (mg_versions (foldl (move_step nodes node_of) m (k # ks)))"
      using one ih by (auto intro: kept_trans)
    show "map_of (mg_versions (foldl (move_step nodes node_of) m (k # ks))) j
        = (if j \<in> set (k # ks) \<and> node_of j = Some n then None else map_of (mg_versions m) j)"
      if "trigger_of n j" "j \<noteq> branch_to n" for j
      using one ih that by auto
    show "(map_of (mg_seen m) n = None) = (map_of (mg_seen (foldl (move_step nodes node_of) m (k # ks))) n = None)"
      using one ih by simp
    fix ss assume "map_of (mg_seen m) n = Some ss"
    then obtain s1 where s1: "map_of (mg_seen ?m) n = Some s1" "kept n ss s1"
      "\<And>j. trigger_of n j \<Longrightarrow> j \<noteq> branch_to n \<Longrightarrow> map_of s1 j = (if j = k \<and> node_of k = Some n then None else map_of ss j)"
      using one by blast
    then obtain s2 where s2: "map_of (mg_seen (foldl (move_step nodes node_of) ?m ks)) n = Some s2" "kept n s1 s2"
      "\<And>j. trigger_of n j \<Longrightarrow> j \<noteq> branch_to n \<Longrightarrow> map_of s2 j = (if j \<in> set ks \<and> node_of j = Some n then None else map_of s1 j)"
      using ih by blast
    show "\<exists>ss'. map_of (mg_seen (foldl (move_step nodes node_of) m (k # ks))) n = Some ss' \<and> kept n ss ss'
        \<and> (\<forall>j. trigger_of n j \<longrightarrow> j \<noteq> branch_to n \<longrightarrow>
             map_of ss' j = (if j \<in> set (k # ks) \<and> node_of j = Some n then None else map_of ss j))"
      using s1 s2 kept_trans [OF s1(2) s2(2)] by (intro exI [of _ s2]) auto
  qed
qed simp

subsection \<open>A migrated checkpoint triggers the same nodes\<close>

text \<open>
  How a run leaves versions: when a node ran, at \<open>T\<close>, it saw the versions of all its triggers, and what was
  written to them later is newer.
\<close>

definition seen_together :: "string \<Rightarrow> versions \<Rightarrow> versions \<Rightarrow> bool" where
  "seen_together n vs ss \<longleftrightarrow>
     (\<exists>T. \<forall>k. trigger_of n k \<longrightarrow>
        (case map_of ss k of
           None \<Rightarrow> (\<forall>v. map_of vs k = Some v \<longrightarrow> T < v)
         | Some s \<Rightarrow> s \<le> T \<and> (\<exists>v. map_of vs k = Some v \<and> (v = s \<or> T < v))))"

lemma move_keys_steps: "move_keys nodes node_of m = foldl (move_step nodes node_of) m (dkeys (mg_versions m))"
  by (simp add: move_keys_def move_step_def [abs_def])

lemma no_node_keys:
  assumes "\<forall>n \<in> set nodes. n \<noteq> START \<longrightarrow> map_of (mg_versions m) n = None"
  shows "foldl (move_node nodes edges) m ks = m"
proof -
  have "move_node nodes edges m k = m" for k
    using assms by (auto simp: move_node_def)
  then show ?thesis by (induction ks) auto
qed

lemma only_branch:
  assumes "newest n vs v" and "\<forall>k. trigger_of n k \<longrightarrow> k \<noteq> branch_to n \<longrightarrow> map_of vs k = None"
  shows "map_of vs (branch_to n) = v"
proof -
  have "trigger_of n (branch_to n)" by (simp add: trigger_of_def)
  show ?thesis
  proof (cases v)
    case None
    then show ?thesis using assms(1) \<open>trigger_of n (branch_to n)\<close> by (simp add: newest_def)
  next
    case (Some w)
    then obtain k where "trigger_of n k" "map_of vs k = Some w" using assms(1) by (auto simp: newest_def)
    moreover from this have "k = branch_to n" using assms(2) by (metis option.distinct(1))
    ultimately show ?thesis using Some by simp
  qed
qed

lemma move_keys_versions:
  assumes "\<forall>x \<in> set nodes. CHR '':'' \<notin> set x" "k \<in> set nodes" "k \<noteq> START"
    and "map_of (mg_versions m) k = None" and "node_of = start_key_node \<or> node_of = branch_key_node"
  shows "map_of (mg_versions (move_keys nodes node_of m)) k = None"
proof -
  have b: "k \<noteq> branch_to x" for x using assms(1,2) by (auto simp: branch_to_def)
  have "map_of (mg_versions (foldl (move_step nodes node_of) m ks)) k = None" for ks
    using assms(4)
  proof (induction ks arbitrary: m)
    case (Cons j ks)
    have "map_of (mg_versions (move_step nodes node_of m j)) k = None"
      using Cons.prems b by (auto simp: move_step_def move_key_def Let_def move_version_def split: option.split)
    with Cons.IH show ?case by simp
  qed simp
  then show ?thesis by (simp add: move_keys_steps)
qed


definition old_checkpoint :: checkpoint where
  "old_checkpoint =
     \<lparr>cp_v = 1, cp_id = ''1'', cp_ts = [], channel_values = [],
      channel_versions = [(''start:n'', IntV 1), (''branch:a:c:n'', IntV 3)],
      versions_seen = [(''n'', [(''start:n'', IntV 1)])], cp_updated_channels = None\<rparr>"


subsection \<open>A node with two successors\<close>

text \<open>
  When a channel is named like its node, what the last interrupt saw of it is moved to the first successor only: the
  others are new to the next look at interrupts, although their version is the one seen before.
\<close>

lemma interrupt_seen_lost:
  "rmap (\<lambda>cp. (channel_versions cp, versions_seen cp))
     (migrate_checkpoint [START, ''a'', ''b'', ''c''] [(''a'', ''b''), (''a'', ''c'')] None
        \<lparr>cp_v = 1, cp_id = ''1'', cp_ts = [], channel_values = [], channel_versions = [(''a'', IntV 4)],
         versions_seen = [(INTERRUPT, [(''a'', IntV 4)])], cp_updated_channels = None\<rparr>)
   = Inr ([(''branch:to:b'', IntV 4), (''branch:to:c'', IntV 4)], [(INTERRUPT, [(''branch:to:b'', IntV 4)])])"
  by code_simp

end
