(* ===== verification/Spec2Isabelle.thy ===== *)
theory Spec2Isabelle
  imports Pregel_Validate Loop_Props Pregel_Run Saver_Props Graph_Message Graph_Accept
    Store_Index Cache_Memory SDK_Http SDK_Subscription Update_Props Fork_Props Subgraph_Props
    Id_Props Default_Props Graph_Migrate
begin

text \<open>
  A model of LangGraph: graphs of nodes that read and write channels, run step by step in the way of
  Pregel, their state saved with a checkpointer after every step. Paths are below
  \<open>src/libs/langgraph/langgraph\<close> (\<open>channels\<close>, \<open>pregel\<close>, \<open>graph\<close>), \<open>src/libs/checkpoint/langgraph\<close>
  (\<open>checkpoint\<close>, \<open>store\<close>, \<open>cache\<close>) or \<open>src/libs/sdk-py\<close> (\<open>langgraph_sdk\<close>).

  \<^bold>\<open>How the program works.\<close> A user describes a graph with a builder (\<open>StateGraph\<close>): nodes, edges, joins
  and branches over a state schema. Compiling makes a \<open>Pregel\<close> of it: every field of the schema becomes a
  channel, every node gets a channel \<open>branch:to:<node>\<close> that triggers it, every join a barrier channel,
  and the edges become writes to these channels. A run enters a loop: restore the channels from the last
  checkpoint, map the input to writes, then repeat: prepare the tasks of the nodes whose triggers changed,
  run them, apply what they wrote, save a checkpoint. An interrupt stops the loop; a later run with a
  resume value goes on from the saved checkpoint and does not repeat tasks whose writes were saved. Between
  runs the state can be read, with that of subgraphs, and updated as if a node had run. Beside the
  checkpoints, nodes share a store of items by namespace and key, and a cache of task results; a client
  talks to a server that runs graphs, and follows its events as a stream.

  \<^bold>\<open>Which theory models what.\<close>
  \<^item> \<open>LG_Prelude\<close>, \<open>LG_Constants\<close>: the values that flow through channels (\<open>pyval\<close>), exceptions as the left
    injection of a sum (\<open>'a res\<close>), dictionaries as association lists in insertion order, decimal strings,
    the reserved names of \<open>_internal/_constants.py\<close>.
  \<^item> \<open>Chan_Base\<close>, \<open>Chan_Value\<close>, \<open>Chan_Collect\<close>, \<open>Chan_Reduce\<close>, \<open>Channels\<close>: \<open>channels/\<close>. The contract of
    \<open>BaseChannel\<close> is the locale \<open>channel_class\<close>, interpreted on each class and on their union, whose
    methods are the dynamic dispatch.
  \<^item> \<open>Pregel_Types\<close>, \<open>Pregel_Write\<close>, \<open>Pregel_Read\<close>, \<open>Pregel_IO\<close>, \<open>Pregel_Validate\<close>: the records of
    \<open>types.py\<close> and \<open>checkpoint/base\<close>, \<open>pregel/_write.py\<close>, \<open>_read.py\<close>, \<open>_io.py\<close>, \<open>_validate.py\<close>.
  \<^item> \<open>Pregel_Apply\<close>, \<open>Pregel_Scratch\<close>, \<open>Pregel_Prepare\<close>: \<open>pregel/_algo.py\<close>, that is applying the writes of
    a step, the scratchpad of a task with its resume values, and preparing the tasks of the next step.
  \<^item> \<open>Checkpoint_Core\<close>: \<open>pregel/_checkpoint.py\<close>, building a checkpoint and restoring channels from it.
  \<^item> \<open>Pregel_Loop\<close>, \<open>Loop_Props\<close>: \<open>pregel/_loop.py\<close>. The loop object is a record; calls to the saver
    are logged in it, in the order in which they are submitted.
  \<^item> \<open>Pregel_Retry\<close>, \<open>Pregel_Runner\<close>, \<open>Pregel_Run\<close>: \<open>_retry.py\<close>, \<open>_runner.py\<close> and the main loop of
    \<open>pregel/main.py\<close>. The interleaving of the tasks of a step is the step relation \<open>runner_step\<close>.
  \<^item> \<open>Serde\<close>, \<open>Memory_Saver\<close>, \<open>Saver_Props\<close>: \<open>checkpoint/serde\<close> and \<open>checkpoint/memory\<close>: the saver's
    three dictionaries and every operation on them. A serializer's contract is the locale \<open>serializer\<close>.
  \<^item> \<open>Graph_Message\<close>: \<open>graph/message.py\<close>, the reducers for lists of messages.
  \<^item> \<open>Graph_Schema\<close>, \<open>Graph_Builder\<close>, \<open>Graph_Compile\<close>: \<open>graph/state.py\<close>, \<open>_node.py\<close>, \<open>_branch.py\<close>:
    from a schema to channels, the builder and \<open>validate\<close>, and \<open>compile\<close> with the \<open>attach_\<close> methods.
  \<^item> \<open>Pregel_State\<close>, \<open>Pregel_Update\<close>: the parts of \<open>pregel/main.py\<close> and \<open>pregel/debug.py\<close> that read the
    state (\<open>get_state\<close>, \<open>get_state_history\<close>, \<open>get_subgraphs\<close>) and update it (\<open>bulk_update_state\<close>). The saver
    they talk to is a record of its methods, \<open>saver_class\<close>; \<open>InMemorySaver\<close> is one.
  \<^item> \<open>Update_Props\<close>, \<open>Fork_Props\<close>, \<open>Subgraph_Props\<close>: what an update does to a compiled graph, what becomes
    of two updates of one checkpoint, which node and which subgraph an update finds.
  \<^item> \<open>Store_Base\<close>, \<open>Store_Text\<close>, \<open>Memory_Store\<close>, \<open>Store_Index\<close>, \<open>Store_Batched\<close>: \<open>store/\<close>: the
    operations of a store, the texts that are taken from a value by path, the store in memory with its
    vectors, and the removal of duplicate operations in \<open>store/base/batch.py\<close>; \<open>Store_Props\<close> relates
    the store to a map from namespaces and keys to values.
  \<^item> \<open>Checkpoint_Id\<close>, \<open>Id_Props\<close>: \<open>checkpoint/base/id.py\<close>, the ids of checkpoints, and why the saver may take
    the greatest id for the newest checkpoint.
  \<^item> \<open>Saver_Default\<close>, \<open>Default_Props\<close>: the methods that \<open>BaseCheckpointSaver\<close> implements itself and
    \<open>_internal/_replay.py\<close>; the default history is compared with that of the saver in memory.
  \<^item> \<open>Graph_Migrate\<close>: \<open>_migrate_checkpoint\<close> of \<open>graph/state.py\<close>, which brings checkpoints of older
    versions to the channels of today.
  \<^item> \<open>Cache_Memory\<close>: \<open>cache/memory\<close>, the cache of task results with its expiry.
  \<^item> \<open>SDK_SSE\<close>, \<open>SDK_Http\<close>, \<open>SDK_Subscription\<close>: \<open>langgraph_sdk/sse.py\<close>, \<open>_sync/http.py\<close> and
    \<open>stream/subscription.py\<close>: lines and events of a stream, following it over lost connections, and which
    events a set of subscriptions asks for.
  \<^item> \<open>Graph_Invariant\<close>, \<open>Graph_Wiring\<close>, \<open>Graph_Accept\<close>: what holds of every builder, what compiling makes
    of edges, joins and branches, and that a validated builder compiles.

  \<^bold>\<open>What the theorems show.\<close> Channels: every class meets the contract, a channel restored from its own
  checkpoint behaves as before, replay of a delta channel's log gives the live value, overwrites and barriers
  work as documented. Steps: applying writes moves versions and seen versions as it should, treats each
  channel by itself and does not depend on the order in which tasks finish; the tasks prepared from the
  updated channels only are the tasks prepared from all nodes; nothing a task does is seen by others before
  the step ends. Runs: every run ends, with a status that says why; a task whose writes were saved is not run
  again; retries are bounded; interrupts get their resume values in order. Savers: a saved checkpoint, and
  the checkpoints of a whole run, read back; the delta history is what walking the chain of parents gives,
  and what every saver gives by default; ids increase whatever the clock does, so the newest checkpoint is
  found; a replay starts subgraphs from before its point; a migrated checkpoint triggers the same nodes.
  Graphs: the builder's invariant; a builder that passes \<open>validate\<close> compiles to a graph that passes
  \<open>Pregel.validate\<close>; a step of the compiled graph triggers exactly the nodes that edges, joins, branches
  and commands name. States: updating a state as a node triggers what the node would have triggered; which
  node an update without one is taken for, and when the subgraph at a path is found. Stores: a batch does to
  the items what its last operation on each key says, dropping duplicates cannot be observed, pages of a search
  are slices of one list, a cached value is there until it expires. Client: lines do not depend on how the
  bytes arrive, no event is lost or repeated over reconnects, the union of subscriptions serves each of them.
  Some theorems show where the code does not do what it means to.

  \<^bold>\<open>Parameters.\<close> User functions (nodes, reducers, conditions), third-party libraries (msgpack, the cipher,
  LangChain's messages), embeddings, hash functions, clocks, random ids and the server are arguments of the
  definitions; so is the migration, in those that read checkpoints. What is needed of them is a hypothesis
  where it is needed.

  \<^bold>\<open>Bounds and fuel.\<close> Integers are Python's, unbounded. \<open>stream_loop\<close> takes the number of iterations as fuel;
  \<open>every_run_ends\<close> shows that the recursion limit is always enough. The retry loop is bounded by the
  policy's attempts, the reconnects of a stream by their maximum. The walk along the parents of a checkpoint
  may run in a circle, so it is a partial function; it ends when parents have smaller ids than their
  children, as the ids that are made of the time have.

  \<^bold>\<open>Not modelled.\<close> Output modes and events of streaming, callbacks, drawing and JSON schemas: nothing in the
  modelled code reads them. The async twins: they have the bodies of the modelled functions, with awaits.
  Timeouts and cancellation: they need a clock and an executor. What a saver or a store holds after one of
  its operations raised: the error is the whole result. The plain requests of the HTTP client, the SQL savers
  and stores, the CLI and the prebuilt agent: they call other packages, and the manifest lists them with reasons.
\<close>

end
